(* ===== verification/Prelude.thy ===== *)
theory Prelude
  imports Main "HOL-Library.Word"
begin

text \<open>
  Vocabulary shared by the whole development: the error codes of
  \<^verbatim>\<open>inc/base/artik_error.h\<close> (a plain C \<^verbatim>\<open>int\<close>), machine words, the C string helpers the
  modules use (\<^verbatim>\<open>strncmp\<close>, \<^verbatim>\<open>snprintf\<close> truncation, decimal printing), and generic list
  lemmas.  Strings are NUL-free \<^typ>\<open>char list\<close>s; addresses are natural numbers with 0 for
  \<^verbatim>\<open>NULL\<close>.
\<close>

section \<open>Machine types\<close>

unbundle bit_operations_syntax

type_synonym addr = nat
type_synonym u8 = "8 word"
type_synonym u16 = "16 word"
type_synonym u32 = "32 word"

text \<open>
  The collections the components add to: equations for what an operation leaves unchanged, and
  the equations of the primitives of the operating system.
\<close>

named_theorems frame_simps "parts of the state an operation does not change"
named_theorems sys_simps "equations of the system call primitives"

section \<open>Error codes\<close>

type_synonym artik_error = int

abbreviation (input) S_OK :: artik_error where "S_OK \<equiv> 0"
abbreviation (input) E_BAD_ARGS :: artik_error where "E_BAD_ARGS \<equiv> -1"
abbreviation (input) E_BUSY :: artik_error where "E_BUSY \<equiv> -2"
abbreviation (input) E_NOT_INITIALIZED :: artik_error where "E_NOT_INITIALIZED \<equiv> -3"
abbreviation (input) E_NO_MEM :: artik_error where "E_NO_MEM \<equiv> -4"
abbreviation (input) E_NOT_SUPPORTED :: artik_error where "E_NOT_SUPPORTED \<equiv> -5"
abbreviation (input) E_OVERFLOW :: artik_error where "E_OVERFLOW \<equiv> -6"
abbreviation (input) E_ACCESS_DENIED :: artik_error where "E_ACCESS_DENIED \<equiv> -7"
abbreviation (input) E_INTERRUPTED :: artik_error where "E_INTERRUPTED \<equiv> -8"
abbreviation (input) E_TRY_AGAIN :: artik_error where "E_TRY_AGAIN \<equiv> -9"
abbreviation (input) E_TIMEOUT :: artik_error where "E_TIMEOUT \<equiv> -10"
abbreviation (input) E_INVALID_VALUE :: artik_error where "E_INVALID_VALUE \<equiv> -11"
abbreviation (input) E_NOT_CONNECTED :: artik_error where "E_NOT_CONNECTED \<equiv> -13"
abbreviation (input) E_COAP_ERROR :: artik_error where "E_COAP_ERROR \<equiv> -15"
abbreviation (input) E_IN_PROGRESS :: artik_error where "E_IN_PROGRESS \<equiv> -16"
abbreviation (input) E_MQTT_ERROR :: artik_error where "E_MQTT_ERROR \<equiv> -18"
abbreviation (input) E_HTTP_ERROR :: artik_error where "E_HTTP_ERROR \<equiv> -1000"
abbreviation (input) E_BT_ERROR :: artik_error where "E_BT_ERROR \<equiv> -2000"
abbreviation (input) E_ZIGBEE_ERROR :: artik_error where "E_ZIGBEE_ERROR \<equiv> -3000"
abbreviation (input) E_WEBSOCKET_ERROR :: artik_error where "E_WEBSOCKET_ERROR \<equiv> -4000"
abbreviation (input) E_WIFI_ERROR :: artik_error where "E_WIFI_ERROR \<equiv> -5000"
abbreviation (input) E_WIFI_ERROR_SCAN_BUSY :: artik_error where "E_WIFI_ERROR_SCAN_BUSY \<equiv> -5004"
abbreviation (input) E_LWM2M_ERROR :: artik_error where "E_LWM2M_ERROR \<equiv> -6000"
abbreviation (input) E_NETWORK_ERROR :: artik_error where "E_NETWORK_ERROR \<equiv> -7000"
abbreviation (input) E_SECURITY_ERROR :: artik_error where "E_SECURITY_ERROR \<equiv> -7000"
abbreviation (input) E_SECURITY_INVALID_PKCS7 :: artik_error where "E_SECURITY_INVALID_PKCS7 \<equiv> -7002"

text \<open>The message table of the header, in its order.\<close>

definition error_msg_strings :: "(artik_error \<times> string) list" where
  "error_msg_strings =
    [(S_OK, ''OK''), (E_BAD_ARGS, ''Bad arguments''), (E_BUSY, ''Busy''),
     (E_NOT_INITIALIZED, ''Not initialized''), (E_NO_MEM, ''No memory''),
     (E_NOT_SUPPORTED, ''Not supported''), (E_OVERFLOW, ''Overflow''),
     (E_ACCESS_DENIED, ''Access denied''), (E_INTERRUPTED, ''Interrupted''),
     (E_HTTP_ERROR, ''HTTP error''), (E_TRY_AGAIN, ''Try again''), (E_TIMEOUT, ''Timeout''),
     (E_WEBSOCKET_ERROR, ''Websocket error''), (E_BT_ERROR, ''Bluetooth adapter error''),
     (E_WIFI_ERROR, ''Wi-Fi error''), (E_COAP_ERROR, ''CoAP error''),
     (-5001, ''Wi-Fi Authentication failed''), (-5002, ''Wi-Fi Association failed''),
     (-5003, ''Wrong Wi-Fi parameters''), (E_ZIGBEE_ERROR, ''ZigBee error''),
     (-3001, ''Invalid zigbee daemon''), (-3002, ''No zigbee daemon''),
     (-3003, ''No zigbee message''), (-3004, ''No zigbee device''), (-3005, ''Socket error''),
     (-3006, ''Send message error''), (-3007, ''Network has existed''),
     (E_INVALID_VALUE, ''Invalid value''), (E_LWM2M_ERROR, ''LWM2M error''),
     (-6001, ''LWM2M disconnection''), (E_MQTT_ERROR, ''MQTT error''),
     (E_NETWORK_ERROR, ''Network error''), (E_SECURITY_ERROR, ''Security error''),
     (-7001, ''X509 data is not valid''), (E_SECURITY_INVALID_PKCS7, ''PKCS7 data is not valid''),
     (-7003, ''Certificate verification against CA failed''),
     (-7004, ''Computed digest mismatch''), (-7005, ''Signature mismatch''),
     (-7006, ''Signing time rollback error''), (E_IN_PROGRESS, ''Operation in progress'')]"

fun error_msg_from :: "(artik_error \<times> string) list \<Rightarrow> artik_error \<Rightarrow> string" where
  "error_msg_from [] err = ''null''"
| "error_msg_from ((c, m) # rest) err = (if c = err then m else error_msg_from rest err)"

definition error_msg :: "artik_error \<Rightarrow> string" where
  "error_msg err = error_msg_from error_msg_strings err"

section \<open>C string helpers\<close>

text \<open>\<^verbatim>\<open>strncmp(a, b, n) == 0\<close> on NUL-free strings, and \<^verbatim>\<open>strncpy\<close>-style truncation.\<close>

definition strncmp_eq :: "nat \<Rightarrow> string \<Rightarrow> string \<Rightarrow> bool" where
  "strncmp_eq n a b \<longleftrightarrow> take n a = take n b"

lemma strncmp_eq_refl [simp]: "strncmp_eq n a a"
  by (simp add: strncmp_eq_def)

lemma strncmp_eq_length: "length a < n \<Longrightarrow> length b < n \<Longrightarrow> strncmp_eq n a b \<longleftrightarrow> a = b"
  by (simp add: strncmp_eq_def)

text \<open>\<^verbatim>\<open>snprintf(buf, n, ...)\<close> keeps at most \<open>n - 1\<close> characters.\<close>

definition snprintf :: "nat \<Rightarrow> string \<Rightarrow> string" where
  "snprintf n s = take (n - 1) s"

lemma snprintf_fits [simp]: "length s < n \<Longrightarrow> snprintf n s = s"
  by (simp add: snprintf_def)

lemma snprintf_length: "0 < n \<Longrightarrow> length (snprintf n s) < n"
  by (auto simp: snprintf_def)

text \<open>Decimal printing (\<^verbatim>\<open>%d\<close>, \<^verbatim>\<open>%u\<close>).\<close>

definition digit :: "nat \<Rightarrow> char" where
  "digit d = char_of (48 + d :: nat)"

fun dec_nat :: "nat \<Rightarrow> string" where
  "dec_nat n = (if n < 10 then [digit n] else dec_nat (n div 10) @ [digit (n mod 10)])"

declare dec_nat.simps [simp del]

definition dec_int :: "int \<Rightarrow> string" where
  "dec_int i = (if i < 0 then CHR ''-'' # dec_nat (nat (- i)) else dec_nat (nat i))"

lemma digit_inj: "a < 10 \<Longrightarrow> b < 10 \<Longrightarrow> digit a = digit b \<longleftrightarrow> a = b"
  by (auto simp: digit_def of_char_of char_of_eq_iff take_bit_eq_mod)

lemma of_char_digit: "d < 10 \<Longrightarrow> (of_char (digit d) :: nat) = 48 + d"
  by (simp add: digit_def)

lemma dec_nat_not_Nil [simp]: "dec_nat n \<noteq> []" "[] \<noteq> dec_nat n"
  by (subst dec_nat.simps, simp)+

lemma dec_nat_inj: "dec_nat a = dec_nat b \<longleftrightarrow> a = b"
proof (induction a arbitrary: b rule: dec_nat.induct)
  case (1 a)
  show ?case
  proof (cases "a < 10")
    case True
    then show ?thesis
      by (auto simp: dec_nat.simps [of a] dec_nat.simps [of b] digit_inj)
  next
    case False
    show ?thesis
    proof (cases "b < 10")
      case True
      with False show ?thesis
        by (auto simp: dec_nat.simps [of a] dec_nat.simps [of b])
    next
      case b: False
      have "dec_nat a = dec_nat b \<longleftrightarrow>
            dec_nat (a div 10) = dec_nat (b div 10) \<and> digit (a mod 10) = digit (b mod 10)"
        using False b by (simp add: dec_nat.simps [of a] dec_nat.simps [of b])
      also have "\<dots> \<longleftrightarrow> a div 10 = b div 10 \<and> a mod 10 = b mod 10"
        using "1.IH" False by (simp add: digit_inj)
      also have "\<dots> \<longleftrightarrow> a = b" by (metis div_mult_mod_eq)
      finally show ?thesis .
    qed
  qed
qed

lemma dec_nat_length: "n < 10 ^ k \<Longrightarrow> 0 < k \<Longrightarrow> length (dec_nat n) \<le> k"
proof (induction n arbitrary: k rule: dec_nat.induct)
  case (1 n)
  show ?case
  proof (cases "n < 10")
    case True
    with 1(3) show ?thesis by (subst dec_nat.simps) simp
  next
    case False
    then have k: "k = Suc (k - 1)" "0 < k - 1"
      using 1(2,3) by (cases k; cases "k - 1"; simp)+
    have "n div 10 < 10 ^ (k - 1)"
      using 1(2) k(1) by (metis less_mult_imp_div_less mult.commute power_Suc)
    then have "length (dec_nat (n div 10)) \<le> k - 1" using "1.IH" False k by blast
    with False k show ?thesis by (subst dec_nat.simps) simp
  qed
qed

section \<open>Generic lemmas\<close>

lemma u32_of_nat_neq_0: "0 < k \<Longrightarrow> k < 2 ^ 32 \<Longrightarrow> (of_nat k :: u32) \<noteq> 0"
  by (auto simp: word_of_nat_eq_0_iff dest: dvd_imp_le)

lemma u32_of_nat_le_iff:
  "k < 2 ^ 32 \<Longrightarrow> j < 2 ^ 32 \<Longrightarrow> (of_nat k :: u32) \<le> of_nat j \<longleftrightarrow> k \<le> j"
  by (simp add: word_le_nat_alt unat_of_nat take_bit_nat_eq_self)

lemma distinct_fst_eqD:
  "distinct (map fst xs) \<Longrightarrow> (a, x) \<in> set xs \<Longrightarrow> (a, y) \<in> set xs \<Longrightarrow> x = y"
  by (induction xs) (auto simp: rev_image_eqI)

lemma find_Some_in: "find P xs = Some x \<Longrightarrow> x \<in> set xs \<and> P x"
  by (auto simp: find_Some_iff)

lemma find_split:
  "find P xs = Some x \<Longrightarrow> \<exists>as bs. xs = as @ x # bs \<and> (\<forall>y \<in> set as. \<not> P y) \<and> P x"
proof (induction xs)
  case (Cons y ys)
  show ?case
  proof (cases "P y")
    case True
    with Cons.prems have "y # ys = [] @ x # ys" "P x" by auto
    then show ?thesis by fastforce
  next
    case False
    with Cons obtain as bs where "ys = as @ x # bs" "\<forall>y \<in> set as. \<not> P y" "P x" by auto
    with False have "y # ys = (y # as) @ x # bs" "\<forall>z \<in> set (y # as). \<not> P z" by auto
    with \<open>P x\<close> show ?thesis by blast
  qed
qed simp

lemma find_append:
  "find P (xs @ ys) = (case find P xs of None \<Rightarrow> find P ys | Some x \<Rightarrow> Some x)"
  by (induction xs) auto

section \<open>Refinement of runs\<close>

text \<open>
  A run of partial steps; \<^term>\<open>None\<close> is an invalid access.  The contract \<open>guarded_simulation\<close>
  says that a concrete step succeeds and simulates its abstract step wherever the abstract state
  permits the step; inside it, whole runs do.  The contract \<open>simulation\<close> is the case in which every
  step is permitted.
\<close>

fun run_opt :: "('op \<Rightarrow> 'c \<Rightarrow> 'c option) \<Rightarrow> 'op list \<Rightarrow> 'c \<Rightarrow> 'c option" where
  "run_opt step [] c = Some c"
| "run_opt step (x # xs) c = (case step x c of None \<Rightarrow> None | Some c' \<Rightarrow> run_opt step xs c')"

fun permitted :: "('op \<Rightarrow> 'a \<Rightarrow> bool) \<Rightarrow> ('op \<Rightarrow> 'a \<Rightarrow> 'a) \<Rightarrow> 'op list \<Rightarrow> 'a \<Rightarrow> bool" where
  "permitted guard step [] a \<longleftrightarrow> True"
| "permitted guard step (x # xs) a \<longleftrightarrow> guard x a \<and> permitted guard step xs (step x a)"

lemma permitted_True [simp]: "permitted (\<lambda>_ _. True) step xs a"
  by (induction xs arbitrary: a) auto

locale guarded_simulation =
  fixes cstep :: "'op \<Rightarrow> 'c \<Rightarrow> 'c option"
    and astep :: "'op \<Rightarrow> 'a \<Rightarrow> 'a"
    and R :: "'c \<Rightarrow> 'a \<Rightarrow> bool"
    and guard :: "'op \<Rightarrow> 'a \<Rightarrow> bool"
  assumes guarded_sim: "R c a \<Longrightarrow> guard x a \<Longrightarrow> \<exists>c'. cstep x c = Some c' \<and> R c' (astep x a)"
begin

lemma run_guarded:
  "R c a \<Longrightarrow> permitted guard astep xs a \<Longrightarrow> \<exists>c'. run_opt cstep xs c = Some c' \<and> R c' (fold astep xs a)"
proof (induction xs arbitrary: c a)
  case Nil
  then show ?case by simp
next
  case (Cons x xs)
  from guarded_sim [OF Cons.prems(1), of x] Cons.prems(2)
  obtain c' where "cstep x c = Some c'" "R c' (astep x a)" by auto
  with Cons.IH Cons.prems(2) show ?case by simp
qed

end

locale simulation =
  fixes cstep :: "'op \<Rightarrow> 'c \<Rightarrow> 'c option"
    and astep :: "'op \<Rightarrow> 'a \<Rightarrow> 'a"
    and R :: "'c \<Rightarrow> 'a \<Rightarrow> bool"
  assumes sim: "R c a \<Longrightarrow> \<exists>c'. cstep x c = Some c' \<and> R c' (astep x a)"

sublocale simulation \<subseteq> guarded: guarded_simulation cstep astep R "\<lambda>_ _. True"
  by unfold_locales (rule sim)

context simulation
begin

lemma run_sim: "R c a \<Longrightarrow> \<exists>c'. run_opt cstep xs c = Some c' \<and> R c' (fold astep xs a)"
  by (rule guarded.run_guarded) simp_all

lemma run_safe: "R c a \<Longrightarrow> run_opt cstep xs c \<noteq> None"
  using run_sim [of c a xs] by auto

end

text \<open>
  An operation that keeps an invariant, and the invariant along whole runs.  A client with an
  initial state gets it for every reachable state.
\<close>

locale invariant_steps =
  fixes step :: "'op \<Rightarrow> 's \<Rightarrow> 's" and inv :: "'s \<Rightarrow> bool"
  assumes step_inv: "inv s \<Longrightarrow> inv (step x s)"
begin

lemma run_inv: "inv s \<Longrightarrow> inv (fold step xs s)"
  by (induction xs arbitrary: s) (auto simp: step_inv)

end

end
