(* ===== verification/Artik_List.thy ===== *)
theory Artik_List
  imports Prelude
begin

text \<open>
  The generic linked list of \<^verbatim>\<open>inc/base/artik_list.h\<close>, at the level of the heap: nodes live at
  addresses, the list is a chain of \<^verbatim>\<open>next\<close> pointers and the operations update it in place.
  Every operation returns an \<^typ>\<open>'a option\<close>: \<^term>\<open>None\<close> stands for an access through a NULL
  or freed pointer, or for a walk that does not end.  The result of \<^verbatim>\<open>malloc\<close> is an argument
  (0 for failure); calls of the \<^verbatim>\<open>clear\<close> and \<^verbatim>\<open>copy\<close> callbacks and of \<^verbatim>\<open>free\<close> are events.
  The second half relates the heap to an association list from node addresses to node
  contents; the theorems show that every operation is the corresponding list operation.
\<close>

section \<open>Nodes and heaps\<close>

record 'a anode =
  nxt :: addr
  clear_cb :: addr
  copy_cb :: addr
  handle :: addr
  size_data :: int
  body :: 'a

type_synonym 'a heap = "addr \<Rightarrow> 'a anode option"

datatype list_event =
    Clear addr addr
  | Copy addr addr addr
  | Free addr

text \<open>\<^verbatim>\<open>sizeof(artik_list)\<close> on the LP64 targets: five pointers and one padded \<^verbatim>\<open>unsigned int\<close>.\<close>

definition sizeof_artik_list :: int where
  "sizeof_artik_list = 48"

text \<open>What \<^verbatim>\<open>memset(elem, 0, size)\<close> leaves in a node; \<open>z\<close> is the zeroed payload.\<close>

definition zero_node :: "'a \<Rightarrow> 'a anode" where
  "zero_node z = \<lparr>nxt = 0, clear_cb = 0, copy_cb = 0, handle = 0, size_data = 0, body = z\<rparr>"

section \<open>The operations\<close>

text \<open>The walk \<^verbatim>\<open>while (elem && elem->next) elem = elem->next\<close>.\<close>

partial_function (option) artik_list_end :: "'a heap \<Rightarrow> addr \<Rightarrow> addr option" where
  "artik_list_end h elem =
     (if elem = 0 then Some 0
      else case h elem of
        None \<Rightarrow> None
      | Some n \<Rightarrow> if nxt n = 0 then Some elem else artik_list_end h (nxt n))"

definition set_nxt :: "'a heap \<Rightarrow> addr \<Rightarrow> addr \<Rightarrow> 'a heap option" where
  "set_nxt h a q = (case h a of None \<Rightarrow> None | Some n \<Rightarrow> Some (h(a \<mapsto> n\<lparr>nxt := q\<rparr>)))"

definition new_node :: "'a \<Rightarrow> addr \<Rightarrow> int \<Rightarrow> addr \<Rightarrow> 'a anode" where
  "new_node z hdl sz a =
     (zero_node z)\<lparr>handle := (if hdl \<noteq> 0 then hdl else a), size_data := sz\<rparr>"

definition artik_list_add ::
  "'a \<Rightarrow> 'a heap \<Rightarrow> addr \<Rightarrow> addr \<Rightarrow> int \<Rightarrow> addr \<Rightarrow> ('a heap \<times> addr \<times> addr) option" where
  "artik_list_add z h root hdl sz alloc =
     (if sz < sizeof_artik_list then Some (h, root, 0)
      else case artik_list_end h root of
        None \<Rightarrow> None
      | Some elem \<Rightarrow>
          if elem \<noteq> 0 then
            (case set_nxt h elem alloc of
               None \<Rightarrow> None
             | Some h1 \<Rightarrow>
                 if alloc = 0 then Some (h1, root, 0)
                 else Some (h1(alloc \<mapsto> new_node z hdl sz alloc), root, alloc))
          else if alloc = 0 then Some (h, root, 0)
          else Some (h(alloc \<mapsto> new_node z hdl sz alloc), alloc, alloc))"

text \<open>
  The search loops \<^verbatim>\<open>while (elem && !found(elem)) { prev = elem; elem = elem->next; }\<close>;
  the result is the pair of the last \<^verbatim>\<open>prev\<close> and \<^verbatim>\<open>elem\<close>.
\<close>

partial_function (option) find_from ::
  "(addr \<Rightarrow> 'a anode \<Rightarrow> bool) \<Rightarrow> 'a heap \<Rightarrow> addr \<Rightarrow> addr \<Rightarrow> (addr \<times> addr) option" where
  "find_from P h prev elem =
     (if elem = 0 then Some (prev, 0)
      else case h elem of
        None \<Rightarrow> None
      | Some n \<Rightarrow> if P elem n then Some (prev, elem) else find_from P h elem (nxt n))"

text \<open>The common tail of the four delete functions.\<close>

definition unlink ::
  "'a heap \<Rightarrow> addr \<Rightarrow> addr \<Rightarrow> addr \<Rightarrow> ('a heap \<times> addr \<times> list_event list) option" where
  "unlink h root prev elem =
     (case h elem of
        None \<Rightarrow> None
      | Some n \<Rightarrow>
          (case (if prev \<noteq> 0 then set_nxt h prev (nxt n) else Some h) of
             None \<Rightarrow> None
           | Some h1 \<Rightarrow>
               Some (h1(elem := None),
                     if elem = root then nxt n else root,
                     (if clear_cb n \<noteq> 0 then [Clear (clear_cb n) elem] else []) @ [Free elem])))"

type_synonym 'a del_result = "(artik_error \<times> 'a heap \<times> addr \<times> list_event list) option"

definition delete_first :: "(addr \<Rightarrow> 'a anode \<Rightarrow> bool) \<Rightarrow> 'a heap \<Rightarrow> addr \<Rightarrow> 'a del_result" where
  "delete_first P h root =
     (case find_from P h 0 root of
        None \<Rightarrow> None
      | Some (prev, elem) \<Rightarrow>
          if elem = 0 then Some (E_BAD_ARGS, h, root, [])
          else (case unlink h root prev elem of
                  None \<Rightarrow> None
                | Some (h', root', ev) \<Rightarrow> Some (S_OK, h', root', ev)))"

definition artik_list_delete_node :: "'a heap \<Rightarrow> addr \<Rightarrow> addr \<Rightarrow> 'a del_result" where
  "artik_list_delete_node h root node =
     (if root = 0 \<or> node = 0 then Some (E_BAD_ARGS, h, root, [])
      else delete_first (\<lambda>a n. a = node) h root)"

definition artik_list_delete_handle :: "'a heap \<Rightarrow> addr \<Rightarrow> addr \<Rightarrow> 'a del_result" where
  "artik_list_delete_handle h root hdl =
     (if root = 0 \<or> hdl = 0 then Some (E_BAD_ARGS, h, root, [])
      else delete_first (\<lambda>a n. handle n = hdl) h root)"

definition artik_list_delete_check ::
  "'a heap \<Rightarrow> addr \<Rightarrow> (addr \<Rightarrow> 'a anode \<Rightarrow> bool) option \<Rightarrow> 'a del_result" where
  "artik_list_delete_check h root check =
     (case check of
        None \<Rightarrow> Some (E_BAD_ARGS, h, root, [])
      | Some P \<Rightarrow> delete_first P h root)"

text \<open>The counter \<^verbatim>\<open>res\<close> is an \<^verbatim>\<open>unsigned int\<close> and wraps around.\<close>

partial_function (option) list_size_from :: "'a heap \<Rightarrow> addr \<Rightarrow> u32 \<Rightarrow> u32 option" where
  "list_size_from h elem res =
     (if elem = 0 then Some res
      else case h elem of None \<Rightarrow> None | Some n \<Rightarrow> list_size_from h (nxt n) (res + 1))"

definition artik_list_size :: "'a heap \<Rightarrow> addr \<Rightarrow> u32 option" where
  "artik_list_size h root = list_size_from h root 0"

partial_function (option) walk_pos :: "'a heap \<Rightarrow> addr \<Rightarrow> addr \<Rightarrow> u32 \<Rightarrow> (addr \<times> addr) option" where
  "walk_pos h prev elem pos =
     (if elem = 0 \<or> pos = 0 then Some (prev, elem)
      else case h elem of None \<Rightarrow> None | Some n \<Rightarrow> walk_pos h elem (nxt n) (pos - 1))"

definition artik_list_delete_pos :: "'a heap \<Rightarrow> addr \<Rightarrow> u32 \<Rightarrow> 'a del_result" where
  "artik_list_delete_pos h root pos =
     (if root = 0 then Some (E_BAD_ARGS, h, root, [])
      else case artik_list_size h root of
        None \<Rightarrow> None
      | Some len \<Rightarrow>
          if len \<le> pos then Some (E_BAD_ARGS, h, root, [])
          else (case walk_pos h 0 root pos of
                  None \<Rightarrow> None
                | Some (prev, elem) \<Rightarrow>
                    if elem = 0 then Some (E_BAD_ARGS, h, root, [])
                    else (case unlink h root prev elem of
                            None \<Rightarrow> None
                          | Some (h', root', ev) \<Rightarrow> Some (S_OK, h', root', ev))))"

partial_function (option) delete_all_from ::
  "'a heap \<Rightarrow> addr \<Rightarrow> list_event list \<Rightarrow> ('a heap \<times> list_event list) option" where
  "delete_all_from h root ev =
     (if root = 0 then Some (h, ev)
      else case unlink h root 0 root of
        None \<Rightarrow> None
      | Some (h', root', ev') \<Rightarrow> delete_all_from h' root' (ev @ ev'))"

definition artik_list_delete_all :: "'a heap \<Rightarrow> addr \<Rightarrow> 'a del_result" where
  "artik_list_delete_all h root =
     (if root = 0 then Some (E_BAD_ARGS, h, root, [])
      else case delete_all_from h root [] of
        None \<Rightarrow> None
      | Some (h', ev) \<Rightarrow> Some (S_OK, h', 0, ev))"

definition artik_list_get_by_check ::
  "'a heap \<Rightarrow> addr \<Rightarrow> (addr \<Rightarrow> 'a anode \<Rightarrow> bool) option \<Rightarrow> addr option" where
  "artik_list_get_by_check h root check =
     (case check of None \<Rightarrow> Some 0 | Some P \<Rightarrow> map_option snd (find_from P h 0 root))"

definition artik_list_get_by_handle :: "'a heap \<Rightarrow> addr \<Rightarrow> addr \<Rightarrow> addr option" where
  "artik_list_get_by_handle h root hdl =
     (if root = 0 \<or> hdl = 0 then Some 0
      else map_option snd (find_from (\<lambda>a n. handle n = hdl) h 0 root))"

definition artik_list_get_by_pos :: "'a heap \<Rightarrow> addr \<Rightarrow> u32 \<Rightarrow> addr option" where
  "artik_list_get_by_pos h root pos =
     (if root = 0 then Some 0
      else case artik_list_size h root of
        None \<Rightarrow> None
      | Some len \<Rightarrow> if len \<le> pos then Some 0 else map_option snd (walk_pos h 0 root pos))"

text \<open>
  \<^verbatim>\<open>artik_list_cpy\<close>: one \<^verbatim>\<open>malloc\<close> result per node.  The copy loop uses the new node without
  checking it, so a failed allocation is an access through NULL.
\<close>

partial_function (option) cpy_from ::
  "'a \<Rightarrow> 'a heap \<Rightarrow> addr \<Rightarrow> addr \<Rightarrow> (nat \<Rightarrow> addr) \<Rightarrow> nat \<Rightarrow> list_event list \<Rightarrow>
    ('a heap \<times> addr \<times> list_event list) option" where
  "cpy_from z h elem dest alloc i ev =
     (if elem = 0 then Some (h, dest, ev)
      else case h elem of
        None \<Rightarrow> None
      | Some n \<Rightarrow>
          (case artik_list_add z h dest (handle n) (size_data n) (alloc i) of
             None \<Rightarrow> None
           | Some (h1, dest1, a) \<Rightarrow>
               if a = 0 then None
               else cpy_from z (h1(a \<mapsto> n\<lparr>nxt := 0\<rparr>)) (nxt n) dest1 alloc (Suc i)
                      (ev @ (if copy_cb n \<noteq> 0 then [Copy (copy_cb n) a elem] else []))))"

definition artik_list_cpy ::
  "'a \<Rightarrow> 'a heap \<Rightarrow> addr \<Rightarrow> addr \<Rightarrow> (nat \<Rightarrow> addr) \<Rightarrow> 'a del_result" where
  "artik_list_cpy z h root dest alloc =
     (if root = 0 \<or> dest \<noteq> 0 then Some (E_BAD_ARGS, h, dest, [])
      else case cpy_from z h root dest alloc 0 [] of
        None \<Rightarrow> None
      | Some (h', dest', ev) \<Rightarrow> Some (S_OK, h', dest', ev))"

section \<open>Abstraction to association lists\<close>

text \<open>
  \<open>lseg h p ps q\<close>: starting at \<open>p\<close>, the \<^verbatim>\<open>next\<close> pointers run through the live nodes \<open>ps\<close> to
  \<open>q\<close>.  A list is a segment that ends in NULL.  \<open>view h ps\<close> is what the list holds: the node
  addresses in order with their contents, the link itself forgotten.
\<close>

primrec lseg :: "'a heap \<Rightarrow> addr \<Rightarrow> addr list \<Rightarrow> addr \<Rightarrow> bool" where
  "lseg h p [] q \<longleftrightarrow> p = q"
| "lseg h p (a # as) q \<longleftrightarrow> p = a \<and> a \<noteq> 0 \<and> (\<exists>n. h a = Some n \<and> lseg h (nxt n) as q)"

definition lrep :: "'a heap \<Rightarrow> addr \<Rightarrow> addr list \<Rightarrow> bool" where
  "lrep h p ps \<longleftrightarrow> lseg h p ps 0 \<and> distinct ps"

definition content :: "'a heap \<Rightarrow> addr \<Rightarrow> 'a anode" where
  "content h a = (the (h a))\<lparr>nxt := 0\<rparr>"

definition view :: "'a heap \<Rightarrow> addr list \<Rightarrow> (addr \<times> 'a anode) list" where
  "view h ps = map (\<lambda>a. (a, content h a)) ps"

lemma lseg_append: "lseg h p (as @ bs) q \<longleftrightarrow> (\<exists>r. lseg h p as r \<and> lseg h r bs q)"
  by (induction as arbitrary: p) auto

lemma lseg_cong: "(\<And>x. x \<in> set ps \<Longrightarrow> h x = h' x) \<Longrightarrow> lseg h p ps q = lseg h' p ps q"
  by (induction ps arbitrary: p) auto

lemma lseg_live: "lseg h p ps q \<Longrightarrow> a \<in> set ps \<Longrightarrow> a \<noteq> 0 \<and> (\<exists>n. h a = Some n)"
  by (induction ps arbitrary: p) auto

lemma lseg_upd_other [simp]: "a \<notin> set ps \<Longrightarrow> lseg (h(a := v)) p ps q = lseg h p ps q"
  by (induction ps arbitrary: p) auto

lemma lseg_0 [simp]: "lseg h 0 ps q \<longleftrightarrow> ps = [] \<and> q = 0"
  by (cases ps) auto

lemma lseg_start: "lseg h p (a # as) q \<Longrightarrow> p = a \<and> a \<noteq> 0"
  by simp

lemma lrep_Nil [simp]: "lrep h p [] \<longleftrightarrow> p = 0"
  by (simp add: lrep_def)

lemma lrep_0 [simp]: "lrep h 0 ps \<longleftrightarrow> ps = []"
  by (auto simp: lrep_def)

lemma lrep_root: "lrep h p ps \<Longrightarrow> p = (if ps = [] then 0 else hd ps)"
  by (cases ps) (auto simp: lrep_def)

lemma lrep_live: "lrep h p ps \<Longrightarrow> a \<in> set ps \<Longrightarrow> a \<noteq> 0 \<and> (\<exists>n. h a = Some n)"
  by (auto simp: lrep_def dest: lseg_live)

lemma lrep_lseg: "lrep h p ps \<Longrightarrow> lseg h p ps 0"
  by (simp add: lrep_def)

lemma lrep_root_neq_0: "lrep h p ps \<Longrightarrow> ps \<noteq> [] \<Longrightarrow> p \<noteq> 0"
  by (cases ps) (auto simp: lrep_def)

lemma view_Nil [simp]: "view h [] = []"
  by (simp add: view_def)

lemma view_append [simp]: "view h (ps @ qs) = view h ps @ view h qs"
  by (simp add: view_def)

lemma view_Cons [simp]: "view h (a # ps) = (a, content h a) # view h ps"
  by (simp add: view_def)

lemma content_upd [simp]: "content (h(a := v)) b = (if a = b then (the v)\<lparr>nxt := 0\<rparr> else content h b)"
  by (simp add: content_def)

lemma view_upd_other [simp]: "a \<notin> set ps \<Longrightarrow> view (h(a := v)) ps = view h ps"
  by (auto simp: view_def)

lemma view_cong: "(\<And>a. a \<in> set ps \<Longrightarrow> content h a = content h' a) \<Longrightarrow> view h ps = view h' ps"
  by (simp add: view_def)

section \<open>The loops\<close>

lemma artik_list_end_lseg:
  "lseg h p ps 0 \<Longrightarrow> artik_list_end h p = Some (if ps = [] then 0 else last ps)"
proof (induction ps arbitrary: p)
  case Nil
  then show ?case by (simp add: artik_list_end.simps)
next
  case (Cons a as)
  then obtain n where n: "p = a" "a \<noteq> 0" "h a = Some n" "lseg h (nxt n) as 0" by auto
  from n(4) have "nxt n = 0 \<longleftrightarrow> as = []" by (cases as) auto
  with n Cons.IH [OF n(4)] show ?case by (simp add: artik_list_end.simps [of h a])
qed

lemma find_from_lseg:
  assumes "lseg h p ps 0"
  shows "find_from P h pv p =
    (let as = takeWhile (\<lambda>a. \<not> P a (the (h a))) ps;
         bs = dropWhile (\<lambda>a. \<not> P a (the (h a))) ps
     in Some (last (pv # as), case bs of [] \<Rightarrow> 0 | e # _ \<Rightarrow> e))"
  using assms
proof (induction ps arbitrary: p pv)
  case Nil
  then show ?case by (simp add: find_from.simps)
next
  case (Cons a as)
  then obtain n where n: "p = a" "a \<noteq> 0" "h a = Some n" "lseg h (nxt n) as 0" by auto
  with Cons.IH [OF n(4), of a] show ?case
    by (simp add: find_from.simps [of P h pv a] Let_def)
qed

lemma list_size_from_lseg:
  "lseg h p ps 0 \<Longrightarrow> list_size_from h p r = Some (r + of_nat (length ps))"
proof (induction ps arbitrary: p r)
  case Nil
  then show ?case by (simp add: list_size_from.simps)
next
  case (Cons a as)
  then obtain n where n: "p = a" "a \<noteq> 0" "h a = Some n" "lseg h (nxt n) as 0" by auto
  with Cons.IH [OF n(4)] show ?case by (simp add: list_size_from.simps [of h a] add_ac)
qed

lemma walk_pos_lseg:
  "lseg h p ps 0 \<Longrightarrow> k < length ps \<Longrightarrow> k < 2 ^ 32 \<Longrightarrow>
    walk_pos h pv p (of_nat k) = Some (last (pv # take k ps), ps ! k)"
proof (induction ps arbitrary: p pv k)
  case Nil
  then show ?case by simp
next
  case (Cons a as)
  then obtain n where n: "p = a" "a \<noteq> 0" "h a = Some n" "lseg h (nxt n) as 0" by auto
  show ?case
  proof (cases k)
    case 0
    with n show ?thesis by (simp add: walk_pos.simps [of h pv a])
  next
    case (Suc j)
    have "(of_nat k :: u32) \<noteq> 0"
      using Suc Cons.prems(3) u32_of_nat_neq_0 [of k] by simp
    then show ?thesis
      using n Suc Cons.prems Cons.IH [OF n(4), of j a]
      by (subst walk_pos.simps) simp
  qed
qed

section \<open>Updating a segment\<close>

lemma lseg_set_last:
  assumes "lseg h p (as @ [a]) q" and "distinct (as @ [a])" and "h a = Some n"
  shows "lseg (h(a \<mapsto> n\<lparr>nxt := r\<rparr>)) p (as @ [a]) r"
  using assms by (auto simp: lseg_append)

lemma set_nxt_live: "h a = Some n \<Longrightarrow> set_nxt h a q = Some (h(a \<mapsto> n\<lparr>nxt := q\<rparr>))"
  by (simp add: set_nxt_def)

text \<open>The events of deleting a node: its \<^verbatim>\<open>clear\<close> callback when it has one, then \<^verbatim>\<open>free\<close>.\<close>

definition del_events :: "'a heap \<Rightarrow> addr \<Rightarrow> list_event list" where
  "del_events h e =
     (if clear_cb (content h e) \<noteq> 0 then [Clear (clear_cb (content h e)) e] else []) @ [Free e]"

lemma unlink_lseg:
  assumes rep: "lrep h root (as @ e # bs)" and pv: "pv = last (0 # as)"
  obtains h' root' where "unlink h root pv e = Some (h', root', del_events h e)"
    and "lrep h' root' (as @ bs)" and "view h' (as @ bs) = view h as @ view h bs"
    and "h' e = None" and "\<And>x. x \<notin> set (as @ [e]) \<Longrightarrow> h' x = h x"
proof -
  from rep obtain n where n: "h e = Some n" "e \<noteq> 0" "lseg h root as e" "lseg h (nxt n) bs 0"
    and d: "distinct (as @ e # bs)"
    by (auto simp: lrep_def lseg_append)
  show ?thesis
  proof (cases as rule: rev_cases)
    case Nil
    let ?h = "h(e := None)"
    have "unlink h root pv e = Some (?h, nxt n, del_events h e)"
      using n pv Nil by (simp add: unlink_def del_events_def content_def)
    moreover have "lrep ?h (nxt n) (as @ bs)" using n d Nil by (simp add: lrep_def)
    moreover have "view ?h (as @ bs) = view h as @ view h bs" using d Nil by simp
    ultimately show ?thesis by (rule that) auto
  next
    case (snoc as' a)
    from n(3) snoc obtain m where m: "h a = Some m" "a \<noteq> 0" "lseg h root as' a"
      by (auto simp: lseg_append)
    let ?h = "h(a \<mapsto> m\<lparr>nxt := nxt n\<rparr>, e := None)"
    have root: "e \<noteq> root" using n(3) snoc d by (cases as') auto
    have "unlink h root pv e = Some (?h, root, del_events h e)"
      using n m pv snoc root by (simp add: unlink_def set_nxt_def del_events_def content_def)
    moreover have "lrep ?h root (as @ bs)"
      using n m d snoc by (auto simp: lrep_def lseg_append)
    moreover have "view ?h (as @ bs) = view h as @ view h bs"
      using m d snoc by (simp add: content_def)
    ultimately show ?thesis by (rule that) (use snoc in auto)
  qed
qed

section \<open>The operations on association lists\<close>

fun al_del :: "('b \<Rightarrow> bool) \<Rightarrow> 'b list \<Rightarrow> 'b list" where
  "al_del P [] = []"
| "al_del P (x # xs) = (if P x then xs else x # al_del P xs)"

lemma al_del_split: "al_del P (as @ e # bs) = as @ bs" if "\<forall>x \<in> set as. \<not> P x" "P e"
  using that by (induction as) auto

lemma al_del_none: "\<forall>x \<in> set xs. \<not> P x \<Longrightarrow> al_del P xs = xs"
  by (induction xs) auto

lemma al_del_subset: "set (al_del P xs) \<subseteq> set xs"
  by (induction xs) auto

lemma al_del_filter:
  "distinct (map f xs) \<Longrightarrow> al_del (\<lambda>x. f x = k) xs = filter (\<lambda>x. f x \<noteq> k) xs"
proof (induction xs)
  case (Cons x xs)
  show ?case
  proof (cases "f x = k")
    case True
    with Cons.prems have "\<forall>y \<in> set xs. f y \<noteq> k" by (auto simp: image_iff)
    with True show ?thesis by (simp add: filter_id_conv)
  next
    case False
    with Cons show ?thesis by simp
  qed
qed simp

lemma al_del_distinct: "distinct (map f xs) \<Longrightarrow> distinct (map f (al_del P xs))"
  by (induction xs) (auto dest: subsetD [OF al_del_subset])

lemma al_del_length: "length (al_del P xs) = length xs - (if \<exists>x \<in> set xs. P x then 1 else 0)"
proof (induction xs)
  case (Cons x xs)
  show ?case
  proof (cases "xs = []")
    case False
    then have "0 < length xs" by simp
    with Cons show ?thesis by (simp add: Suc_diff_le)
  qed simp
qed simp

text \<open>A client's test does not look at the link field of a node.\<close>

definition link_free :: "(addr \<Rightarrow> 'a anode \<Rightarrow> bool) \<Rightarrow> bool" where
  "link_free P \<longleftrightarrow> (\<forall>a n q. P a (n\<lparr>nxt := q\<rparr>) = P a n)"

lemma link_freeD: "link_free P \<Longrightarrow> P a (content h a) = P a (the (h a))"
  by (simp add: link_free_def content_def)

lemma link_free_simps [simp]:
  "link_free (\<lambda>a n. a = x)" "link_free (\<lambda>a n. handle n = x)" "link_free (\<lambda>a n. Q (body n))"
  by (simp_all add: link_free_def)

declare dropWhile_eq_Nil_conv [simp del]

lemma find_view:
  assumes "link_free P"
  shows "find (\<lambda>(a, n). P a n) (view h ps) =
    (case dropWhile (\<lambda>a. \<not> P a (the (h a))) ps of [] \<Rightarrow> None | e # _ \<Rightarrow> Some (e, content h e))"
  by (induction ps) (auto simp: link_freeD [OF assms])

lemma find_from_rep:
  assumes rep: "lrep h root ps" and P: "link_free P"
  shows "map_option snd (find_from P h 0 root) =
    Some (case find (\<lambda>(a, n). P a n) (view h ps) of None \<Rightarrow> 0 | Some (a, n) \<Rightarrow> a)"
proof -
  have "lseg h root ps 0" using rep by (simp add: lrep_def)
  then show ?thesis
    by (simp add: find_from_lseg find_view [OF P] Let_def split: list.split)
qed

lemma delete_first_rep:
  assumes rep: "lrep h root ps" and P: "link_free P"
  shows "\<exists>r h' root' ev ps'. delete_first P h root = Some (r, h', root', ev) \<and> lrep h' root' ps' \<and>
    view h' ps' = al_del (\<lambda>(a, n). P a n) (view h ps) \<and>
    (case find (\<lambda>(a, n). P a n) (view h ps) of
       None \<Rightarrow> r = E_BAD_ARGS \<and> h' = h \<and> ev = []
     | Some (e, n) \<Rightarrow> r = S_OK \<and> ev = del_events h e \<and> h' e = None) \<and>
    (\<forall>x. x \<notin> set ps \<longrightarrow> h' x = h x)"
proof (cases "dropWhile (\<lambda>a. \<not> P a (the (h a))) ps")
  case Nil
  then have none: "\<forall>a \<in> set ps. \<not> P a (the (h a))" by (simp add: dropWhile_eq_Nil_conv)
  have "find_from P h 0 root = Some (last (0 # takeWhile (\<lambda>a. \<not> P a (the (h a))) ps), 0)"
    using rep Nil by (simp add: lrep_def find_from_lseg [of h root ps])
  then have "delete_first P h root = Some (E_BAD_ARGS, h, root, [])"
    by (simp add: delete_first_def)
  moreover have "al_del (\<lambda>(a, n). P a n) (view h ps) = view h ps"
    using none by (intro al_del_none) (auto simp: view_def link_freeD [OF P])
  ultimately show ?thesis using rep Nil by (auto simp: find_view [OF P] )
next
  case (Cons e bs)
  let ?as = "takeWhile (\<lambda>a. \<not> P a (the (h a))) ps"
  have ps: "ps = ?as @ e # bs" using Cons by (metis takeWhile_dropWhile_id)
  have Pe: "P e (the (h e))" using Cons by (metis dropWhile_eq_Cons_conv)
  have e: "e \<noteq> 0" using rep ps lrep_live [of h root ps e] by (metis in_set_conv_decomp)
  obtain h' root' where u: "unlink h root (last (0 # ?as)) e = Some (h', root', del_events h e)"
    "lrep h' root' (?as @ bs)" "view h' (?as @ bs) = view h ?as @ view h bs"
    "h' e = None" "\<And>x. x \<notin> set (?as @ [e]) \<Longrightarrow> h' x = h x"
    using rep by (subst (asm) ps) (erule unlink_lseg [OF _ refl], blast)
  have "delete_first P h root = Some (S_OK, h', root', del_events h e)"
    using rep Cons e u(1) by (simp add: delete_first_def lrep_def find_from_lseg [of h root ps] Let_def)
  moreover have "al_del (\<lambda>(a, n). P a n) (view h ps) = view h ?as @ view h bs"
    by (subst ps, simp only: view_append view_Cons, rule al_del_split)
      (use Pe in \<open>auto simp: view_def link_freeD [OF P] dest: set_takeWhileD\<close>)
  moreover have "\<forall>x. x \<notin> set ps \<longrightarrow> h' x = h x"
  proof (intro allI impI)
    fix x assume "x \<notin> set ps"
    moreover have "set (?as @ [e]) \<subseteq> set ps" by (subst (2) ps) auto
    ultimately show "h' x = h x" using u(5) by blast
  qed
  moreover have "find (\<lambda>(a, n). P a n) (view h ps) = Some (e, content h e)"
    by (simp only: find_view [OF P] Cons list.case)
  ultimately show ?thesis
    using u(2-4) by (intro exI [of _ S_OK] exI [of _ h'] exI [of _ root'] exI [of _ "del_events h e"]
        exI [of _ "?as @ bs"]) (simp only: option.case prod.case simp_thms)
qed

section \<open>Every operation refines its list operation\<close>

lemma artik_list_add_rep:
  assumes rep: "lrep h root ps" and a: "a \<noteq> 0" "h a = None" and sz: "sizeof_artik_list \<le> sz"
  shows "\<exists>h' root'. artik_list_add z h root hdl sz a = Some (h', root', a) \<and> lrep h' root' (ps @ [a]) \<and>
    view h' (ps @ [a]) = view h ps @ [(a, new_node z hdl sz a)] \<and>
    (\<forall>x. x \<notin> set (ps @ [a]) \<longrightarrow> h' x = h x)"
proof (cases ps rule: rev_cases)
  case Nil
  with rep a sz show ?thesis
    by (simp add: artik_list_add_def artik_list_end.simps lrep_def new_node_def zero_node_def content_def)
next
  case (snoc as b)
  from rep snoc obtain n where n: "h b = Some n" "b \<noteq> 0" "lseg h root as b" "nxt n = 0"
    by (auto simp: lrep_def lseg_append)
  from rep a(2) have fresh: "a \<notin> set ps" using lrep_live by fastforce
  let ?h = "h(b \<mapsto> n\<lparr>nxt := a\<rparr>, a \<mapsto> new_node z hdl sz a)"
  have "artik_list_add z h root hdl sz a = Some (?h, root, a)"
    using rep a sz n snoc
    by (simp add: artik_list_add_def lrep_def artik_list_end_lseg [of h root ps] set_nxt_def)
  moreover have "lrep ?h root (ps @ [a])"
    using n a fresh rep snoc by (auto simp: lrep_def lseg_append new_node_def zero_node_def)
  moreover have "view ?h (ps @ [a]) = view h ps @ [(a, new_node z hdl sz a)]"
    using n snoc fresh rep by (auto simp: lrep_def content_def new_node_def zero_node_def)
  ultimately show ?thesis using snoc by auto
qed

lemma artik_list_add_small: "sz < sizeof_artik_list \<Longrightarrow> artik_list_add z h root hdl sz a = Some (h, root, 0)"
  by (simp add: artik_list_add_def)

text \<open>A failed \<^verbatim>\<open>malloc\<close> leaves the list as it was.\<close>

lemma artik_list_add_no_mem:
  assumes "lrep h root ps"
  shows "\<exists>h'. artik_list_add z h root hdl sz 0 = Some (h', root, 0) \<and> h' = h"
proof (cases ps rule: rev_cases)
  case Nil
  with assms show ?thesis by (simp add: artik_list_add_def artik_list_end.simps)
next
  case (snoc as b)
  from assms snoc obtain n where n: "h b = Some n" "b \<noteq> 0" "nxt n = 0"
    by (auto simp: lrep_def lseg_append)
  then have "n\<lparr>nxt := 0\<rparr> = n" by (cases n) simp
  with n assms snoc show ?thesis
    by (auto simp: artik_list_add_def lrep_def artik_list_end_lseg [of h root ps] set_nxt_def)
qed

lemma artik_list_get_by_check_rep:
  "lrep h root ps \<Longrightarrow> link_free P \<Longrightarrow>
    artik_list_get_by_check h root (Some P) =
      Some (case find (\<lambda>(a, n). P a n) (view h ps) of None \<Rightarrow> 0 | Some (a, n) \<Rightarrow> a)"
  by (simp add: artik_list_get_by_check_def find_from_rep)

lemma artik_list_get_by_handle_rep:
  "lrep h root ps \<Longrightarrow> hdl \<noteq> 0 \<Longrightarrow>
    artik_list_get_by_handle h root hdl =
      Some (case find (\<lambda>(a, n). handle n = hdl) (view h ps) of None \<Rightarrow> 0 | Some (a, n) \<Rightarrow> a)"
  by (cases "root = 0") (auto simp: artik_list_get_by_handle_def find_from_rep)

lemma artik_list_size_rep: "lrep h root ps \<Longrightarrow> artik_list_size h root = Some (of_nat (length ps))"
  by (simp add: artik_list_size_def list_size_from_lseg [OF lrep_lseg])

lemma artik_list_end_rep:
  "lrep h root ps \<Longrightarrow> artik_list_end h root = Some (if ps = [] then 0 else last ps)"
  by (simp add: lrep_def artik_list_end_lseg)

lemma artik_list_get_by_pos_rep:
  assumes "lrep h root ps" and "length ps < 2 ^ 32" and "k < 2 ^ 32"
  shows "artik_list_get_by_pos h root (of_nat k) = Some (if k < length ps then ps ! k else 0)"
proof (cases "root = 0")
  case True
  with assms show ?thesis by (simp add: artik_list_get_by_pos_def)
next
  case False
  then show ?thesis
    using assms walk_pos_lseg [of h root ps k 0]
    by (simp add: artik_list_get_by_pos_def artik_list_size_rep u32_of_nat_le_iff lrep_def)
qed

lemma artik_list_delete_pos_rep:
  assumes rep: "lrep h root ps" and len: "length ps < 2 ^ 32" "k < length ps"
  shows "\<exists>h' root'. artik_list_delete_pos h root (of_nat k) =
      Some (S_OK, h', root', del_events h (ps ! k)) \<and>
    lrep h' root' (take k ps @ drop (Suc k) ps) \<and>
    view h' (take k ps @ drop (Suc k) ps) = take k (view h ps) @ drop (Suc k) (view h ps) \<and>
    h' (ps ! k) = None"
proof -
  have ps: "ps = take k ps @ ps ! k # drop (Suc k) ps" using len(2) by (rule id_take_nth_drop)
  have r0: "root \<noteq> 0" using rep len lrep_root_neq_0 by force
  have live: "ps ! k \<noteq> 0" using rep len(2) lrep_live by fastforce
  obtain h' root' where u: "unlink h root (last (0 # take k ps)) (ps ! k) = Some (h', root', del_events h (ps ! k))"
    "lrep h' root' (take k ps @ drop (Suc k) ps)"
    "view h' (take k ps @ drop (Suc k) ps) = view h (take k ps) @ view h (drop (Suc k) ps)"
    "h' (ps ! k) = None"
    using rep by (subst (asm) ps) (erule unlink_lseg [OF _ refl], blast)
  have "walk_pos h 0 root (of_nat k) = Some (last (0 # take k ps), ps ! k)"
    using rep len walk_pos_lseg [of h root ps k 0] by (simp add: lrep_def)
  then have "artik_list_delete_pos h root (of_nat k) = Some (S_OK, h', root', del_events h (ps ! k))"
    using r0 live len u(1)
    by (simp add: artik_list_delete_pos_def artik_list_size_rep [OF rep] u32_of_nat_le_iff)
  with u(2-4) show ?thesis by (auto simp: view_def take_map drop_map)
qed

lemma artik_list_delete_node_rep:
  assumes "lrep h root ps" and "e \<in> set ps"
  shows "\<exists>h' root' ps'. artik_list_delete_node h root e = Some (S_OK, h', root', del_events h e) \<and>
    lrep h' root' ps' \<and> view h' ps' = filter (\<lambda>(a, n). a \<noteq> e) (view h ps) \<and> h' e = None \<and>
    (\<forall>x. x \<notin> set ps \<longrightarrow> h' x = h x)"
proof -
  from assms have e: "e \<noteq> 0" "root \<noteq> 0"
    using lrep_live [OF assms(1,2)] lrep_root_neq_0 [OF assms(1)] by (cases ps; auto)+
  have d: "distinct (map fst (view h ps))" using assms(1) by (simp add: view_def lrep_def comp_def)
  have f: "find (\<lambda>(a, n). a = e) (view h ps) = Some (e, content h e)"
    using assms(2) by (induction ps) auto
  have "al_del (\<lambda>(a, n). a = e) (view h ps) = filter (\<lambda>(a, n). a \<noteq> e) (view h ps)"
    using al_del_filter [OF d, of e] by (simp add: case_prod_beta')
  with delete_first_rep [OF assms(1), of "\<lambda>a n. a = e"] f e show ?thesis
    by (auto simp: artik_list_delete_node_def)
qed

lemma artik_list_delete_handle_rep:
  assumes "lrep h root ps" and "hdl \<noteq> 0"
  shows "\<exists>r h' root' ev ps'. artik_list_delete_handle h root hdl = Some (r, h', root', ev) \<and>
    lrep h' root' ps' \<and> view h' ps' = al_del (\<lambda>(a, n). handle n = hdl) (view h ps) \<and>
    (r = S_OK \<longleftrightarrow> (\<exists>a n. (a, n) \<in> set (view h ps) \<and> handle n = hdl)) \<and>
    (r = S_OK \<or> r = E_BAD_ARGS) \<and> (\<forall>x. x \<notin> set ps \<longrightarrow> h' x = h x)"
proof (cases "root = 0")
  case True
  with assms show ?thesis by (auto simp: artik_list_delete_handle_def)
next
  case False
  obtain r h' root' ev ps' where d: "delete_first (\<lambda>a n. handle n = hdl) h root = Some (r, h', root', ev)"
    "lrep h' root' ps'" "view h' ps' = al_del (\<lambda>(a, n). handle n = hdl) (view h ps)"
    "case find (\<lambda>(a, n). handle n = hdl) (view h ps) of None \<Rightarrow> r = E_BAD_ARGS \<and> h' = h \<and> ev = []
     | Some (e, n) \<Rightarrow> r = S_OK \<and> ev = del_events h e \<and> h' e = None"
    "\<forall>x. x \<notin> set ps \<longrightarrow> h' x = h x"
    using delete_first_rep [OF assms(1), of "\<lambda>a n. handle n = hdl"] by auto
  have "(r = S_OK \<longleftrightarrow> (\<exists>a n. (a, n) \<in> set (view h ps) \<and> handle n = hdl)) \<and> (r = S_OK \<or> r = E_BAD_ARGS)"
  proof (cases "find (\<lambda>(a, n). handle n = hdl) (view h ps)")
    case None
    with d(4) show ?thesis by (auto simp: find_None_iff)
  next
    case (Some x)
    with d(4) find_Some_in [OF Some] show ?thesis by (auto split: prod.splits)
  qed
  with d(1-3,5) False assms(2) show ?thesis by (auto simp: artik_list_delete_handle_def)
qed

lemma delete_all_from_lseg:
  "lseg h p ps 0 \<Longrightarrow> distinct ps \<Longrightarrow>
    delete_all_from h p ev =
      Some (\<lambda>x. if x \<in> set ps then None else h x, ev @ concat (map (del_events h) ps))"
proof (induction ps arbitrary: h p ev)
  case Nil
  then show ?case by (simp add: delete_all_from.simps)
next
  case (Cons a as)
  then obtain n where n: "p = a" "a \<noteq> 0" "h a = Some n" "lseg h (nxt n) as 0" by auto
  have ev: "map (del_events (h(a := None))) as = map (del_events h) as"
    using Cons.prems(2) by (auto simp: del_events_def)
  have "unlink h a 0 a = Some (h(a := None), nxt n, del_events h a)"
    using n by (simp add: unlink_def del_events_def content_def)
  moreover have "a \<notin> set as" using Cons.prems(2) by simp
  then have "lseg (h(a := None)) (nxt n) as 0" by (rule lseg_upd_other [THEN iffD2, OF _ n(4)])
  then have "delete_all_from (h(a := None)) (nxt n) (ev @ del_events h a) =
      Some (\<lambda>x. if x \<in> set as then None else (h(a := None)) x,
        (ev @ del_events h a) @ concat (map (del_events (h(a := None))) as))"
    by (rule Cons.IH) (use Cons.prems(2) in simp)
  ultimately have "delete_all_from h p ev =
      Some (\<lambda>x. if x \<in> set as then None else (h(a := None)) x,
        (ev @ del_events h a) @ concat (map (del_events h) as))"
    using n by (simp only: delete_all_from.simps [of h a] ev) simp
  then show ?case by (simp only: o_def) (auto simp: fun_eq_iff)
qed

lemma artik_list_delete_all_rep:
  assumes "lrep h root ps" and "ps \<noteq> []"
  shows "artik_list_delete_all h root =
    Some (S_OK, \<lambda>x. if x \<in> set ps then None else h x, 0, concat (map (del_events h) ps))"
  using assms lrep_root_neq_0 [OF assms]
  by (simp add: artik_list_delete_all_def delete_all_from_lseg [of h root ps] lrep_def)

text \<open>
  The copy: \<open>qs\<close> is the part of the copy already built; the nodes still to be copied are a
  segment of the source.
\<close>

lemma cpy_from_rep:
  assumes "lseg h p ps 0" and "lrep h dest qs" and "distinct (ps @ qs)"
    and "\<And>j. j < length ps \<Longrightarrow> alloc (i + j) \<noteq> 0 \<and> h (alloc (i + j)) = None"
    and "distinct (map (\<lambda>j. alloc (i + j)) [0..<length ps])"
    and "\<forall>a \<in> set ps. sizeof_artik_list \<le> size_data (content h a)"
  shows "\<exists>h' dest' ev'. cpy_from z h p dest alloc i ev = Some (h', dest', ev') \<and>
    lrep h' dest' (qs @ map (\<lambda>j. alloc (i + j)) [0..<length ps]) \<and>
    map snd (view h' (qs @ map (\<lambda>j. alloc (i + j)) [0..<length ps])) = map snd (view h (qs @ ps)) \<and>
    (\<forall>x. x \<notin> set qs \<longrightarrow> x \<notin> (\<lambda>j. alloc (i + j)) ` {0..<length ps} \<longrightarrow> h' x = h x)"
  using assms
proof (induction ps arbitrary: h p dest qs i ev)
  case Nil
  then show ?case by (simp add: cpy_from.simps)
next
  case (Cons a as)
  let ?b = "alloc i"
  from Cons.prems(1) obtain n where n: "p = a" "a \<noteq> 0" "h a = Some n" "lseg h (nxt n) as 0" by auto
  have b: "?b \<noteq> 0" "h ?b = None" using Cons.prems(4) [of 0] by auto
  have sz: "sizeof_artik_list \<le> size_data n" using Cons.prems(6) n by (simp add: content_def)
  obtain h1 dest1 where add: "artik_list_add z h dest (handle n) (size_data n) ?b = Some (h1, dest1, ?b)"
    "lrep h1 dest1 (qs @ [?b])" "view h1 (qs @ [?b]) = view h qs @ [(?b, new_node z (handle n) (size_data n) ?b)]"
    "\<And>x. x \<notin> set (qs @ [?b]) \<Longrightarrow> h1 x = h x"
    using artik_list_add_rep [OF Cons.prems(2) b sz, of z "handle n"] by blast
  let ?h = "h1(?b \<mapsto> n\<lparr>nxt := 0\<rparr>)"
  have fresh: "?b \<notin> set qs" "?b \<notin> set (a # as)"
    using b(2) lrep_live [OF Cons.prems(2), of ?b] lseg_live [OF Cons.prems(1), of ?b] by auto
  have as_h: "\<And>x. x \<in> set (a # as) \<Longrightarrow> ?h x = h x"
    using add(4) fresh Cons.prems(3) by (auto simp: fun_upd_apply)
  have len: "[0..<length (a # as)] = 0 # map Suc [0..<length as]"
    by (simp add: upt_conv_Cons map_Suc_upt del: upt_Suc)
  have rep: "lrep ?h dest1 (qs @ [?b])"
    using add(2) fresh by (auto simp: lrep_def lseg_append)
  have "lseg ?h (nxt n) as 0" using n(4) as_h by (subst lseg_cong [of as ?h h]) auto
  moreover have "distinct (as @ (qs @ [?b]))" using Cons.prems(3) fresh by auto
  moreover have "alloc (Suc i + j) \<noteq> 0 \<and> ?h (alloc (Suc i + j)) = None" if "j < length as" for j
  proof -
    have al: "alloc (Suc i + j) \<noteq> 0" "h (alloc (Suc i + j)) = None"
      using Cons.prems(4) [of "Suc j"] that by auto
    moreover have "alloc (Suc i + j) \<notin> set qs" using al(2) lrep_live [OF Cons.prems(2)] by fastforce
    moreover have "alloc (Suc i + j) \<noteq> ?b"
      using Cons.prems(5) that unfolding len by (auto simp: comp_def) (metis atLeastLessThan_iff image_eqI le0)
    ultimately show ?thesis using add(4) by (auto simp: fun_upd_apply)
  qed
  moreover have "distinct (map (\<lambda>j. alloc (Suc i + j)) [0..<length as])"
    using Cons.prems(5) unfolding len by (simp add: comp_def)
  moreover have "\<forall>x \<in> set as. sizeof_artik_list \<le> size_data (content ?h x)"
    using Cons.prems(6) as_h by (simp add: content_def)
  ultimately obtain h' dest' ev' where ih:
    "cpy_from z ?h (nxt n) dest1 alloc (Suc i) (ev @ (if copy_cb n \<noteq> 0 then [Copy (copy_cb n) ?b a] else [])) =
       Some (h', dest', ev')"
    "lrep h' dest' ((qs @ [?b]) @ map (\<lambda>j. alloc (Suc i + j)) [0..<length as])"
    "map snd (view h' ((qs @ [?b]) @ map (\<lambda>j. alloc (Suc i + j)) [0..<length as])) =
       map snd (view ?h ((qs @ [?b]) @ as))"
    "\<forall>x. x \<notin> set (qs @ [?b]) \<longrightarrow> x \<notin> (\<lambda>j. alloc (Suc i + j)) ` {0..<length as} \<longrightarrow> h' x = ?h x"
    using Cons.IH [of ?h "nxt n" dest1 "qs @ [?b]" "Suc i"] rep by blast
  have step: "cpy_from z h p dest alloc i ev = Some (h', dest', ev')"
    using n add(1) b ih(1) by (simp add: cpy_from.simps [of z h a])
  have "view ?h ((qs @ [?b]) @ as) = view h qs @ (?b, content h a) # view h as"
    using add(3) fresh as_h n by (auto simp: content_def view_def)
  moreover have qs: "qs @ map (\<lambda>j. alloc (i + j)) [0..<length (a # as)] =
      (qs @ [?b]) @ map (\<lambda>j. alloc (Suc i + j)) [0..<length as]"
    unfolding len by (simp add: comp_def)
  moreover have "h' x = h x"
    if "x \<notin> set qs" "x \<notin> (\<lambda>j. alloc (i + j)) ` {0..<length (a # as)}" for x
  proof -
    have "x \<noteq> ?b" using that(2) by force
    moreover have "x \<notin> (\<lambda>j. alloc (Suc i + j)) ` {0..<length as}" using that(2) by force
    ultimately show ?thesis using ih(4) that(1) add(4) by (auto simp: fun_upd_apply)
  qed
  ultimately show ?case using step ih(2,3) unfolding qs by (intro exI [of _ h'] exI [of _ dest'] exI [of _ ev']) simp
qed

section \<open>Runs of list operations\<close>

text \<open>
  A program that only uses the list interface.  The result of \<^verbatim>\<open>malloc\<close> is part of the operation;
  a live address counts as a failed allocation, since \<^verbatim>\<open>malloc\<close> never returns one.
\<close>

datatype list_op = OpAdd addr int addr | OpDelNode addr | OpDelHandle addr | OpDelAll

fun heap_step :: "'a \<Rightarrow> list_op \<Rightarrow> 'a heap \<times> addr \<Rightarrow> ('a heap \<times> addr) option" where
  "heap_step z (OpAdd hdl sz a) (h, root) =
     map_option (\<lambda>(h', root', _). (h', root'))
       (artik_list_add z h root hdl sz (if h a = None then a else 0))"
| "heap_step z (OpDelNode e) (h, root) =
     map_option (\<lambda>(_, h', root', _). (h', root')) (artik_list_delete_node h root e)"
| "heap_step z (OpDelHandle hdl) (h, root) =
     map_option (\<lambda>(_, h', root', _). (h', root')) (artik_list_delete_handle h root hdl)"
| "heap_step z OpDelAll (h, root) =
     map_option (\<lambda>(_, h', root', _). (h', root')) (artik_list_delete_all h root)"

fun al_step :: "'a \<Rightarrow> list_op \<Rightarrow> (addr \<times> 'a anode) list \<Rightarrow> (addr \<times> 'a anode) list" where
  "al_step z (OpAdd hdl sz a) xs =
     (if sz < sizeof_artik_list \<or> a = 0 \<or> a \<in> fst ` set xs then xs
      else xs @ [(a, new_node z hdl sz a)])"
| "al_step z (OpDelNode e) xs = filter (\<lambda>(a, n). a \<noteq> e) xs"
| "al_step z (OpDelHandle hdl) xs = (if hdl = 0 then xs else al_del (\<lambda>(a, n). handle n = hdl) xs)"
| "al_step z OpDelAll xs = []"

text \<open>
  \<open>owns\<close>: the list holds \<open>xs\<close>, and the live memory is exactly its nodes (no leak, nothing else
  touched).
\<close>

definition owns :: "'a heap \<times> addr \<Rightarrow> (addr \<times> 'a anode) list \<Rightarrow> bool" where
  "owns c xs \<longleftrightarrow>
     (\<exists>ps. lrep (fst c) (snd c) ps \<and> view (fst c) ps = xs \<and> (\<forall>x. fst c x \<noteq> None \<longleftrightarrow> x \<in> set ps))"

lemma ownsI:
  "lrep h root ps \<Longrightarrow> view h ps = xs \<Longrightarrow> (\<And>x. h x \<noteq> None \<longleftrightarrow> x \<in> set ps) \<Longrightarrow> owns (h, root) xs"
  by (auto simp: owns_def)

lemma fst_view [simp]: "map fst (view h ps) = ps" "fst ` set (view h ps) = set ps"
  by (simp_all add: view_def comp_def image_image)

lemma lrep_dom: "lrep h root ps \<Longrightarrow> set ps \<subseteq> dom h"
  using lrep_live by fastforce

text \<open>
  After deletions: a frame that leaves other memory alone and frees what left the list keeps
  ownership.
\<close>

lemma delete_first_frees:
  assumes rep: "lrep h root ps" and P: "link_free P"
    and own: "\<And>x. h x \<noteq> None \<longleftrightarrow> x \<in> set ps"
  shows "\<exists>r h' root' ev. delete_first P h root = Some (r, h', root', ev) \<and>
    owns (h', root') (al_del (\<lambda>(a, n). P a n) (view h ps))"
proof -
  obtain r h' root' ev ps' where d: "delete_first P h root = Some (r, h', root', ev)" "lrep h' root' ps'"
    "view h' ps' = al_del (\<lambda>(a, n). P a n) (view h ps)"
    "case find (\<lambda>(a, n). P a n) (view h ps) of None \<Rightarrow> r = E_BAD_ARGS \<and> h' = h \<and> ev = []
     | Some (e, n) \<Rightarrow> r = S_OK \<and> ev = del_events h e \<and> h' e = None"
    "\<forall>x. x \<notin> set ps \<longrightarrow> h' x = h x"
    using delete_first_rep [OF rep P] by blast
  have ps': "ps' = map fst (al_del (\<lambda>(a, n). P a n) (view h ps))"
    using d(3) by (metis fst_view(1))
  have "h' x \<noteq> None \<longleftrightarrow> x \<in> set ps'" for x
  proof (cases "x \<in> set ps'")
    case True
    with d(2) show ?thesis using lrep_live by fastforce
  next
    case False
    have "h' x = None"
    proof (cases "find (\<lambda>(a, n). P a n) (view h ps)")
      case None
      then have "al_del (\<lambda>(a, n). P a n) (view h ps) = view h ps"
        by (intro al_del_none) (auto simp: find_None_iff)
      with d(4) None False own [of x] ps' show ?thesis by auto
    next
      case (Some en)
      obtain e n where en: "en = (e, n)" by force
      from Some obtain as bs where sp: "view h ps = as @ en # bs" "\<forall>y \<in> set as. \<not> (\<lambda>(a, n). P a n) y"
          "(\<lambda>(a, n). P a n) en"
        using find_split [OF Some] by blast
      then have "ps = map fst as @ e # map fst bs" "ps' = map fst as @ map fst bs"
        using ps' en al_del_split [OF sp(2,3)] by (metis fst_conv fst_view(1) list.simps(9) map_append)+
      with False have "x \<notin> set ps \<or> x = e" by auto
      moreover have "h x = None" if "x \<notin> set ps" using own [of x] that by auto
      ultimately show ?thesis using d(4,5) Some en by auto
    qed
    with False show ?thesis by simp
  qed
  with d(2,3) have "owns (h', root') (al_del (\<lambda>(a, n). P a n) (view h ps))" by (rule ownsI)
  with d(1) show ?thesis by blast
qed

lemma al_del_fst_filter:
  "distinct (map fst xs) \<Longrightarrow> al_del (\<lambda>(a, n). a = e) xs = filter (\<lambda>(a, n). a \<noteq> e) xs"
  using al_del_filter [of fst xs e] by (simp add: case_prod_beta')

lemma fst_in_fst: "fst ` set xs = S \<Longrightarrow> (a, n) \<in> set xs \<Longrightarrow> a \<in> S"
  by force

lemma heap_step_sim:
  assumes "owns c xs"
  shows "\<exists>c'. heap_step z x c = Some c' \<and> owns c' (al_step z x xs)"
proof -
  obtain h root ps where c: "c = (h, root)" and rep: "lrep h root ps" and xs: "view h ps = xs"
    and own: "\<And>x. h x \<noteq> None \<longleftrightarrow> x \<in> set ps"
    using assms by (cases c) (auto simp: owns_def)
  have fx: "fst ` set xs = set ps" "distinct (map fst xs)" "0 \<notin> set ps"
    using rep xs lrep_live by (force, simp add: lrep_def flip: xs, fastforce)
  show ?thesis
  proof (cases x)
    case (OpAdd hdl sz a)
    consider "sz < sizeof_artik_list" | "sizeof_artik_list \<le> sz" "a = 0 \<or> a \<in> set ps"
      | "sizeof_artik_list \<le> sz" "a \<noteq> 0" "a \<notin> set ps" by linarith
    then show ?thesis
    proof cases
      case 1
      with OpAdd c assms show ?thesis by (simp add: artik_list_add_small)
    next
      case 2
      then have "(if h a = None then a else 0) = 0" using own [of a] fx(3) by auto
      with 2 OpAdd c assms fx artik_list_add_no_mem [OF rep, of z hdl sz] show ?thesis by auto
    next
      case 3
      then have "h a = None" using own [of a] by auto
      with artik_list_add_rep [OF rep 3(2) _ 3(1), of z hdl] obtain h' root' where
        a: "artik_list_add z h root hdl sz a = Some (h', root', a)" "lrep h' root' (ps @ [a])"
          "view h' (ps @ [a]) = xs @ [(a, new_node z hdl sz a)]"
          "\<And>x. x \<notin> set (ps @ [a]) \<Longrightarrow> h' x = h x"
        using xs by auto
      have "h' x \<noteq> None \<longleftrightarrow> x \<in> set (ps @ [a])" for x
        using a(4) [of x] own [of x] lrep_live [OF a(2), of x] by fastforce
      with a(2,3) have "owns (h', root') (xs @ [(a, new_node z hdl sz a)])" by (rule ownsI)
      with a(1) \<open>h a = None\<close> 3 OpAdd c fx show ?thesis by auto
    qed
  next
    case (OpDelNode e)
    show ?thesis
    proof (cases "root = 0 \<or> e = 0")
      case True
      then have "filter (\<lambda>(a, n). a \<noteq> e) xs = xs"
        using fx rep xs by (auto simp: filter_id_conv dest: fst_in_fst)
      with True OpDelNode c assms show ?thesis by (auto simp: artik_list_delete_node_def)
    next
      case False
      with delete_first_frees [OF rep _ own, of "\<lambda>a n. a = e"] OpDelNode c xs fx(2)
      show ?thesis by (auto simp: artik_list_delete_node_def al_del_fst_filter)
    qed
  next
    case (OpDelHandle hdl)
    show ?thesis
    proof (cases "root = 0 \<or> hdl = 0")
      case True
      with OpDelHandle c assms rep xs show ?thesis by (auto simp: artik_list_delete_handle_def)
    next
      case False
      with delete_first_frees [OF rep _ own, of "\<lambda>a n. handle n = hdl"] OpDelHandle c xs
      show ?thesis by (auto simp: artik_list_delete_handle_def)
    qed
  next
    case OpDelAll
    show ?thesis
    proof (cases "ps = []")
      case True
      with OpDelAll c rep xs assms show ?thesis by (simp add: artik_list_delete_all_def)
    next
      case False
      moreover have "h x = None" if "x \<notin> set ps" for x using own [of x] that by auto
      ultimately show ?thesis using OpDelAll c
        by (auto simp: artik_list_delete_all_rep [OF rep] owns_def)
    qed
  qed
qed

interpretation list_heap: simulation "heap_step z" "al_step z" owns
  by unfold_locales (rule heap_step_sim)

text \<open>The copy of a whole list.\<close>

lemma map_snd_view: "map snd (view h ps) = map (content h) ps"
  by (simp add: view_def)

section \<open>Properties\<close>

text \<open>
  C3. Memory safety and functional correctness of the list interface: whatever sequence of
  additions and deletions a program makes, no operation touches freed or NULL memory or fails
  to return, and the list ends up holding exactly what the same operations give on an
  association list, with no other memory live (nothing leaks).
\<close>

theorem artik_list_run_refines:
  "\<exists>h' root'. run_opt (heap_step z) ops (\<lambda>_. None, 0) = Some (h', root') \<and>
     owns (h', root') (fold (al_step z) ops [])"
  using list_heap.run_sim [of "(\<lambda>_. None, 0)" "[]" z ops]
  by (auto simp: owns_def)

text \<open>
  Lookup after insertion: a node added with enough room and a fresh allocation is found by
  its handle, provided no earlier node has that handle; every earlier handle keeps its answer.
\<close>

theorem artik_list_get_after_add:
  assumes "lrep h root ps" and "a \<noteq> 0" and "h a = None" and "sizeof_artik_list \<le> sz"
    and "\<forall>b \<in> set ps. handle (content h b) \<noteq> (if hdl \<noteq> 0 then hdl else a)"
  shows "\<exists>h' root'. artik_list_add z h root hdl sz a = Some (h', root', a) \<and>
    artik_list_get_by_handle h' root' (if hdl \<noteq> 0 then hdl else a) = Some a \<and>
    (\<forall>b \<in> set ps. artik_list_get_by_handle h' root' (handle (content h b)) =
                    artik_list_get_by_handle h root (handle (content h b)))"
proof -
  let ?hd = "if hdl \<noteq> 0 then hdl else a"
  obtain h' root' where add: "artik_list_add z h root hdl sz a = Some (h', root', a)"
    "lrep h' root' (ps @ [a])" "view h' (ps @ [a]) = view h ps @ [(a, new_node z hdl sz a)]"
    using artik_list_add_rep [OF assms(1-4), of z hdl] by blast
  have new: "handle (new_node z hdl sz a) = ?hd" by (simp add: new_node_def)
  have none: "find (\<lambda>(b, n). handle n = ?hd) (view h ps) = None"
    using assms(5) by (auto simp: find_None_iff view_def)
  have "artik_list_get_by_handle h' root' ?hd = Some a"
    using artik_list_get_by_handle_rep [OF add(2), of ?hd] assms(2) none new
    unfolding add(3) find_append by simp
  moreover have "artik_list_get_by_handle h' root' (handle (content h b)) =
      artik_list_get_by_handle h root (handle (content h b))" if b: "b \<in> set ps" for b
  proof (cases "handle (content h b) = 0")
    case True
    then show ?thesis by (simp add: artik_list_get_by_handle_def)
  next
    case False
    have "find (\<lambda>(x, n). handle n = handle (content h b)) (view h ps) \<noteq> None"
      using b by (auto simp: find_None_iff view_def)
    with False show ?thesis
      unfolding artik_list_get_by_handle_rep [OF add(2) False]
        artik_list_get_by_handle_rep [OF assms(1) False] add(3) find_append by auto
  qed
  ultimately show ?thesis using add(1) by blast
qed


text \<open>
  Copying: given enough memory, \<^verbatim>\<open>artik_list_cpy\<close> succeeds, leaves every node of the source
  as it was and builds a disjoint list of fresh nodes with the same contents in the same order.
\<close>

theorem artik_list_cpy_copies:
  assumes "lrep h root ps" and "ps \<noteq> []"
    and "\<forall>j < length ps. alloc j \<noteq> 0 \<and> h (alloc j) = None"
    and "distinct (map alloc [0..<length ps])"
    and "\<forall>a \<in> set ps. sizeof_artik_list \<le> size_data (content h a)"
  shows "\<exists>h' dest ev. artik_list_cpy z h root 0 alloc = Some (S_OK, h', dest, ev) \<and>
    lrep h' dest (map alloc [0..<length ps]) \<and>
    map (content h') (map alloc [0..<length ps]) = map (content h) ps \<and>
    (\<forall>x. h x \<noteq> None \<longrightarrow> h' x = h x)"
proof -
  have r: "root \<noteq> 0" using assms(1,2) by (rule lrep_root_neq_0)
  have frame: "x \<notin> alloc ` {0..<length ps}" if "h x \<noteq> None" for x
    using that assms(3) by auto
  obtain h' dest ev where "cpy_from z h root 0 alloc 0 [] = Some (h', dest, ev)"
    "lrep h' dest ([] @ map (\<lambda>j. alloc (0 + j)) [0..<length ps])"
    "map snd (view h' ([] @ map (\<lambda>j. alloc (0 + j)) [0..<length ps])) = map snd (view h ([] @ ps))"
    "\<forall>x. x \<notin> set [] \<longrightarrow> x \<notin> (\<lambda>j. alloc (0 + j)) ` {0..<length ps} \<longrightarrow> h' x = h x"
    using cpy_from_rep [of h root ps 0 "[]" alloc 0 z "[]"] assms by (auto simp: lrep_def)
  with r frame show ?thesis by (simp add: artik_list_cpy_def map_snd_view)
qed

text \<open>
  When memory runs out during a copy, the code writes through the NULL pointer it got.
\<close>

theorem artik_list_cpy_no_mem:
  assumes "lrep h root ps" and "ps \<noteq> []" and "alloc 0 = 0"
  shows "artik_list_cpy z h root 0 alloc = None"
proof -
  obtain a as where ps: "ps = a # as" using assms(2) by (cases ps) auto
  with assms(1) obtain n where n: "root = a" "a \<noteq> 0" "h a = Some n" by (auto simp: lrep_def)
  have "artik_list_add z h 0 hdl sz 0 = Some (h, 0, 0)" for hdl sz
    by (simp add: artik_list_add_def artik_list_end.simps)
  with n assms(3) show ?thesis by (simp add: artik_list_cpy_def cpy_from.simps [of z h a])
qed


section \<open>Witnesses\<close>

text \<open>A heap with one node of handle 5 at address 16.\<close>

definition heap1 :: "unit heap" where
  "heap1 = [16 \<mapsto> new_node () 5 48 16]"

lemma heap1_simps [simp]:
  "lrep heap1 16 [16]" "content heap1 16 = new_node () 5 48 16" "heap1 16 = Some (new_node () 5 48 16)"
  "x \<noteq> 16 \<Longrightarrow> heap1 x = None"
  by (simp_all add: heap1_def lrep_def content_def new_node_def zero_node_def)

lemma artik_list_get_after_add_witness:
  "\<exists>h' root'. artik_list_add () heap1 16 0 48 32 = Some (h', root', 32) \<and>
     artik_list_get_by_handle h' root' 32 = Some 32 \<and>
     artik_list_get_by_handle h' root' 5 = artik_list_get_by_handle heap1 16 5"
  using artik_list_get_after_add [of heap1 16 "[16]" 32 48 0 "()"]
  by (simp add: new_node_def sizeof_artik_list_def)

lemma artik_list_cpy_copies_witness:
  "\<exists>h' dest ev. artik_list_cpy () heap1 16 0 (\<lambda>_. 32) = Some (S_OK, h', dest, ev) \<and>
     lrep h' dest [32] \<and> content h' 32 = new_node () 5 48 16"
  using artik_list_cpy_copies [of heap1 16 "[16]" "\<lambda>_. 32" "()"]
  by (auto simp: new_node_def zero_node_def sizeof_artik_list_def)

lemma artik_list_cpy_no_mem_witness: "artik_list_cpy () heap1 16 0 (\<lambda>_. 0) = None"
  by (rule artik_list_cpy_no_mem [of heap1 16 "[16]"]) simp_all

end
