(* ===== verification/Os_World.thy ===== *)
theory Os_World
  imports Prelude
begin

text \<open>
  The operating system as the modules see it.  A system call's result is read from an oracle
  indexed by the number of calls made so far, so nothing is assumed of the kernel: a theorem
  about all worlds holds whatever the calls return.  Results follow the kernel's convention
  (a negative result is \<^verbatim>\<open>-errno\<close>); the C wrapper returns -1 then and sets \<^verbatim>\<open>errno\<close>.
  Every call is recorded in the trace with its result; the theorems on resources are statements
  about traces.
\<close>

section \<open>Calls and traces\<close>

datatype open_flag = O_RDONLY | O_WRONLY | O_RDWR | O_SYNC | O_NOCTTY | O_NONBLOCK

datatype syscall =
    Open string "open_flag list"
  | Close int
  | Write int string
  | Read int int
  | Lseek int int
  | Ioctl int string "int list"
  | Malloc nat
  | Mfree addr
  | ModRequest string
  | ModRelease string addr
  | Ext string "int list"

text \<open>
  \<open>Ext f args\<close> is a call of another module of the SDK through its function table, or of a
  library function that is not a system call.  \<open>module_addr n\<close> is the function table a module request
  made as call number \<open>n\<close> gets, or 0 when the request fails.  \<open>rdata n\<close> is what call number \<open>n\<close> stores in
  its output buffer when it is a read, \<open>out_int n\<close> what it stores through an \<^verbatim>\<open>int\<close> out parameter.
\<close>

record world =
  result :: "nat \<Rightarrow> int"
  rdata :: "nat \<Rightarrow> string"
  out_int :: "nat \<Rightarrow> int"
  module_addr :: "nat \<Rightarrow> addr"
  errno :: int
  trace :: "(syscall \<times> int) list"

definition sys :: "syscall \<Rightarrow> world \<Rightarrow> int \<times> world" where
  "sys c w =
     (let r = result w (length (trace w))
      in (if r < 0 then -1 else r,
          w\<lparr>trace := trace w @ [(c, r)], errno := (if r < 0 then - r else errno w)\<rparr>))"

text \<open>A length as the \<^verbatim>\<open>size_t\<close> argument of \<^verbatim>\<open>read\<close> and \<^verbatim>\<open>write\<close>.\<close>

definition size_t :: "int \<Rightarrow> int" where
  "size_t n = n mod 2 ^ 64"

text \<open>A call of other code: its result is returned as it is.\<close>

definition call :: "syscall \<Rightarrow> world \<Rightarrow> int \<times> world" where
  "call c w = (let r = result w (length (trace w)) in (r, w\<lparr>trace := trace w @ [(c, r)]\<rparr>))"

definition ext :: "string \<Rightarrow> int list \<Rightarrow> world \<Rightarrow> int \<times> world" where
  "ext f args w = call (Ext f args) w"

text \<open>
  A read of at most \<open>n\<close> bytes; the data are the buffer's new contents.  A kernel result larger
  than the request does not happen.
\<close>

definition sys_read :: "int \<Rightarrow> int \<Rightarrow> world \<Rightarrow> (int \<times> string) \<times> world" where
  "sys_read fd n w =
     (let (r, w') = sys (Read fd n) w; k = min r n
      in ((k, take (nat k) (rdata w (length (trace w)))), w'))"

text \<open>
  The reference-counted request of another module, and its release.  A failed request returns
  \<^verbatim>\<open>INVALID_MODULE\<close>, which is \<^verbatim>\<open>(void *)(-1)\<close> and not \<^verbatim>\<open>NULL\<close>: it passes the callers' test for
  \<^verbatim>\<open>NULL\<close> and an access through it is invalid.  It is \<^term>\<open>None\<close> here.
\<close>

definition request_api_module :: "string \<Rightarrow> world \<Rightarrow> addr option \<times> world" where
  "request_api_module m w =
     (let a = module_addr w (length (trace w))
      in (if a = 0 then None else Some a,
          w\<lparr>trace := trace w @ [(ModRequest m, if a = 0 then -1 else int a)]\<rparr>))"

definition release_api_module :: "string \<Rightarrow> addr \<Rightarrow> world \<Rightarrow> world" where
  "release_api_module m a w = snd (call (ModRelease m a) w)"

definition EINTR :: int where "EINTR = 4"
definition EIO :: int where "EIO = 5"
definition EBADF :: int where "EBADF = 9"
definition EAGAIN :: int where "EAGAIN = 11"
definition EACCES :: int where "EACCES = 13"
definition EINVAL :: int where "EINVAL = 22"
definition EFBIG :: int where "EFBIG = 27"
definition EPIPE :: int where "EPIPE = 32"
definition EDESTADDRREQ :: int where "EDESTADDRREQ = 89"

section \<open>Open file descriptors\<close>

text \<open>How often a trace opens descriptor \<open>x\<close>, less how often it closes it.\<close>

definition fd_delta :: "syscall \<times> int \<Rightarrow> int \<Rightarrow> int" where
  "fd_delta e x =
     (case e of
        (Open p fl, r) \<Rightarrow> if 0 \<le> r \<and> r = x then 1 else 0
      | (Close f, r) \<Rightarrow> if f = x then -1 else 0
      | _ \<Rightarrow> 0)"

primrec fd_bal :: "(syscall \<times> int) list \<Rightarrow> int \<Rightarrow> int" where
  "fd_bal [] x = 0"
| "fd_bal (e # t) x = fd_delta e x + fd_bal t x"

definition fds :: "world \<Rightarrow> int \<Rightarrow> int" where
  "fds w = fd_bal (trace w)"

lemma fd_delta_simps [simp]:
  "fd_delta (Open p fl, r) x = (if 0 \<le> r \<and> r = x then 1 else 0)"
  "fd_delta (Close f, r) x = (if f = x then -1 else 0)"
  "fd_delta (Write f s, r) x = 0"
  "fd_delta (Read f n, r) x = 0"
  "fd_delta (Lseek f n, r) x = 0"
  "fd_delta (Ioctl f q a, r) x = 0"
  "fd_delta (Malloc k, r) x = 0"
  "fd_delta (Mfree b, r) x = 0"
  "fd_delta (Ext g a, r) x = 0"
  "fd_delta (ModRequest m, r) x = 0"
  "fd_delta (ModRelease m b, r) x = 0"
  by (simp_all add: fd_delta_def)

lemma fd_bal_append [simp]: "fd_bal (s @ t) x = fd_bal s x + fd_bal t x"
  by (induction s) auto

text \<open>
  What a call returns and does to the trace.  A result is arbitrary; the balance of descriptors is what the'
  components keep.
\<close>

lemma sys_trace: "sys c w = (r, w') \<Longrightarrow> map fst (trace w') = map fst (trace w) @ [c]"
  by (auto simp: sys_def Let_def)

lemma sys_result: "sys c w = (r, w') \<Longrightarrow> result w' = result w"
  by (auto simp: sys_def Let_def)

lemma sys_ge: "sys c w = (r, w') \<Longrightarrow> -1 \<le> r"
  by (auto simp: sys_def Let_def split: if_splits)

lemma fds_sys:
  "sys c w = (r, w') \<Longrightarrow> \<exists>r0. fds w' = (\<lambda>x. fds w x + fd_delta (c, r0) x) \<and> r = (if r0 < 0 then -1 else r0)"
  by (auto simp: sys_def fds_def Let_def fun_eq_iff)

lemma fds_sys_neutral:
  assumes "sys c w = (r, w')" and "\<And>r x. fd_delta (c, r) x = 0"
  shows "fds w' = fds w"
  using fds_sys [OF assms(1)] assms(2) by auto

lemma fds_Open: "sys (Open p fl) w = (r, w') \<Longrightarrow> fds w' = (\<lambda>x. fds w x + (if 0 \<le> r \<and> r = x then 1 else 0))"
proof -
  assume "sys (Open p fl) w = (r, w')"
  then obtain r0 where r0: "fds w' = (\<lambda>x. fds w x + fd_delta (Open p fl, r0) x)" "r = (if r0 < 0 then -1 else r0)"
    by (blast dest: fds_sys)
  show ?thesis by (rule ext) (simp add: r0)
qed

lemma fds_Close: "sys (Close f) w = (r, w') \<Longrightarrow> fds w' = (\<lambda>x. fds w x - (if f = x then 1 else 0))"
proof -
  assume "sys (Close f) w = (r, w')"
  then obtain r0 where r0: "fds w' = (\<lambda>x. fds w x + fd_delta (Close f, r0) x)"
    by (blast dest: fds_sys)
  show ?thesis by (rule ext) (simp add: r0)
qed

lemma fds_Write: "sys (Write f s) w = (r, w') \<Longrightarrow> fds w' = fds w"
  by (erule fds_sys_neutral) simp

lemma fds_Read: "sys (Read f n) w = (r, w') \<Longrightarrow> fds w' = fds w"
  by (erule fds_sys_neutral) simp

lemma fds_Lseek: "sys (Lseek f n) w = (r, w') \<Longrightarrow> fds w' = fds w"
  by (erule fds_sys_neutral) simp

lemma fds_Ioctl: "sys (Ioctl f q a) w = (r, w') \<Longrightarrow> fds w' = fds w"
  by (erule fds_sys_neutral) simp

lemma fds_Malloc: "sys (Malloc k) w = (r, w') \<Longrightarrow> fds w' = fds w"
  by (erule fds_sys_neutral) simp

lemma fds_Ext: "sys (Ext g a) w = (r, w') \<Longrightarrow> fds w' = fds w"
  by (erule fds_sys_neutral) simp

lemma fds_Mfree: "call (Mfree a) w = (r, w') \<Longrightarrow> fds w' = fds w"
  by (auto simp: call_def Let_def fds_def fun_eq_iff)

lemma fds_ext: "ext g a w = (r, w') \<Longrightarrow> fds w' = fds w"
  by (auto simp: ext_def call_def Let_def fds_def fun_eq_iff)

lemma fds_request_api_module: "request_api_module m w = (r, w') \<Longrightarrow> fds w' = fds w"
  by (auto simp: request_api_module_def Let_def fds_def fun_eq_iff)

lemma fds_release_api_module [simp]: "fds (release_api_module m a w) = fds w"
  by (auto simp: release_api_module_def call_def Let_def fds_def fun_eq_iff)

lemma fds_sys_read: "sys_read f n w = ((k, d), w') \<Longrightarrow> fds w' = fds w"
  using fds_Read by (auto simp: sys_read_def Let_def split: prod.splits)

lemmas fds_simps = fds_Open fds_Close fds_Write fds_Read fds_Lseek fds_Ioctl fds_Malloc fds_Mfree fds_Ext fds_sys_read
  fds_ext fds_request_api_module

section \<open>References to other modules\<close>

text \<open>Module requests do not fail; the results of all system calls are still arbitrary.\<close>

definition modules_ok :: "world \<Rightarrow> bool" where
  "modules_ok w \<longleftrightarrow> (\<forall>n. module_addr w n \<noteq> 0)"

lemma modules_ok_sys: "sys c w = (r, w') \<Longrightarrow> modules_ok w' = modules_ok w"
  by (auto simp: sys_def Let_def modules_ok_def)

lemma modules_ok_request: "request_api_module m w = (None, w') \<Longrightarrow> \<not> modules_ok w"
  by (auto simp: request_api_module_def Let_def modules_ok_def split: if_splits)

text \<open>How often a trace gets a reference to module \<open>m\<close>, less how often it gives one back.\<close>

definition ref_delta :: "string \<Rightarrow> syscall \<times> int \<Rightarrow> int" where
  "ref_delta m e =
     (case e of
        (ModRequest f, r) \<Rightarrow> if f = m \<and> 0 < r then 1 else 0
      | (ModRelease f a, r) \<Rightarrow> if f = m \<and> a \<noteq> 0 then -1 else 0
      | _ \<Rightarrow> 0)"

definition mod_refs :: "string \<Rightarrow> world \<Rightarrow> int" where
  "mod_refs m w = sum_list (map (ref_delta m) (trace w))"

lemma ref_delta_simps [simp]:
  "ref_delta m (Open p fl, r) = 0" "ref_delta m (Close f, r) = 0" "ref_delta m (Write f s, r) = 0"
  "ref_delta m (Read f n, r) = 0" "ref_delta m (Lseek f n, r) = 0" "ref_delta m (Ioctl f q a, r) = 0"
  "ref_delta m (Malloc k, r) = 0" "ref_delta m (Mfree b, r) = 0" "ref_delta m (Ext g a, r) = 0"
  "ref_delta m (ModRequest q1, r) = (if q1 = m \<and> 0 < r then 1 else 0)"
  "ref_delta m (ModRelease q1 b, r) = (if q1 = m \<and> b \<noteq> 0 then -1 else 0)"
  by (simp_all add: ref_delta_def)

lemma mod_refs_neutral:
  assumes "sys c w = (r, w')" and "\<And>r. ref_delta m (c, r) = 0"
  shows "mod_refs m w' = mod_refs m w"
  using assms by (auto simp: sys_def Let_def mod_refs_def)

lemma refs_Open: "sys (Open p fl) w = (r, w') \<Longrightarrow> mod_refs m w' = mod_refs m w"
  by (erule mod_refs_neutral) simp

lemma refs_Close: "sys (Close f) w = (r, w') \<Longrightarrow> mod_refs m w' = mod_refs m w"
  by (erule mod_refs_neutral) simp

lemma refs_Lseek: "sys (Lseek f n) w = (r, w') \<Longrightarrow> mod_refs m w' = mod_refs m w"
  by (erule mod_refs_neutral) simp

lemma refs_read: "sys_read f n w = ((k, d), w') \<Longrightarrow> mod_refs m w' = mod_refs m w"
  using mod_refs_neutral [of "Read f n" w] by (auto simp: sys_read_def Let_def split: prod.splits)

lemma refs_ext: "ext g a w = (r, w') \<Longrightarrow> mod_refs m w' = mod_refs m w"
  by (auto simp: ext_def call_def Let_def mod_refs_def)

lemma refs_request:
  "request_api_module f w = (r, w') \<Longrightarrow> mod_refs m w' = mod_refs m w + (if f = m \<and> r \<noteq> None then 1 else 0)"
  by (auto simp: request_api_module_def Let_def mod_refs_def split: if_splits)

lemma request_not_NULL: "request_api_module f w = (r, w') \<Longrightarrow> r \<noteq> Some 0"
  by (auto simp: request_api_module_def Let_def split: if_splits)

lemma refs_release [simp]: "mod_refs m (release_api_module f a w) = mod_refs m w - (if f = m \<and> a \<noteq> 0 then 1 else 0)"
  by (auto simp: release_api_module_def call_def Let_def mod_refs_def)

lemmas refs_simps = refs_Open refs_Close refs_Lseek refs_read refs_ext refs_request

section \<open>Blocks allocated and freed within one call\<close>

definition local_malloc :: "int \<Rightarrow> world \<Rightarrow> addr \<times> world" where
  "local_malloc n w = (let (r, w) = sys (Malloc (nat n)) w in (nat r, w))"

definition local_free :: "addr \<Rightarrow> world \<Rightarrow> world" where
  "local_free a w = snd (call (Mfree a) w)"

definition mem_delta :: "syscall \<times> int \<Rightarrow> addr \<Rightarrow> int" where
  "mem_delta e x =
     (case e of
        (Malloc n, r) \<Rightarrow> if 0 < r \<and> nat r = x then 1 else 0
      | (Mfree a, r) \<Rightarrow> if a = x then -1 else 0
      | _ \<Rightarrow> 0)"

definition blocks :: "world \<Rightarrow> addr \<Rightarrow> int" where
  "blocks w x = sum_list (map (\<lambda>e. mem_delta e x) (trace w))"

lemma mem_delta_simps [simp]:
  "mem_delta (Open p fl, r) x = 0" "mem_delta (Close f, r) x = 0" "mem_delta (Write f s, r) x = 0"
  "mem_delta (Read f n, r) x = 0" "mem_delta (Lseek f n, r) x = 0" "mem_delta (Ioctl f q a, r) x = 0"
  "mem_delta (Ext g a, r) x = 0"
  "mem_delta (Malloc k, r) x = (if 0 < r \<and> nat r = x then 1 else 0)"
  "mem_delta (Mfree b, r) x = (if b = x then -1 else 0)"
  by (simp_all add: mem_delta_def)

lemma blocks_neutral: "sys c w = (r, w') \<Longrightarrow> (\<And>r x. mem_delta (c, r) x = 0) \<Longrightarrow> blocks w' = blocks w"
  by (auto simp: sys_def Let_def blocks_def fun_eq_iff)

lemma blocks_Open: "sys (Open p fl) w = (r, w') \<Longrightarrow> blocks w' = blocks w"
  by (erule blocks_neutral) simp

lemma blocks_Close: "sys (Close f) w = (r, w') \<Longrightarrow> blocks w' = blocks w"
  by (erule blocks_neutral) simp

lemma blocks_Ioctl: "sys (Ioctl f q a) w = (r, w') \<Longrightarrow> blocks w' = blocks w"
  by (erule blocks_neutral) simp

lemma blocks_local_malloc:
  "local_malloc n w = (a, w') \<Longrightarrow> blocks w' = (\<lambda>x. blocks w x + (if a \<noteq> 0 \<and> a = x then 1 else 0))"
  by (auto simp: local_malloc_def sys_def Let_def blocks_def fun_eq_iff split: if_splits)

lemma blocks_local_free [simp]: "blocks (local_free a w) = (\<lambda>x. blocks w x - (if a = x then 1 else 0))"
  by (auto simp: local_free_def call_def Let_def blocks_def fun_eq_iff)

lemma fds_local_malloc: "local_malloc n w = (a, w') \<Longrightarrow> fds w' = fds w"
  by (auto simp: local_malloc_def Let_def fds_Malloc split: prod.splits)

lemma fds_local_free [simp]: "fds (local_free a w) = fds w"
  by (auto simp: local_free_def call_def Let_def fds_def fun_eq_iff)

lemmas blocks_simps = blocks_Open blocks_Close blocks_Ioctl blocks_local_malloc

section \<open>sysfs entries\<close>

text \<open>
  \<^verbatim>\<open>write_sysfs_entry\<close> and \<^verbatim>\<open>read_sysfs_entry\<close> of \<^verbatim>\<open>gpio/linux_gpio.c\<close>.  After \<^verbatim>\<open>close\<close> the
  returned \<^verbatim>\<open>errno\<close> is the one \<^verbatim>\<open>close\<close> left.
\<close>

definition write_sysfs_entry :: "string \<Rightarrow> string \<Rightarrow> world \<Rightarrow> int \<times> world" where
  "write_sysfs_entry entry val w =
     (let (fd, w) = sys (Open entry [O_WRONLY]) w
      in if fd < 0 then (- errno w, w)
         else let (r, w) = sys (Write fd val) w
              in if r = -1 then (let (_, w) = sys (Close fd) w in (- errno w, w))
                 else let (_, w) = sys (Close fd) w in (0, w))"

definition read_sysfs_entry :: "string \<Rightarrow> nat \<Rightarrow> world \<Rightarrow> (int \<times> string) \<times> world" where
  "read_sysfs_entry entry len w =
     (let (fd, w) = sys (Open entry [O_RDONLY]) w
      in if fd < 0 then ((- errno w, []), w)
         else let (r, w) = sys (Lseek fd 0) w
              in if r = -1 then (let (_, w) = sys (Close fd) w in ((- errno w, []), w))
                 else let ((r, d), w) = sys_read fd (int len) w
                      in if r = -1 then (let (_, w) = sys (Close fd) w in ((- errno w, []), w))
                         else let (_, w) = sys (Close fd) w in ((0, d), w))"

lemma fds_write_sysfs_entry [frame_simps]: "fds (snd (write_sysfs_entry p v w)) = fds w"
  by (auto simp: write_sysfs_entry_def Let_def fun_eq_iff fds_simps split: prod.splits)

lemma fds_read_sysfs_entry [frame_simps]: "fds (snd (read_sysfs_entry p n w)) = fds w"
  by (auto simp: read_sysfs_entry_def Let_def fun_eq_iff fds_simps split: prod.splits)


text \<open>A write either goes through, with exactly these three calls, or reports an error.\<close>

lemma write_sysfs_entry_cases:
  assumes "write_sysfs_entry p v w = (r, w')"
  shows "r \<le> 0 \<and> (r = 0 \<longrightarrow> (\<exists>fd k c. 0 \<le> fd \<and> 0 \<le> k \<and>
    trace w' = trace w @ [(Open p [O_WRONLY], fd), (Write fd v, k), (Close fd, c)]))"
  using assms by (auto simp: write_sysfs_entry_def sys_def Let_def split: if_splits)

text \<open>The entries a trace writes, in order, with the data.\<close>

fun sysfs_log :: "(syscall \<times> int) list \<Rightarrow> (string \<times> string) list" where
  "sysfs_log ((Open p fl, r) # (Write f v, k) # t) = (p, v) # sysfs_log t"
| "sysfs_log (e # t) = sysfs_log t"
| "sysfs_log [] = []"

lemma fds_write_D: "write_sysfs_entry p v w = (r, w') \<Longrightarrow> fds w' = fds w"
  using fds_write_sysfs_entry [of p v w] by simp

lemma fds_read_D: "read_sysfs_entry p n w = (r, w') \<Longrightarrow> fds w' = fds w"
  using fds_read_sysfs_entry [of p n w] by simp


lemmas fds_D = fds_simps fds_local_malloc fds_write_D fds_read_D

end
