(* ===== verification/Registry.thy ===== *)
theory Registry
  imports Artik_List Os_World
begin

text \<open>
  What the six system I/O modules (gpio, pwm, i2c, spi, serial, adc) share: a global list of
  requested devices, one node per device with the caller's configuration, and the heap blocks
  and system calls of the OS layer.  The handle given to the caller is the node's address.  The
  interface \<open>device_registry\<close> states what the modules promise of request and release; the
  lemmas derived in it hold for each of them by interpretation.
\<close>

section \<open>Device state\<close>

text \<open>
  \<open>nodes\<close> is \<^verbatim>\<open>requested_node\<close>: node addresses with the \<^verbatim>\<open>config\<close> of the node.  \<open>data\<close> holds
  the blocks the OS layer allocates for a device (\<^verbatim>\<open>user_data\<close>).
\<close>

record ('c, 'd) dev =
  nodes :: "(addr \<times> 'c) list"
  data :: "addr \<Rightarrow> 'd option"
  wld :: world

definition live_of :: "(addr \<times> 'c) list \<Rightarrow> (addr \<Rightarrow> 'd option) \<Rightarrow> addr set" where
  "live_of ns d = fst ` set ns \<union> dom d"

definition live :: "('c, 'd) dev \<Rightarrow> addr set" where
  "live s = live_of (nodes s) (data s)"

definition is_live :: "('c, 'd) dev \<Rightarrow> addr \<Rightarrow> bool" where
  "is_live s a \<longleftrightarrow> a \<in> fst ` set (nodes s) \<or> data s a \<noteq> None"

lemma is_live_live: "is_live s a \<longleftrightarrow> a \<in> live s"
  by (auto simp: is_live_def live_def live_of_def)

text \<open>\<^verbatim>\<open>malloc\<close>: NULL (0), or an address that is not in use.\<close>

definition malloc :: "nat \<Rightarrow> ('c, 'd) dev \<Rightarrow> addr \<times> ('c, 'd) dev" where
  "malloc n s =
     (let (r, w) = sys (Malloc n) (wld s); a = nat r
      in (if is_live s a then 0 else a, s\<lparr>wld := w\<rparr>))"

definition malloc_data :: "'d \<Rightarrow> nat \<Rightarrow> ('c, 'd) dev \<Rightarrow> addr \<times> ('c, 'd) dev" where
  "malloc_data d n s =
     (let (a, s) = malloc n s in (a, if a = 0 then s else s\<lparr>data := (data s)(a \<mapsto> d)\<rparr>))"

definition free_data :: "addr \<Rightarrow> ('c, 'd) dev \<Rightarrow> ('c, 'd) dev" where
  "free_data a s = s\<lparr>data := (data s)(a := None)\<rparr>"

definition on_wld :: "(world \<Rightarrow> 'r \<times> world) \<Rightarrow> ('c, 'd) dev \<Rightarrow> 'r \<times> ('c, 'd) dev" where
  "on_wld f s = (let (r, w) = f (wld s) in (r, s\<lparr>wld := w\<rparr>))"

lemma on_wld_simps [simp]:
  "nodes (snd (on_wld f s)) = nodes s" "data (snd (on_wld f s)) = data s"
  "wld (snd (on_wld f s)) = snd (f (wld s))" "fst (on_wld f s) = fst (f (wld s))"
  by (simp_all add: on_wld_def Let_def split: prod.splits)

lemma on_wldD:
  "on_wld f s = (r, s') \<Longrightarrow> nodes s' = nodes s \<and> data s' = data s \<and> f (wld s) = (r, wld s')"
  by (auto simp: on_wld_def Let_def split: prod.splits)

text \<open>The list operations on \<open>nodes\<close> (\<^verbatim>\<open>artik_list_add\<close>, \<^verbatim>\<open>_delete_node\<close>, \<^verbatim>\<open>_get_by_handle\<close>,
  \<^verbatim>\<open>_get_by_check\<close>), and the assignment \<^verbatim>\<open>node->config = config\<close>.\<close>

definition node_add :: "'c \<Rightarrow> nat \<Rightarrow> ('c, 'd) dev \<Rightarrow> addr \<times> ('c, 'd) dev" where
  "node_add z n s =
     (let (a, s) = malloc n s in (a, if a = 0 then s else s\<lparr>nodes := nodes s @ [(a, z)]\<rparr>))"

definition node_del :: "addr \<Rightarrow> ('c, 'd) dev \<Rightarrow> ('c, 'd) dev" where
  "node_del a s = s\<lparr>nodes := filter (\<lambda>(b, c). b \<noteq> a) (nodes s)\<rparr>"

definition node_set :: "addr \<Rightarrow> 'c \<Rightarrow> ('c, 'd) dev \<Rightarrow> ('c, 'd) dev" where
  "node_set a c s = s\<lparr>nodes := map (\<lambda>(b, c'). (b, if b = a then c else c')) (nodes s)\<rparr>"

definition node_get :: "addr \<Rightarrow> ('c, 'd) dev \<Rightarrow> 'c option" where
  "node_get a s = (if a = 0 then None else map_of (nodes s) a)"

definition node_check :: "('c \<Rightarrow> bool) \<Rightarrow> ('c, 'd) dev \<Rightarrow> bool" where
  "node_check P s \<longleftrightarrow> find (\<lambda>(a, c). P c) (nodes s) \<noteq> None"

section \<open>Facts about the primitives\<close>

lemma malloc_facts:
  "malloc n s = (a, s') \<Longrightarrow> nodes s' = nodes s \<and> data s' = data s \<and> (a = 0 \<or> a \<notin> live s) \<and> fds (wld s') = fds (wld s)"
  by (auto simp: malloc_def Let_def is_live_live fds_Malloc split: prod.splits if_splits)

lemma malloc_data_facts:
  "malloc_data d n s = (a, s') \<Longrightarrow>
     nodes s' = nodes s \<and> data s' = (if a = 0 then data s else (data s)(a \<mapsto> d)) \<and>
     (a = 0 \<or> a \<notin> live s) \<and> fds (wld s') = fds (wld s)"
  using malloc_facts [of n s] by (auto simp: malloc_data_def Let_def split: prod.splits if_splits)

lemma node_add_facts:
  "node_add z n s = (a, s') \<Longrightarrow>
     nodes s' = (if a = 0 then nodes s else nodes s @ [(a, z)]) \<and> data s' = data s \<and>
     (a = 0 \<or> a \<notin> live s) \<and> fds (wld s') = fds (wld s)"
  using malloc_facts [of n s] by (auto simp: node_add_def Let_def split: prod.splits if_splits)

lemma free_data_simps [simp]:
  "nodes (free_data a s) = nodes s" "wld (free_data a s) = wld s"
  "data (free_data a s) = (data s)(a := None)"
  by (simp_all add: free_data_def)

lemma node_del_simps [simp]:
  "data (node_del a s) = data s" "wld (node_del a s) = wld s"
  "nodes (node_del a s) = filter (\<lambda>(b, c). b \<noteq> a) (nodes s)"
  by (simp_all add: node_del_def)

lemma node_set_simps [simp]:
  "data (node_set a c s) = data s" "wld (node_set a c s) = wld s"
  "nodes (node_set a c s) = map (\<lambda>(b, c'). (b, if b = a then c else c')) (nodes s)"
  by (simp_all add: node_set_def)

lemma node_check_iff: "node_check P s \<longleftrightarrow> (\<exists>(a, c) \<in> set (nodes s). P c)"
  by (force simp: node_check_def find_None_iff)

lemma node_check_key: "(\<And>c. P c \<longleftrightarrow> key c = k) \<Longrightarrow> node_check P s \<longleftrightarrow> k \<in> key ` snd ` set (nodes s)"
  by (force simp: node_check_iff)

lemma node_get_Some: "node_get a s = Some c \<Longrightarrow> a \<noteq> 0 \<and> (a, c) \<in> set (nodes s)"
  by (auto simp: node_get_def map_of_SomeD split: if_splits)

lemma node_get_None: "node_get a s = None \<longleftrightarrow> a = 0 \<or> a \<notin> fst ` set (nodes s)"
  by (auto simp: node_get_def map_of_eq_None_iff)

text \<open>Adding a fresh node and then setting or deleting it.\<close>

lemma fresh_set [simp]:
  "a \<notin> fst ` set l \<Longrightarrow> map (\<lambda>(b, c'). (b, if b = a then c else c')) l = l"
  by (induction l) auto

lemma fresh_del [simp]: "a \<notin> fst ` set l \<Longrightarrow> filter (\<lambda>(b, c). b \<noteq> a) l = l"
  by (induction l) auto

text \<open>
  The node operations are the list operations of \<^theory_text>\<open>Artik_List\<close>: for a list whose nodes carry
  the configuration as payload, adding and deleting nodes commutes with reading off \<open>nodes\<close>.
\<close>

definition bodies :: "(addr \<times> 'c anode) list \<Rightarrow> (addr \<times> 'c) list" where
  "bodies xs = map (\<lambda>(a, n). (a, body n)) xs"

lemma node_add_refines:
  assumes "node_add z n s = (a, s')" and "nodes s = bodies xs" and "sizeof_artik_list \<le> sz"
  shows "nodes s' = bodies (al_step z (OpAdd 0 sz a) xs)"
proof -
  have "a \<noteq> 0 \<Longrightarrow> a \<notin> fst ` set xs"
    using node_add_facts [OF assms(1)] assms(2) by (auto simp: live_def live_of_def bodies_def image_image case_prod_unfold)
  then show ?thesis
    using node_add_facts [OF assms(1)] assms(2,3)
    by (auto simp: bodies_def new_node_def zero_node_def)
qed

lemma node_del_refines: "nodes s = bodies xs \<Longrightarrow> nodes (node_del a s) = bodies (al_step z (OpDelNode a) xs)"
  by (simp add: bodies_def filter_map comp_def case_prod_unfold)

section \<open>Ownership of the OS layer's blocks\<close>

text \<open>
  Every node points to a block of its own, and there is no other block: nothing dangles, nothing
  is shared and nothing leaks.
\<close>

definition owns_data :: "('c \<Rightarrow> addr) \<Rightarrow> ('c, 'd) dev \<Rightarrow> bool" where
  "owns_data ud s \<longleftrightarrow>
     distinct (map fst (nodes s)) \<and> distinct (map (ud \<circ> snd) (nodes s)) \<and>
     dom (data s) = (ud \<circ> snd) ` set (nodes s) \<and> 0 \<notin> dom (data s)"

lemma owns_data_cong:
  "nodes s' = nodes s \<Longrightarrow> dom (data s') = dom (data s) \<Longrightarrow> owns_data ud s' = owns_data ud s"
  by (simp add: owns_data_def)

lemma owns_data_live: "owns_data ud s \<Longrightarrow> node_get h s = Some c \<Longrightarrow> \<exists>d. data s (ud c) = Some d"
  by (drule node_get_Some) (force simp: owns_data_def)

lemma owns_data_add:
  assumes "owns_data ud s" and "nodes s' = nodes s @ [(a, c)]" and "data s' = (data s)(ud c \<mapsto> d)"
    and "ud c \<noteq> 0" and "ud c \<notin> dom (data s)" and "a \<notin> fst ` set (nodes s)"
  shows "owns_data ud s'"
  using assms by (auto simp: owns_data_def)

lemma owns_data_del:
  assumes "owns_data ud s" and "(a, c) \<in> set (nodes s)"
    and "nodes s' = filter (\<lambda>(b, c). b \<noteq> a) (nodes s)" and "data s' = (data s)(ud c := None)"
  shows "owns_data ud s'"
proof -
  have inj: "inj_on fst (set (nodes s))" "inj_on (ud \<circ> snd) (set (nodes s))"
    using assms(1) by (auto simp: owns_data_def distinct_map)
  have eq: "x = (a, c)" if "x \<in> set (nodes s)" "fst x = a \<or> ud (snd x) = ud c" for x
    using that assms(2) inj_onD [OF inj(1), of x "(a, c)"] inj_onD [OF inj(2), of x "(a, c)"] by auto
  have "set (nodes s') = set (nodes s) - {(a, c)}"
  proof (rule set_eqI)
    fix x
    show "x \<in> set (nodes s') \<longleftrightarrow> x \<in> set (nodes s) - {(a, c)}"
      using eq [of x] by (cases x) (auto simp: assms(3))
  qed
  also have "(ud \<circ> snd) ` (set (nodes s) - {(a, c)}) = (ud \<circ> snd) ` set (nodes s) - {ud c}"
    using inj_on_image_set_diff [OF inj(2), of "set (nodes s)" "{(a, c)}"] assms(2) by simp
  finally have "(ud \<circ> snd) ` set (nodes s') = (ud \<circ> snd) ` set (nodes s) - {ud c}" .
  moreover have "distinct (map fst (nodes s'))" "distinct (map (ud \<circ> snd) (nodes s'))"
    using assms(1,3) by (auto simp: owns_data_def distinct_map_filter)
  ultimately show ?thesis using assms(1,4) by (auto simp: owns_data_def)
qed

text \<open>The state before the first request.\<close>

definition init_dev :: "world \<Rightarrow> ('c, 'd) dev" where
  "init_dev w = \<lparr>nodes = [], data = (\<lambda>_. None), wld = w\<rparr>"

lemma init_dev_simps [simp]:
  "nodes (init_dev w) = []" "data (init_dev w) = (\<lambda>_. None)" "wld (init_dev w) = w"
  by (simp_all add: init_dev_def)

lemma init_owns [simp]: "owns_data ud (init_dev w)"
  by (simp add: owns_data_def)

lemma malloc_trace: "malloc n s = (a, s') \<Longrightarrow> \<exists>r. trace (wld s') = trace (wld s) @ [(Malloc n, r)]"
  by (auto simp: malloc_def sys_def Let_def)

lemma malloc_data_trace: "malloc_data d n s = (a, s') \<Longrightarrow> \<exists>r. trace (wld s') = trace (wld s) @ [(Malloc n, r)]"
  using malloc_trace [of n s] by (auto simp: malloc_data_def Let_def split: prod.splits if_splits)

lemma node_add_trace: "node_add z n s = (a, s') \<Longrightarrow> \<exists>r. trace (wld s') = trace (wld s) @ [(Malloc n, r)]"
  using malloc_trace [of n s] by (auto simp: node_add_def Let_def split: prod.splits if_splits)

section \<open>The interface\<close>

datatype ('c, 'o) reg_op = Req 'c | Rel addr | Other 'o

fun reg_step ::
  "('c \<Rightarrow> ('c, 'd) dev \<Rightarrow> (artik_error \<times> addr) \<times> ('c, 'd) dev) \<Rightarrow>
   (addr \<Rightarrow> ('c, 'd) dev \<Rightarrow> artik_error \<times> ('c, 'd) dev) \<Rightarrow>
   ('o \<Rightarrow> ('c, 'd) dev \<Rightarrow> ('c, 'd) dev) \<Rightarrow> ('c, 'o) reg_op \<Rightarrow> ('c, 'd) dev \<Rightarrow> ('c, 'd) dev" where
  "reg_step rq rl ot (Req c) s = snd (rq c s)"
| "reg_step rq rl ot (Rel h) s = snd (rl h s)"
| "reg_step rq rl ot (Other x) s = ot x s"

text \<open>Handles are distinct and not NULL, and no two nodes hold the same device.\<close>

definition reg_inv :: "('c \<Rightarrow> 'k) \<Rightarrow> ('c, 'd) dev \<Rightarrow> bool" where
  "reg_inv key s \<longleftrightarrow>
     distinct (map fst (nodes s)) \<and> 0 \<notin> fst ` set (nodes s) \<and> distinct (map (key \<circ> snd) (nodes s))"

text \<open>The abstract view: which handle holds which device.\<close>

definition held :: "('c \<Rightarrow> 'k) \<Rightarrow> ('c, 'd) dev \<Rightarrow> 'k \<Rightarrow> addr option" where
  "held key s = map_of (map (\<lambda>(h, c). (key c, h)) (nodes s))"

lemma reg_inv_init [simp]: "reg_inv key (init_dev w)"
  by (simp add: reg_inv_def)

locale device_registry =
  fixes request :: "'c \<Rightarrow> ('c, 'd) dev \<Rightarrow> (artik_error \<times> addr) \<times> ('c, 'd) dev"
    and release :: "addr \<Rightarrow> ('c, 'd) dev \<Rightarrow> artik_error \<times> ('c, 'd) dev"
    and other :: "'o \<Rightarrow> ('c, 'd) dev \<Rightarrow> ('c, 'd) dev"
    and key :: "'c \<Rightarrow> 'k"
  assumes request_busy: "key c \<in> key ` snd ` set (nodes s) \<Longrightarrow> request c s = ((E_BUSY, 0), s)"
    and request_new: "request c s = ((r, h), s') \<Longrightarrow> key c \<notin> key ` snd ` set (nodes s) \<Longrightarrow>
      (if r = S_OK
       then h \<noteq> 0 \<and> h \<notin> fst ` set (nodes s) \<and> (\<exists>c'. key c' = key c \<and> nodes s' = nodes s @ [(h, c')])
       else nodes s' = nodes s)"
    and release_bad: "node_get h s = None \<Longrightarrow> release h s = (E_BAD_ARGS, s)"
    and release_nodes: "release h s = (r, s') \<Longrightarrow> node_get h s = Some c \<Longrightarrow>
      nodes s' = (if r = S_OK then filter (\<lambda>(b, c). b \<noteq> h) (nodes s) else nodes s)"
    and other_nodes: "nodes (other x s) = nodes s"
begin

lemma request_ok:
  assumes "request c s = ((S_OK, h), s')"
  shows "key c \<notin> key ` snd ` set (nodes s)" "h \<noteq> 0" "h \<notin> fst ` set (nodes s)"
    "\<exists>c'. key c' = key c \<and> nodes s' = nodes s @ [(h, c')]"
proof -
  show k: "key c \<notin> key ` snd ` set (nodes s)"
    using assms request_busy [of c s] by fastforce
  from request_new [OF assms k] show "h \<noteq> 0" "h \<notin> fst ` set (nodes s)"
    "\<exists>c'. key c' = key c \<and> nodes s' = nodes s @ [(h, c')]" by simp_all
qed

lemma request_fail:
  assumes "request c s = ((r, h), s')" and "r \<noteq> S_OK"
  shows "nodes s' = nodes s"
proof (cases "key c \<in> key ` snd ` set (nodes s)")
  case True
  with assms request_busy [OF True] show ?thesis by simp
next
  case False
  with request_new [OF assms(1)] assms(2) show ?thesis by simp
qed

lemma release_cases:
  assumes "release h s = (r, s')"
  shows "nodes s' = (if r = S_OK then filter (\<lambda>(b, c). b \<noteq> h) (nodes s) else nodes s)"
proof (cases "node_get h s")
  case None
  with assms release_bad [OF None] show ?thesis by auto
next
  case (Some c)
  with assms release_nodes show ?thesis by blast
qed

lemma step_inv: "reg_inv key s \<Longrightarrow> reg_inv key (reg_step request release other x s)"
proof (cases x)
  case (Req c)
  assume inv: "reg_inv key s"
  obtain r h s' where q: "request c s = ((r, h), s')" by (metis prod.exhaust)
  show ?thesis
  proof (cases "r = S_OK")
    case True
    with request_ok [of c s h s'] q obtain c' where
      "key c \<notin> key ` snd ` set (nodes s)" "h \<noteq> 0" "h \<notin> fst ` set (nodes s)" "key c' = key c"
      "nodes s' = nodes s @ [(h, c')]" by auto
    with inv q Req show ?thesis by (auto simp: reg_inv_def image_comp)
  next
    case False
    with request_fail [OF q] inv q Req show ?thesis by (simp add: reg_inv_def)
  qed
next
  case (Rel h)
  assume inv: "reg_inv key s"
  obtain r s' where "release h s = (r, s')" by fastforce
  with release_cases [of h s r s'] inv Rel show ?thesis
    by (auto simp: reg_inv_def distinct_map_filter)
qed (simp add: reg_inv_def other_nodes)

lemma run_inv: "reg_inv key s \<Longrightarrow> reg_inv key (fold (reg_step request release other) xs s)"
  by (induction xs arbitrary: s) (auto simp: step_inv)

text \<open>A device that was granted stays granted, to the same handle, until its release.\<close>

lemma step_keeps:
  assumes "(h, c) \<in> set (nodes s)" and "x \<noteq> Rel h"
  shows "(h, c) \<in> set (nodes (reg_step request release other x s))"
proof (cases x)
  case (Req d)
  obtain r k s' where q: "request d s = ((r, k), s')" by (metis prod.exhaust)
  with request_ok(4) [of d s k s'] request_fail [OF q] assms Req show ?thesis
    by (cases "r = S_OK") auto
next
  case (Rel k)
  obtain r s' where "release k s = (r, s')" by fastforce
  with release_cases [of k s r s'] assms Rel show ?thesis by auto
qed (use assms in \<open>simp add: other_nodes\<close>)

lemma run_keeps:
  "(h, c) \<in> set (nodes s) \<Longrightarrow> Rel h \<notin> set xs \<Longrightarrow>
    (h, c) \<in> set (nodes (fold (reg_step request release other) xs s))"
  by (induction xs arbitrary: s) (auto simp: step_keeps)

lemma busy_until_release:
  assumes "request c s = ((S_OK, h), s')" and "Rel h \<notin> set xs" and "key d = key c"
  shows "fst (request d (fold (reg_step request release other) xs s')) = (E_BUSY, 0)"
proof -
  obtain c' where c': "key c' = key c" "(h, c') \<in> set (nodes s')"
    using request_ok(4) [OF assms(1)] by auto
  from run_keeps [OF c'(2) assms(2)] have "key d \<in> key ` snd ` set (nodes (fold (reg_step request release other) xs s'))"
    using c'(1) assms(3) by (metis image_eqI snd_conv)
  then show ?thesis by (simp add: request_busy)
qed

text \<open>After a release the handle is dead, and the device is free again.\<close>

lemma release_dead:
  assumes "release h s = (S_OK, s')"
  shows "release h s' = (E_BAD_ARGS, s')"
  using release_cases [OF assms] by (intro release_bad) (auto simp: node_get_None)

lemma held_request:
  assumes "request c s = ((S_OK, h), s')"
  shows "held key s (key c) = None" "held key s' = (held key s)(key c \<mapsto> h)"
proof -
  have none: "map_of (map (\<lambda>(h, c). (key c, h)) (nodes s)) (key c) = None"
    using request_ok(1) [OF assms] by (force simp: map_of_eq_None_iff)
  then show "held key s (key c) = None" by (simp add: held_def)
  show "held key s' = (held key s)(key c \<mapsto> h)"
    using request_ok(4) [OF assms] none
    by (auto simp: held_def map_add_def fun_eq_iff split: option.splits)
qed

lemma held_release:
  assumes "release h s = (S_OK, s')" and "reg_inv key s"
  shows "held key s' = (\<lambda>k. if held key s k = Some h then None else held key s k)"
proof -
  have "map_of (map (\<lambda>(h, c). (key c, h)) (filter (\<lambda>(b, c). b \<noteq> h) l)) k =
      (if map_of (map (\<lambda>(h, c). (key c, h)) l) k = Some h then None
       else map_of (map (\<lambda>(h, c). (key c, h)) l) k)"
    if "distinct (map fst l)" "distinct (map (key \<circ> snd) l)" for l :: "(addr \<times> 'c) list" and k
    using that
  proof (induction l)
    case (Cons x l)
    obtain b c where x: "x = (b, c)" by force
    show ?case
    proof (cases "key c = k")
      case True
      then have "map_of (map (\<lambda>(h, c). (key c, h)) l) k = None"
        using Cons.prems x by (force simp: map_of_eq_None_iff)
      with True Cons x show ?thesis by auto
    next
      case False
      with Cons x show ?thesis by auto
    qed
  qed simp
  with release_cases [OF assms(1)] assms(2) show ?thesis
    by (auto simp: held_def reg_inv_def fun_eq_iff)
qed

end

end
