(* ===== verification/Module_Manager.thy ===== *)
theory Module_Manager
  imports Prelude
begin

text \<open>
  The module manager of the Linux build: \<^verbatim>\<open>base/module/linux_module.c\<close> and the module tables of
  \<^verbatim>\<open>inc/base/platform\<close>.  It loads the shared object of a module on the first request, hands the
  module's table of operations out, and unloads the object with the last release.  The dynamic
  linker, the allocator and the device tree are arguments of the operations.  \<^term>\<open>None\<close> is an
  access through a NULL or unmapped pointer.
\<close>

section \<open>Platforms and their modules\<close>

datatype artik_module_id_t =
    ARTIK_MODULE_LOG | ARTIK_MODULE_LOOP | ARTIK_MODULE_GPIO | ARTIK_MODULE_I2C | ARTIK_MODULE_SERIAL
  | ARTIK_MODULE_PWM | ARTIK_MODULE_ADC | ARTIK_MODULE_HTTP | ARTIK_MODULE_CLOUD | ARTIK_MODULE_WIFI
  | ARTIK_MODULE_MEDIA | ARTIK_MODULE_TIME | ARTIK_MODULE_SECURITY | ARTIK_MODULE_SPI
  | ARTIK_MODULE_BLUETOOTH | ARTIK_MODULE_SENSOR | ARTIK_MODULE_ZIGBEE | ARTIK_MODULE_NETWORK
  | ARTIK_MODULE_WEBSOCKET | ARTIK_MODULE_LWM2M | ARTIK_MODULE_MQTT | ARTIK_MODULE_UTILS
  | ARTIK_MODULE_COAP

record artik_api_module =
  am_id :: artik_module_id_t
  am_name :: string
  am_object :: string

abbreviation (input) am :: "artik_module_id_t \<Rightarrow> string \<Rightarrow> string \<Rightarrow> artik_api_module" where
  "am i n obj \<equiv> \<lparr>am_id = i, am_name = n, am_object = obj\<rparr>"

text \<open>The tables, without the closing entry.  Five platforms have the generic table.\<close>

definition artik_api_generic_modules :: "artik_api_module list" where
  "artik_api_generic_modules =
    [am ARTIK_MODULE_LOG ''log'' ''base'', am ARTIK_MODULE_LOOP ''loop'' ''base'',
     am ARTIK_MODULE_UTILS ''utils'' ''base'', am ARTIK_MODULE_GPIO ''gpio'' ''systemio'',
     am ARTIK_MODULE_I2C ''i2c'' ''systemio'', am ARTIK_MODULE_SERIAL ''serial'' ''systemio'',
     am ARTIK_MODULE_PWM ''pwm'' ''systemio'', am ARTIK_MODULE_ADC ''adc'' ''systemio'',
     am ARTIK_MODULE_HTTP ''http'' ''connectivity'', am ARTIK_MODULE_CLOUD ''cloud'' ''connectivity'',
     am ARTIK_MODULE_WIFI ''wifi'' ''wifi'', am ARTIK_MODULE_MEDIA ''media'' ''media'',
     am ARTIK_MODULE_TIME ''time'' ''base'', am ARTIK_MODULE_SECURITY ''security'' ''base'',
     am ARTIK_MODULE_SPI ''spi'' ''systemio'', am ARTIK_MODULE_BLUETOOTH ''bluetooth'' ''bluetooth'',
     am ARTIK_MODULE_SENSOR ''sensor'' ''sensor'', am ARTIK_MODULE_ZIGBEE ''zigbee'' ''zigbee'',
     am ARTIK_MODULE_NETWORK ''network'' ''connectivity'',
     am ARTIK_MODULE_WEBSOCKET ''websocket'' ''connectivity'',
     am ARTIK_MODULE_LWM2M ''lwm2m'' ''lwm2m'', am ARTIK_MODULE_MQTT ''mqtt'' ''mqtt'',
     am ARTIK_MODULE_COAP ''coap'' ''coap'']"

definition artik_api_a520_modules :: "artik_api_module list" where
  "artik_api_a520_modules = artik_api_generic_modules"
definition artik_api_a1020_modules :: "artik_api_module list" where
  "artik_api_a1020_modules = artik_api_generic_modules"
definition artik_api_a710_modules :: "artik_api_module list" where
  "artik_api_a710_modules = artik_api_generic_modules"
definition artik_api_a530_modules :: "artik_api_module list" where
  "artik_api_a530_modules = artik_api_generic_modules"
definition artik_api_a305_modules :: "artik_api_module list" where
  "artik_api_a305_modules = artik_api_generic_modules"

text \<open>The Eagleye 530 has no sensor module.\<close>

definition artik_api_eagleye530_modules :: "artik_api_module list" where
  "artik_api_eagleye530_modules = filter (\<lambda>m. am_id m \<noteq> ARTIK_MODULE_SENSOR) artik_api_generic_modules"

text \<open>\<^verbatim>\<open>artik_api_modules\<close>, indexed by platform; the entry of the ARTIK 05x is \<^verbatim>\<open>NULL\<close>.\<close>

definition artik_api_modules :: "artik_api_module list option list" where
  "artik_api_modules =
    [Some artik_api_generic_modules, Some artik_api_a520_modules, Some artik_api_a1020_modules,
     Some artik_api_a710_modules, Some artik_api_a530_modules, None,
     Some artik_api_a305_modules, Some artik_api_eagleye530_modules]"

definition artik_platform_name :: "string list" where
  "artik_platform_name =
    [''Generic'', ''ARTIK 520'', ''ARTIK 1020'', ''ARTIK 710'', ''ARTIK 530'', ''ARTIK 05x'',
     ''ARTIK 305'', ''Eagleye530'']"

definition modules_of :: "int \<Rightarrow> artik_api_module list option" where
  "modules_of platid =
     (if 0 \<le> platid \<and> nat platid < length artik_api_modules then artik_api_modules ! nat platid else None)"

section \<open>State\<close>

text \<open>
  A node of \<^verbatim>\<open>requested_node\<close> with its \<^verbatim>\<open>info\<close>; a fresh node is zero.  \<open>strs\<close> holds the name
  blocks of the heap, \<open>opens\<close> how often each shared object is open.
\<close>

record artik_module_info =
  mi_name :: addr
  mi_handle :: addr
  mi_symbol :: addr

record mod_state =
  artik_platform_id :: int
  requested :: "artik_module_info list"
  strs :: "(addr \<times> string) list"
  opens :: "addr \<Rightarrow> int"

definition init_modules :: mod_state where
  "init_modules = \<lparr>artik_platform_id = -1, requested = [], strs = [], opens = (\<lambda>_. 0)\<rparr>"

text \<open>
  The environment of one call: the line read from the device tree (\<^term>\<open>None\<close> when the file cannot
  be opened, \<open>Some None\<close> when nothing can be read), the dynamic linker (\<^verbatim>\<open>dlopen\<close> returns 0 on
  failure, \<^verbatim>\<open>dlsym\<close> \<^term>\<open>None\<close> when \<^verbatim>\<open>dlerror\<close> reports one), the first word at an address, and the
  two allocations: of the node, and of a name given the blocks in use.
\<close>

record sysenv =
  model :: "string option option"
  dlopen :: "string \<Rightarrow> addr"
  dlsym :: "addr \<Rightarrow> string \<Rightarrow> addr option"
  first_word :: "addr \<Rightarrow> addr option"
  node_ok :: bool
  malloc_name :: "addr list \<Rightarrow> addr"

section \<open>Platform detection\<close>

fun strstr :: "string \<Rightarrow> string \<Rightarrow> bool" where
  "strstr [] needle = (needle = [])"
| "strstr (c # cs) needle = (take (length needle) (c # cs) = needle \<or> strstr cs needle)"

definition platform_of_line :: "string \<Rightarrow> int" where
  "platform_of_line line =
     (if strstr line ''ARTIK5'' then 1
      else if strstr line ''ARTIK10'' then 2
      else if strstr line ''artik710'' then 3
      else if strstr line ''compy'' then 7
      else if strstr line ''artik530'' then 4
      else if strstr line ''artik305'' then 6
      else 0)"

definition os_get_platform :: "sysenv \<Rightarrow> mod_state \<Rightarrow> int \<times> mod_state" where
  "os_get_platform e s =
     (if 0 \<le> artik_platform_id s then (artik_platform_id s, s)
      else case model e of
        None \<Rightarrow> (-1, s)
      | Some None \<Rightarrow> (artik_platform_id s, s)
      | Some (Some line) \<Rightarrow>
          let s = s\<lparr>artik_platform_id := platform_of_line (take 255 line)\<rparr>
          in (artik_platform_id s, s))"

text \<open>The caller's buffer is returned; \<^verbatim>\<open>name\<close> and the two pointers may be \<^verbatim>\<open>NULL\<close>.\<close>

definition os_get_platform_name :: "sysenv \<Rightarrow> bool \<Rightarrow> mod_state \<Rightarrow> (artik_error \<times> string option) \<times> mod_state" where
  "os_get_platform_name e name s =
     (let (platid, s) = os_get_platform e s
      in if platid < 0 then ((E_NOT_SUPPORTED, None), s)
         else if \<not> name then ((E_BAD_ARGS, None), s)
         else ((S_OK, Some (take 64 (artik_platform_name ! nat platid))), s))"

definition os_get_available_modules ::
  "sysenv \<Rightarrow> bool \<Rightarrow> mod_state \<Rightarrow> ((artik_error \<times> (artik_api_module list \<times> nat) option) \<times> mod_state) option" where
  "os_get_available_modules e ptrs s =
     (let (platid, s) = os_get_platform e s
      in if platid < 0 then Some ((E_NOT_SUPPORTED, None), s)
         else if \<not> ptrs then Some ((E_BAD_ARGS, None), s)
         else case modules_of platid of
           None \<Rightarrow> None
         | Some ms \<Rightarrow> Some ((S_OK, Some (ms, length ms)), s))"

definition os_is_module_available :: "sysenv \<Rightarrow> artik_module_id_t \<Rightarrow> mod_state \<Rightarrow> (bool \<times> mod_state) option" where
  "os_is_module_available e i s =
     (let (platid, s) = os_get_platform e s
      in if platid < 0 then Some (False, s)
         else case modules_of platid of
           None \<Rightarrow> None
         | Some ms \<Rightarrow> Some (list_ex (\<lambda>m. am_id m = i) ms, s))"

definition os_get_api_version :: "nat \<times> nat \<times> nat \<Rightarrow> bool \<Rightarrow> artik_error \<times> string option" where
  "os_get_api_version v version =
     (if \<not> version then (E_BAD_ARGS, None)
      else case v of (ma, mi, pa) \<Rightarrow>
        (S_OK, Some (snprintf 16 (dec_nat ma @ ''.'' @ dec_nat mi @ ''.'' @ dec_nat pa))))"


section \<open>Requesting a module\<close>

text \<open>
  The searches of \<^verbatim>\<open>artik_list_get_by_check\<close> with the two comparison functions: the name asked for
  is compared as a prefix of a node's name, a table of operations by its first word.
\<close>

fun find_name :: "(addr \<times> string) list \<Rightarrow> string \<Rightarrow> artik_module_info list \<Rightarrow> artik_module_info option option" where
  "find_name blocks name [] = Some None"
| "find_name blocks name (n # ns) =
     (case map_of blocks (mi_name n) of
        None \<Rightarrow> None
      | Some s \<Rightarrow> if strncmp_eq (length name) s name then Some (Some n) else find_name blocks name ns)"

fun find_ops :: "sysenv \<Rightarrow> addr \<Rightarrow> artik_module_info list \<Rightarrow> artik_module_info option option" where
  "find_ops e target [] = Some None"
| "find_ops e target (n # ns) =
     (case (first_word e (mi_symbol n), first_word e target) of
        (Some a, Some b) \<Rightarrow> if a = b then Some (Some n) else find_ops e target ns
      | _ \<Rightarrow> None)"

fun del_ops :: "sysenv \<Rightarrow> addr \<Rightarrow> artik_module_info list \<Rightarrow> artik_module_info list option" where
  "del_ops e target [] = Some []"
| "del_ops e target (n # ns) =
     (case (first_word e (mi_symbol n), first_word e target) of
        (Some a, Some b) \<Rightarrow> if a = b then Some ns else map_option ((#) n) (del_ops e target ns)
      | _ \<Rightarrow> None)"

definition so_path :: "nat \<times> nat \<times> nat \<Rightarrow> artik_api_module \<Rightarrow> string" where
  "so_path v m =
     (case v of (ma, mi, pa) \<Rightarrow>
        snprintf 1024 (''libartik-sdk-'' @ am_object m @ ''.so.'' @
          dec_nat ma @ ''.'' @ dec_nat mi @ ''.'' @ dec_nat pa))"

definition dl_opened :: "addr \<Rightarrow> mod_state \<Rightarrow> mod_state" where
  "dl_opened h s = s\<lparr>opens := (opens s)(h := opens s h + 1)\<rparr>"

definition dlclose :: "addr \<Rightarrow> mod_state \<Rightarrow> mod_state" where
  "dlclose h s = s\<lparr>opens := (opens s)(h := opens s h - 1)\<rparr>"

text \<open>
  From the label \<^verbatim>\<open>exit\<close> on: the name is allocated unless a node has it already, then the fresh
  last node is filled in.  The result \<^term>\<open>None\<close> stands for \<^verbatim>\<open>INVALID_MODULE\<close>.
\<close>

definition finish_request ::
  "sysenv \<Rightarrow> string \<Rightarrow> addr \<Rightarrow> addr \<Rightarrow> addr \<Rightarrow> mod_state \<Rightarrow> addr option \<times> mod_state" where
  "finish_request e name mname handle symbol s =
     (let fill = (\<lambda>a s. s\<lparr>requested := butlast (requested s) @
                   [\<lparr>mi_name = a, mi_handle = handle, mi_symbol = symbol\<rparr>]\<rparr>)
      in if mname \<noteq> 0 then (Some symbol, fill mname s)
         else
           let a = malloc_name e (map fst (strs s))
           in if a = 0 \<or> a \<in> fst ` set (strs s) then (None, dlclose handle s)
              else (Some symbol, fill a (s\<lparr>strs := (a, name) # strs s\<rparr>)))"

definition load_module ::
  "sysenv \<Rightarrow> nat \<times> nat \<times> nat \<Rightarrow> artik_api_module \<Rightarrow> string \<Rightarrow> artik_module_info option \<Rightarrow> mod_state \<Rightarrow>
    addr option \<times> mod_state" where
  "load_module e v m name found s =
     (let mname = (case found of None \<Rightarrow> 0 | Some n \<Rightarrow> mi_name n);
          handle = (case found of None \<Rightarrow> 0 | Some n \<Rightarrow> mi_handle n)
      in if \<not> node_ok e then (None, s)
         else
           let s = s\<lparr>requested := requested s @ [\<lparr>mi_name = 0, mi_handle = 0, mi_symbol = 0\<rparr>]\<rparr>
           in if handle \<noteq> 0 then finish_request e name mname handle (mi_symbol (the found)) s
              else
                let h = dlopen e (so_path v m)
                in if h = 0 then (None, s)
                   else case dlsym e h (snprintf 1024 (name @ ''_module'')) of
                     None \<Rightarrow> (None, dlclose h (dl_opened h s))
                   | Some symbol \<Rightarrow> finish_request e name mname h symbol (dl_opened h s))"

definition os_request_api_module ::
  "sysenv \<Rightarrow> nat \<times> nat \<times> nat \<Rightarrow> string option \<Rightarrow> mod_state \<Rightarrow> (addr option \<times> mod_state) option" where
  "os_request_api_module e v name s =
     (let (platid, s) = os_get_platform e s
      in case name of
        None \<Rightarrow> Some (None, s)
      | Some name \<Rightarrow>
          if platid < 0 then Some (None, s)
          else case modules_of platid of
            None \<Rightarrow> None
          | Some ms \<Rightarrow>
              (case find (\<lambda>m. strncmp_eq 32 (am_name m) name) ms of
                 None \<Rightarrow> Some (None, s)
               | Some m \<Rightarrow>
                   (case find_name (strs s) name (requested s) of
                      None \<Rightarrow> None
                    | Some found \<Rightarrow> Some (load_module e v m name found s))))"

section \<open>Releasing a module\<close>

text \<open>\<^verbatim>\<open>free\<close> of a name; a block that is not allocated is an error.\<close>

definition free_name :: "addr \<Rightarrow> mod_state \<Rightarrow> mod_state option" where
  "free_name a s =
     (if a = 0 then Some s
      else if a \<in> fst ` set (strs s) then Some (s\<lparr>strs := filter (\<lambda>(b, n). b \<noteq> a) (strs s)\<rparr>)
      else None)"

definition os_release_api_module :: "sysenv \<Rightarrow> addr \<Rightarrow> mod_state \<Rightarrow> (artik_error \<times> mod_state) option" where
  "os_release_api_module e module s =
     (if module = 0 then Some (E_BAD_ARGS, s)
      else case find_ops e module (requested s) of
        None \<Rightarrow> None
      | Some None \<Rightarrow> Some (E_BAD_ARGS, s)
      | Some (Some node) \<Rightarrow>
          (case del_ops e module (requested s) of
             None \<Rightarrow> None
           | Some ns \<Rightarrow>
               (let s = s\<lparr>requested := ns\<rparr>
                in case find_ops e module ns of
                     None \<Rightarrow> None
                   | Some (Some _) \<Rightarrow> Some (S_OK, s)
                   | Some None \<Rightarrow>
                       (case free_name (mi_name node) s of
                          None \<Rightarrow> None
                        | Some s \<Rightarrow> Some (S_OK, dlclose (mi_handle node) s)))))"

section \<open>The tables\<close>

text \<open>
  Names are short and no name of a table is a prefix of another, so the comparison by prefix finds
  the right node.
\<close>

definition names_ok :: "artik_api_module list \<Rightarrow> bool" where
  "names_ok ms \<longleftrightarrow> list_all (\<lambda>m. length (am_name m) < 32 \<and>
     list_all (\<lambda>m'. take (length (am_name m)) (am_name m') = am_name m \<longrightarrow> m = m') ms) ms"

lemma names_ok_generic: "names_ok artik_api_generic_modules"
  by code_simp

lemma names_ok_filter: "names_ok ms \<Longrightarrow> names_ok (filter P ms)"
  by (auto simp: names_ok_def list_all_iff)

lemma names_ok_modules_of: "modules_of p = Some ms \<Longrightarrow> names_ok ms"
proof -
  assume "modules_of p = Some ms"
  then have "Some ms \<in> set artik_api_modules"
    by (auto simp: modules_of_def split: if_splits) (metis nth_mem)
  then show ?thesis
    by (auto simp: artik_api_modules_def artik_api_a520_modules_def artik_api_a1020_modules_def
        artik_api_a710_modules_def artik_api_a530_modules_def artik_api_a305_modules_def
        artik_api_eagleye530_modules_def names_ok_generic names_ok_filter)
qed

lemma names_okD:
  "names_ok ms \<Longrightarrow> m \<in> set ms \<Longrightarrow> m' \<in> set ms \<Longrightarrow> strncmp_eq (length (am_name m)) (am_name m') (am_name m) \<longleftrightarrow> m' = m"
  by (auto simp: names_ok_def list_all_iff strncmp_eq_def)

lemma names_ok_inj: "names_ok ms \<Longrightarrow> m \<in> set ms \<Longrightarrow> m' \<in> set ms \<Longrightarrow> am_name m = am_name m' \<Longrightarrow> m = m'"
  using names_okD [of ms m m'] by simp

lemma names_ok_find:
  assumes "names_ok ms" and "m \<in> set ms"
  shows "find (\<lambda>x. strncmp_eq 32 (am_name x) (am_name m)) ms = Some m"
proof -
  have "strncmp_eq 32 (am_name x) (am_name m) \<longleftrightarrow> x = m" if "x \<in> set ms" for x
    using assms that names_ok_inj [OF assms(1) that assms(2)]
    by (auto simp: names_ok_def list_all_iff strncmp_eq_length)
  with assms(2) show ?thesis
    by (induction ms) (auto split: if_splits)
qed


section \<open>The abstract view: a list of modules in use\<close>

definition symbol_of :: "sysenv \<Rightarrow> nat \<times> nat \<times> nat \<Rightarrow> artik_api_module \<Rightarrow> addr option" where
  "symbol_of e v m = dlsym e (dlopen e (so_path v m)) (snprintf 1024 (am_name m @ ''_module''))"

text \<open>
  A linker and an allocator that work: every object of the table can be opened and has the
  module's table of operations, whose first entries tell the modules apart.
\<close>

definition loader_ok :: "sysenv \<Rightarrow> nat \<times> nat \<times> nat \<Rightarrow> artik_api_module list \<Rightarrow> bool" where
  "loader_ok e v ms \<longleftrightarrow>
     node_ok e \<and> (\<forall>used. malloc_name e used \<noteq> 0 \<and> malloc_name e used \<notin> set used) \<and>
     (\<forall>m \<in> set ms. dlopen e (so_path v m) \<noteq> 0 \<and>
        (\<exists>a w. symbol_of e v m = Some a \<and> a \<noteq> 0 \<and> first_word e a = Some w)) \<and>
     inj_on (\<lambda>m. Option.bind (symbol_of e v m) (first_word e)) (set ms)"

definition info_for :: "sysenv \<Rightarrow> nat \<times> nat \<times> nat \<Rightarrow> (addr \<times> string) list \<Rightarrow> artik_api_module \<Rightarrow> artik_module_info" where
  "info_for e v blocks m =
     \<lparr>mi_name = (case find (\<lambda>(a, n). n = am_name m) blocks of None \<Rightarrow> 0 | Some (a, n) \<Rightarrow> a),
      mi_handle = dlopen e (so_path v m), mi_symbol = the (symbol_of e v m)\<rparr>"

text \<open>The state holds the modules \<open>xs\<close>, in the order of their requests.\<close>

definition mod_rep ::
  "sysenv \<Rightarrow> nat \<times> nat \<times> nat \<Rightarrow> artik_api_module list \<Rightarrow> mod_state \<Rightarrow> artik_api_module list \<Rightarrow> bool" where
  "mod_rep e v ms s xs \<longleftrightarrow>
     modules_of (artik_platform_id s) = Some ms \<and> set xs \<subseteq> set ms \<and>
     requested s = map (info_for e v (strs s)) xs \<and>
     distinct (map fst (strs s)) \<and> distinct (map snd (strs s)) \<and> 0 \<notin> fst ` set (strs s) \<and>
     snd ` set (strs s) = am_name ` set xs \<and>
     (\<forall>h. opens s h = int (card {m \<in> set xs. dlopen e (so_path v m) = h}))"

datatype mod_op = ReqMod string | RelMod addr

fun mod_step :: "sysenv \<Rightarrow> nat \<times> nat \<times> nat \<Rightarrow> mod_op \<Rightarrow> mod_state \<Rightarrow> mod_state option" where
  "mod_step e v (ReqMod name) s = map_option snd (os_request_api_module e v (Some name) s)"
| "mod_step e v (RelMod a) s = map_option snd (os_release_api_module e a s)"

definition owner :: "sysenv \<Rightarrow> nat \<times> nat \<times> nat \<Rightarrow> addr \<Rightarrow> artik_api_module \<Rightarrow> bool" where
  "owner e v a m \<longleftrightarrow> Option.bind (symbol_of e v m) (first_word e) = first_word e a"

fun use_step :: "sysenv \<Rightarrow> nat \<times> nat \<times> nat \<Rightarrow> artik_api_module list \<Rightarrow> mod_op \<Rightarrow>
    artik_api_module list \<Rightarrow> artik_api_module list" where
  "use_step e v ms (ReqMod name) xs =
     (case find (\<lambda>m. strncmp_eq 32 (am_name m) name) ms of None \<Rightarrow> xs | Some m \<Rightarrow> xs @ [m])"
| "use_step e v ms (RelMod a) xs =
     (if a = 0 then xs else case find (owner e v a) xs of None \<Rightarrow> xs | Some m \<Rightarrow> remove1 m xs)"

text \<open>Names and their blocks.\<close>

lemma info_for_simps [simp]:
  "mi_handle (info_for e v b m) = dlopen e (so_path v m)"
  "mi_symbol (info_for e v b m) = the (symbol_of e v m)"
  by (simp_all add: info_for_def)

lemma find_snd: "distinct (map snd b) \<Longrightarrow> (a, n) \<in> set b \<Longrightarrow> find (\<lambda>(a, k). k = n) b = Some (a, n)"
  by (induction b) (auto simp: rev_image_eqI)

lemma name_block:
  assumes "distinct (map fst b)" and "distinct (map snd b)" and "am_name m \<in> snd ` set b"
  shows "(mi_name (info_for e v b m), am_name m) \<in> set b"
    and "map_of b (mi_name (info_for e v b m)) = Some (am_name m)"
proof -
  from assms(3) obtain a where a: "(a, am_name m) \<in> set b" by auto
  with find_snd [OF assms(2)] have "mi_name (info_for e v b m) = a" by (simp add: info_for_def)
  with a show "(mi_name (info_for e v b m), am_name m) \<in> set b" by simp
  with assms(1) show "map_of b (mi_name (info_for e v b m)) = Some (am_name m)" by simp
qed

lemma info_for_cong:
  "find (\<lambda>(a, n). n = am_name m) b = find (\<lambda>(a, n). n = am_name m) b' \<Longrightarrow> info_for e v b m = info_for e v b' m"
  by (simp add: info_for_def)

lemma find_filter_snd:
  "distinct (map snd b) \<Longrightarrow> (a, k) \<in> set b \<Longrightarrow> distinct (map fst b) \<Longrightarrow> n \<noteq> k \<Longrightarrow>
    find (\<lambda>(a, x). x = n) (filter (\<lambda>(c, x). c \<noteq> a) b) = find (\<lambda>(a, x). x = n) b"
proof (induction b)
  case (Cons p b)
  obtain c x where p: "p = (c, x)" by force
  show ?case
  proof (cases "c = a")
    case True
    with Cons.prems p have "x = k" "\<forall>(c, x) \<in> set b. c \<noteq> a" by (auto simp: rev_image_eqI)
    then have "filter (\<lambda>(c, x). c \<noteq> a) b = b" by (auto simp: filter_id_conv)
    with True p \<open>x = k\<close> Cons.prems(4) show ?thesis by simp
  next
    case False
    with Cons p show ?thesis by auto
  qed
qed simp

lemma find_name_rep:
  assumes "names_ok ms" and "set xs \<subseteq> set ms" and "m \<in> set ms"
    and "distinct (map fst b)" and "distinct (map snd b)" and "am_name ` set xs \<subseteq> snd ` set b"
  shows "find_name b (am_name m) (map (info_for e v b) xs) =
    Some (if m \<in> set xs then Some (info_for e v b m) else None)"
  using assms(2,6)
proof (induction xs)
  case (Cons x xs)
  then have "map_of b (mi_name (info_for e v b x)) = Some (am_name x)"
    by (intro name_block(2) [OF assms(4,5)]) auto
  moreover have "strncmp_eq (length (am_name m)) (am_name x) (am_name m) \<longleftrightarrow> x = m"
    using names_okD [OF assms(1,3)] Cons.prems(1) by simp
  ultimately show ?case using Cons by auto
qed simp

lemma loader_okD:
  assumes "loader_ok e v ms" and "m \<in> set ms"
  obtains c k where "symbol_of e v m = Some c" "c \<noteq> 0" "first_word e c = Some k"
    "dlopen e (so_path v m) \<noteq> 0"
  using assms by (auto simp: loader_ok_def)

lemma find_ops_rep:
  assumes "loader_ok e v ms" and "set xs \<subseteq> set ms" and "first_word e a = Some w"
  shows "find_ops e a (map (info_for e v b) xs) = Some (map_option (info_for e v b) (find (owner e v a) xs))"
  using assms(2)
proof (induction xs)
  case (Cons x xs)
  then have "x \<in> set ms" by simp
  from loader_okD [OF assms(1) this] obtain c k where
    "symbol_of e v x = Some c" "first_word e c = Some k" by blast
  then show ?case using Cons assms(3) by (simp add: owner_def)
qed simp

lemma del_ops_rep:
  assumes "loader_ok e v ms" and "set xs \<subseteq> set ms" and "first_word e a = Some w"
  shows "del_ops e a (map (info_for e v b) xs) =
      Some (map (info_for e v b) (case find (owner e v a) xs of None \<Rightarrow> xs | Some m \<Rightarrow> remove1 m xs))"
  using assms(2)
proof (induction xs)
  case (Cons x xs)
  then have "x \<in> set ms" by simp
  from loader_okD [OF assms(1) this] obtain c k where x:
    "symbol_of e v x = Some c" "first_word e c = Some k" by blast
  have o: "owner e v a x \<longleftrightarrow> k = w" using x assms(3) by (simp add: owner_def)
  have ne: "find (owner e v a) xs = Some m \<Longrightarrow> \<not> owner e v a x \<Longrightarrow> m \<noteq> x" for m
    by (auto simp: find_Some_iff)
  show ?case
  proof (cases "k = w")
    case True
    with Cons x o assms(3) show ?thesis by simp
  next
    case False
    with Cons x o assms(3) show ?thesis by (auto split: option.splits dest: ne)
  qed
qed simp

text \<open>The two operations keep the view.\<close>

lemma mod_rep_platform:
  "mod_rep e v ms s xs \<Longrightarrow> os_get_platform e' s = (artik_platform_id s, s) \<and> 0 \<le> artik_platform_id s"
  by (auto simp: mod_rep_def modules_of_def os_get_platform_def split: if_splits)

lemma names_ok_find_eq:
  assumes "names_ok ms" and "find (\<lambda>m. strncmp_eq 32 (am_name m) name) ms = Some m"
  shows "m \<in> set ms \<and> name = am_name m"
proof -
  have m: "m \<in> set ms" "strncmp_eq 32 (am_name m) name" using find_Some_in [OF assms(2)] by auto
  then have "length (am_name m) < 32" using assms(1) by (auto simp: names_ok_def list_all_iff)
  with m have "am_name m = take 32 name" by (simp add: strncmp_eq_def)
  moreover from this have "length name < 32" using \<open>length (am_name m) < 32\<close> by (simp add: min_def split: if_splits)
  ultimately show ?thesis using m(1) by simp
qed

lemma request_rep:
  assumes "loader_ok e v ms" and "names_ok ms" and "mod_rep e v ms s xs" and "m \<in> set ms"
  shows "\<exists>s'. os_request_api_module e v (Some (am_name m)) s = Some (symbol_of e v m, s') \<and> mod_rep e v ms s' (xs @ [m])"
proof -
  obtain c k where c: "symbol_of e v m = Some c" "c \<noteq> 0" "first_word e c = Some k"
    "dlopen e (so_path v m) \<noteq> 0" using loader_okD [OF assms(1,4)] by blast
  have plat: "os_get_platform e s = (artik_platform_id s, s)" "\<not> artik_platform_id s < 0"
    using mod_rep_platform [OF assms(3), of e] by simp_all
  have rep: "modules_of (artik_platform_id s) = Some ms" "set xs \<subseteq> set ms"
    "requested s = map (info_for e v (strs s)) xs" "distinct (map fst (strs s))" "distinct (map snd (strs s))"
    "0 \<notin> fst ` set (strs s)" "snd ` set (strs s) = am_name ` set xs"
    "\<And>h. opens s h = int (card {m \<in> set xs. dlopen e (so_path v m) = h})"
    using assms(3) by (auto simp: mod_rep_def)
  have found: "find_name (strs s) (am_name m) (requested s) =
      Some (if m \<in> set xs then Some (info_for e v (strs s) m) else None)"
    unfolding rep(3) using rep by (intro find_name_rep [OF assms(2) _ assms(4)]) simp_all
  have req: "os_request_api_module e v (Some (am_name m)) s =
      Some (load_module e v m (am_name m) (if m \<in> set xs then Some (info_for e v (strs s) m) else None) s)"
    using plat rep(1) found names_ok_find [OF assms(2,4)] by (simp add: os_request_api_module_def)
  show ?thesis
  proof (cases "m \<in> set xs")
    case True
    let ?s = "s\<lparr>requested := requested s @ [info_for e v (strs s) m]\<rparr>"
    have "(mi_name (info_for e v (strs s) m), am_name m) \<in> set (strs s)"
      using True rep by (intro name_block) auto
    then have nz: "mi_name (info_for e v (strs s) m) \<noteq> 0" using rep(6) by force
    have "load_module e v m (am_name m) (Some (info_for e v (strs s) m)) s = (Some c, ?s)"
      using assms(1) c nz by (simp add: load_module_def finish_request_def loader_ok_def Let_def info_for_def)
    moreover have "set (xs @ [m]) = set xs" using True by auto
    then have "mod_rep e v ms ?s (xs @ [m])" using rep by (simp add: mod_rep_def)
    ultimately show ?thesis using req True c(1) by simp
  next
    case False
    define a where "a = malloc_name e (map fst (strs s))"
    have "a \<noteq> 0 \<and> a \<notin> set (map fst (strs s)) \<and> node_ok e"
      using assms(1) by (simp only: loader_ok_def a_def simp_thms)
    then have a: "a \<noteq> 0" "a \<notin> fst ` set (strs s)" "node_ok e" by simp_all
    let ?b = "(a, am_name m) # strs s"
    let ?s = "(dl_opened (dlopen e (so_path v m)) s)\<lparr>requested := requested s @ [info_for e v ?b m], strs := ?b\<rparr>"
    have "load_module e v m (am_name m) None s = (Some c, ?s)"
      using a c by (simp add: load_module_def finish_request_def Let_def info_for_def symbol_of_def
          a_def [symmetric] dl_opened_def)
    moreover have new: "am_name m \<notin> am_name ` set xs"
      using False names_ok_inj [OF assms(2,4)] rep(2) by auto
    then have infos: "map (info_for e v (strs s)) xs = map (info_for e v ?b) xs"
      by (intro map_cong refl info_for_cong) auto
    have opens: "opens ?s h = int (card {x \<in> set (xs @ [m]). dlopen e (so_path v x) = h})" for h
    proof -
      have "{x \<in> set (xs @ [m]). dlopen e (so_path v x) = h} =
          (if dlopen e (so_path v m) = h then insert m {x \<in> set xs. dlopen e (so_path v x) = h}
           else {x \<in> set xs. dlopen e (so_path v x) = h})" by auto
      with False rep(8) show ?thesis by (simp add: dl_opened_def)
    qed
    have "mod_rep e v ms ?s (xs @ [m])"
      unfolding mod_rep_def
    proof (intro conjI allI)
      show "requested ?s = map (info_for e v (strs ?s)) (xs @ [m])" using rep(3) infos by simp
      show "modules_of (artik_platform_id ?s) = Some ms" using rep(1) by (simp add: dl_opened_def)
      show "distinct (map snd (strs ?s))" using rep(5,7) new by simp
      show "snd ` set (strs ?s) = am_name ` set (xs @ [m])" using rep(7) by auto
    qed (use rep(2,4,6) a assms(4) opens in simp_all)
    with \<open>load_module e v m (am_name m) None s = (Some c, ?s)\<close> req False c(1) show ?thesis by simp
  qed
qed


lemma owner_unique:
  assumes "loader_ok e v ms" and "x \<in> set ms" and "y \<in> set ms" and "owner e v a x" and "owner e v a y"
  shows "x = y"
proof -
  have "inj_on (\<lambda>m. Option.bind (symbol_of e v m) (first_word e)) (set ms)"
    using assms(1) by (simp add: loader_ok_def)
  from inj_onD [OF this _ assms(2,3)] show ?thesis using assms(4,5) by (simp add: owner_def)
qed

lemma set_remove1_cases:
  "m \<in> set (remove1 m xs) \<Longrightarrow> set (remove1 m xs) = set xs"
  "m \<notin> set (remove1 m xs) \<Longrightarrow> set (remove1 m xs) = set xs - {m}"
proof -
  have other: "x \<noteq> m \<Longrightarrow> x \<in> set (remove1 m xs) \<longleftrightarrow> x \<in> set xs" for x by simp
  show "set (remove1 m xs) = set xs" if "m \<in> set (remove1 m xs)"
  proof (rule set_eqI)
    fix x
    show "x \<in> set (remove1 m xs) \<longleftrightarrow> x \<in> set xs"
      using that other [of x] notin_set_remove1 [of m xs m] by (cases "x = m") auto
  qed
  show "set (remove1 m xs) = set xs - {m}" if "m \<notin> set (remove1 m xs)"
  proof (rule set_eqI)
    fix x
    show "x \<in> set (remove1 m xs) \<longleftrightarrow> x \<in> set xs - {m}"
      using that other [of x] by (cases "x = m") auto
  qed
qed

text \<open>Dropping the block of a name that no node needs any more.\<close>

lemma drop_name:
  assumes "distinct (map fst b)" and "distinct (map snd b)" and "(a, k) \<in> set b"
  shows "snd ` set (filter (\<lambda>(c, n). c \<noteq> a) b) = snd ` set b - {k}"
proof -
  have inj: "inj_on fst (set b)" "inj_on snd (set b)" using assms(1,2) by (simp_all add: distinct_map)
  have "set (filter (\<lambda>(c, n). c \<noteq> a) b) = set b - {(a, k)}"
  proof (rule set_eqI)
    fix x
    show "x \<in> set (filter (\<lambda>(c, n). c \<noteq> a) b) \<longleftrightarrow> x \<in> set b - {(a, k)}"
      using inj_onD [OF inj(1) _ _ assms(3), of x] by (cases x) auto
  qed
  with inj_on_image_set_diff [OF inj(2), of "set b" "{(a, k)}"] assms(3) show ?thesis by simp
qed

lemma release_rep:
  assumes "loader_ok e v ms" and "mod_rep e v ms s xs" and "a = 0 \<or> first_word e a \<noteq> None" and "names_ok ms"
  shows "\<exists>s'. os_release_api_module e a s =
      Some (if a \<noteq> 0 \<and> find (owner e v a) xs \<noteq> None then S_OK else E_BAD_ARGS, s') \<and>
    mod_rep e v ms s' (use_step e v ms (RelMod a) xs)"
proof (cases "a = 0 \<or> find (owner e v a) xs = None")
  case True
  show ?thesis
  proof (cases "a = 0")
    case True
    with assms(2) show ?thesis by (simp add: os_release_api_module_def)
  next
    case False
    with assms(3) obtain w where "first_word e a = Some w" by auto
    then have "find_ops e a (requested s) = Some None"
      using assms(2) True False find_ops_rep [OF assms(1), of xs a w "strs s"] by (auto simp: mod_rep_def)
    with True False assms(2) show ?thesis by (simp add: os_release_api_module_def)
  qed
next
  case False
  then obtain w m where w: "first_word e a = Some w" and m: "find (owner e v a) xs = Some m" and "a \<noteq> 0"
    using assms(3) by auto
  have rep: "modules_of (artik_platform_id s) = Some ms" "set xs \<subseteq> set ms"
    "requested s = map (info_for e v (strs s)) xs" "distinct (map fst (strs s))" "distinct (map snd (strs s))"
    "0 \<notin> fst ` set (strs s)" "snd ` set (strs s) = am_name ` set xs"
    "\<And>h. opens s h = int (card {m \<in> set xs. dlopen e (so_path v m) = h})"
    using assms(2) by (auto simp: mod_rep_def)
  have mx: "m \<in> set xs" "owner e v a m" using find_Some_in [OF m] by auto
  let ?xs = "remove1 m xs" and ?i = "info_for e v (strs s) m"
  have sub: "set ?xs \<subseteq> set ms" using rep(2) set_remove1_subset by fastforce
  have o: "find (owner e v a) ?xs = (if m \<in> set ?xs then Some m else None)"
  proof -
    have u: "x = m" if "x \<in> set ?xs" "owner e v a x" for x
      using owner_unique [OF assms(1) _ _ that(2) mx(2)] that(1) sub mx(1) rep(2) by blast
    show ?thesis
    proof (cases "find (owner e v a) ?xs")
      case None
      with mx(2) show ?thesis by (auto simp: find_None_iff)
    next
      case (Some y)
      with find_Some_in [OF Some] u show ?thesis by auto
    qed
  qed
  have step: "os_release_api_module e a s =
      (if m \<in> set ?xs then Some (S_OK, s\<lparr>requested := map (info_for e v (strs s)) ?xs\<rparr>)
       else case free_name (mi_name ?i) (s\<lparr>requested := map (info_for e v (strs s)) ?xs\<rparr>) of
         None \<Rightarrow> None | Some s \<Rightarrow> Some (S_OK, dlclose (dlopen e (so_path v m)) s))"
    using \<open>a \<noteq> 0\<close> m find_ops_rep [OF assms(1) rep(2) w, of "strs s"] o
      del_ops_rep [OF assms(1) rep(2) w, of "strs s"] find_ops_rep [OF assms(1) sub w, of "strs s"]
    by (simp add: os_release_api_module_def rep(3) Let_def cong: option.case_cong)
  have use: "use_step e v ms (RelMod a) xs = ?xs" using \<open>a \<noteq> 0\<close> m by simp
  show ?thesis
  proof (cases "m \<in> set ?xs")
    case True
    then have "set ?xs = set xs" by (rule set_remove1_cases)
    then have "mod_rep e v ms (s\<lparr>requested := map (info_for e v (strs s)) ?xs\<rparr>) ?xs"
      using rep by (simp add: mod_rep_def)
    with True step use m \<open>a \<noteq> 0\<close> show ?thesis by simp
  next
    case gone: False
    have set: "set ?xs = set xs - {m}" using gone by (rule set_remove1_cases)
    have blk: "(mi_name ?i, am_name m) \<in> set (strs s)"
      using rep mx(1) by (intro name_block) auto
    let ?b = "filter (\<lambda>(b, n). b \<noteq> mi_name ?i) (strs s)"
    let ?s = "dlclose (dlopen e (so_path v m)) (s\<lparr>requested := map (info_for e v (strs s)) ?xs, strs := ?b\<rparr>)"
    have nz: "mi_name ?i \<noteq> 0" "mi_name ?i \<in> fst ` set (strs s)" using blk rep(6) by force+
    have names: "am_name ` set ?xs = am_name ` set xs - {am_name m}"
    proof -
      have "inj_on am_name (set xs)" using names_ok_inj [OF assms(4)] rep(2) by (auto simp: inj_on_def)
      from inj_on_image_set_diff [OF this, of "set xs" "{m}"] mx(1) show ?thesis unfolding set by simp
    qed
    have infos: "map (info_for e v (strs s)) ?xs = map (info_for e v ?b) ?xs"
      using names by (intro map_cong refl info_for_cong find_filter_snd [OF rep(5) blk rep(4), symmetric]) auto
    have "mod_rep e v ms ?s ?xs"
      unfolding mod_rep_def
    proof (intro conjI allI)
      show "snd ` set (strs ?s) = am_name ` set ?xs"
        using drop_name [OF rep(4,5) blk] rep(7) names by (simp add: dlclose_def)
      show "requested ?s = map (info_for e v (strs ?s)) ?xs" using infos by (simp add: dlclose_def)
      show "opens ?s h = int (card {m \<in> set ?xs. dlopen e (so_path v m) = h})" for h
      proof -
        have "{x \<in> set ?xs. dlopen e (so_path v x) = h} = {x \<in> set xs. dlopen e (so_path v x) = h} - {m}"
          unfolding set by auto
        moreover have "dlopen e (so_path v m) = h \<Longrightarrow> 0 < card {x \<in> set xs. dlopen e (so_path v x) = h}"
          using mx(1) by (auto simp: card_gt_0_iff)
        ultimately show ?thesis using rep(8) mx(1) by (auto simp: dlclose_def card_Diff_singleton_if)
      qed
    qed (use rep(1,4,5,6) sub in \<open>auto simp: dlclose_def distinct_map_filter\<close>)
    moreover have "os_release_api_module e a s = Some (S_OK, ?s)"
      using step gone nz by (simp add: free_name_def)
    ultimately show ?thesis using use m \<open>a \<noteq> 0\<close> by simp
  qed
qed


section \<open>Properties\<close>

lemma platform_of_line_modules: "\<exists>ms. modules_of (platform_of_line line) = Some ms"
  by (simp add: platform_of_line_def modules_of_def artik_api_modules_def numeral_nat nth_Cons')

lemma init_rep:
  assumes "model e = Some (Some line)" and "modules_of (platform_of_line (take 255 line)) = Some ms"
  shows "mod_rep e v ms (snd (os_get_platform e init_modules)) []"
  using assms by (simp add: mod_rep_def os_get_platform_def init_modules_def Let_def)

lemma run_rep:
  assumes "loader_ok e v ms" and "names_ok ms"
  shows "mod_rep e v ms s xs \<Longrightarrow> \<forall>a. RelMod a \<in> set ops \<longrightarrow> a = 0 \<or> first_word e a \<noteq> None \<Longrightarrow>
    \<exists>s'. run_opt (mod_step e v) ops s = Some s' \<and> mod_rep e v ms s' (fold (use_step e v ms) ops xs)"
proof (induction ops arbitrary: s xs)
  case (Cons x ops)
  have "\<exists>s'. mod_step e v x s = Some s' \<and> mod_rep e v ms s' (use_step e v ms x xs)"
  proof (cases x)
    case (ReqMod name)
    show ?thesis
    proof (cases "find (\<lambda>m. strncmp_eq 32 (am_name m) name) ms")
      case None
      moreover have "modules_of (artik_platform_id s) = Some ms" using Cons.prems(1) by (simp add: mod_rep_def)
      ultimately show ?thesis
        using Cons.prems(1) ReqMod mod_rep_platform [OF Cons.prems(1), of e]
        by (simp add: os_request_api_module_def)
    next
      case (Some m)
      with names_ok_find_eq [OF assms(2)] have "m \<in> set ms" "name = am_name m" by auto
      with request_rep [OF assms Cons.prems(1), of m] obtain s' where
        "os_request_api_module e v (Some name) s = Some (symbol_of e v m, s')" "mod_rep e v ms s' (xs @ [m])"
        by auto
      with Some ReqMod show ?thesis by simp
    qed
  next
    case (RelMod a)
    with Cons.prems(2) have "a = 0 \<or> first_word e a \<noteq> None" by auto
    from release_rep [OF assms(1) Cons.prems(1) this assms(2)] show ?thesis using RelMod by auto
  qed
  with Cons show ?case by auto
qed simp

text \<open>
  C6. Reference counting of the modules: with a working linker, every run of requests and releases
  keeps in the list exactly the modules requested and not yet released, never goes through a bad
  pointer, never frees a name twice, and has every shared object open exactly as many times as it
  has modules in use - so an object is closed with the last release of its modules and no earlier.
\<close>

theorem module_run_refines:
  assumes "loader_ok e v ms" and "model e = Some (Some line)"
    and "modules_of (platform_of_line (take 255 line)) = Some ms"
    and "\<forall>a. RelMod a \<in> set ops \<longrightarrow> a = 0 \<or> first_word e a \<noteq> None"
    and "xs = fold (use_step e v ms) ops []"
  shows "\<exists>s. run_opt (mod_step e v) ops (snd (os_get_platform e init_modules)) = Some s \<and>
    mod_rep e v ms s xs \<and> length (requested s) = length xs \<and>
    (\<forall>h. opens s h = int (card {m \<in> set xs. dlopen e (so_path v m) = h}))"
proof -
  obtain s where "run_opt (mod_step e v) ops (snd (os_get_platform e init_modules)) = Some s"
    "mod_rep e v ms s xs"
    using run_rep [OF assms(1) names_ok_modules_of [OF assms(3)] init_rep [OF assms(2,3)] assms(4)] assms(5)
    by blast
  then show ?thesis by (auto simp: mod_rep_def)
qed

text \<open>
  In a state reached that way, the request of a module of the platform returns the module's
  table of operations, and releasing that table succeeds and leaves every shared object open as
  often as before.
\<close>

theorem module_request_release:
  assumes "loader_ok e v ms" and "mod_rep e v ms s xs" and "m \<in> set ms"
  shows "\<exists>a s1 s2. os_request_api_module e v (Some (am_name m)) s = Some (Some a, s1) \<and>
    symbol_of e v m = Some a \<and> os_release_api_module e a s1 = Some (S_OK, s2) \<and> opens s2 = opens s"
proof -
  have names: "names_ok ms" using names_ok_modules_of assms(2) by (auto simp: mod_rep_def)
  obtain a w where a: "symbol_of e v m = Some a" "a \<noteq> 0" "first_word e a = Some w"
    using loader_okD [OF assms(1,3)] by blast
  obtain s1 where s1: "os_request_api_module e v (Some (am_name m)) s = Some (Some a, s1)" "mod_rep e v ms s1 (xs @ [m])"
    using request_rep [OF assms(1) names assms(2,3)] a(1) by auto
  have o: "owner e v a m" using a by (simp add: owner_def)
  then have "find (owner e v a) (xs @ [m]) \<noteq> None" by (auto simp: find_None_iff)
  then obtain y where y: "find (owner e v a) (xs @ [m]) = Some y" by auto
  have "set (xs @ [m]) \<subseteq> set ms" using s1(2) by (simp add: mod_rep_def)
  with find_Some_in [OF y] owner_unique [OF assms(1) _ assms(3) _ o] have "y = m" by blast
  with y release_rep [OF assms(1) s1(2), of a] a names obtain s2 where
    s2: "os_release_api_module e a s1 = Some (S_OK, s2)" "mod_rep e v ms s2 (remove1 m (xs @ [m]))" by auto
  have "set (remove1 m (xs @ [m])) = set xs"
    using set_remove1_cases [of m xs] by (cases "m \<in> set xs") (auto simp: remove1_append)
  with s2(2) assms(2) have "opens s2 = opens s" by (auto simp: mod_rep_def)
  with s1 s2 a show ?thesis by blast
qed

lemma find_name_append:
  "find_name b name ns = Some None \<Longrightarrow> find_name b name (ns @ ns') = find_name b name ns'"
  by (induction ns) (auto split: option.splits if_splits)

text \<open>
  A shared object that cannot be loaded poisons the manager: the request returns
  \<^verbatim>\<open>INVALID_MODULE\<close> but leaves its empty node in the list, and the next request of any module that
  is not loaded yet - the same one again included - compares a NULL name and crashes.
\<close>

theorem module_failed_load_poisons:
  assumes "mod_rep e v ms s xs" and "m \<in> set ms - set xs" and "m' \<in> set ms - set xs"
    and "node_ok e'" and "dlopen e' (so_path v m) = 0"
  shows "\<exists>s'. os_request_api_module e' v (Some (am_name m)) s = Some (None, s') \<and>
    length (requested s') = Suc (length xs) \<and> os_request_api_module e'' v (Some (am_name m')) s' = None"
proof -
  have rep: "modules_of (artik_platform_id s) = Some ms" "set xs \<subseteq> set ms"
    "requested s = map (info_for e v (strs s)) xs" "distinct (map fst (strs s))" "distinct (map snd (strs s))"
    "0 \<notin> fst ` set (strs s)" "snd ` set (strs s) = am_name ` set xs"
    using assms(1) by (auto simp: mod_rep_def)
  note names = names_ok_modules_of [OF rep(1)]
  have none: "find_name (strs s) (am_name x) (requested s) = Some None" if "x \<in> set ms - set xs" for x
    using find_name_rep [OF names rep(2) _ rep(4,5), of x e v] that rep(3,7) by auto
  let ?s = "s\<lparr>requested := requested s @ [\<lparr>mi_name = 0, mi_handle = 0, mi_symbol = 0\<rparr>]\<rparr>"
  have plat: "os_get_platform e0 s = (artik_platform_id s, s)" "os_get_platform e0 ?s = (artik_platform_id s, ?s)"
    "\<not> artik_platform_id s < 0" for e0
    using mod_rep_platform [OF assms(1), of e0] by (simp_all add: os_get_platform_def)
  have "os_request_api_module e' v (Some (am_name m)) s = Some (None, ?s)"
    using plat rep(1) none [of m] names_ok_find [OF names, of m] assms(2,4,5)
    by (simp add: os_request_api_module_def load_module_def Let_def)
  moreover have "find_name (strs s) (am_name m') (requested ?s) = None"
    using find_name_append [OF none [OF assms(3)]] rep(6) map_of_eq_None_iff [of "strs s" 0] by simp
  then have "os_request_api_module e'' v (Some (am_name m')) ?s = None"
    using plat rep(1) names_ok_find [OF names, of m'] assms(3)
    by (simp add: os_request_api_module_def)
  ultimately show ?thesis using rep(3) by auto
qed


section \<open>Witnesses\<close>

text \<open>A linker that finds everything, with one address per table of operations.\<close>

definition ex_env :: sysenv where
  "ex_env = \<lparr>model = Some (Some ''Samsung artik710 Raptor''),
     dlopen = length,
     dlsym = (\<lambda>h n. Some (Suc (length (takeWhile (\<lambda>m. am_name m @ ''_module'' \<noteq> n) artik_api_generic_modules)))),
     first_word = Some, node_ok = True, malloc_name = (\<lambda>used. Suc (sum_list used))\<rparr>"

abbreviation (input) ex_v :: "nat \<times> nat \<times> nat" where "ex_v \<equiv> (1, 9, 0)"

lemma ex_symbol: "\<exists>a. symbol_of ex_env ex_v m = Some a \<and> a \<noteq> 0 \<and> first_word ex_env a = Some a"
  by (simp add: symbol_of_def ex_env_def)

lemma ex_loader_ok: "loader_ok ex_env ex_v artik_api_generic_modules"
proof -
  let ?ms = artik_api_generic_modules
  have "Suc (sum_list used) \<notin> set used" for used :: "nat list"
  proof
    assume "Suc (sum_list used) \<in> set used"
    then have "Suc (sum_list used) \<le> sum_list used" by (rule member_le_sum_list) simp_all
    then show False by simp
  qed
  then have 1: "node_ok ex_env \<and> (\<forall>used. malloc_name ex_env used \<noteq> 0 \<and> malloc_name ex_env used \<notin> set used)"
    by (simp add: ex_env_def)
  have "list_all (\<lambda>m. dlopen ex_env (so_path ex_v m) \<noteq> 0) ?ms" by code_simp
  then have 2: "\<forall>m \<in> set ?ms. dlopen ex_env (so_path ex_v m) \<noteq> 0" by (simp only: list_all_iff)
  have "distinct (map (\<lambda>m. symbol_of ex_env ex_v m) ?ms)" by code_simp
  then have "inj_on (symbol_of ex_env ex_v) (set ?ms)" by (simp only: distinct_map)
  moreover have "Option.bind (symbol_of ex_env ex_v m) (first_word ex_env) = symbol_of ex_env ex_v m" for m
    using ex_symbol [of m] by auto
  ultimately have 3: "inj_on (\<lambda>m. Option.bind (symbol_of ex_env ex_v m) (first_word ex_env)) (set ?ms)"
    by (simp only: inj_on_def)
  show ?thesis unfolding loader_ok_def using 1 2 3 ex_symbol by blast
qed

lemma ex_modules: "modules_of (platform_of_line (take 255 ''Samsung artik710 Raptor'')) = Some artik_api_generic_modules"
proof -
  have "platform_of_line (take 255 ''Samsung artik710 Raptor'') = 3" by code_simp
  then show ?thesis
    by (simp add: modules_of_def artik_api_modules_def artik_api_a710_modules_def)
qed

abbreviation (input) ex_i2c :: artik_api_module where
  "ex_i2c \<equiv> am ARTIK_MODULE_I2C ''i2c'' ''systemio''"

lemma ex_in_table:
  "ex_i2c \<in> set artik_api_generic_modules"
  "am ARTIK_MODULE_GPIO ''gpio'' ''systemio'' \<in> set artik_api_generic_modules"
  by (simp_all add: artik_api_generic_modules_def)

lemma ex_model: "model ex_env = Some (Some ''Samsung artik710 Raptor'')"
  by (simp add: ex_env_def)

lemma module_run_refines_witness:
  "\<exists>s. run_opt (mod_step ex_env ex_v) [ReqMod ''gpio'', ReqMod ''i2c'', RelMod 4]
      (snd (os_get_platform ex_env init_modules)) = Some s \<and>
    mod_rep ex_env ex_v artik_api_generic_modules s [ex_i2c] \<and>
    length (requested s) = 1 \<and> opens s 30 = 1"
proof -
  let ?ops = "[ReqMod ''gpio'', ReqMod ''i2c'', RelMod 4]"
  have xs: "[ex_i2c] = fold (use_step ex_env ex_v artik_api_generic_modules) ?ops []"
    by code_simp
  have valid: "\<forall>a. RelMod a \<in> set ?ops \<longrightarrow> a = 0 \<or> first_word ex_env a \<noteq> None"
    by (simp add: ex_env_def)
  from module_run_refines [OF ex_loader_ok ex_model ex_modules valid xs] obtain s where
    s: "run_opt (mod_step ex_env ex_v) ?ops (snd (os_get_platform ex_env init_modules)) = Some s"
    "mod_rep ex_env ex_v artik_api_generic_modules s [ex_i2c]"
    "length (requested s) = length [ex_i2c]"
    "opens s 30 = int (card {m \<in> set [ex_i2c]. dlopen ex_env (so_path ex_v m) = 30})"
    by blast
  have "dlopen ex_env (so_path ex_v ex_i2c) = 30" by code_simp
  then have "{m \<in> set [ex_i2c]. dlopen ex_env (so_path ex_v m) = 30} = {ex_i2c}" by auto
  with s show ?thesis by simp
qed

lemma module_request_release_witness:
  "\<exists>a s1 s2. os_request_api_module ex_env ex_v (Some ''i2c'') (snd (os_get_platform ex_env init_modules)) = Some (Some a, s1) \<and>
    symbol_of ex_env ex_v ex_i2c = Some a \<and> os_release_api_module ex_env a s1 = Some (S_OK, s2) \<and>
    opens s2 = opens (snd (os_get_platform ex_env init_modules))"
  using module_request_release [OF ex_loader_ok init_rep [OF ex_model ex_modules] ex_in_table(1)] by simp

lemma module_failed_load_poisons_witness:
  "\<exists>s'. os_request_api_module (ex_env\<lparr>dlopen := (\<lambda>_. 0)\<rparr>) ex_v (Some ''i2c'') (snd (os_get_platform ex_env init_modules)) = Some (None, s') \<and>
    length (requested s') = 1 \<and> os_request_api_module ex_env ex_v (Some ''gpio'') s' = None"
proof -
  have "ex_i2c \<in> set artik_api_generic_modules - set []"
    "am ARTIK_MODULE_GPIO ''gpio'' ''systemio'' \<in> set artik_api_generic_modules - set []"
    using ex_in_table by simp_all
  from module_failed_load_poisons [OF init_rep [OF ex_model ex_modules, where v = ex_v] this,
      of "ex_env\<lparr>dlopen := (\<lambda>_. 0)\<rparr>" ex_env]
  have "\<exists>s'. os_request_api_module (ex_env\<lparr>dlopen := (\<lambda>_. 0)\<rparr>) ex_v (Some ''i2c'') (snd (os_get_platform ex_env init_modules)) = Some (None, s') \<and>
      length (requested s') = Suc (length ([] :: artik_api_module list)) \<and> os_request_api_module ex_env ex_v (Some ''gpio'') s' = None"
    by (simp add: ex_env_def)
  then show ?thesis by simp
qed

end
