(* ===== verification/Gpio.thy ===== *)
theory Gpio
  imports Registry
begin

text \<open>
  The GPIO module: \<^verbatim>\<open>gpio/artik_gpio.c\<close> (the list of requested pins) over
  \<^verbatim>\<open>gpio/linux_gpio.c\<close> (sysfs).
\<close>

section \<open>Data\<close>

datatype artik_gpio_dir_t = GPIO_OUT | GPIO_IN | GPIO_DIR_INVALID

datatype artik_gpio_edge_t =
  GPIO_EDGE_NONE | GPIO_EDGE_RISING | GPIO_EDGE_FALLING | GPIO_EDGE_BOTH | GPIO_EDGE_INVALID

record artik_gpio_config =
  g_id :: u32
  g_name :: addr
  g_dir :: artik_gpio_dir_t
  g_edge :: artik_gpio_edge_t
  g_initial_value :: int
  g_user_data :: addr

record os_gpio_data =
  gd_watch_id :: int
  gd_fd :: int
  gd_callback :: addr
  gd_user_data :: addr
  gd_loop :: addr

type_synonym gpio_dev = "(artik_gpio_config, os_gpio_data) dev"

definition zero_gpio_config :: artik_gpio_config where
  "zero_gpio_config = \<lparr>g_id = 0, g_name = 0, g_dir = GPIO_OUT, g_edge = GPIO_EDGE_NONE,
     g_initial_value = 0, g_user_data = 0\<rparr>"

definition zero_gpio_data :: os_gpio_data where
  "zero_gpio_data = \<lparr>gd_watch_id = 0, gd_fd = 0, gd_callback = 0, gd_user_data = 0, gd_loop = 0\<rparr>"

section \<open>The OS layer\<close>

definition MAX_VAL_STRING :: nat where "MAX_VAL_STRING = 128"

definition gpio_path :: "string \<Rightarrow> u32 \<Rightarrow> string" where
  "gpio_path leaf n = snprintf MAX_VAL_STRING (''/sys/class/gpio/gpio'' @ dec_int (sint n) @ leaf)"

definition gpio_num :: "u32 \<Rightarrow> string" where
  "gpio_num n = snprintf MAX_VAL_STRING (dec_int (sint n))"

definition gpio_edge_value :: "artik_gpio_edge_t \<Rightarrow> string" where
  "gpio_edge_value e =
     (case e of GPIO_EDGE_RISING \<Rightarrow> ''rising'' | GPIO_EDGE_FALLING \<Rightarrow> ''falling''
              | GPIO_EDGE_BOTH \<Rightarrow> ''both'' | _ \<Rightarrow> ''none'')"

text \<open>
  The sysfs part of the request: export, direction, and then the initial value of an output or
  the edge of an input.  The result is the \<^verbatim>\<open>ret\<close> of the last entry written.
\<close>

definition gpio_setup :: "artik_gpio_config \<Rightarrow> world \<Rightarrow> int \<times> world" where
  "gpio_setup c w =
     (let (ret, w) = write_sysfs_entry ''/sys/class/gpio/export'' (gpio_num (g_id c)) w
      in if ret < 0 then (ret, w)
         else
           let (ret, w) = write_sysfs_entry (gpio_path ''/direction'' (g_id c))
                            (if g_dir c = GPIO_OUT then ''out'' else ''in'') w
           in if ret < 0 then (ret, w)
              else if g_dir c = GPIO_OUT then
                write_sysfs_entry (gpio_path ''/value'' (g_id c))
                  (if g_initial_value c \<noteq> 0 then ''1'' else ''0'') w
              else if g_dir c = GPIO_IN then
                write_sysfs_entry (gpio_path ''/edge'' (g_id c)) (gpio_edge_value (g_edge c)) w
              else (ret, w))"

definition os_gpio_request ::
  "artik_gpio_config \<Rightarrow> gpio_dev \<Rightarrow> (artik_error \<times> artik_gpio_config) \<times> gpio_dev" where
  "os_gpio_request c s =
     (if sint (g_id c) < 0 \<or> g_dir c = GPIO_DIR_INVALID \<or> g_edge c = GPIO_EDGE_INVALID
      then ((E_BAD_ARGS, c), s)
      else
        let (ret, s) = on_wld (gpio_setup c) s;
            (a, s) = (if ret < 0 then (0, s) else malloc_data zero_gpio_data 32 s);
            ret = (if ret < 0 then ret else E_NO_MEM)
        in if a \<noteq> 0 then ((S_OK, c\<lparr>g_user_data := a\<rparr>), s)
           else
             let (_, s) = on_wld (write_sysfs_entry ''/sys/class/gpio/unexport'' (gpio_num (g_id c))) s
             in ((if ret = - EACCES then E_ACCESS_DENIED else E_BUSY, c), s))"

definition os_gpio_release ::
  "artik_gpio_config \<Rightarrow> gpio_dev \<Rightarrow> (artik_error \<times> artik_gpio_config) \<times> gpio_dev" where
  "os_gpio_release c s =
     (let (_, s) = on_wld (write_sysfs_entry ''/sys/class/gpio/unexport'' (gpio_num (g_id c))) s;
          (_, s) = on_wld (write_sysfs_entry ''/sys/class/gpio/unexport'' (gpio_num (g_id c))) s
      in if g_user_data c \<noteq> 0
         then ((S_OK, c\<lparr>g_user_data := 0\<rparr>), free_data (g_user_data c) s)
         else ((S_OK, c), s))"

definition os_gpio_read :: "artik_gpio_config \<Rightarrow> gpio_dev \<Rightarrow> int \<times> gpio_dev" where
  "os_gpio_read c s =
     (if g_dir c \<noteq> GPIO_IN then (E_ACCESS_DENIED, s)
      else let ((r, v), s) = on_wld (read_sysfs_entry (gpio_path ''/value'' (g_id c)) MAX_VAL_STRING) s
           in if r < 0 then (-1, s)
              else if strncmp_eq 1 v ''0'' then (0, s)
              else if strncmp_eq 1 v ''1'' then (1, s)
              else (-1, s))"

definition os_gpio_write :: "artik_gpio_config \<Rightarrow> int \<Rightarrow> gpio_dev \<Rightarrow> artik_error \<times> gpio_dev" where
  "os_gpio_write c value s =
     (if g_dir c \<noteq> GPIO_OUT then (E_ACCESS_DENIED, s)
      else let (r, s) = on_wld (write_sysfs_entry (gpio_path ''/value'' (g_id c))
                                  (if value \<noteq> 0 then ''1'' else ''0'')) s
           in if r < 0 then (E_BUSY, s) else (S_OK, s))"

text \<open>
  The loop's callback on a change of the pin.  The user's function is called with the new value
  (here an \<open>Ext\<close> event).  The \<^verbatim>\<open>None\<close> result of the operations on \<^verbatim>\<open>user_data\<close> is an access
  through a NULL or freed pointer.
\<close>

definition os_gpio_change_callback :: "addr \<Rightarrow> gpio_dev \<Rightarrow> (int \<times> gpio_dev) option" where
  "os_gpio_change_callback ud s =
     (if ud = 0 then Some (0, s)
      else case data s ud of
        None \<Rightarrow> None
      | Some d \<Rightarrow>
          let (r, s) = on_wld (sys (Lseek (gd_fd d) 0)) s
          in if r < 0 then Some (0, s)
             else let ((k, v), s) = on_wld (sys_read (gd_fd d) 1) s
                  in if k < 0 then Some (0, s)
                     else let val = (if v = ''0'' then 0 else 1);
                              (_, s) = (if gd_callback d \<noteq> 0
                                        then on_wld (ext ''gpio_callback'' [int (gd_callback d), int (gd_user_data d), val]) s
                                        else (0, s))
                          in Some (1, s))"

definition set_data :: "addr \<Rightarrow> os_gpio_data \<Rightarrow> gpio_dev \<Rightarrow> gpio_dev" where
  "set_data a d s = s\<lparr>data := (data s)(a \<mapsto> d)\<rparr>"

text \<open>The body of \<^verbatim>\<open>set_change_callback\<close> once the descriptor is open, up to the label \<^verbatim>\<open>exit\<close>.\<close>

definition gpio_watch ::
  "addr \<Rightarrow> os_gpio_data \<Rightarrow> gpio_dev \<Rightarrow> ((artik_error \<times> os_gpio_data) \<times> gpio_dev) option" where
  "gpio_watch ud d s =
     (let (r, s) = on_wld (sys (Lseek (gd_fd d) 0)) s
      in if r < 0 then Some ((E_ACCESS_DENIED, d), s)
         else
           let ((k, v), s) = on_wld (sys_read (gd_fd d) 1) s
           in if k < 0 then Some ((E_ACCESS_DENIED, d), s)
              else
                let (l, s) = on_wld (request_api_module ''loop'') s
                in case l of
                     None \<Rightarrow> None
                   | Some l \<Rightarrow>
                       let d = d\<lparr>gd_loop := l\<rparr>
                       in if l = 0 then Some ((E_BUSY, d), s)
                          else
                            let n = length (trace (wld s));
                                (ret, s) = on_wld (ext ''loop.add_fd_watch'' [gd_fd d, int ud]) s
                            in Some ((ret, if ret = S_OK then d\<lparr>gd_watch_id := out_int (wld s) n\<rparr> else d), s))"

definition os_gpio_set_change_callback ::
  "artik_gpio_config \<Rightarrow> addr \<Rightarrow> addr \<Rightarrow> gpio_dev \<Rightarrow> (artik_error \<times> gpio_dev) option" where
  "os_gpio_set_change_callback c cb ud s =
     (if cb = 0 then Some (E_BAD_ARGS, s)
      else if g_dir c \<noteq> GPIO_IN then Some (E_BAD_ARGS, s)
      else case data s (g_user_data c) of
        None \<Rightarrow> None
      | Some d \<Rightarrow>
          let (fd, s) = on_wld (sys (Open (gpio_path ''/value'' (g_id c)) [O_RDONLY])) s;
              d = d\<lparr>gd_fd := fd\<rparr>
          in if fd \<le> 0 then Some (E_BUSY, set_data (g_user_data c) d s)
             else
               case gpio_watch (g_user_data c) (d\<lparr>gd_callback := cb, gd_user_data := ud\<rparr>) s of
                 None \<Rightarrow> None
               | Some ((ret, d), s) \<Rightarrow>
                  if ret = S_OK then Some (S_OK, set_data (g_user_data c) d s)
                  else
                    let s = (if gd_loop d \<noteq> 0 then s\<lparr>wld := release_api_module ''loop'' (gd_loop d) (wld s)\<rparr> else s);
                        (_, s) = on_wld (sys (Close (gd_fd d))) s
                    in Some (ret, set_data (g_user_data c) (d\<lparr>gd_loop := 0, gd_fd := 0\<rparr>) s))"

definition os_gpio_unset_change_callback :: "artik_gpio_config \<Rightarrow> gpio_dev \<Rightarrow> gpio_dev option" where
  "os_gpio_unset_change_callback c s =
     (let (l, s) = on_wld (request_api_module ''loop'') s
      in case data s (g_user_data c) of
        None \<Rightarrow> None
      | Some d \<Rightarrow>
          if gd_fd d \<noteq> 0 then
            let (_, s) = on_wld (sys (Close (gd_fd d))) s
            in if gd_loop d = 0 then Some (set_data (g_user_data c) zero_gpio_data s)
               else
                 let (_, s) = on_wld (ext ''loop.remove_fd_watch'' [gd_watch_id d]) s
                 in case l of
                      None \<Rightarrow> None
                    | Some l \<Rightarrow> Some (set_data (g_user_data c) zero_gpio_data
                                      (s\<lparr>wld := release_api_module ''loop'' l (wld s)\<rparr>))
          else Some s)"

section \<open>The module\<close>

definition gpio_check_exist :: "u32 \<Rightarrow> artik_gpio_config \<Rightarrow> bool" where
  "gpio_check_exist val_id c \<longleftrightarrow> g_id c = val_id"

definition artik_gpio_request :: "artik_gpio_config \<Rightarrow> gpio_dev \<Rightarrow> (artik_error \<times> addr) \<times> gpio_dev" where
  "artik_gpio_request c s =
     (if node_check (gpio_check_exist (g_id c)) s then ((E_BUSY, 0), s)
      else
        let (node, s) = node_add zero_gpio_config 88 s
        in if node = 0 then ((E_NO_MEM, 0), s)
           else
             let ((ret, c), s) = os_gpio_request c s
             in if ret \<noteq> S_OK then ((E_BAD_ARGS, 0), node_del node s)
                else ((S_OK, node), node_set node c s))"

definition artik_gpio_release :: "addr \<Rightarrow> gpio_dev \<Rightarrow> artik_error \<times> gpio_dev" where
  "artik_gpio_release h s =
     (case node_get h s of
        None \<Rightarrow> (E_BAD_ARGS, s)
      | Some c \<Rightarrow>
          let ((ret, c), s) = os_gpio_release c s; s = node_set h c s
          in if ret \<noteq> S_OK then (ret, s) else (S_OK, node_del h s))"

definition artik_gpio_read :: "addr \<Rightarrow> gpio_dev \<Rightarrow> int \<times> gpio_dev" where
  "artik_gpio_read h s = (case node_get h s of None \<Rightarrow> (E_BAD_ARGS, s) | Some c \<Rightarrow> os_gpio_read c s)"

definition artik_gpio_write :: "addr \<Rightarrow> int \<Rightarrow> gpio_dev \<Rightarrow> artik_error \<times> gpio_dev" where
  "artik_gpio_write h v s = (case node_get h s of None \<Rightarrow> (E_BAD_ARGS, s) | Some c \<Rightarrow> os_gpio_write c v s)"

definition artik_gpio_get_name :: "addr \<Rightarrow> gpio_dev \<Rightarrow> addr" where
  "artik_gpio_get_name h s = (case node_get h s of None \<Rightarrow> 0 | Some c \<Rightarrow> g_name c)"

definition artik_gpio_get_direction :: "addr \<Rightarrow> gpio_dev \<Rightarrow> artik_gpio_dir_t" where
  "artik_gpio_get_direction h s = (case node_get h s of None \<Rightarrow> GPIO_DIR_INVALID | Some c \<Rightarrow> g_dir c)"

definition artik_gpio_get_id :: "addr \<Rightarrow> gpio_dev \<Rightarrow> u32" where
  "artik_gpio_get_id h s = (case node_get h s of None \<Rightarrow> -1 | Some c \<Rightarrow> g_id c)"

definition artik_gpio_set_change_callback ::
  "addr \<Rightarrow> addr \<Rightarrow> addr \<Rightarrow> gpio_dev \<Rightarrow> (artik_error \<times> gpio_dev) option" where
  "artik_gpio_set_change_callback h cb ud s =
     (case node_get h s of None \<Rightarrow> Some (E_BAD_ARGS, s) | Some c \<Rightarrow> os_gpio_set_change_callback c cb ud s)"

definition artik_gpio_unset_change_callback :: "addr \<Rightarrow> gpio_dev \<Rightarrow> gpio_dev option" where
  "artik_gpio_unset_change_callback h s =
     (case node_get h s of None \<Rightarrow> Some s | Some c \<Rightarrow> os_gpio_unset_change_callback c s)"


section \<open>What the operations leave alone\<close>

lemma gpio_setup_fds: "gpio_setup c w = (r, w') \<Longrightarrow> fds w' = fds w"
  by (auto simp: gpio_setup_def Let_def fds_D split: prod.splits if_splits)

lemma os_gpio_request_facts:
  assumes "os_gpio_request c s = ((r, c'), s')"
  shows "nodes s' = nodes s \<and> fds (wld s') = fds (wld s) \<and>
    (if r = S_OK
     then c' = c\<lparr>g_user_data := g_user_data c'\<rparr> \<and> g_user_data c' \<noteq> 0 \<and> g_user_data c' \<notin> live s \<and>
       data s' = (data s)(g_user_data c' \<mapsto> zero_gpio_data)
     else data s' = data s)"
  using assms
  by (auto simp: os_gpio_request_def Let_def live_def gpio_setup_fds fds_D split: prod.splits if_splits
      dest!: on_wldD malloc_data_facts)

lemma os_gpio_release_facts:
  assumes "os_gpio_release c s = ((r, c'), s')"
  shows "r = S_OK \<and> nodes s' = nodes s \<and> fds (wld s') = fds (wld s) \<and>
    data s' = (if g_user_data c = 0 then data s else (data s)(g_user_data c := None))"
  using assms
  by (auto simp: os_gpio_release_def Let_def fds_D split: prod.splits if_splits dest!: on_wldD)

lemma os_gpio_read_facts:
  assumes "os_gpio_read c s = (r, s')"
  shows "nodes s' = nodes s \<and> data s' = data s \<and> fds (wld s') = fds (wld s)"
  using assms
  by (auto simp: os_gpio_read_def Let_def fds_D split: prod.splits if_splits dest!: on_wldD)

lemma os_gpio_write_facts:
  assumes "os_gpio_write c v s = (r, s')"
  shows "nodes s' = nodes s \<and> data s' = data s \<and> fds (wld s') = fds (wld s)"
  using assms
  by (auto simp: os_gpio_write_def Let_def fds_D split: prod.splits if_splits dest!: on_wldD)

lemma set_data_simps [simp]:
  "nodes (set_data a d s) = nodes s" "data (set_data a d s) = (data s)(a \<mapsto> d)" "wld (set_data a d s) = wld s"
  by (simp_all add: set_data_def)

lemma gpio_watch_facts:
  assumes "gpio_watch ud d s = Some ((r, d'), s')"
  shows "nodes s' = nodes s \<and> data s' = data s \<and> gd_fd d' = gd_fd d \<and> fds (wld s') = fds (wld s) \<and>
    (r = S_OK \<longrightarrow> gd_loop d' \<noteq> 0 \<and> mod_refs ''loop'' (wld s') = mod_refs ''loop'' (wld s) + 1)"
  using assms
  by (auto simp: gpio_watch_def Let_def refs_simps fds_D split: prod.splits if_splits option.splits dest!: on_wldD)

lemma os_gpio_set_change_callback_frame:
  assumes "os_gpio_set_change_callback c cb ud s = Some (r, s')"
  shows "nodes s' = nodes s \<and> dom (data s') = dom (data s)"
  using assms
  by (auto simp: os_gpio_set_change_callback_def Let_def split: prod.splits if_splits option.splits
      dest!: on_wldD gpio_watch_facts)

lemma os_gpio_unset_change_callback_frame:
  assumes "os_gpio_unset_change_callback c s = Some s'"
  shows "nodes s' = nodes s \<and> dom (data s') = dom (data s)"
  using assms
  by (auto simp: os_gpio_unset_change_callback_def Let_def split: prod.splits if_splits option.splits
      dest!: on_wldD)


section \<open>The registry of pins\<close>

lemma gpio_node_check: "node_check (gpio_check_exist i) s \<longleftrightarrow> i \<in> g_id ` snd ` set (nodes s)"
  by (force simp: node_check_iff gpio_check_exist_def)

lemma artik_gpio_request_facts:
  assumes "artik_gpio_request c s = ((r, h), s')" and "g_id c \<notin> g_id ` snd ` set (nodes s)"
  shows "fds (wld s') = fds (wld s) \<and>
    (if r = S_OK
     then h \<noteq> 0 \<and> h \<notin> fst ` set (nodes s) \<and>
       (\<exists>a. a \<noteq> 0 \<and> a \<notin> dom (data s) \<and> nodes s' = nodes s @ [(h, c\<lparr>g_user_data := a\<rparr>)] \<and>
          data s' = (data s)(a \<mapsto> zero_gpio_data))
     else h = 0 \<and> nodes s' = nodes s \<and> data s' = data s)"
proof -
  obtain node s1 where n: "node_add zero_gpio_config 88 s = (node, s1)" by force
  obtain ret c1 s2 where o: "os_gpio_request c s1 = ((ret, c1), s2)" by (metis prod.exhaust)
  note f = node_add_facts [OF n] os_gpio_request_facts [OF o]
  from assms n o have "node = 0 \<and> ((r, h), s') = ((E_NO_MEM, 0), s1) \<or>
      node \<noteq> 0 \<and> ((r, h), s') = (if ret \<noteq> S_OK then ((E_BAD_ARGS, 0), node_del node s2)
                             else ((S_OK, node), node_set node c1 s2))"
    by (cases "node = 0"; cases "ret = S_OK"; simp add: artik_gpio_request_def gpio_node_check)
  then show ?thesis
    using f by (auto simp: live_def live_of_def split: if_splits)
qed

lemma artik_gpio_release_facts:
  assumes "artik_gpio_release h s = (r, s')" and "node_get h s = Some c"
  shows "r = S_OK \<and> fds (wld s') = fds (wld s) \<and> nodes s' = filter (\<lambda>(b, c). b \<noteq> h) (nodes s) \<and>
    data s' = (if g_user_data c = 0 then data s else (data s)(g_user_data c := None))"
proof -
  obtain ret c1 s1 where o: "os_gpio_release c s = ((ret, c1), s1)" by (metis prod.exhaust)
  have "filter (\<lambda>(b, c). b \<noteq> h) (map (\<lambda>(b, c'). (b, if b = h then c1 else c')) l) = filter (\<lambda>(b, c). b \<noteq> h) l"
    for l by (induction l) auto
  with os_gpio_release_facts [OF o] assms o show ?thesis
    by (auto simp: artik_gpio_release_def)
qed

text \<open>The other operations of the interface, as steps; after an invalid access nothing follows.  The
  call that the loop makes of a change callback is not among them.\<close>

datatype gpio_call = GRead addr | GWrite addr int | GSet addr addr addr | GUnset addr

fun gpio_other :: "gpio_call \<Rightarrow> gpio_dev \<Rightarrow> gpio_dev" where
  "gpio_other (GRead h) s = snd (artik_gpio_read h s)"
| "gpio_other (GWrite h v) s = snd (artik_gpio_write h v s)"
| "gpio_other (GSet h cb ud) s =
     (case artik_gpio_set_change_callback h cb ud s of None \<Rightarrow> s | Some (r, s') \<Rightarrow> s')"
| "gpio_other (GUnset h) s = (case artik_gpio_unset_change_callback h s of None \<Rightarrow> s | Some s' \<Rightarrow> s')"

lemma gpio_other_frame: "nodes (gpio_other x s) = nodes s \<and> dom (data (gpio_other x s)) = dom (data s)"
proof (cases x)
  case (GRead h)
  have "nodes (snd (os_gpio_read c s)) = nodes s \<and> data (snd (os_gpio_read c s)) = data s" for c
    using os_gpio_read_facts [of c s] by (cases "os_gpio_read c s") simp
  with GRead show ?thesis by (simp add: artik_gpio_read_def split: option.split)
next
  case (GWrite h v)
  have "nodes (snd (os_gpio_write c v s)) = nodes s \<and> data (snd (os_gpio_write c v s)) = data s" for c
    using os_gpio_write_facts [of c v s] by (cases "os_gpio_write c v s") simp
  with GWrite show ?thesis by (simp add: artik_gpio_write_def split: option.split)
next
  case (GSet h cb ud)
  have f: "nodes s' = nodes s \<and> dom (data s') = dom (data s)"
    if "artik_gpio_set_change_callback h cb ud s = Some (r, s')" for r s'
  proof (cases "node_get h s")
    case (Some c)
    with that have "os_gpio_set_change_callback c cb ud s = Some (r, s')"
      by (simp add: artik_gpio_set_change_callback_def)
    then show ?thesis by (rule os_gpio_set_change_callback_frame)
  qed (use that in \<open>simp add: artik_gpio_set_change_callback_def\<close>)
  show ?thesis unfolding GSet by (auto split: option.split dest!: f)
next
  case (GUnset h)
  have f: "nodes s' = nodes s \<and> dom (data s') = dom (data s)"
    if "artik_gpio_unset_change_callback h s = Some s'" for s'
  proof (cases "node_get h s")
    case (Some c)
    with that have "os_gpio_unset_change_callback c s = Some s'"
      by (simp add: artik_gpio_unset_change_callback_def)
    then show ?thesis by (rule os_gpio_unset_change_callback_frame)
  qed (use that in \<open>simp add: artik_gpio_unset_change_callback_def\<close>)
  show ?thesis unfolding GUnset by (auto split: option.split dest!: f)
qed

interpretation gpio_reg: device_registry artik_gpio_request artik_gpio_release gpio_other g_id
proof
  show "artik_gpio_request c s = ((E_BUSY, 0), s)" if "g_id c \<in> g_id ` snd ` set (nodes s)"
    for c and s :: gpio_dev
    using that by (simp add: artik_gpio_request_def gpio_node_check)
next
  fix c h r and s s' :: gpio_dev
  assume "artik_gpio_request c s = ((r, h), s')" "g_id c \<notin> g_id ` snd ` set (nodes s)"
  from artik_gpio_request_facts [OF this]
  show "if r = S_OK
    then h \<noteq> 0 \<and> h \<notin> fst ` set (nodes s) \<and> (\<exists>c'. g_id c' = g_id c \<and> nodes s' = nodes s @ [(h, c')])
    else nodes s' = nodes s"
    by (auto split: if_splits)
next
  show "artik_gpio_release h s = (E_BAD_ARGS, s)" if "node_get h s = None" for h and s :: gpio_dev
    using that by (simp add: artik_gpio_release_def)
next
  fix c h r and s s' :: gpio_dev
  assume "artik_gpio_release h s = (r, s')" "node_get h s = Some c"
  from artik_gpio_release_facts [OF this]
  show "nodes s' = (if r = S_OK then filter (\<lambda>(b, c). b \<noteq> h) (nodes s) else nodes s)" by simp
qed (simp add: gpio_other_frame)

abbreviation gpio_step :: "(artik_gpio_config, gpio_call) reg_op \<Rightarrow> gpio_dev \<Rightarrow> gpio_dev" where
  "gpio_step \<equiv> reg_step artik_gpio_request artik_gpio_release gpio_other"

lemma gpio_step_owns:
  assumes "owns_data g_user_data s"
  shows "owns_data g_user_data (gpio_step x s)"
proof (cases x)
  case (Req c)
  obtain r h s' where q: "artik_gpio_request c s = ((r, h), s')" by (metis prod.exhaust)
  show ?thesis
  proof (cases "g_id c \<in> g_id ` snd ` set (nodes s)")
    case True
    with assms gpio_reg.request_busy [OF True] Req show ?thesis by simp
  next
    case False
    from artik_gpio_request_facts [OF q False] show ?thesis
    proof (cases "r = S_OK")
      case True
      with artik_gpio_request_facts [OF q False] obtain a where
        "a \<noteq> 0" "a \<notin> dom (data s)" "nodes s' = nodes s @ [(h, c\<lparr>g_user_data := a\<rparr>)]"
        "data s' = (data s)(a \<mapsto> zero_gpio_data)" "h \<notin> fst ` set (nodes s)" by auto
      then have "owns_data g_user_data s'"
        by (intro owns_data_add [OF assms, of s' h "c\<lparr>g_user_data := a\<rparr>" zero_gpio_data]) simp_all
      with q Req show ?thesis by simp
    next
      case False
      with artik_gpio_request_facts [OF q \<open>g_id c \<notin> g_id ` snd ` set (nodes s)\<close>] q Req assms
      show ?thesis using owns_data_cong [of s' s] by simp
    qed
  qed
next
  case (Rel h)
  show ?thesis
  proof (cases "node_get h s")
    case None
    with assms Rel gpio_reg.release_bad [OF None] show ?thesis by simp
  next
    case (Some c)
    obtain r s' where q: "artik_gpio_release h s = (r, s')" by force
    have "g_user_data c \<noteq> 0"
      using assms owns_data_live [OF assms Some] by (auto simp: owns_data_def)
    then have "owns_data g_user_data s'"
      using artik_gpio_release_facts [OF q Some] node_get_Some [OF Some]
      by (intro owns_data_del [OF assms, of h c]) auto
    with q Rel show ?thesis by simp
  qed
next
  case (Other y)
  with assms gpio_other_frame [of y s] owns_data_cong [of "gpio_other y s" s] show ?thesis by simp
qed

interpretation gpio_owns: invariant_steps gpio_step "owns_data g_user_data"
  by unfold_locales (rule gpio_step_owns)


section \<open>What is written to sysfs\<close>

lemma length_dec_u32: "0 \<le> sint (n :: u32) \<Longrightarrow> length (dec_int (sint n)) \<le> 10"
proof -
  assume "0 \<le> sint n"
  moreover have "sint n < 2 ^ 31" using sint_lt [of n] by simp
  ultimately show ?thesis by (auto simp: dec_int_def intro: dec_nat_length)
qed

lemma gpio_path_fits:
  "0 \<le> sint n \<Longrightarrow> length leaf \<le> 90 \<Longrightarrow> gpio_path leaf n = ''/sys/class/gpio/gpio'' @ dec_int (sint n) @ leaf"
  using length_dec_u32 [of n] by (simp add: gpio_path_def MAX_VAL_STRING_def)

lemma gpio_num_fits: "0 \<le> sint n \<Longrightarrow> gpio_num n = dec_int (sint n)"
  using length_dec_u32 [of n] by (simp add: gpio_num_def MAX_VAL_STRING_def)

definition gpio_entries :: "artik_gpio_config \<Rightarrow> (string \<times> string) list" where
  "gpio_entries c =
     (let pin = dec_int (sint (g_id c)); dir = ''/sys/class/gpio/gpio'' @ pin
      in [(''/sys/class/gpio/export'', pin),
          (dir @ ''/direction'', if g_dir c = GPIO_OUT then ''out'' else ''in''),
          if g_dir c = GPIO_OUT
          then (dir @ ''/value'', if g_initial_value c \<noteq> 0 then ''1'' else ''0'')
          else (dir @ ''/edge'', gpio_edge_value (g_edge c))])"

lemma gpio_setup_log:
  assumes "gpio_setup c w = (r, w')" and "0 \<le> r" and "0 \<le> sint (g_id c)" and "g_dir c \<noteq> GPIO_DIR_INVALID"
  shows "\<exists>t. trace w' = trace w @ t \<and> (\<forall>u. sysfs_log (t @ u) = gpio_entries c @ sysfs_log u)"
proof -
  let ?d = "if g_dir c = GPIO_OUT then ''out'' else ''in''"
  let ?e = "if g_dir c = GPIO_OUT
     then (gpio_path ''/value'' (g_id c), if g_initial_value c \<noteq> 0 then ''1'' else ''0'')
     else (gpio_path ''/edge'' (g_id c), gpio_edge_value (g_edge c))"
  obtain r1 w1 where 1: "write_sysfs_entry ''/sys/class/gpio/export'' (gpio_num (g_id c)) w = (r1, w1)" by force
  obtain r2 w2 where 2: "write_sysfs_entry (gpio_path ''/direction'' (g_id c)) ?d w1 = (r2, w2)" by force
  have s: "0 \<le> r1" "0 \<le> r2" "write_sysfs_entry (fst ?e) (snd ?e) w2 = (r, w')"
    using assms(1,2,4) 1 2 by (cases "g_dir c"; auto simp: gpio_setup_def Let_def split: if_splits)+
  from write_sysfs_entry_cases [OF 1] s(1) obtain f1 k1 c1 where
    t1: "trace w1 = trace w @ [(Open ''/sys/class/gpio/export'' [O_WRONLY], f1), (Write f1 (gpio_num (g_id c)), k1), (Close f1, c1)]"
    by auto
  from write_sysfs_entry_cases [OF 2] s(2) obtain f2 k2 c2 where
    t2: "trace w2 = trace w1 @ [(Open (gpio_path ''/direction'' (g_id c)) [O_WRONLY], f2), (Write f2 ?d, k2), (Close f2, c2)]"
    by auto
  from write_sysfs_entry_cases [OF s(3)] assms(2) obtain f3 k3 c3 where
    t3: "trace w' = trace w2 @ [(Open (fst ?e) [O_WRONLY], f3), (Write f3 (snd ?e), k3), (Close f3, c3)]"
    by auto
  show ?thesis
    using assms(3) by (auto simp: t1 t2 t3 gpio_entries_def gpio_path_fits gpio_num_fits Let_def)
qed


section \<open>Safety and leaks\<close>

text \<open>
  In a state that owns its blocks the callback operations never go through a bad pointer, provided
  that the loop module can be requested.
\<close>

lemma gpio_watch_None: "gpio_watch ud d s = None \<Longrightarrow> \<not> modules_ok (wld s)"
  by (auto simp: gpio_watch_def Let_def sys_read_def
      split: option.splits prod.splits if_splits dest!: on_wldD modules_ok_sys modules_ok_request)

lemma gpio_callbacks_safe:
  assumes "owns_data g_user_data s" and "modules_ok (wld s)"
  shows "artik_gpio_set_change_callback h cb ud s \<noteq> None" "artik_gpio_unset_change_callback h s \<noteq> None"
proof -
  have d: "\<exists>d. data s (g_user_data c) = Some d" if "node_get h s = Some c" for c
    using owns_data_live [OF assms(1) that] .
  show "artik_gpio_set_change_callback h cb ud s \<noteq> None"
    using d assms(2)
    by (auto simp: artik_gpio_set_change_callback_def os_gpio_set_change_callback_def Let_def
        split: option.split prod.split dest!: on_wldD gpio_watch_None modules_ok_sys)
  show "artik_gpio_unset_change_callback h s \<noteq> None"
    using d assms(2)
    by (auto simp: artik_gpio_unset_change_callback_def os_gpio_unset_change_callback_def Let_def
        split: option.split prod.split dest!: on_wldD modules_ok_request)
qed

lemma os_gpio_set_ok:
  assumes "os_gpio_set_change_callback c cb ud s = Some (S_OK, s')"
  shows "\<exists>d. data s' (g_user_data c) = Some d \<and> 0 < gd_fd d \<and> gd_loop d \<noteq> 0 \<and>
    mod_refs ''loop'' (wld s') = mod_refs ''loop'' (wld s) + 1 \<and>
    (\<forall>x. fds (wld s') x = fds (wld s) x + (if x = gd_fd d then 1 else 0))"
  using assms
  by (auto simp: os_gpio_set_change_callback_def Let_def refs_Open fds_Open
      split: if_splits option.splits prod.splits dest!: on_wldD gpio_watch_facts)

lemma os_gpio_unset_ok:
  assumes "os_gpio_unset_change_callback c s = Some s'" and "data s (g_user_data c) = Some d"
    and "gd_fd d \<noteq> 0" and "gd_loop d \<noteq> 0"
  shows "mod_refs ''loop'' (wld s') = mod_refs ''loop'' (wld s) \<and>
    (\<forall>x. fds (wld s') x = fds (wld s) x - (if x = gd_fd d then 1 else 0))"
  using assms
  by (auto simp: os_gpio_unset_change_callback_def Let_def refs_simps fds_D
      split: if_splits prod.splits option.splits dest!: on_wldD dest: request_not_NULL)

section \<open>Properties\<close>

text \<open>
  C8. In every state that the GPIO interface can reach, whatever the system calls return: no two
  nodes hold the same pin, handles are distinct and not NULL, every node owns exactly one
  user-data block and no other block is allocated (no leak, and no node with a freed block; a watch
  that the loop still holds for a released pin is not looked at); and as long as the loop module can
  be requested, the callback operations do not go through a bad pointer.
\<close>

theorem artik_gpio_run_invariant:
  "reg_inv g_id (fold gpio_step xs (init_dev w)) \<and>
   owns_data g_user_data (fold gpio_step xs (init_dev w)) \<and>
   (modules_ok (wld (fold gpio_step xs (init_dev w))) \<longrightarrow>
     artik_gpio_set_change_callback h cb ud (fold gpio_step xs (init_dev w)) \<noteq> None \<and>
     artik_gpio_unset_change_callback h (fold gpio_step xs (init_dev w)) \<noteq> None)"
  using gpio_reg.run_inv [OF reg_inv_init, of xs w] gpio_owns.run_inv [OF init_owns, of xs w]
  gpio_callbacks_safe(1) [of "fold gpio_step xs (init_dev w)" h cb ud]
  gpio_callbacks_safe(2) [of "fold gpio_step xs (init_dev w)" h] by blast

text \<open>
  Exclusive use: after a successful request of a pin, every later request of that pin reports
  \<^verbatim>\<open>E_BUSY\<close>, whatever happens in between, until the handle that was granted is released.
\<close>

theorem artik_gpio_busy_until_release:
  assumes "artik_gpio_request c s = ((S_OK, h), s')" and "Rel h \<notin> set xs" and "g_id d = g_id c"
  shows "fst (artik_gpio_request d (fold gpio_step xs s')) = (E_BUSY, 0)"
  using assms by (rule gpio_reg.busy_until_release)

text \<open>
  A successful request has written exactly the entries that configure the pin, in the order
  the kernel needs them: export, direction, then the initial value of an output or the edge of an
  input; and it leaves no descriptor open.
\<close>

theorem artik_gpio_request_configures:
  assumes "artik_gpio_request c s = ((S_OK, h), s')"
  shows "\<exists>t. trace (wld s') = trace (wld s) @ t \<and> sysfs_log t = gpio_entries c \<and> fds (wld s') = fds (wld s)"
proof -
  have new: "g_id c \<notin> g_id ` snd ` set (nodes s)"
    using gpio_reg.request_ok(1) [OF assms] .
  obtain node s1 where n: "node_add zero_gpio_config 88 s = (node, s1)" by force
  obtain ret c1 s2 where o: "os_gpio_request c s1 = ((ret, c1), s2)" by (metis prod.exhaust)
  from assms new n o have ok: "ret = S_OK" "s' = node_set node c1 s2"
    by (cases "node = 0"; cases "ret = S_OK"; simp add: artik_gpio_request_def gpio_node_check)+
  obtain r w where g: "gpio_setup c (wld s1) = (r, w)" by force
  obtain a s3 where m: "malloc_data zero_gpio_data 32 (s1\<lparr>wld := w\<rparr>) = (a, s3)" by force
  have v: "0 \<le> r" "s2 = s3" "0 \<le> sint (g_id c)" "g_dir c \<noteq> GPIO_DIR_INVALID"
    using o ok(1) g m
    by (auto simp: os_gpio_request_def on_wld_def Let_def split: if_splits prod.splits)
  obtain t where t: "trace w = trace (wld s1) @ t" "\<And>u. sysfs_log (t @ u) = gpio_entries c @ sysfs_log u"
    using gpio_setup_log [OF g v(1,3,4)] by blast
  obtain r1 where r1: "trace (wld s1) = trace (wld s) @ [(Malloc 88, r1)]"
    using node_add_trace [OF n] by blast
  obtain r2 where r2: "trace (wld s3) = trace w @ [(Malloc 32, r2)]"
    using malloc_data_trace [OF m] by auto
  have "trace (wld s') = trace (wld s) @ ((Malloc 88, r1) # t @ [(Malloc 32, r2)])"
    using ok(2) v(2) r1 r2 t(1) by simp
  moreover have "sysfs_log ((Malloc 88, r1) # t @ [(Malloc 32, r2)]) = gpio_entries c"
    using t(2) [of "[(Malloc 32, r2)]"] by simp
  ultimately show ?thesis using artik_gpio_request_facts [OF assms new] by blast
qed

text \<open>
  A reference leak: setting the change callback and unsetting it again closes the descriptor
  it opened but leaves the loop module with one reference more than before, because unsetting
  requests the module again and releases only that reference.
\<close>

theorem artik_gpio_callback_cycle_leaks:
  assumes "artik_gpio_set_change_callback h cb ud s = Some (S_OK, s1)"
    and "artik_gpio_unset_change_callback h s1 = Some s2"
  shows "mod_refs ''loop'' (wld s2) = mod_refs ''loop'' (wld s) + 1 \<and> fds (wld s2) = fds (wld s)"
proof -
  from assms(1) obtain c where c: "node_get h s = Some c" "os_gpio_set_change_callback c cb ud s = Some (S_OK, s1)"
    by (auto simp: artik_gpio_set_change_callback_def split: option.splits)
  have "nodes s1 = nodes s" using os_gpio_set_change_callback_frame [OF c(2)] by blast
  then have "node_get h s1 = Some c" using c(1) by (simp add: node_get_def split: if_splits)
  with assms(2) have u: "os_gpio_unset_change_callback c s1 = Some s2"
    by (simp add: artik_gpio_unset_change_callback_def)
  from os_gpio_set_ok [OF c(2)] obtain d where d: "data s1 (g_user_data c) = Some d" "0 < gd_fd d" "gd_loop d \<noteq> 0"
    "mod_refs ''loop'' (wld s1) = mod_refs ''loop'' (wld s) + 1"
    "\<And>x. fds (wld s1) x = fds (wld s) x + (if x = gd_fd d then 1 else 0)" by blast
  from os_gpio_unset_ok [OF u d(1)] d(2-5) show ?thesis by (auto simp: fun_eq_iff)
qed


section \<open>Witnesses\<close>

text \<open>A world in which every call succeeds (call 15 is the registration of the watch).\<close>

definition gpio_world :: world where
  "gpio_world = \<lparr>result = (\<lambda>n. if n = 15 then 0 else int n + 5), rdata = (\<lambda>_. ''1''), out_int = (\<lambda>_. 3), module_addr = (\<lambda>_. 40),
     errno = 0, trace = []\<rparr>"

definition gpio_pin :: artik_gpio_config where
  "gpio_pin = \<lparr>g_id = 121, g_name = 0, g_dir = GPIO_IN, g_edge = GPIO_EDGE_BOTH,
     g_initial_value = 0, g_user_data = 0\<rparr>"

definition gpio_s1 :: gpio_dev where
  "gpio_s1 = snd (artik_gpio_request gpio_pin (init_dev gpio_world))"

lemma gpio_pin_request: "artik_gpio_request gpio_pin (init_dev gpio_world) = ((S_OK, 5), gpio_s1)"
proof -
  have "fst (artik_gpio_request gpio_pin (init_dev gpio_world)) = (S_OK, 5)"
    by code_simp
  then show ?thesis by (simp add: gpio_s1_def prod_eq_iff)
qed

definition gpio_s2 :: gpio_dev where
  "gpio_s2 = (case artik_gpio_set_change_callback 5 7 0 gpio_s1 of Some (r, s) \<Rightarrow> s)"

lemma gpio_pin_set: "map_option fst (artik_gpio_set_change_callback 5 7 0 gpio_s1) = Some S_OK"
  by code_simp


lemma artik_gpio_run_invariant_witness:
  "reg_inv g_id (init_dev gpio_world :: gpio_dev) \<and>
   artik_gpio_set_change_callback 5 7 0 (init_dev gpio_world) \<noteq> None \<and>
   artik_gpio_unset_change_callback 5 (init_dev gpio_world) \<noteq> None"
  using artik_gpio_run_invariant [of "[Rel 5, Other (GRead 5)]" gpio_world 5 7 0]
  by (simp add: artik_gpio_release_def artik_gpio_read_def init_dev_def node_get_def gpio_world_def modules_ok_def)

lemma artik_gpio_busy_until_release_witness:
  "fst (artik_gpio_request gpio_pin (fold gpio_step [Other (GRead 5), Rel 9] gpio_s1)) = (E_BUSY, 0)"
  by (rule artik_gpio_busy_until_release [OF gpio_pin_request]) simp_all

lemma artik_gpio_request_configures_witness:
  "\<exists>t. trace (wld gpio_s1) = trace gpio_world @ t \<and>
     sysfs_log t = [(''/sys/class/gpio/export'', ''121''),
       (''/sys/class/gpio/gpio121/direction'', ''in''), (''/sys/class/gpio/gpio121/edge'', ''both'')]"
proof -
  have "gpio_entries gpio_pin = [(''/sys/class/gpio/export'', ''121''),
      (''/sys/class/gpio/gpio121/direction'', ''in''), (''/sys/class/gpio/gpio121/edge'', ''both'')]"
    by code_simp
  with artik_gpio_request_configures [OF gpio_pin_request] show ?thesis by auto
qed

lemma artik_gpio_callback_cycle_leaks_witness:
  "\<exists>s3. artik_gpio_unset_change_callback 5 gpio_s2 = Some s3 \<and>
     mod_refs ''loop'' (wld s3) = mod_refs ''loop'' (wld gpio_s1) + 1"
proof -
  from gpio_pin_set obtain s2 where s2: "artik_gpio_set_change_callback 5 7 0 gpio_s1 = Some (S_OK, s2)"
    by auto
  then have "gpio_s2 = s2" by (simp add: gpio_s2_def)
  have "\<not> Option.is_none (artik_gpio_unset_change_callback 5 gpio_s2)" by code_simp
  then obtain s3 where "artik_gpio_unset_change_callback 5 gpio_s2 = Some s3"
    by (auto simp: Option.is_none_def)
  with artik_gpio_callback_cycle_leaks [OF s2] \<open>gpio_s2 = s2\<close> show ?thesis by blast
qed

end
