(* ===== verification/Pwm.thy ===== *)
theory Pwm
  imports Registry
begin

text \<open>
  The PWM module: \<^verbatim>\<open>pwm/artik_pwm.c\<close> over \<^verbatim>\<open>pwm/linux_pwm.c\<close>.  A requested PWM keeps its four
  sysfs entries open (enable, duty cycle, period, polarity) and changes them by writing.
\<close>

section \<open>Data\<close>

datatype artik_pwm_polarity_t = POLR_NORMAL | POLR_INVERT | POLR_INVALID

record artik_pwm_config =
  p_pin_num :: int
  p_name :: addr
  p_period :: u32
  p_duty_cycle :: u32
  p_polarity :: artik_pwm_polarity_t
  p_user_data :: addr

text \<open>
  \<^verbatim>\<open>artik_pwm_path_index_t\<close> indexes the path table and the array of descriptors; the array is a
  function of the index.
\<close>

datatype artik_pwm_path_index_t = PWM_EXP | PWM_UEXP | PWM_ENB | PWM_CYCL | PWM_PERD | PWM_POLR

record artik_pwm_user_data =
  pd_fd :: "artik_pwm_path_index_t \<Rightarrow> int"
  pd_chip :: int
  pd_port :: int

type_synonym pwm_dev = "(artik_pwm_config, artik_pwm_user_data) dev"

definition zero_pwm_config :: artik_pwm_config where
  "zero_pwm_config = \<lparr>p_pin_num = 0, p_name = 0, p_period = 0, p_duty_cycle = 0,
     p_polarity = POLR_NORMAL, p_user_data = 0\<rparr>"

section \<open>The OS layer\<close>

definition PWM_MAX_SIZE :: nat where "PWM_MAX_SIZE = 128"

fun tab_value_path :: "artik_pwm_path_index_t \<Rightarrow> int \<Rightarrow> int \<Rightarrow> string" where
  "tab_value_path PWM_EXP chip port = ''/sys/class/pwm/pwmchip'' @ dec_int chip @ ''/export''"
| "tab_value_path PWM_UEXP chip port = ''/sys/class/pwm/pwmchip'' @ dec_int chip @ ''/unexport''"
| "tab_value_path PWM_ENB chip port =
     ''/sys/class/pwm/pwmchip'' @ dec_int chip @ ''/pwm'' @ dec_int port @ ''/enable''"
| "tab_value_path PWM_CYCL chip port =
     ''/sys/class/pwm/pwmchip'' @ dec_int chip @ ''/pwm'' @ dec_int port @ ''/duty_cycle''"
| "tab_value_path PWM_PERD chip port =
     ''/sys/class/pwm/pwmchip'' @ dec_int chip @ ''/pwm'' @ dec_int port @ ''/period''"
| "tab_value_path PWM_POLR chip port =
     ''/sys/class/pwm/pwmchip'' @ dec_int chip @ ''/pwm'' @ dec_int port @ ''/polarity''"

fun tab_value_polarity :: "artik_pwm_polarity_t \<Rightarrow> string" where
  "tab_value_polarity POLR_NORMAL = ''normal''"
| "tab_value_polarity POLR_INVERT = ''inversed''"
| "tab_value_polarity POLR_INVALID = ''''"

definition itoa :: "int \<Rightarrow> string" where
  "itoa n = snprintf 17 (dec_int n)"

text \<open>One write to an open entry, and the translation of its \<^verbatim>\<open>errno\<close>.\<close>

definition os_pwm_ioctl :: "artik_pwm_user_data \<Rightarrow> artik_pwm_path_index_t \<Rightarrow> string \<Rightarrow> world \<Rightarrow> artik_error \<times> world" where
  "os_pwm_ioctl d ifd val w =
     (let (ret, w) = sys (Write (pd_fd d ifd) (if ifd = PWM_ENB then take 1 val else val)) w
      in if ret < 0
         then (if errno w = EINVAL then E_INVALID_VALUE
               else if errno w = EBADF then E_BAD_ARGS
               else if errno w = EDESTADDRREQ then E_NOT_INITIALIZED
               else if errno w = EAGAIN then E_TRY_AGAIN
               else if errno w = EFBIG then E_OVERFLOW
               else if errno w = EINTR \<or> errno w = EPIPE then E_INTERRUPTED
               else if errno w = EIO then E_BUSY
               else E_NO_MEM, w)
         else (S_OK, w))"

definition os_pwm_open :: "artik_pwm_path_index_t \<Rightarrow> artik_pwm_user_data \<Rightarrow> world \<Rightarrow> (int \<times> artik_pwm_user_data) \<times> world" where
  "os_pwm_open ifd d w =
     (let (fd, w) = sys (Open (snprintf PWM_MAX_SIZE (tab_value_path ifd (pd_chip d) (pd_port d))) [O_SYNC, O_WRONLY]) w
      in ((fd, d\<lparr>pd_fd := (pd_fd d)(ifd := fd)\<rparr>), w))"

definition os_pwm_uexport :: "artik_pwm_path_index_t \<Rightarrow> artik_pwm_user_data \<Rightarrow> world \<Rightarrow> (artik_error \<times> artik_pwm_user_data) \<times> world" where
  "os_pwm_uexport ifd d w =
     (let ((fd, d), w) = os_pwm_open ifd d w
      in if fd < 0 then ((E_BUSY, d), w)
         else let (res, w) = os_pwm_ioctl d ifd (itoa (pd_port d)) w;
                  (_, w) = sys (Close (pd_fd d ifd)) w
              in ((res, d\<lparr>pd_fd := (pd_fd d)(ifd := -1)\<rparr>), w))"

text \<open>The loop of \<^verbatim>\<open>os_pwm_init\<close> over the entries from \<^verbatim>\<open>ARTIK_PWM_ENB\<close> on.\<close>

fun os_pwm_open_all :: "artik_pwm_path_index_t list \<Rightarrow> artik_pwm_user_data \<Rightarrow> world \<Rightarrow> (artik_error \<times> artik_pwm_user_data) \<times> world" where
  "os_pwm_open_all [] d w = ((S_OK, d), w)"
| "os_pwm_open_all (i # is) d w =
     (let ((fd, d), w) = os_pwm_open i d w
      in if fd < 0 then ((E_BAD_ARGS, d), w) else os_pwm_open_all is d w)"

definition pwm_entries :: "artik_pwm_path_index_t list" where
  "pwm_entries = [PWM_ENB, PWM_CYCL, PWM_PERD, PWM_POLR]"

definition set_pdata :: "addr \<Rightarrow> artik_pwm_user_data \<Rightarrow> pwm_dev \<Rightarrow> pwm_dev" where
  "set_pdata a d s = s\<lparr>data := (data s)(a \<mapsto> d)\<rparr>"

text \<open>
  \<^term>\<open>None\<close>: the results of the two \<^verbatim>\<open>malloc\<close> calls are used without a check.  The pin number
  holds the chip in bits 8 to 15 and the port in bits 0 to 7.
\<close>

definition os_pwm_init :: "artik_pwm_config \<Rightarrow> pwm_dev \<Rightarrow> ((artik_error \<times> artik_pwm_config) \<times> pwm_dev) option" where
  "os_pwm_init c s =
     (if p_pin_num c < 0 then Some ((E_BAD_ARGS, c), s)
      else
        let port = p_pin_num c; chip = drop_bit 8 (port AND 0xff00) AND 0xff; port = port AND 0xff;
            d = \<lparr>pd_fd = (\<lambda>_. 0), pd_chip = chip, pd_port = port\<rparr>;
            (a, s) = malloc_data d 16 s
        in if a = 0 then None
           else
             let (f, s) = malloc 24 s
             in if f = 0 then None
                else
                  let c = c\<lparr>p_user_data := a\<rparr>;
                      ((ret, d), s) = on_wld (os_pwm_uexport PWM_EXP d) s;
                      ((ret, d), s) = (if ret \<noteq> S_OK then ((ret, d), s) else on_wld (os_pwm_open_all pwm_entries d) s)
                  in if ret \<noteq> S_OK then Some ((ret, c\<lparr>p_user_data := 0\<rparr>), free_data a s)
                     else Some ((S_OK, c), set_pdata a d s))"

fun os_pwm_close_all :: "artik_pwm_path_index_t list \<Rightarrow> artik_pwm_user_data \<Rightarrow> world \<Rightarrow> world" where
  "os_pwm_close_all [] d w = w"
| "os_pwm_close_all (i # is) d w =
     os_pwm_close_all is d (if pd_fd d i \<noteq> -1 then snd (sys (Close (pd_fd d i)) w) else w)"

definition os_pwm_clean :: "addr \<Rightarrow> pwm_dev \<Rightarrow> pwm_dev" where
  "os_pwm_clean a s =
     (case data s a of
        None \<Rightarrow> s
      | Some d \<Rightarrow> free_data a (s\<lparr>wld := os_pwm_close_all pwm_entries d (wld s)\<rparr>))"

definition os_pwm_enable :: "artik_pwm_user_data \<Rightarrow> bool \<Rightarrow> world \<Rightarrow> artik_error \<times> world" where
  "os_pwm_enable d state w = os_pwm_ioctl d PWM_ENB (if state then ''1'' else ''0'') w"

text \<open>
  The common body of the three setters: disable, write the entry, enable.  The first failure ends it.
\<close>

definition os_pwm_set :: "artik_pwm_user_data \<Rightarrow> artik_pwm_path_index_t \<Rightarrow> string \<Rightarrow> world \<Rightarrow> artik_error \<times> world" where
  "os_pwm_set d ifd val w =
     (let (res, w) = os_pwm_enable d False w
      in if res \<noteq> S_OK then (res, w)
         else let (res, w) = os_pwm_ioctl d ifd val w
              in if res \<noteq> S_OK then (res, w) else os_pwm_enable d True w)"

definition os_pwm_set_period :: "artik_pwm_user_data \<Rightarrow> u32 \<Rightarrow> world \<Rightarrow> artik_error \<times> world" where
  "os_pwm_set_period d v w = os_pwm_set d PWM_PERD (itoa (sint v)) w"

definition os_pwm_set_polarity :: "artik_pwm_user_data \<Rightarrow> artik_pwm_polarity_t \<Rightarrow> world \<Rightarrow> artik_error \<times> world" where
  "os_pwm_set_polarity d v w =
     (if v \<noteq> POLR_NORMAL \<and> v \<noteq> POLR_INVERT then (E_BAD_ARGS, w)
      else os_pwm_set d PWM_POLR (tab_value_polarity v) w)"

definition os_pwm_set_duty_cycle :: "artik_pwm_user_data \<Rightarrow> u32 \<Rightarrow> world \<Rightarrow> artik_error \<times> world" where
  "os_pwm_set_duty_cycle d v w = os_pwm_set d PWM_CYCL (itoa (sint v)) w"

text \<open>Release: it gives up, keeping the block and its descriptors, at the first call that fails.\<close>

definition os_pwm_release :: "artik_pwm_config \<Rightarrow> pwm_dev \<Rightarrow> (artik_error \<times> pwm_dev) option" where
  "os_pwm_release c s =
     (case data s (p_user_data c) of
        None \<Rightarrow> None
      | Some d \<Rightarrow>
          let (res, s) = on_wld (os_pwm_set_duty_cycle d 0) s
          in if res \<noteq> S_OK then Some (res, s)
             else
               let (res, s) = on_wld (os_pwm_enable d False) s
               in if res \<noteq> S_OK then Some (res, s)
                  else
                    let ((res, d), s) = on_wld (os_pwm_uexport PWM_UEXP d) s;
                        s = set_pdata (p_user_data c) d s
                    in if res \<noteq> S_OK then Some (res, s)
                       else Some (S_OK, os_pwm_clean (p_user_data c) s))"

text \<open>The four writes of the request after \<^verbatim>\<open>os_pwm_init\<close>.\<close>

definition pwm_program :: "artik_pwm_config \<Rightarrow> artik_pwm_user_data \<Rightarrow> world \<Rightarrow> artik_error \<times> world" where
  "pwm_program c d w =
     (let (res, w) = os_pwm_ioctl d PWM_PERD (itoa (sint (p_period c))) w
      in if res \<noteq> S_OK then (res, w)
         else let (res, w) = os_pwm_ioctl d PWM_CYCL (itoa (sint (p_duty_cycle c))) w
              in if res \<noteq> S_OK then (res, w)
                 else let (res, w) = os_pwm_ioctl d PWM_POLR (tab_value_polarity (p_polarity c)) w
                      in if res \<noteq> S_OK then (res, w) else os_pwm_enable d True w)"

definition os_pwm_request :: "artik_pwm_config \<Rightarrow> pwm_dev \<Rightarrow> ((artik_error \<times> artik_pwm_config) \<times> pwm_dev) option" where
  "os_pwm_request c s =
     (if p_duty_cycle c > p_period c then Some ((E_BAD_ARGS, c), s)
      else if p_polarity c \<noteq> POLR_NORMAL \<and> p_polarity c \<noteq> POLR_INVERT then Some ((E_BAD_ARGS, c), s)
      else
        let c = (if p_duty_cycle c = 0 then c\<lparr>p_duty_cycle := p_period c div 2\<rparr> else c)
        in case os_pwm_init c s of
             None \<Rightarrow> None
           | Some ((res, c), s) \<Rightarrow>
               if res \<noteq> S_OK then Some ((res, c), s)
               else
                 (case data s (p_user_data c) of
                    None \<Rightarrow> None
                  | Some d \<Rightarrow>
                      let (res, s) = on_wld (pwm_program c d) s
                      in if res = S_OK then Some ((S_OK, c), s)
                         else (case os_pwm_release c s of
                                 None \<Rightarrow> None
                               | Some (r, s) \<Rightarrow> Some ((res, c), s))))"

section \<open>The module\<close>

definition pwm_check_exist :: "int \<Rightarrow> artik_pwm_config \<Rightarrow> bool" where
  "pwm_check_exist val_pin c \<longleftrightarrow> p_pin_num c = val_pin"

definition artik_pwm_request :: "artik_pwm_config \<Rightarrow> pwm_dev \<Rightarrow> ((artik_error \<times> addr) \<times> pwm_dev) option" where
  "artik_pwm_request c s =
     (if node_check (pwm_check_exist (p_pin_num c)) s then Some ((E_BUSY, 0), s)
      else
        let (node, s) = node_add zero_pwm_config 88 s
        in if node = 0 then Some ((E_NO_MEM, 0), s)
           else
             (case os_pwm_request c s of
                None \<Rightarrow> None
              | Some ((ret, c), s) \<Rightarrow>
                  if ret = S_OK then Some ((S_OK, node), node_set node c s)
                  else Some ((ret, 0), node_del node s)))"

definition artik_pwm_release :: "addr \<Rightarrow> pwm_dev \<Rightarrow> (artik_error \<times> pwm_dev) option" where
  "artik_pwm_release h s =
     (case node_get h s of
        None \<Rightarrow> Some (E_BAD_ARGS, s)
      | Some c \<Rightarrow>
          (case os_pwm_release c s of
             None \<Rightarrow> None
           | Some (ret, s) \<Rightarrow> if ret \<noteq> S_OK then Some (ret, s) else Some (ret, node_del h s)))"

text \<open>An operation of the OS layer on the block of a handle's node.\<close>

definition pwm_with ::
  "addr \<Rightarrow> (artik_pwm_user_data \<Rightarrow> world \<Rightarrow> artik_error \<times> world) \<Rightarrow> pwm_dev \<Rightarrow> (artik_error \<times> pwm_dev) option" where
  "pwm_with h f s =
     (case node_get h s of
        None \<Rightarrow> Some (E_BAD_ARGS, s)
      | Some c \<Rightarrow> (case data s (p_user_data c) of None \<Rightarrow> None | Some d \<Rightarrow> Some (on_wld (f d) s)))"

definition artik_pwm_enable :: "addr \<Rightarrow> pwm_dev \<Rightarrow> (artik_error \<times> pwm_dev) option" where
  "artik_pwm_enable h s = pwm_with h (\<lambda>d. os_pwm_enable d True) s"

definition artik_pwm_disable :: "addr \<Rightarrow> pwm_dev \<Rightarrow> (artik_error \<times> pwm_dev) option" where
  "artik_pwm_disable h s = pwm_with h (\<lambda>d. os_pwm_enable d False) s"

definition artik_pwm_set_period :: "addr \<Rightarrow> u32 \<Rightarrow> pwm_dev \<Rightarrow> (artik_error \<times> pwm_dev) option" where
  "artik_pwm_set_period h v s = pwm_with h (\<lambda>d. os_pwm_set_period d v) s"

definition artik_pwm_set_polarity :: "addr \<Rightarrow> artik_pwm_polarity_t \<Rightarrow> pwm_dev \<Rightarrow> (artik_error \<times> pwm_dev) option" where
  "artik_pwm_set_polarity h v s = pwm_with h (\<lambda>d. os_pwm_set_polarity d v) s"

definition artik_pwm_set_duty_cycle :: "addr \<Rightarrow> u32 \<Rightarrow> pwm_dev \<Rightarrow> (artik_error \<times> pwm_dev) option" where
  "artik_pwm_set_duty_cycle h v s = pwm_with h (\<lambda>d. os_pwm_set_duty_cycle d v) s"

section \<open>What the operations do to the state\<close>

lemma os_pwm_ioctl_fds: "os_pwm_ioctl d i v w = (r, w') \<Longrightarrow> fds w' = fds w"
  by (auto simp: os_pwm_ioctl_def Let_def fds_D split: prod.splits if_splits)

lemma os_pwm_set_fds: "os_pwm_set d i v w = (r, w') \<Longrightarrow> fds w' = fds w"
  by (auto simp: os_pwm_set_def os_pwm_enable_def Let_def os_pwm_ioctl_fds split: prod.splits if_splits)

lemma pwm_program_fds: "pwm_program c d w = (r, w') \<Longrightarrow> fds w' = fds w"
  by (auto simp: pwm_program_def os_pwm_enable_def Let_def os_pwm_ioctl_fds split: prod.splits if_splits)

lemma os_pwm_open_fds:
  "os_pwm_open i d w = ((fd, d'), w') \<Longrightarrow>
     d' = d\<lparr>pd_fd := (pd_fd d)(i := fd)\<rparr> \<and> fds w' = (\<lambda>x. fds w x + (if 0 \<le> fd \<and> fd = x then 1 else 0))"
  by (auto simp: os_pwm_open_def Let_def fds_Open split: prod.splits)

lemma os_pwm_uexport_fds:
  assumes "os_pwm_uexport i d w = ((r, d'), w')"
  shows "fds w' = fds w \<and> (\<forall>j. j \<noteq> i \<longrightarrow> pd_fd d' j = pd_fd d j)"
proof -
  obtain fd d1 w1 where o: "os_pwm_open i d w = ((fd, d1), w1)" by (metis prod.exhaust)
  note f = os_pwm_open_fds [OF o]
  show ?thesis
  proof (cases "fd < 0")
    case True
    with assms o f show ?thesis by (auto simp: os_pwm_uexport_def)
  next
    case False
    obtain r2 w2 where i: "os_pwm_ioctl d1 i (itoa (pd_port d1)) w1 = (r2, w2)" by force
    obtain r3 w3 where cl: "sys (Close (pd_fd d1 i)) w2 = (r3, w3)" by force
    have "fds w3 x = fds w x" for x
      using fds_Close [OF cl] os_pwm_ioctl_fds [OF i] f False by auto
    moreover have "d' = d1\<lparr>pd_fd := (pd_fd d1)(i := -1)\<rparr>" "w' = w3"
      using assms o i cl False by (auto simp: os_pwm_uexport_def Let_def)
    ultimately show ?thesis using f by (auto simp: fun_eq_iff)
  qed
qed

text \<open>Opening the entries: all of them, or a prefix that stays open.\<close>

definition fd_count :: "artik_pwm_path_index_t list \<Rightarrow> artik_pwm_user_data \<Rightarrow> int \<Rightarrow> int" where
  "fd_count is d x = (\<Sum>i\<leftarrow>is. if pd_fd d i = x then 1 else 0)"

lemma os_pwm_open_all_ok:
  "os_pwm_open_all is d w = ((S_OK, d'), w') \<Longrightarrow> distinct is \<Longrightarrow>
     (\<forall>i \<in> set is. 0 \<le> pd_fd d' i) \<and> (\<forall>i. i \<notin> set is \<longrightarrow> pd_fd d' i = pd_fd d i) \<and>
     fds w' = (\<lambda>x. fds w x + fd_count is d' x)"
proof (induction "is" arbitrary: d w)
  case Nil
  then show ?case by (simp add: fd_count_def)
next
  case (Cons i js)
  obtain fd d1 w1 where o: "os_pwm_open i d w = ((fd, d1), w1)" by (metis prod.exhaust)
  note f = os_pwm_open_fds [OF o]
  from Cons.prems(1) o have fd: "\<not> fd < 0" "os_pwm_open_all js d1 w1 = ((S_OK, d'), w')"
    by (auto split: if_splits)
  from Cons.IH [OF fd(2)] Cons.prems(2) f fd(1) show ?case by (auto simp: fd_count_def)
qed

lemma os_pwm_close_all_fds:
  "(\<forall>i \<in> set is. pd_fd d i \<noteq> -1) \<Longrightarrow> fds (os_pwm_close_all is d w) x = fds w x - fd_count is d x"
proof (induction "is" arbitrary: w)
  case (Cons i js)
  obtain r w1 where c: "sys (Close (pd_fd d i)) w = (r, w1)" by force
  with Cons fds_Close [OF c] show ?case by (simp add: fd_count_def)
qed (simp add: fd_count_def)

lemma set_pdata_simps [simp]:
  "nodes (set_pdata a d s) = nodes s" "data (set_pdata a d s) = (data s)(a \<mapsto> d)" "wld (set_pdata a d s) = wld s"
  by (simp_all add: set_pdata_def)

lemma os_pwm_init_facts:
  assumes "os_pwm_init c s = Some ((r, c'), s')"
  shows "nodes s' = nodes s \<and> p_pin_num c' = p_pin_num c \<and>
    (if r = S_OK
     then p_user_data c' \<noteq> 0 \<and> p_user_data c' \<notin> live s \<and>
       (\<exists>d. data s' = (data s)(p_user_data c' \<mapsto> d) \<and> (\<forall>i \<in> set pwm_entries. 0 \<le> pd_fd d i) \<and>
          fds (wld s') = (\<lambda>x. fds (wld s) x + fd_count pwm_entries d x))
     else data s' = data s)"
proof (cases "p_pin_num c < 0")
  case True
  with assms show ?thesis by (simp add: os_pwm_init_def)
next
  case False
  define d0 where "d0 = \<lparr>pd_fd = (\<lambda>_. 0 :: int), pd_chip = drop_bit 8 (p_pin_num c AND 0xff00) AND 0xff, pd_port = p_pin_num c AND 0xff\<rparr>"
  obtain a s1 where a: "malloc_data d0 16 s = (a, s1)" by force
  obtain f s2 where f: "malloc 24 s1 = (f, s2)" by force
  obtain r3 d3 s3 where e: "on_wld (os_pwm_uexport PWM_EXP d0) s2 = ((r3, d3), s3)" by (metis prod.exhaust)
  obtain r4 d4 s4 where o: "on_wld (os_pwm_open_all pwm_entries d3) s3 = ((r4, d4), s4)" by (metis prod.exhaust)
  have nz: "a \<noteq> 0" "f \<noteq> 0"
    using assms False a f by (auto simp: os_pwm_init_def Let_def d0_def split: if_splits)
  have res: "((r, c'), s') =
      (if r3 \<noteq> S_OK then ((r3, c\<lparr>p_user_data := 0\<rparr>), free_data a s3)
       else if r4 \<noteq> S_OK then ((r4, c\<lparr>p_user_data := 0\<rparr>), free_data a s4)
       else ((S_OK, c\<lparr>p_user_data := a\<rparr>), set_pdata a d4 s4))"
    using assms False a f nz e o
    by (cases "r3 = S_OK"; cases "r4 = S_OK"; simp add: os_pwm_init_def Let_def d0_def)
  note af = malloc_data_facts [OF a] and ff = malloc_facts [OF f] and ef = on_wldD [OF e] and off = on_wldD [OF o]
  have fr: "data s a = None" "a \<notin> live s" using af nz by (auto simp: live_def live_of_def)
  have e3: "fds (wld s3) = fds (wld s)" using af ff ef os_pwm_uexport_fds [of PWM_EXP d0 "wld s2" r3 d3 "wld s3"] by auto
  show ?thesis
  proof (cases "r3 = S_OK \<and> r4 = S_OK")
    case True
    have "distinct pwm_entries" by (simp add: pwm_entries_def)
    with os_pwm_open_all_ok [of pwm_entries d3 "wld s3" d4 "wld s4"] True off res af ff ef fr nz e3
    show ?thesis by auto
  next
    case False
    have "data (free_data a s3) = data s" "data (free_data a s4) = data s"
      using af ff ef off fr nz by (auto simp: fun_eq_iff)
    with False res af ff ef off show ?thesis by (auto split: if_splits)
  qed
qed

lemma os_pwm_clean_facts:
  assumes "data s a = Some d" and "\<forall>i \<in> set pwm_entries. pd_fd d i \<noteq> -1"
  shows "nodes (os_pwm_clean a s) = nodes s \<and> data (os_pwm_clean a s) = (data s)(a := None) \<and>
    fds (wld (os_pwm_clean a s)) = (\<lambda>x. fds (wld s) x - fd_count pwm_entries d x)"
  using assms by (auto simp: os_pwm_clean_def fun_eq_iff os_pwm_close_all_fds)

lemma os_pwm_release_facts:
  assumes "os_pwm_release c s = Some (r, s')" and "data s (p_user_data c) = Some d"
  shows "nodes s' = nodes s \<and> (\<forall>a. a \<noteq> p_user_data c \<longrightarrow> data s' a = data s a) \<and>
    (r = S_OK \<longrightarrow> (\<forall>i \<in> set pwm_entries. pd_fd d i \<noteq> -1) \<longrightarrow>
       data s' (p_user_data c) = None \<and> fds (wld s') = (\<lambda>x. fds (wld s) x - fd_count pwm_entries d x))"
proof -
  obtain r1 s1 where 1: "on_wld (os_pwm_set_duty_cycle d 0) s = (r1, s1)" by (metis prod.exhaust)
  obtain r2 s2 where 2: "on_wld (os_pwm_enable d False) s1 = (r2, s2)" by (metis prod.exhaust)
  obtain r3 d3 s3 where 3: "on_wld (os_pwm_uexport PWM_UEXP d) s2 = ((r3, d3), s3)" by (metis prod.exhaust)
  let ?s3 = "set_pdata (p_user_data c) d3 s3"
  have res: "(r, s') = (if r1 \<noteq> S_OK then (r1, s1) else if r2 \<noteq> S_OK then (r2, s2) else if r3 \<noteq> S_OK then (r3, ?s3)
      else (S_OK, os_pwm_clean (p_user_data c) ?s3))"
    using assms 1 2 3
    by (cases "r1 = S_OK"; cases "r2 = S_OK"; cases "r3 = S_OK"; simp add: os_pwm_release_def)
  note f = on_wldD [OF 1] on_wldD [OF 2] on_wldD [OF 3]
  have u: "fds (wld s3) = fds (wld s2)" "\<forall>j. j \<noteq> PWM_UEXP \<longrightarrow> pd_fd d3 j = pd_fd d j"
    using f os_pwm_uexport_fds [of PWM_UEXP d "wld s2" r3 d3 "wld s3"] by auto
  have w: "fds (wld s3) = fds (wld s)"
    using u(1) f os_pwm_set_fds [of d PWM_CYCL _ "wld s" r1 "wld s1"] os_pwm_ioctl_fds [of d PWM_ENB _ "wld s1" r2 "wld s2"]
    by (auto simp: os_pwm_set_duty_cycle_def os_pwm_enable_def)
  have same: "\<forall>i \<in> set pwm_entries. pd_fd d3 i = pd_fd d i" using u(2) by (simp add: pwm_entries_def)
  then have cnt: "fd_count pwm_entries d3 = fd_count pwm_entries d"
    by (auto simp: fd_count_def fun_eq_iff pwm_entries_def)
  show ?thesis
  proof (cases "r1 = S_OK \<and> r2 = S_OK \<and> r3 = S_OK")
    case True
    have "data ?s3 (p_user_data c) = Some d3" by simp
    from os_pwm_clean_facts [OF this] same cnt w True res f
    have "(\<forall>i \<in> set pwm_entries. pd_fd d i \<noteq> -1) \<longrightarrow> ?thesis" by auto
    moreover have "nodes (os_pwm_clean (p_user_data c) ?s3) = nodes s \<and>
        (\<forall>a. a \<noteq> p_user_data c \<longrightarrow> data (os_pwm_clean (p_user_data c) ?s3) a = data s a)"
      using f by (auto simp: os_pwm_clean_def split: option.splits)
    ultimately show ?thesis using True res by auto
  next
    case False
    with res f show ?thesis by (auto split: if_splits)
  qed
qed

lemma os_pwm_request_facts:
  assumes "os_pwm_request c s = Some ((r, c'), s')"
  shows "nodes s' = nodes s \<and> p_pin_num c' = p_pin_num c \<and>
    (r = S_OK \<longrightarrow> p_user_data c' \<noteq> 0 \<and> p_user_data c' \<notin> live s \<and>
       (\<exists>d. data s' = (data s)(p_user_data c' \<mapsto> d) \<and> (\<forall>i \<in> set pwm_entries. 0 \<le> pd_fd d i) \<and>
          fds (wld s') = (\<lambda>x. fds (wld s) x + fd_count pwm_entries d x)))"
proof (cases "p_duty_cycle c > p_period c \<or> (p_polarity c \<noteq> POLR_NORMAL \<and> p_polarity c \<noteq> POLR_INVERT)")
  case True
  then have "os_pwm_request c s = Some ((E_BAD_ARGS, c), s)" by (auto simp: os_pwm_request_def)
  with assms show ?thesis by auto
next
  case False
  define c0 where "c0 = (if p_duty_cycle c = 0 then c\<lparr>p_duty_cycle := p_period c div 2\<rparr> else c)"
  have pin: "p_pin_num c0 = p_pin_num c" by (simp add: c0_def)
  have "os_pwm_init c0 s \<noteq> None"
  proof
    assume "os_pwm_init c0 s = None"
    with False have "os_pwm_request c s = None" by (simp add: os_pwm_request_def c0_def)
    with assms show False by simp
  qed
  then obtain r1 c1 s1 where i: "os_pwm_init c0 s = Some ((r1, c1), s1)" by auto
  note f = os_pwm_init_facts [OF i]
  have u: "os_pwm_request c s =
      (if r1 \<noteq> S_OK then Some ((r1, c1), s1)
       else case data s1 (p_user_data c1) of None \<Rightarrow> None
         | Some d \<Rightarrow> let (res, s) = on_wld (pwm_program c1 d) s1
             in if res = S_OK then Some ((S_OK, c1), s)
                else case os_pwm_release c1 s of None \<Rightarrow> None | Some (r, s) \<Rightarrow> Some ((res, c1), s))"
    using False i by (cases "p_polarity c"; simp add: os_pwm_request_def c0_def)
  show ?thesis
  proof (cases "r1 = S_OK")
    case False
    with u assms f pin show ?thesis by auto
  next
    case True
    with f obtain d where d: "data s1 = (data s)(p_user_data c1 \<mapsto> d)" "\<forall>i \<in> set pwm_entries. 0 \<le> pd_fd d i"
      "fds (wld s1) = (\<lambda>x. fds (wld s) x + fd_count pwm_entries d x)" by auto
    obtain r2 s2 where p: "on_wld (pwm_program c1 d) s1 = (r2, s2)" by (metis prod.exhaust)
    note pf = on_wldD [OF p]
    have pw: "fds (wld s2) = fds (wld s1)" using pf pwm_program_fds by blast
    show ?thesis
    proof (cases "r2 = S_OK")
      case ok: True
      with u True d(1) p assms have "r = S_OK" "c' = c1" "s' = s2" by auto
      with f d pf pw True pin show ?thesis by auto
    next
      case fail: False
      with u True d(1) p assms obtain r3 where "os_pwm_release c1 s2 = Some (r3, s')" "r = r2" "c' = c1"
        by (auto split: option.splits)
      with os_pwm_release_facts [of c1 s2 r3 s' d] f d(1) pf fail pin show ?thesis by auto
    qed
  qed
qed

section \<open>The registry of pins\<close>

lemma pwm_node_check: "node_check (pwm_check_exist b) s \<longleftrightarrow> b \<in> p_pin_num ` snd ` set (nodes s)"
  by (rule node_check_key) (simp add: pwm_check_exist_def)

lemma artik_pwm_request_facts:
  assumes "artik_pwm_request c s = Some ((r, h), s')" and "p_pin_num c \<notin> p_pin_num ` snd ` set (nodes s)"
  shows "if r = S_OK
     then h \<noteq> 0 \<and> h \<notin> fst ` set (nodes s) \<and>
       (\<exists>c' d. p_pin_num c' = p_pin_num c \<and> p_user_data c' \<noteq> 0 \<and> p_user_data c' \<notin> dom (data s) \<and>
          nodes s' = nodes s @ [(h, c')] \<and> data s' = (data s)(p_user_data c' \<mapsto> d) \<and>
          (\<forall>i \<in> set pwm_entries. 0 \<le> pd_fd d i) \<and> fds (wld s') = (\<lambda>x. fds (wld s) x + fd_count pwm_entries d x))
     else nodes s' = nodes s"
proof -
  obtain node s1 where n: "node_add zero_pwm_config 88 s = (node, s1)" by force
  note nf = node_add_facts [OF n]
  show ?thesis
  proof (cases "node = 0")
    case True
    with assms n nf show ?thesis by (auto simp: artik_pwm_request_def pwm_node_check)
  next
    case False
    with assms n obtain ret c1 s2 where o: "os_pwm_request c s1 = Some ((ret, c1), s2)"
      by (auto simp: artik_pwm_request_def pwm_node_check split: option.splits)
    note f = os_pwm_request_facts [OF o]
    have e: "((r, h), s') = (if ret = S_OK then ((S_OK, node), node_set node c1 s2) else ((ret, 0), node_del node s2))"
      using assms n o False by (auto simp: artik_pwm_request_def pwm_node_check split: if_splits)
    show ?thesis
    proof (cases "ret = S_OK")
      case True
      with f obtain d where d: "data s2 = (data s1)(p_user_data c1 \<mapsto> d)" "\<forall>i \<in> set pwm_entries. 0 \<le> pd_fd d i"
        "fds (wld s2) = (\<lambda>x. fds (wld s1) x + fd_count pwm_entries d x)" by blast
      from True e have s': "r = S_OK" "h = node" "s' = node_set node c1 s2" by auto
      have fr: "node \<notin> fst ` set (nodes s)" "p_user_data c1 \<noteq> 0" "p_user_data c1 \<notin> dom (data s)"
        using f nf False True by (auto simp: live_def live_of_def)
      have ns: "nodes s' = nodes s @ [(h, c1)]" using s' f nf False fr(1) by simp
      show ?thesis using s' fr ns d f nf False by (auto intro!: exI [of _ c1] exI [of _ d])
    next
      case fail: False
      with e f nf False show ?thesis by (auto simp: live_def live_of_def)
    qed
  qed
qed

text \<open>After an invalid access nothing follows; the steps of the interface then leave the state alone.\<close>

definition pwm_request :: "artik_pwm_config \<Rightarrow> pwm_dev \<Rightarrow> (artik_error \<times> addr) \<times> pwm_dev" where
  "pwm_request c s = (case artik_pwm_request c s of None \<Rightarrow> ((E_NO_MEM, 0), s) | Some r \<Rightarrow> r)"

definition pwm_release :: "addr \<Rightarrow> pwm_dev \<Rightarrow> artik_error \<times> pwm_dev" where
  "pwm_release h s = (case artik_pwm_release h s of None \<Rightarrow> (E_NO_MEM, s) | Some r \<Rightarrow> r)"

datatype pwm_call = PEnable addr | PDisable addr | PPeriod addr u32 | PPolarity addr artik_pwm_polarity_t | PDuty addr u32

fun pwm_apply :: "pwm_call \<Rightarrow> pwm_dev \<Rightarrow> (artik_error \<times> pwm_dev) option" where
  "pwm_apply (PEnable h) s = artik_pwm_enable h s"
| "pwm_apply (PDisable h) s = artik_pwm_disable h s"
| "pwm_apply (PPeriod h v) s = artik_pwm_set_period h v s"
| "pwm_apply (PPolarity h v) s = artik_pwm_set_polarity h v s"
| "pwm_apply (PDuty h v) s = artik_pwm_set_duty_cycle h v s"

definition pwm_other :: "pwm_call \<Rightarrow> pwm_dev \<Rightarrow> pwm_dev" where
  "pwm_other x s = (case pwm_apply x s of None \<Rightarrow> s | Some (r, s') \<Rightarrow> s')"

lemma pwm_with_frame: "pwm_with h f s = Some (r, s') \<Longrightarrow> nodes s' = nodes s \<and> data s' = data s"
  by (auto simp: pwm_with_def split: option.splits dest: on_wldD)

lemma pwm_other_frame: "nodes (pwm_other x s) = nodes s \<and> data (pwm_other x s) = data s"
  by (cases x)
    (auto simp: pwm_other_def artik_pwm_enable_def artik_pwm_disable_def artik_pwm_set_period_def
      artik_pwm_set_polarity_def artik_pwm_set_duty_cycle_def split: option.splits dest: pwm_with_frame)

interpretation pwm_reg: device_registry pwm_request pwm_release pwm_other p_pin_num
proof
  show "pwm_request c s = ((E_BUSY, 0), s)" if "p_pin_num c \<in> p_pin_num ` snd ` set (nodes s)"
    for c and s :: pwm_dev
    using that by (simp add: pwm_request_def artik_pwm_request_def pwm_node_check)
next
  fix c h r and s s' :: pwm_dev
  assume q: "pwm_request c s = ((r, h), s')" "p_pin_num c \<notin> p_pin_num ` snd ` set (nodes s)"
  show "if r = S_OK
    then h \<noteq> 0 \<and> h \<notin> fst ` set (nodes s) \<and> (\<exists>c'. p_pin_num c' = p_pin_num c \<and> nodes s' = nodes s @ [(h, c')])
    else nodes s' = nodes s"
  proof (cases "artik_pwm_request c s")
    case None
    with q show ?thesis by (simp add: pwm_request_def)
  next
    case (Some x)
    with q have "artik_pwm_request c s = Some ((r, h), s')" by (simp add: pwm_request_def)
    from artik_pwm_request_facts [OF this q(2)] show ?thesis by (auto split: if_splits)
  qed
next
  show "pwm_release h s = (E_BAD_ARGS, s)" if "node_get h s = None" for h and s :: pwm_dev
    using that by (simp add: pwm_release_def artik_pwm_release_def)
next
  fix c h r and s s' :: pwm_dev
  assume q: "pwm_release h s = (r, s')" "node_get h s = Some c"
  show "nodes s' = (if r = S_OK then filter (\<lambda>(b, c). b \<noteq> h) (nodes s) else nodes s)"
  proof (cases "os_pwm_release c s")
    case None
    with q show ?thesis by (simp add: pwm_release_def artik_pwm_release_def)
  next
    case (Some x)
    obtain ret s1 where x: "x = (ret, s1)" by force
    with Some obtain d where "data s (p_user_data c) = Some d" by (auto simp: os_pwm_release_def split: option.splits)
    with os_pwm_release_facts [of c s ret s1 d] Some x have "nodes s1 = nodes s" by simp
    with Some x q show ?thesis by (auto simp: pwm_release_def artik_pwm_release_def split: if_splits)
  qed
qed (simp add: pwm_other_frame)

abbreviation pwm_step :: "(artik_pwm_config, pwm_call) reg_op \<Rightarrow> pwm_dev \<Rightarrow> pwm_dev" where
  "pwm_step \<equiv> reg_step pwm_request pwm_release pwm_other"

section \<open>The state of the output\<close>

text \<open>The data of the last write to a descriptor that the kernel accepted.\<close>

definition last_write :: "int \<Rightarrow> world \<Rightarrow> string option" where
  "last_write fd w =
     fold (\<lambda>e acc. case e of (Write f s, r) \<Rightarrow> if f = fd \<and> 0 \<le> r then Some s else acc | _ \<Rightarrow> acc) (trace w) None"

lemma last_write_sys:
  "sys (Write f s) w = (r, w') \<Longrightarrow> last_write fd w' = (if f = fd \<and> 0 \<le> r then Some s else last_write fd w)"
  by (auto simp: sys_def Let_def last_write_def split: if_splits)

lemma os_pwm_ioctl_write:
  assumes "os_pwm_ioctl d i v w = (r, w')"
  shows "last_write fd w' =
    (if pd_fd d i = fd \<and> r = S_OK then Some (if i = PWM_ENB then take 1 v else v) else last_write fd w)"
proof -
  obtain k w1 where s: "sys (Write (pd_fd d i) (if i = PWM_ENB then take 1 v else v)) w = (k, w1)" by force
  have "w' = w1 \<and> (r = S_OK \<longleftrightarrow> 0 \<le> k)"
    using assms s by (auto simp: os_pwm_ioctl_def Let_def split: if_splits)
  with last_write_sys [OF s] show ?thesis by auto
qed

lemma os_pwm_set_write:
  assumes "os_pwm_set d i v w = (r, w')" and "pd_fd d i \<noteq> pd_fd d PWM_ENB"
  shows "if r = S_OK
    then last_write (pd_fd d PWM_ENB) w' = Some ''1'' \<and> last_write (pd_fd d i) w' = Some v
    else (last_write (pd_fd d PWM_ENB) w' = last_write (pd_fd d PWM_ENB) w \<and> last_write (pd_fd d i) w' = last_write (pd_fd d i) w) \<or>
      last_write (pd_fd d PWM_ENB) w' = Some ''0''"
proof -
  have i: "i \<noteq> PWM_ENB" using assms(2) by auto
  obtain r1 w1 where 1: "os_pwm_ioctl d PWM_ENB ''0'' w = (r1, w1)" by force
  obtain r2 w2 where 2: "os_pwm_ioctl d i v w1 = (r2, w2)" by force
  obtain r3 w3 where 3: "os_pwm_ioctl d PWM_ENB ''1'' w2 = (r3, w3)" by force
  have "(r, w') = (if r1 \<noteq> S_OK then (r1, w1) else if r2 \<noteq> S_OK then (r2, w2) else (r3, w3))"
    using assms(1) 1 2 3 by (simp add: os_pwm_set_def os_pwm_enable_def split: if_splits)
  with assms(2) i os_pwm_ioctl_write [OF 1] os_pwm_ioctl_write [OF 2] os_pwm_ioctl_write [OF 3] show ?thesis
    by (auto split: if_splits)
qed

section \<open>Concrete worlds\<close>

text \<open>A world in which every call succeeds, and one in which call 8, an \<^verbatim>\<open>open\<close>, fails.\<close>

definition pwm_world :: world where
  "pwm_world = \<lparr>result = (\<lambda>n. int n + 5), rdata = (\<lambda>_. ''''), out_int = (\<lambda>_. 0), module_addr = (\<lambda>_. 40), errno = 0, trace = []\<rparr>"

definition pwm_bad_world :: world where
  "pwm_bad_world = pwm_world\<lparr>result := (\<lambda>n. if n = 8 then -2 else int n + 5)\<rparr>"

definition pwm_pin :: artik_pwm_config where
  "pwm_pin = \<lparr>p_pin_num = 2, p_name = 0, p_period = 100, p_duty_cycle = 40, p_polarity = POLR_NORMAL, p_user_data = 0\<rparr>"

section \<open>Properties\<close>

text \<open>
  C33. Request and release of a PWM cancel out: when both succeed, all descriptors that the request
  opened are closed, its block is freed, and the registry is as it was.
\<close>

theorem artik_pwm_request_release:
  assumes "artik_pwm_request c s = Some ((S_OK, h), s1)" and "artik_pwm_release h s1 = Some (S_OK, s2)"
  shows "nodes s2 = nodes s \<and> data s2 = data s \<and> fds (wld s2) = fds (wld s)"
proof -
  have new: "p_pin_num c \<notin> p_pin_num ` snd ` set (nodes s)"
    using pwm_reg.request_ok(1) [of c s h s1] assms(1) by (simp add: pwm_request_def)
  from artik_pwm_request_facts [OF assms(1) new] obtain c' d where f: "h \<noteq> 0" "h \<notin> fst ` set (nodes s)"
    "p_user_data c' \<noteq> 0" "p_user_data c' \<notin> dom (data s)" "nodes s1 = nodes s @ [(h, c')]"
    "data s1 = (data s)(p_user_data c' \<mapsto> d)" "\<forall>i \<in> set pwm_entries. 0 \<le> pd_fd d i"
    "fds (wld s1) = (\<lambda>x. fds (wld s) x + fd_count pwm_entries d x)" by auto
  have "node_get h s1 = Some c'"
    using f(1,2,5) by (simp add: node_get_def map_of_eq_None_iff [THEN iffD2] map_add_def)
  with assms(2) obtain s3 where r: "os_pwm_release c' s1 = Some (S_OK, s3)" "s2 = node_del h s3"
    by (auto simp: artik_pwm_release_def split: option.splits if_splits)
  have nz: "\<forall>i \<in> set pwm_entries. pd_fd d i \<noteq> -1" using f(7) by auto
  have "data s1 (p_user_data c') = Some d" using f(6) by simp
  from os_pwm_release_facts [OF r(1) this] nz have g: "nodes s3 = nodes s1" "\<forall>a. a \<noteq> p_user_data c' \<longrightarrow> data s3 a = data s1 a"
    "data s3 (p_user_data c') = None" "fds (wld s3) = (\<lambda>x. fds (wld s1) x - fd_count pwm_entries d x)" by auto
  have none: "data s (p_user_data c') = None" using f(4) by auto
  have "data s3 x = data s x" for x
    using g(2,3) f(6) none by (cases "x = p_user_data c'") auto
  then have "data s3 = data s" by (rule ext)
  with g r(2) f show ?thesis by simp
qed

text \<open>
  The three setters either report success, with the new value written and the output enabled,
  or report an error and, unless nothing at all was changed, leave the output disabled: a value
  that the driver rejects switches a running PWM off.  (Here for the duty cycle.)
\<close>

theorem artik_pwm_set_duty_cycle_output:
  assumes "artik_pwm_set_duty_cycle h v s = Some (r, s')" and "node_get h s = Some c"
    and "data s (p_user_data c) = Some d" and "pd_fd d PWM_CYCL \<noteq> pd_fd d PWM_ENB"
  shows "if r = S_OK
    then last_write (pd_fd d PWM_ENB) (wld s') = Some ''1'' \<and>
         last_write (pd_fd d PWM_CYCL) (wld s') = Some (itoa (sint v))
    else (last_write (pd_fd d PWM_ENB) (wld s') = last_write (pd_fd d PWM_ENB) (wld s) \<and>
          last_write (pd_fd d PWM_CYCL) (wld s') = last_write (pd_fd d PWM_CYCL) (wld s)) \<or>
         last_write (pd_fd d PWM_ENB) (wld s') = Some ''0''"
proof -
  have "os_pwm_set d PWM_CYCL (itoa (sint v)) (wld s) = (r, wld s')"
    using assms(1-3)
    by (auto simp: artik_pwm_set_duty_cycle_def pwm_with_def os_pwm_set_duty_cycle_def dest: on_wldD)
  from os_pwm_set_write [OF this assms(4)] show ?thesis .
qed

text \<open>
  A request can fail and leak: when one of the four entries cannot be opened, the request
  reports \<^verbatim>\<open>E_BAD_ARGS\<close> and registers nothing, but the entries opened before it stay open and the
  pin stays exported.
\<close>

theorem artik_pwm_failed_request_leaks:
  "\<exists>c w s'. artik_pwm_request c (init_dev w) = Some ((E_BAD_ARGS, 0), s') \<and> nodes s' = [] \<and>
     fds w = (\<lambda>_. 0) \<and> fds (wld s') 11 = 1 \<and> fds (wld s') 12 = 1 \<and>
     sysfs_log (trace (wld s')) = [(''/sys/class/pwm/pwmchip0/export'', ''2'')]"
proof -
  let ?r = "pwm_request pwm_pin (init_dev pwm_bad_world)"
  have "\<not> Option.is_none (artik_pwm_request pwm_pin (init_dev pwm_bad_world))" by code_simp
  moreover have "fst ?r = (E_BAD_ARGS, 0)" "nodes (snd ?r) = []" "fds (wld (snd ?r)) 11 = 1" "fds (wld (snd ?r)) 12 = 1"
    "sysfs_log (trace (wld (snd ?r))) = [(''/sys/class/pwm/pwmchip0/export'', ''2'')]"
    by code_simp+
  moreover have "fds pwm_bad_world = (\<lambda>_. 0)" by (simp add: fds_def pwm_bad_world_def pwm_world_def fun_eq_iff)
  ultimately show ?thesis
    by (intro exI [of _ pwm_pin] exI [of _ pwm_bad_world] exI [of _ "snd ?r"])
      (auto simp: Option.is_none_def pwm_request_def)
qed

section \<open>Witnesses\<close>

definition pwm_s1 :: pwm_dev where
  "pwm_s1 = snd (pwm_request pwm_pin (init_dev pwm_world))"

lemma pwm_pin_request: "artik_pwm_request pwm_pin (init_dev pwm_world) = Some ((S_OK, 5), pwm_s1)"
proof -
  have "\<not> Option.is_none (artik_pwm_request pwm_pin (init_dev pwm_world))"
    "fst (pwm_request pwm_pin (init_dev pwm_world)) = (S_OK, 5)" by code_simp+
  then show ?thesis by (auto simp: Option.is_none_def pwm_s1_def pwm_request_def)
qed

lemma artik_pwm_request_release_witness:
  "\<exists>s2. artik_pwm_release 5 pwm_s1 = Some (S_OK, s2) \<and> nodes s2 = [] \<and> fds (wld s2) = (\<lambda>_. 0)"
proof -
  have "map_option fst (artik_pwm_release 5 pwm_s1) = Some S_OK" by code_simp
  then obtain s2 where "artik_pwm_release 5 pwm_s1 = Some (S_OK, s2)" by auto
  with artik_pwm_request_release [OF pwm_pin_request this] show ?thesis
    by (simp add: fds_def pwm_world_def fun_eq_iff)
qed

lemma artik_pwm_set_duty_cycle_output_witness:
  "\<exists>s'. artik_pwm_set_duty_cycle 5 30 pwm_s1 = Some (S_OK, s') \<and> last_write 11 (wld s') = Some ''1''"
proof -
  have "map_option fst (artik_pwm_set_duty_cycle 5 30 pwm_s1) = Some S_OK" by code_simp
  then obtain s' where s': "artik_pwm_set_duty_cycle 5 30 pwm_s1 = Some (S_OK, s')" by auto
  have n: "map_option p_user_data (node_get 5 pwm_s1) = Some 6" by code_simp
  have d: "map_option (\<lambda>d. (pd_fd d PWM_ENB, pd_fd d PWM_CYCL)) (data pwm_s1 6) = Some (11, 12)" by code_simp
  from n d obtain c d where "node_get 5 pwm_s1 = Some c" "p_user_data c = 6" "data pwm_s1 6 = Some d"
    "pd_fd d PWM_ENB = 11" "pd_fd d PWM_CYCL = 12" by auto
  with artik_pwm_set_duty_cycle_output [OF s', of c d] s' show ?thesis by simp
qed

end
