(* ===== verification/I2c.thy ===== *)
theory I2c
  imports Registry
begin

text \<open>
  The I2C module: \<^verbatim>\<open>i2c/artik_i2c.c\<close> over \<^verbatim>\<open>i2c/linux_i2c.c\<close>.  Every transfer opens the bus
  device, selects the slave, and closes the device again; a register access is one \<^verbatim>\<open>I2C_RDWR\<close>
  \<^verbatim>\<open>ioctl\<close> with one or two messages.
\<close>

section \<open>Data\<close>

text \<open>The word size is an enum in the code, but the code range-checks it as an \<^verbatim>\<open>int\<close>.\<close>

record artik_i2c_config =
  i_id :: u32
  i_frequency :: int
  i_wordsize :: int
  i_address :: u8

definition I2C_8BIT :: int where "I2C_8BIT = 1"
definition I2C_16BIT :: int where "I2C_16BIT = 2"
definition I2C_WORDSIZE_INVALID :: int where "I2C_WORDSIZE_INVALID = 3"

type_synonym i2c_dev = "(artik_i2c_config, unit) dev"

definition zero_i2c_config :: artik_i2c_config where
  "zero_i2c_config = \<lparr>i_id = 0, i_frequency = 0, i_wordsize = 0, i_address = 0\<rparr>"

text \<open>\<^verbatim>\<open>struct i2c_msg\<close>; \<^verbatim>\<open>len\<close> is 16 bits wide.  A message with \<^verbatim>\<open>I2C_M_RD\<close> has no payload.\<close>

record i2c_msg =
  m_addr :: u16
  m_flags :: u16
  m_len :: u16
  m_buf :: "u8 list"

definition I2C_M_RD :: u16 where "I2C_M_RD = 1"

definition i2c_msg_args :: "i2c_msg \<Rightarrow> int list" where
  "i2c_msg_args m =
     [uint (m_addr m), uint (m_flags m), uint (m_len m), int (length (m_buf m))] @ map uint (m_buf m)"

section \<open>The OS layer\<close>

definition I2C_DEV_MAX_LEN :: nat where "I2C_DEV_MAX_LEN = 64"

definition i2c_devname :: "artik_i2c_config \<Rightarrow> string" where
  "i2c_devname c = snprintf I2C_DEV_MAX_LEN (''/dev/i2c-'' @ dec_int (sint (i_id c)))"

definition bad_wordsize :: "artik_i2c_config \<Rightarrow> bool" where
  "bad_wordsize c \<longleftrightarrow> i_wordsize c = I2C_WORDSIZE_INVALID \<or> i_wordsize c < I2C_8BIT \<or>
     i_wordsize c > I2C_WORDSIZE_INVALID"

definition os_i2c_request :: "artik_i2c_config \<Rightarrow> world \<Rightarrow> artik_error \<times> world" where
  "os_i2c_request c w =
     (let (fd, w) = sys (Open (i2c_devname c) [O_RDWR]) w
      in if fd < 0 then (E_ACCESS_DENIED, w)
         else let (r, w) = sys (Ioctl fd ''I2C_SLAVE'' [uint (i_address c)]) w;
                  ret = (if r < 0 then E_ACCESS_DENIED else S_OK);
                  (_, w) = sys (Close fd) w
              in (ret, w))"

definition os_i2c_release :: "artik_i2c_config \<Rightarrow> world \<Rightarrow> artik_error \<times> world" where
  "os_i2c_release c w = (S_OK, w)"

definition os_i2c_read :: "artik_i2c_config \<Rightarrow> int \<Rightarrow> world \<Rightarrow> (artik_error \<times> string) \<times> world" where
  "os_i2c_read c len w =
     (if bad_wordsize c then ((E_BAD_ARGS, []), w)
      else let (fd, w) = sys (Open (i2c_devname c) [O_RDWR]) w
           in if fd < 0 then ((E_ACCESS_DENIED, []), w)
              else
                let (r, w) = sys (Ioctl fd ''I2C_SLAVE'' [uint (i_address c)]) w;
                    ((ret, buf), w) =
                      (if r < 0 then ((E_ACCESS_DENIED, []), w)
                       else let ((k, buf), w) = sys_read fd (size_t len) w
                            in ((if k \<noteq> len then E_ACCESS_DENIED else S_OK, buf), w));
                    (_, w) = sys (Close fd) w
                in ((ret, buf), w))"

definition os_i2c_write :: "artik_i2c_config \<Rightarrow> string \<Rightarrow> int \<Rightarrow> world \<Rightarrow> artik_error \<times> world" where
  "os_i2c_write c buf len w =
     (if bad_wordsize c then (E_BAD_ARGS, w)
      else let (fd, w) = sys (Open (i2c_devname c) [O_RDWR]) w
           in if fd < 0 then (E_ACCESS_DENIED, w)
              else
                let (r, w) = sys (Ioctl fd ''I2C_SLAVE'' [uint (i_address c)]) w;
                    (ret, w) =
                      (if r < 0 then (E_ACCESS_DENIED, w)
                       else let (k, w) = sys (Write fd (take (nat (size_t len)) buf)) w
                            in (if k \<noteq> len then E_ACCESS_DENIED else S_OK, w));
                    (_, w) = sys (Close fd) w
                in (ret, w))"

text \<open>The first \<open>n\<close> bytes of the register number in memory (little endian).\<close>

definition reg_bytes :: "nat \<Rightarrow> u32 \<Rightarrow> u8 list" where
  "reg_bytes n reg = map (\<lambda>i. ucast (drop_bit (8 * i) reg)) [0..<n]"

definition read_register_msgs :: "artik_i2c_config \<Rightarrow> u32 \<Rightarrow> int \<Rightarrow> i2c_msg list" where
  "read_register_msgs c reg len =
     [\<lparr>m_addr = ucast (i_address c), m_flags = 0, m_len = of_int (i_wordsize c),
        m_buf = reg_bytes (nat (i_wordsize c)) reg\<rparr>,
      \<lparr>m_addr = ucast (i_address c), m_flags = I2C_M_RD, m_len = of_int len, m_buf = []\<rparr>]"

text \<open>\<^verbatim>\<open>-E_NO_MEM\<close> is the positive number 4.  The data read are those of the \<^verbatim>\<open>ioctl\<close>.\<close>

definition os_i2c_read_register ::
  "artik_i2c_config \<Rightarrow> u32 \<Rightarrow> int \<Rightarrow> world \<Rightarrow> (artik_error \<times> string) \<times> world" where
  "os_i2c_read_register c reg len w =
     (if bad_wordsize c then ((E_BAD_ARGS, []), w)
      else let (fd, w) = sys (Open (i2c_devname c) [O_RDWR]) w
           in if fd < 0 then ((E_ACCESS_DENIED, []), w)
              else
                let (r, w) = sys (Ioctl fd ''I2C_SLAVE'' [uint (i_address c)]) w
                in if r < 0 then let (_, w) = sys (Close fd) w in ((E_ACCESS_DENIED, []), w)
                   else
                     let (msgs, w) = local_malloc 32 w
                     in if msgs = 0 then let (_, w) = sys (Close fd) w in ((- E_NO_MEM, []), w)
                        else
                          let n = length (trace w);
                              (r, w) = sys (Ioctl fd ''I2C_RDWR''
                                 (concat (map i2c_msg_args (read_register_msgs c reg len)))) w;
                              w = local_free msgs w;
                              (_, w) = sys (Close fd) w
                          in ((if r < 0 then E_ACCESS_DENIED else S_OK,
                               if r < 0 then [] else take (unat (of_int len :: u16)) (rdata w n)), w))"

definition write_register_msg :: "artik_i2c_config \<Rightarrow> u32 \<Rightarrow> u8 list \<Rightarrow> int \<Rightarrow> i2c_msg" where
  "write_register_msg c reg buf len =
     \<lparr>m_addr = ucast (i_address c), m_flags = 0, m_len = of_int (len + i_wordsize c),
      m_buf = reg_bytes (nat (i_wordsize c)) reg @ take (nat len) buf\<rparr>"

text \<open>\<^term>\<open>None\<close>: \<^verbatim>\<open>memcpy\<close> of a negative length.\<close>

definition os_i2c_write_register ::
  "artik_i2c_config \<Rightarrow> u32 \<Rightarrow> u8 list \<Rightarrow> int \<Rightarrow> world \<Rightarrow> (artik_error \<times> world) option" where
  "os_i2c_write_register c reg buf len w =
     (if bad_wordsize c then Some (E_BAD_ARGS, w)
      else let (fd, w) = sys (Open (i2c_devname c) [O_RDWR]) w
           in if fd < 0 then Some (E_ACCESS_DENIED, w)
              else
                let (r, w) = sys (Ioctl fd ''I2C_SLAVE'' [uint (i_address c)]) w
                in if r < 0 then let (_, w) = sys (Close fd) w in Some (E_ACCESS_DENIED, w)
                   else
                     let (msgs, w) = local_malloc 16 w
                     in if msgs = 0 then let (_, w) = sys (Close fd) w in Some (- E_NO_MEM, w)
                        else
                          let (b, w) = local_malloc (size_t (len + i_wordsize c)) w
                          in if b = 0
                             then let w = local_free msgs w; (_, w) = sys (Close fd) w
                                  in Some (- E_NO_MEM, w)
                             else if len < 0 then None
                             else
                               let (r, w) = sys (Ioctl fd ''I2C_RDWR''
                                      (i2c_msg_args (write_register_msg c reg buf len))) w;
                                   w = local_free b w; w = local_free msgs w;
                                   (_, w) = sys (Close fd) w
                               in Some (if r < 0 then E_ACCESS_DENIED else S_OK, w))"

section \<open>The module\<close>

definition i2c_check_exist :: "artik_i2c_config \<Rightarrow> artik_i2c_config \<Rightarrow> bool" where
  "i2c_check_exist config c \<longleftrightarrow> i_id c = i_id config \<and> i_address c = i_address config"

definition artik_i2c_request :: "artik_i2c_config \<Rightarrow> i2c_dev \<Rightarrow> (artik_error \<times> addr) \<times> i2c_dev" where
  "artik_i2c_request c s =
     (if node_check (i2c_check_exist c) s then ((E_BUSY, 0), s)
      else
        let (node, s) = node_add zero_i2c_config 64 s
        in if node = 0 then ((E_NO_MEM, 0), s)
           else
             let (ret, s) = on_wld (os_i2c_request c) s
             in if ret = S_OK then ((S_OK, node), node_set node c s)
                else ((ret, 0), node_del node s))"

definition artik_i2c_release :: "addr \<Rightarrow> i2c_dev \<Rightarrow> artik_error \<times> i2c_dev" where
  "artik_i2c_release h s =
     (case node_get h s of
        None \<Rightarrow> (E_BAD_ARGS, s)
      | Some c \<Rightarrow> let (ret, s) = on_wld (os_i2c_release c) s
                  in if ret \<noteq> S_OK then (ret, s) else (ret, node_del h s))"

definition artik_i2c_read :: "addr \<Rightarrow> int \<Rightarrow> i2c_dev \<Rightarrow> (artik_error \<times> string) \<times> i2c_dev" where
  "artik_i2c_read h len s =
     (case node_get h s of None \<Rightarrow> ((E_BAD_ARGS, []), s) | Some c \<Rightarrow> on_wld (os_i2c_read c len) s)"

definition artik_i2c_write :: "addr \<Rightarrow> string \<Rightarrow> int \<Rightarrow> i2c_dev \<Rightarrow> artik_error \<times> i2c_dev" where
  "artik_i2c_write h buf len s =
     (case node_get h s of None \<Rightarrow> (E_BAD_ARGS, s) | Some c \<Rightarrow> on_wld (os_i2c_write c buf len) s)"

definition artik_i2c_read_register ::
  "addr \<Rightarrow> u32 \<Rightarrow> int \<Rightarrow> i2c_dev \<Rightarrow> (artik_error \<times> string) \<times> i2c_dev" where
  "artik_i2c_read_register h reg len s =
     (case node_get h s of None \<Rightarrow> ((E_BAD_ARGS, []), s) | Some c \<Rightarrow> on_wld (os_i2c_read_register c reg len) s)"

definition artik_i2c_write_register ::
  "addr \<Rightarrow> u32 \<Rightarrow> u8 list \<Rightarrow> int \<Rightarrow> i2c_dev \<Rightarrow> (artik_error \<times> i2c_dev) option" where
  "artik_i2c_write_register h reg buf len s =
     (case node_get h s of
        None \<Rightarrow> Some (E_BAD_ARGS, s)
      | Some c \<Rightarrow> map_option (\<lambda>(r, w). (r, s\<lparr>wld := w\<rparr>)) (os_i2c_write_register c reg buf len (wld s)))"

section \<open>No operation leaks\<close>

lemma os_i2c_request_fds: "os_i2c_request c w = (r, w') \<Longrightarrow> fds w' = fds w \<and> blocks w' = blocks w"
  by (auto simp: os_i2c_request_def Let_def fun_eq_iff fds_D blocks_simps split: prod.splits if_splits)


lemma os_i2c_read_fds: "os_i2c_read c len w = (r, w') \<Longrightarrow> fds w' = fds w"
  by (auto simp: os_i2c_read_def Let_def fun_eq_iff fds_D split: prod.splits if_splits)

lemma os_i2c_write_fds: "os_i2c_write c buf len w = (r, w') \<Longrightarrow> fds w' = fds w"
  by (auto simp: os_i2c_write_def Let_def fun_eq_iff fds_D split: prod.splits if_splits)

lemma os_i2c_read_register_fds:
  "os_i2c_read_register c reg len w = (r, w') \<Longrightarrow> fds w' = fds w \<and> blocks w' = blocks w"
  by (auto simp: os_i2c_read_register_def Let_def fun_eq_iff fds_D blocks_simps split: prod.splits if_splits)

lemma os_i2c_write_register_fds:
  "os_i2c_write_register c reg buf len w = Some (r, w') \<Longrightarrow> fds w' = fds w \<and> blocks w' = blocks w"
  by (auto simp: os_i2c_write_register_def Let_def fun_eq_iff fds_D blocks_simps split: prod.splits if_splits)

section \<open>The registry of slaves\<close>

definition i2c_key :: "artik_i2c_config \<Rightarrow> u32 \<times> u8" where
  "i2c_key c = (i_id c, i_address c)"

lemma i2c_node_check: "node_check (i2c_check_exist c) s \<longleftrightarrow> i2c_key c \<in> i2c_key ` snd ` set (nodes s)"
  by (rule node_check_key) (auto simp: i2c_check_exist_def i2c_key_def)

lemma artik_i2c_request_facts:
  assumes "artik_i2c_request c s = ((r, h), s')" and "i2c_key c \<notin> i2c_key ` snd ` set (nodes s)"
  shows "fds (wld s') = fds (wld s) \<and>
    (if r = S_OK then h \<noteq> 0 \<and> h \<notin> fst ` set (nodes s) \<and> nodes s' = nodes s @ [(h, c)] else nodes s' = nodes s)"
proof -
  obtain node s1 where n: "node_add zero_i2c_config 64 s = (node, s1)" by force
  obtain ret s2 where o: "on_wld (os_i2c_request c) s1 = (ret, s2)" by (metis prod.exhaust)
  note f = node_add_facts [OF n] on_wldD [OF o] os_i2c_request_fds [of c "wld s1" ret "wld s2"]
  from assms n o have "node = 0 \<and> ((r, h), s') = ((E_NO_MEM, 0), s1) \<or>
      node \<noteq> 0 \<and> ((r, h), s') = (if ret = S_OK then ((S_OK, node), node_set node c s2)
                             else ((ret, 0), node_del node s2))"
    by (cases "node = 0"; cases "ret = S_OK"; simp add: artik_i2c_request_def i2c_node_check)
  then show ?thesis
    using f by (auto simp: live_def live_of_def split: if_splits)
qed

datatype i2c_call =
    IRead addr int
  | IWrite addr string int
  | IReadReg addr u32 int
  | IWriteReg addr u32 "u8 list" int

fun i2c_other :: "i2c_call \<Rightarrow> i2c_dev \<Rightarrow> i2c_dev" where
  "i2c_other (IRead h len) s = snd (artik_i2c_read h len s)"
| "i2c_other (IWrite h buf len) s = snd (artik_i2c_write h buf len s)"
| "i2c_other (IReadReg h reg len) s = snd (artik_i2c_read_register h reg len s)"
| "i2c_other (IWriteReg h reg buf len) s =
     (case artik_i2c_write_register h reg buf len s of None \<Rightarrow> s | Some (r, s') \<Rightarrow> s')"

lemma i2c_other_frame: "nodes (i2c_other x s) = nodes s"
  by (cases x)
    (auto simp: artik_i2c_read_def artik_i2c_write_def artik_i2c_read_register_def
      artik_i2c_write_register_def split: option.split)

interpretation i2c_reg: device_registry artik_i2c_request artik_i2c_release i2c_other i2c_key
proof
  show "artik_i2c_request c s = ((E_BUSY, 0), s)" if "i2c_key c \<in> i2c_key ` snd ` set (nodes s)"
    for c and s :: i2c_dev
    using that by (simp add: artik_i2c_request_def i2c_node_check)
next
  fix c h r and s s' :: i2c_dev
  assume "artik_i2c_request c s = ((r, h), s')" "i2c_key c \<notin> i2c_key ` snd ` set (nodes s)"
  from artik_i2c_request_facts [OF this]
  show "if r = S_OK
    then h \<noteq> 0 \<and> h \<notin> fst ` set (nodes s) \<and> (\<exists>c'. i2c_key c' = i2c_key c \<and> nodes s' = nodes s @ [(h, c')])
    else nodes s' = nodes s"
    by (auto split: if_splits)
next
  show "artik_i2c_release h s = (E_BAD_ARGS, s)" if "node_get h s = None" for h and s :: i2c_dev
    using that by (simp add: artik_i2c_release_def)
next
  fix c h r and s s' :: i2c_dev
  assume "artik_i2c_release h s = (r, s')" "node_get h s = Some c"
  then show "nodes s' = (if r = S_OK then filter (\<lambda>(b, c). b \<noteq> h) (nodes s) else nodes s)"
    by (auto simp: artik_i2c_release_def os_i2c_release_def on_wld_def)
qed (simp add: i2c_other_frame)

abbreviation i2c_step :: "(artik_i2c_config, i2c_call) reg_op \<Rightarrow> i2c_dev \<Rightarrow> i2c_dev" where
  "i2c_step \<equiv> reg_step artik_i2c_request artik_i2c_release i2c_other"

text \<open>No step of the module leaks a descriptor.\<close>

lemma i2c_step_fds: "fds (wld (i2c_step x s)) = fds (wld s)"
proof (cases x)
  case (Req c)
  obtain r h s' where q: "artik_i2c_request c s = ((r, h), s')" by (metis prod.exhaust)
  show ?thesis
    by (cases "i2c_key c \<in> i2c_key ` snd ` set (nodes s)")
      (use q Req i2c_reg.request_busy artik_i2c_request_facts [OF q] in auto)
next
  case (Rel h)
  then show ?thesis
    by (auto simp: artik_i2c_release_def os_i2c_release_def on_wld_def split: option.split)
next
  case (Other y)
  then show ?thesis
    using os_i2c_read_fds os_i2c_write_fds os_i2c_read_register_fds os_i2c_write_register_fds
    by (cases y)
      (auto simp: artik_i2c_read_def artik_i2c_write_def artik_i2c_read_register_def
        artik_i2c_write_register_def split: option.split dest: sym, (metis prod.collapse)+)
qed


section \<open>Register messages\<close>

lemma u8_lt: "uint (x :: u8) < 256"
proof -
  have "uint x < 2 ^ LENGTH(8)" by (rule unsigned_less)
  then show ?thesis by simp
qed

lemma reg_bytes_length [simp]: "length (reg_bytes n reg) = n"
  by (simp add: reg_bytes_def)

text \<open>Reading the bytes back as a little-endian number gives the register, cut to the word size.\<close>

primrec le_value :: "u8 list \<Rightarrow> nat" where
  "le_value [] = 0"
| "le_value (b # bs) = unat b + 256 * le_value bs"

lemma le_value_reg_bytes: "n \<le> 2 \<Longrightarrow> le_value (reg_bytes n reg) = unat reg mod 256 ^ n"
proof -
  assume "n \<le> 2"
  then consider "n = 0" | "n = 1" | "n = 2" by linarith
  then show ?thesis
  proof cases
    case 3
    have "unat reg mod 65536 = unat reg mod 256 + 256 * (unat reg div 256 mod 256)"
      using mod_mult2_eq [of "unat reg" 256 256] by simp
    with 3 show ?thesis
      by (simp add: reg_bytes_def upt_rec unsigned_ucast_eq unsigned_drop_bit_eq drop_bit_eq_div take_bit_eq_mod unat_div_distrib)
  qed (simp_all add: reg_bytes_def unsigned_ucast_eq take_bit_eq_mod)
qed


text \<open>What a successful register write put on the bus.\<close>

lemma os_i2c_write_register_ioctl:
  assumes "os_i2c_write_register c reg buf len w = Some (S_OK, w')"
  shows "0 \<le> len \<and> \<not> bad_wordsize c \<and> (\<exists>t fd r. trace w' = trace w @ t \<and> 0 \<le> r \<and>
    (Ioctl fd ''I2C_RDWR'' (i2c_msg_args (write_register_msg c reg buf len)), r) \<in> set t)"
  using assms
  by (auto simp: os_i2c_write_register_def local_malloc_def local_free_def call_def sys_def Let_def
      split: if_splits prod.splits)

lemma wordsize_cases: "\<not> bad_wordsize c \<Longrightarrow> i_wordsize c = 1 \<or> i_wordsize c = 2"
  by (auto simp: bad_wordsize_def I2C_8BIT_def I2C_WORDSIZE_INVALID_def)

section \<open>Properties\<close>

text \<open>
  C22. In every state the I2C interface can reach, no slave (bus and address) is held twice, and
  every operation, successful or failing at any of its calls, has closed the descriptors it opened.
\<close>

theorem artik_i2c_run_invariant:
  "reg_inv i2c_key (fold i2c_step xs (init_dev w)) \<and>
   fds (wld (fold i2c_step xs (init_dev w))) = fds w"
proof -
  have "fds (wld (fold i2c_step xs s)) = fds (wld s)" for s
    by (induction xs arbitrary: s) (simp_all add: i2c_step_fds)
  then show ?thesis using i2c_reg.run_inv [OF reg_inv_init, of xs w] by simp
qed

text \<open>
  A register write that reports success has sent, in one message to the slave, the register
  number (one or two bytes, least significant first, the whole number when it fits) followed by
  exactly the caller's bytes.
\<close>

theorem artik_i2c_write_register_message:
  assumes "artik_i2c_write_register h reg buf len s = Some (S_OK, s')" and "len \<le> int (length buf)"
  shows "\<exists>c t fd r rb. node_get h s = Some c \<and> trace (wld s') = trace (wld s) @ t \<and> 0 \<le> r \<and>
    (Ioctl fd ''I2C_RDWR''
      ([uint (i_address c), 0, (len + i_wordsize c) mod 2 ^ 16, len + i_wordsize c] @
       map uint rb @ map uint (take (nat len) buf)), r) \<in> set t \<and>
    int (length rb) = i_wordsize c \<and> le_value rb = unat reg mod 256 ^ nat (i_wordsize c)"
proof (cases "node_get h s")
  case None
  with assms(1) show ?thesis by (simp add: artik_i2c_write_register_def)
next
  case (Some c)
  with assms(1) obtain w where w: "os_i2c_write_register c reg buf len (wld s) = Some (S_OK, w)" "s' = s\<lparr>wld := w\<rparr>"
    by (auto simp: artik_i2c_write_register_def)
  note f = os_i2c_write_register_ioctl [OF w(1)]
  then have ws: "i_wordsize c = 1 \<or> i_wordsize c = 2" using wordsize_cases by blast
  let ?rb = "reg_bytes (nat (i_wordsize c)) reg"
  have a1: "uint (ucast (i_address c) :: u16) = uint (i_address c)"
    using u8_lt [of "i_address c"] by (simp add: unsigned_ucast_eq take_bit_eq_mod)
  have a2: "uint (of_int (len + i_wordsize c) :: u16) = (len + i_wordsize c) mod 2 ^ 16"
    by (simp only: uint_word_of_int) simp
  have "i2c_msg_args (write_register_msg c reg buf len) =
      [uint (i_address c), 0, (len + i_wordsize c) mod 2 ^ 16, len + i_wordsize c] @
      map uint ?rb @ map uint (take (nat len) buf)"
    unfolding i2c_msg_args_def write_register_msg_def i2c_msg.simps a1 a2
    using ws f assms(2) by auto
  moreover have "le_value ?rb = unat reg mod 256 ^ nat (i_wordsize c)"
    using ws by (intro le_value_reg_bytes) auto
  ultimately show ?thesis using f Some w(2) ws by (intro exI [of _ c]) (fastforce)
qed

text \<open>
  The header of a register write announces the number of bytes it carries if and only if
  register number and data together stay below 64 KiB; beyond, the 16-bit length field wraps and
  the code neither notices nor reports it.
\<close>

theorem write_register_msg_length:
  assumes "\<not> bad_wordsize c" and "0 \<le> len" and "len \<le> int (length buf)"
  shows "unat (m_len (write_register_msg c reg buf len)) = length (m_buf (write_register_msg c reg buf len))
    \<longleftrightarrow> len + i_wordsize c < 65536"
proof -
  have ws: "i_wordsize c = 1 \<or> i_wordsize c = 2" using wordsize_cases [OF assms(1)] .
  have "uint (of_int (len + i_wordsize c) :: u16) = (len + i_wordsize c) mod 2 ^ 16"
    by (simp only: uint_word_of_int) simp
  then have "unat (m_len (write_register_msg c reg buf len)) = nat ((len + i_wordsize c) mod 65536)"
    by (simp add: write_register_msg_def unat_eq_nat_uint del: of_int_add)
  moreover have "length (m_buf (write_register_msg c reg buf len)) = nat (len + i_wordsize c)"
    using ws assms(2,3) by (auto simp: write_register_msg_def)
  moreover have "nat (k mod 65536) = nat k \<longleftrightarrow> k < 65536" if "0 \<le> k" for k :: int
    using that by (metis mod_pos_pos_trivial nat_eq_iff2 pos_mod_bound pos_mod_sign zero_less_numeral)
  ultimately show ?thesis using ws assms(2) by auto
qed

section \<open>Witnesses\<close>

definition i2c_world :: world where
  "i2c_world = \<lparr>result = (\<lambda>n. int n + 5), rdata = (\<lambda>_. ''''), out_int = (\<lambda>_. 0), module_addr = (\<lambda>_. 40), errno = 0, trace = []\<rparr>"

definition i2c_slave :: artik_i2c_config where
  "i2c_slave = \<lparr>i_id = 1, i_frequency = 100000, i_wordsize = 1, i_address = 0x5f\<rparr>"

definition i2c_s1 :: i2c_dev where
  "i2c_s1 = snd (artik_i2c_request i2c_slave (init_dev i2c_world))"

lemma artik_i2c_write_register_message_witness:
  "\<exists>s' t fd r. artik_i2c_write_register 5 0x20 [0xab] 1 i2c_s1 = Some (S_OK, s') \<and>
     trace (wld s') = trace (wld i2c_s1) @ t \<and>
     (Ioctl fd ''I2C_RDWR'' [0x5f, 0, 2, 2, 0x20, 0xab], r) \<in> set t"
proof -
  have "map_option fst (artik_i2c_write_register 5 0x20 [0xab] 1 i2c_s1) = Some S_OK" by code_simp
  then obtain s' where s': "artik_i2c_write_register 5 0x20 [0xab] 1 i2c_s1 = Some (S_OK, s')" by auto
  have n: "node_get 5 i2c_s1 = Some i2c_slave" by code_simp
  have rb: "rb = [0x20]" if "length rb = Suc 0" "le_value rb = 32" for rb
    using that by (cases rb) (auto simp: word_unat_eq_iff)
  from artik_i2c_write_register_message [OF s'] n s' show ?thesis
    by (auto simp: i2c_slave_def dest!: rb; fastforce)
qed

lemma write_register_msg_length_witness:
  "unat (m_len (write_register_msg i2c_slave 0x20 [0xab] 1)) = 2"
  using write_register_msg_length [of i2c_slave 1 "[0xab]" "0x20"]
  by (simp add: bad_wordsize_def I2C_8BIT_def I2C_WORDSIZE_INVALID_def i2c_slave_def write_register_msg_def)

end
