(* ===== verification/Spi.thy ===== *)
theory Spi
  imports Registry
begin

text \<open>
  The SPI module: \<^verbatim>\<open>spi/artik_spi.c\<close> over \<^verbatim>\<open>spi/linux_spi.c\<close> (spidev).  The registry is keyed by
  the bus alone.
\<close>

section \<open>Data\<close>

record artik_spi_config =
  sp_bus :: u32
  sp_cs :: u32
  sp_mode :: u32
  sp_bits_per_word :: u32
  sp_max_speed :: u32

definition SPI_MODE_INVALID :: u32 where "SPI_MODE_INVALID = 4"

type_synonym spi_dev = "(artik_spi_config, unit) dev"

definition zero_spi_config :: artik_spi_config where
  "zero_spi_config = \<lparr>sp_bus = 0, sp_cs = 0, sp_mode = 0, sp_bits_per_word = 0, sp_max_speed = 0\<rparr>"

section \<open>The OS layer\<close>

definition SPI_DEV_MAX_LEN :: nat where "SPI_DEV_MAX_LEN = 64"

definition spi_devname :: "artik_spi_config \<Rightarrow> string" where
  "spi_devname c = snprintf SPI_DEV_MAX_LEN
     (''/dev/spidev'' @ dec_int (sint (sp_bus c)) @ ''.'' @ dec_int (sint (sp_cs c)))"

text \<open>A sequence of \<^verbatim>\<open>ioctl\<close>s that stops at the first failure.\<close>

fun ioctl_seq :: "int \<Rightarrow> (string \<times> int list) list \<Rightarrow> world \<Rightarrow> int \<times> world" where
  "ioctl_seq fd [] w = (0, w)"
| "ioctl_seq fd ((q, a) # qs) w =
     (let (r, w) = sys (Ioctl fd q a) w in if r < 0 then (r, w) else ioctl_seq fd qs w)"

definition spi_setup :: "int \<Rightarrow> u8 \<Rightarrow> u8 \<Rightarrow> u32 \<Rightarrow> world \<Rightarrow> int \<times> world" where
  "spi_setup fd mode bits speed w =
     ioctl_seq fd
       [(''SPI_IOC_WR_MODE'', [uint mode]), (''SPI_IOC_RD_MODE'', []),
        (''SPI_IOC_WR_BITS_PER_WORD'', [uint bits]), (''SPI_IOC_RD_BITS_PER_WORD'', []),
        (''SPI_IOC_WR_MAX_SPEED_HZ'', [uint speed]), (''SPI_IOC_RD_MAX_SPEED_HZ'', [])] w"

text \<open>The configuration is a valid pointer in all calls from \<^verbatim>\<open>artik_spi.c\<close>.\<close>

definition os_spi_request :: "artik_spi_config \<Rightarrow> world \<Rightarrow> artik_error \<times> world" where
  "os_spi_request c w =
     (if sp_mode c = SPI_MODE_INVALID then (E_NOT_INITIALIZED, w)
      else let (fd, w) = sys (Open (spi_devname c) [O_SYNC, O_WRONLY]) w
           in if fd < 0 then (E_ACCESS_DENIED, w)
              else
                let (ret, w) = spi_setup fd (ucast (sp_mode c)) (ucast (sp_bits_per_word c)) (sp_max_speed c) w;
                    (_, w) = sys (Close fd) w
                in (if ret < 0 then E_ACCESS_DENIED else ret, w))"

definition os_spi_release :: "artik_spi_config \<Rightarrow> world \<Rightarrow> artik_error \<times> world" where
  "os_spi_release c w = (S_OK, w)"

text \<open>A missing buffer is \<^term>\<open>None\<close>.\<close>

definition os_spi_read :: "artik_spi_config \<Rightarrow> bool \<Rightarrow> int \<Rightarrow> world \<Rightarrow> (artik_error \<times> string) \<times> world" where
  "os_spi_read c buf len w =
     (if sp_mode c = SPI_MODE_INVALID then ((E_NOT_INITIALIZED, []), w)
      else if \<not> buf then ((E_BAD_ARGS, []), w)
      else if len \<le> 0 then ((E_BAD_ARGS, []), w)
      else let (fd, w) = sys (Open (spi_devname c) [O_RDWR]) w
           in if fd < 0 then ((E_ACCESS_DENIED, []), w)
              else
                let ((k, d), w) = sys_read fd len w; (_, w) = sys (Close fd) w
                in ((if k \<noteq> len then E_ACCESS_DENIED else S_OK, d), w))"

text \<open>\<^verbatim>\<open>struct spi_ioc_transfer\<close>: length, speed, bits per word (8 bits wide), then the data sent.\<close>

definition spi_transfer :: "artik_spi_config \<Rightarrow> u8 list \<Rightarrow> bool \<Rightarrow> int \<Rightarrow> int list" where
  "spi_transfer c tx rx len =
     [uint (of_int len :: u32), uint (sp_max_speed c), uint (ucast (sp_bits_per_word c) :: u8), of_bool rx] @
     map uint (take (nat len) tx)"

definition os_spi_write :: "artik_spi_config \<Rightarrow> u8 list option \<Rightarrow> int \<Rightarrow> world \<Rightarrow> artik_error \<times> world" where
  "os_spi_write c buf len w =
     (if sp_mode c = SPI_MODE_INVALID then (E_NOT_INITIALIZED, w)
      else case buf of
        None \<Rightarrow> (E_BAD_ARGS, w)
      | Some tx \<Rightarrow>
          if len \<le> 0 then (E_BAD_ARGS, w)
          else let (fd, w) = sys (Open (spi_devname c) [O_SYNC, O_WRONLY]) w
               in if fd < 0 then (E_ACCESS_DENIED, w)
                  else
                    let (r, w) = sys (Ioctl fd ''SPI_IOC_MESSAGE(1)'' (spi_transfer c tx False len)) w;
                        (_, w) = sys (Close fd) w
                    in (if r < 0 then E_ACCESS_DENIED else S_OK, w))"

definition os_spi_read_write ::
  "artik_spi_config \<Rightarrow> u8 list option \<Rightarrow> bool \<Rightarrow> int \<Rightarrow> world \<Rightarrow> (artik_error \<times> string) \<times> world" where
  "os_spi_read_write c tx_buf rx_buf len w =
     (if sp_mode c = SPI_MODE_INVALID then ((E_NOT_INITIALIZED, []), w)
      else case tx_buf of
        None \<Rightarrow> ((E_BAD_ARGS, []), w)
      | Some tx \<Rightarrow>
          if \<not> rx_buf then ((E_BAD_ARGS, []), w)
          else if len \<le> 0 then ((E_BAD_ARGS, []), w)
          else let (fd, w) = sys (Open (spi_devname c) [O_SYNC, O_WRONLY]) w
               in if fd < 0 then ((E_ACCESS_DENIED, []), w)
                  else
                    let n = length (trace w);
                        (r, w) = sys (Ioctl fd ''SPI_IOC_MESSAGE(1)'' (spi_transfer c tx True len)) w;
                        (_, w) = sys (Close fd) w
                    in ((if r < 0 then E_ACCESS_DENIED else S_OK,
                         if r < 0 then [] else take (nat len) (rdata w n)), w))"

section \<open>The module\<close>

definition spi_check_exist :: "u32 \<Rightarrow> artik_spi_config \<Rightarrow> bool" where
  "spi_check_exist val_bus c \<longleftrightarrow> sp_bus c = val_bus"

definition artik_spi_request :: "artik_spi_config \<Rightarrow> spi_dev \<Rightarrow> (artik_error \<times> addr) \<times> spi_dev" where
  "artik_spi_request c s =
     (if node_check (spi_check_exist (sp_bus c)) s then ((E_BUSY, 0), s)
      else
        let (node, s) = node_add zero_spi_config 72 s
        in if node = 0 then ((E_NO_MEM, 0), s)
           else
             let (ret, s) = on_wld (os_spi_request c) s
             in if ret = S_OK then ((S_OK, node), node_set node c s)
                else ((ret, 0), node_del node s))"

definition artik_spi_release :: "addr \<Rightarrow> spi_dev \<Rightarrow> artik_error \<times> spi_dev" where
  "artik_spi_release h s =
     (case node_get h s of
        None \<Rightarrow> (E_BAD_ARGS, s)
      | Some c \<Rightarrow> let (ret, s) = on_wld (os_spi_release c) s
                  in if ret \<noteq> S_OK then (ret, s) else (ret, node_del h s))"

definition artik_spi_read :: "addr \<Rightarrow> bool \<Rightarrow> int \<Rightarrow> spi_dev \<Rightarrow> (artik_error \<times> string) \<times> spi_dev" where
  "artik_spi_read h buf len s =
     (case node_get h s of None \<Rightarrow> ((E_BAD_ARGS, []), s) | Some c \<Rightarrow> on_wld (os_spi_read c buf len) s)"

definition artik_spi_write :: "addr \<Rightarrow> u8 list option \<Rightarrow> int \<Rightarrow> spi_dev \<Rightarrow> artik_error \<times> spi_dev" where
  "artik_spi_write h buf len s =
     (case node_get h s of None \<Rightarrow> (E_BAD_ARGS, s) | Some c \<Rightarrow> on_wld (os_spi_write c buf len) s)"

definition artik_spi_read_write ::
  "addr \<Rightarrow> u8 list option \<Rightarrow> bool \<Rightarrow> int \<Rightarrow> spi_dev \<Rightarrow> (artik_error \<times> string) \<times> spi_dev" where
  "artik_spi_read_write h tx rx len s =
     (case node_get h s of None \<Rightarrow> ((E_BAD_ARGS, []), s) | Some c \<Rightarrow> on_wld (os_spi_read_write c tx rx len) s)"

section \<open>No operation leaks\<close>

lemma ioctl_seq_fds: "ioctl_seq fd qs w = (r, w') \<Longrightarrow> fds w' = fds w \<and> -1 \<le> r \<and> r \<le> 0"
proof (induction fd qs w arbitrary: r rule: ioctl_seq.induct)
  case (2 fd q a qs w)
  obtain r1 w1 where s: "sys (Ioctl fd q a) w = (r1, w1)" by force
  show ?case
  proof (cases "r1 < 0")
    case True
    with 2(2) s sys_ge [OF s] fds_Ioctl [OF s] show ?thesis by auto
  next
    case False
    with 2 s fds_Ioctl [OF s] show ?thesis by auto
  qed
qed simp

lemma spi_setup_fds: "spi_setup fd m b v w = (r, w') \<Longrightarrow> fds w' = fds w"
  unfolding spi_setup_def by (drule ioctl_seq_fds) simp

lemma os_spi_request_fds: "os_spi_request c w = (r, w') \<Longrightarrow> fds w' = fds w"
  by (auto simp: os_spi_request_def Let_def fun_eq_iff fds_D spi_setup_fds split: prod.splits if_splits)

lemma os_spi_read_fds: "os_spi_read c b len w = (r, w') \<Longrightarrow> fds w' = fds w"
  by (auto simp: os_spi_read_def Let_def fun_eq_iff fds_D split: prod.splits if_splits)

lemma os_spi_write_fds: "os_spi_write c b len w = (r, w') \<Longrightarrow> fds w' = fds w"
  by (auto simp: os_spi_write_def Let_def fun_eq_iff fds_D split: prod.splits if_splits option.splits)

lemma os_spi_read_write_fds: "os_spi_read_write c t b len w = (r, w') \<Longrightarrow> fds w' = fds w"
  by (auto simp: os_spi_read_write_def Let_def fun_eq_iff fds_D split: prod.splits if_splits option.splits)

section \<open>The registry of buses\<close>

lemma spi_node_check: "node_check (spi_check_exist b) s \<longleftrightarrow> b \<in> sp_bus ` snd ` set (nodes s)"
  by (rule node_check_key) (simp add: spi_check_exist_def)

lemma artik_spi_request_facts:
  assumes "artik_spi_request c s = ((r, h), s')" and "sp_bus c \<notin> sp_bus ` snd ` set (nodes s)"
  shows "fds (wld s') = fds (wld s) \<and>
    (if r = S_OK then h \<noteq> 0 \<and> h \<notin> fst ` set (nodes s) \<and> nodes s' = nodes s @ [(h, c)] else nodes s' = nodes s)"
proof -
  obtain node s1 where n: "node_add zero_spi_config 72 s = (node, s1)" by force
  obtain ret s2 where o: "on_wld (os_spi_request c) s1 = (ret, s2)" by (metis prod.exhaust)
  note f = node_add_facts [OF n] on_wldD [OF o] os_spi_request_fds [of c "wld s1" ret "wld s2"]
  from assms n o have "node = 0 \<and> ((r, h), s') = ((E_NO_MEM, 0), s1) \<or>
      node \<noteq> 0 \<and> ((r, h), s') = (if ret = S_OK then ((S_OK, node), node_set node c s2)
                             else ((ret, 0), node_del node s2))"
    by (cases "node = 0"; cases "ret = S_OK"; simp add: artik_spi_request_def spi_node_check)
  then show ?thesis
    using f by (auto simp: live_def live_of_def split: if_splits)
qed

datatype spi_call =
    SRead addr bool int
  | SWrite addr "u8 list option" int
  | SReadWrite addr "u8 list option" bool int

fun spi_other :: "spi_call \<Rightarrow> spi_dev \<Rightarrow> spi_dev" where
  "spi_other (SRead h b len) s = snd (artik_spi_read h b len s)"
| "spi_other (SWrite h b len) s = snd (artik_spi_write h b len s)"
| "spi_other (SReadWrite h t b len) s = snd (artik_spi_read_write h t b len s)"

lemma spi_other_frame: "nodes (spi_other x s) = nodes s"
  by (cases x)
    (auto simp: artik_spi_read_def artik_spi_write_def artik_spi_read_write_def split: option.split)

interpretation spi_reg: device_registry artik_spi_request artik_spi_release spi_other sp_bus
proof
  show "artik_spi_request c s = ((E_BUSY, 0), s)" if "sp_bus c \<in> sp_bus ` snd ` set (nodes s)"
    for c and s :: spi_dev
    using that by (simp add: artik_spi_request_def spi_node_check)
next
  fix c h r and s s' :: spi_dev
  assume "artik_spi_request c s = ((r, h), s')" "sp_bus c \<notin> sp_bus ` snd ` set (nodes s)"
  from artik_spi_request_facts [OF this]
  show "if r = S_OK
    then h \<noteq> 0 \<and> h \<notin> fst ` set (nodes s) \<and> (\<exists>c'. sp_bus c' = sp_bus c \<and> nodes s' = nodes s @ [(h, c')])
    else nodes s' = nodes s"
    by (auto split: if_splits)
next
  show "artik_spi_release h s = (E_BAD_ARGS, s)" if "node_get h s = None" for h and s :: spi_dev
    using that by (simp add: artik_spi_release_def)
next
  fix c h r and s s' :: spi_dev
  assume "artik_spi_release h s = (r, s')" "node_get h s = Some c"
  then show "nodes s' = (if r = S_OK then filter (\<lambda>(b, c). b \<noteq> h) (nodes s) else nodes s)"
    by (auto simp: artik_spi_release_def os_spi_release_def on_wld_def)
qed (simp add: spi_other_frame)

abbreviation spi_step :: "(artik_spi_config, spi_call) reg_op \<Rightarrow> spi_dev \<Rightarrow> spi_dev" where
  "spi_step \<equiv> reg_step artik_spi_request artik_spi_release spi_other"

lemma spi_step_fds: "fds (wld (spi_step x s)) = fds (wld s)"
proof (cases x)
  case (Req c)
  obtain r h s' where q: "artik_spi_request c s = ((r, h), s')" by (metis prod.exhaust)
  show ?thesis
    by (cases "sp_bus c \<in> sp_bus ` snd ` set (nodes s)")
      (use q Req spi_reg.request_busy artik_spi_request_facts [OF q] in auto)
next
  case (Rel h)
  then show ?thesis
    by (auto simp: artik_spi_release_def os_spi_release_def on_wld_def split: option.split)
next
  case (Other y)
  then show ?thesis
    using os_spi_read_fds os_spi_write_fds os_spi_read_write_fds
    by (cases y)
      (auto simp: artik_spi_read_def artik_spi_write_def artik_spi_read_write_def split: option.split dest: sym,
        (metis prod.collapse)+)
qed

section \<open>Properties\<close>

text \<open>
  The SPI registry over every history: no bus is held twice, and every operation has closed
  the descriptors it opened, whichever call fails.
\<close>

theorem artik_spi_run_invariant:
  "reg_inv sp_bus (fold spi_step xs (init_dev w)) \<and> fds (wld (fold spi_step xs (init_dev w))) = fds w"
proof -
  have "fds (wld (fold spi_step xs s)) = fds (wld s)" for s
    by (induction xs arbitrary: s) (simp_all add: spi_step_fds)
  then show ?thesis using spi_reg.run_inv [OF reg_inv_init, of xs w] by simp
qed

text \<open>
  The chip select is not part of the key: once a device on a bus is requested, every other
  device on that bus, with whatever chip select, is refused with \<^verbatim>\<open>E_BUSY\<close> until the release.
\<close>

theorem artik_spi_chip_select_ignored:
  assumes "artik_spi_request c s = ((S_OK, h), s')" and "Rel h \<notin> set xs"
  shows "fst (artik_spi_request (c\<lparr>sp_cs := cs\<rparr>) (fold spi_step xs s')) = (E_BUSY, 0)"
  using spi_reg.busy_until_release [OF assms, of "c\<lparr>sp_cs := cs\<rparr>"] by simp

section \<open>Witnesses\<close>

definition spi_world :: world where
  "spi_world = \<lparr>result = (\<lambda>n. int n + 5), rdata = (\<lambda>_. ''''), out_int = (\<lambda>_. 0), module_addr = (\<lambda>_. 40), errno = 0, trace = []\<rparr>"

definition spi_chip :: artik_spi_config where
  "spi_chip = \<lparr>sp_bus = 2, sp_cs = 0, sp_mode = 0, sp_bits_per_word = 8, sp_max_speed = 500000\<rparr>"

lemma artik_spi_chip_select_ignored_witness:
  "fst (artik_spi_request (spi_chip\<lparr>sp_cs := 1\<rparr>) (snd (artik_spi_request spi_chip (init_dev spi_world)))) = (E_BUSY, 0)"
proof -
  have "fst (artik_spi_request spi_chip (init_dev spi_world)) = (S_OK, 5)" by code_simp
  then have "artik_spi_request spi_chip (init_dev spi_world) =
      ((S_OK, 5), snd (artik_spi_request spi_chip (init_dev spi_world)))" by (simp add: prod_eq_iff)
  from artik_spi_chip_select_ignored [OF this, of "[]" 1] show ?thesis by simp
qed

end
