(* ===== verification/Serial.thy ===== *)
theory Serial
  imports Registry
begin

text \<open>
  The serial module: \<^verbatim>\<open>serial/artik_serial.c\<close> over \<^verbatim>\<open>serial/linux_serial.c\<close> (termios).  The
  termios constants are those of Linux (\<^verbatim>\<open>asm-generic/termbits.h\<close>), the speed functions those of
  the C library.
\<close>

section \<open>Data\<close>

datatype artik_serial_baudrate_t =
    BAUD_4800 | BAUD_9600 | BAUD_14400 | BAUD_19200 | BAUD_38400 | BAUD_57600 | BAUD_115200
  | BAUD_230400 | BAUD_460800 | BAUD_500000 | BAUD_576000 | BAUD_921600 | BAUD_1000000
  | BAUD_1152000 | BAUD_1500000 | BAUD_2000000 | BAUD_2500000 | BAUD_3000000 | BAUD_3500000
  | BAUD_4000000 | BAUD_NUM

datatype artik_serial_parity_t = PARITY_NONE | PARITY_ODD | PARITY_EVEN
datatype artik_serial_data_bits_t = DATA_5BIT | DATA_6BIT | DATA_7BIT | DATA_8BIT
datatype artik_serial_stop_bits_t = STOP_1BIT | STOP_2BIT
datatype artik_serial_flowcontrol_t = FLOWCTRL_NONE | FLOWCTRL_HARD | FLOWCTRL_SOFT

record artik_serial_config =
  se_port_num :: u32
  se_name :: addr
  se_baudrate :: artik_serial_baudrate_t
  se_parity :: artik_serial_parity_t
  se_data_bits :: artik_serial_data_bits_t
  se_stop_bits :: artik_serial_stop_bits_t
  se_flowctrl :: artik_serial_flowcontrol_t
  se_data_user :: addr

text \<open>\<^verbatim>\<open>fd_set\<close> is a set of descriptors, as its characteristic function.\<close>

record os_serial_data =
  sd_fd :: int
  sd_watch_id :: int
  sd_rdfs :: "int \<Rightarrow> bool"
  sd_callback :: addr
  sd_user_data :: addr
  sd_loop :: addr

type_synonym serial_dev = "(artik_serial_config, os_serial_data) dev"

definition zero_serial_config :: artik_serial_config where
  "zero_serial_config = \<lparr>se_port_num = 0, se_name = 0, se_baudrate = BAUD_4800, se_parity = PARITY_NONE,
     se_data_bits = DATA_5BIT, se_stop_bits = STOP_1BIT, se_flowctrl = FLOWCTRL_NONE, se_data_user = 0\<rparr>"

definition zero_serial_data :: os_serial_data where
  "zero_serial_data = \<lparr>sd_fd = 0, sd_watch_id = 0, sd_rdfs = (\<lambda>_. False), sd_callback = 0,
     sd_user_data = 0, sd_loop = 0\<rparr>"

section \<open>termios\<close>

record termios =
  c_iflag :: u32
  c_cflag :: u32
  c_vmin :: int
  c_vtime :: int

definition CBAUD :: u32 where "CBAUD = 0x100f"
definition CS5 :: u32 where "CS5 = 0"
definition CS6 :: u32 where "CS6 = 0x10"
definition CS7 :: u32 where "CS7 = 0x20"
definition CS8 :: u32 where "CS8 = 0x30"
definition CSTOPB :: u32 where "CSTOPB = 0x40"
definition CREAD :: u32 where "CREAD = 0x80"
definition PARENB :: u32 where "PARENB = 0x100"
definition PARODD :: u32 where "PARODD = 0x200"
definition HUPCL :: u32 where "HUPCL = 0x400"
definition CLOCAL :: u32 where "CLOCAL = 0x800"
definition CRTSCTS :: u32 where "CRTSCTS = 0x80000000"
definition IXON :: u32 where "IXON = 0x400"
definition IXANY :: u32 where "IXANY = 0x800"
definition IXOFF :: u32 where "IXOFF = 0x1000"
definition B57600 :: u32 where "B57600 = 0x1001"
definition B4000000 :: u32 where "B4000000 = 0x100f"

text \<open>The table \<^verbatim>\<open>baudrate_value\<close>: codes, except the third entry, which is the number 14400.\<close>

fun baudrate_value :: "artik_serial_baudrate_t \<Rightarrow> u32" where
  "baudrate_value BAUD_4800 = 0xc"
| "baudrate_value BAUD_9600 = 0xd"
| "baudrate_value BAUD_14400 = 14400"
| "baudrate_value BAUD_19200 = 0xe"
| "baudrate_value BAUD_38400 = 0xf"
| "baudrate_value BAUD_57600 = 0x1001"
| "baudrate_value BAUD_115200 = 0x1002"
| "baudrate_value BAUD_230400 = 0x1003"
| "baudrate_value BAUD_460800 = 0x1004"
| "baudrate_value BAUD_500000 = 0x1005"
| "baudrate_value BAUD_576000 = 0x1006"
| "baudrate_value BAUD_921600 = 0x1007"
| "baudrate_value BAUD_1000000 = 0x1008"
| "baudrate_value BAUD_1152000 = 0x1009"
| "baudrate_value BAUD_1500000 = 0x100a"
| "baudrate_value BAUD_2000000 = 0x100b"
| "baudrate_value BAUD_2500000 = 0x100c"
| "baudrate_value BAUD_3000000 = 0x100d"
| "baudrate_value BAUD_3500000 = 0x100e"
| "baudrate_value BAUD_4000000 = 0x100f"
| "baudrate_value BAUD_NUM = 0"

text \<open>
  \<^verbatim>\<open>cfsetospeed\<close> refuses a value that is no speed code and leaves the structure alone; both
  functions write the same field (\<^verbatim>\<open>cfsetispeed\<close> does nothing for code 0, which the table only
  has for the excluded entry).
\<close>

definition cfsetspeed :: "u32 \<Rightarrow> termios \<Rightarrow> termios" where
  "cfsetspeed speed t =
     (if (speed AND NOT CBAUD) \<noteq> 0 \<and> (speed < B57600 \<or> speed > B4000000) then t
      else t\<lparr>c_cflag := (c_cflag t AND NOT CBAUD) OR speed\<rparr>)"

definition or_cflag :: "u32 \<Rightarrow> termios \<Rightarrow> termios" where
  "or_cflag m t = t\<lparr>c_cflag := c_cflag t OR m\<rparr>"

text \<open>The structure that the request hands to \<^verbatim>\<open>tcsetattr\<close>.\<close>

definition serial_termios :: "artik_serial_config \<Rightarrow> termios" where
  "serial_termios c =
     (let t = \<lparr>c_iflag = 0, c_cflag = 0, c_vmin = 0, c_vtime = 0\<rparr>;
          t = or_cflag (CREAD OR CLOCAL) t;
          t = t\<lparr>c_vmin := 1, c_vtime := 5\<rparr>;
          t = cfsetspeed (baudrate_value (se_baudrate c)) t;
          t = cfsetspeed (baudrate_value (se_baudrate c)) t;
          t = (case se_flowctrl c of
                 FLOWCTRL_HARD \<Rightarrow> or_cflag CRTSCTS t
               | FLOWCTRL_SOFT \<Rightarrow> or_cflag (IXON OR IXOFF OR IXANY) t
               | _ \<Rightarrow> t);
          t = (case se_parity c of
                 PARITY_ODD \<Rightarrow> or_cflag (PARENB OR PARODD) t
               | PARITY_EVEN \<Rightarrow> or_cflag PARENB t
               | _ \<Rightarrow> t);
          t = (if se_stop_bits c = STOP_2BIT then or_cflag CSTOPB t else t)
      in case se_data_bits c of
           DATA_5BIT \<Rightarrow> or_cflag CS5 t | DATA_6BIT \<Rightarrow> or_cflag CS6 t
         | DATA_7BIT \<Rightarrow> or_cflag CS7 t | DATA_8BIT \<Rightarrow> or_cflag CS8 t)"

section \<open>The OS layer\<close>

definition MAX_PATH :: nat where "MAX_PATH = 128"

text \<open>
  Prefixes of the device names by platform.  The ARTIK05x entry is NULL; using it as a format is
  undefined in C, and so is a platform past the table.  The model takes the empty name for both.
\<close>

definition plat_port :: "string option list" where
  "plat_port = [Some ''/dev/ttyS'', Some ''/dev/ttySAC'', Some ''/dev/ttySAC'', Some ''/dev/ttySAC'',
     Some ''/dev/ttyAMA'', None, Some ''/dev/ttyAMA'', Some ''/dev/ttyAMA'']"

definition serial_entry :: "int \<Rightarrow> artik_serial_config \<Rightarrow> string" where
  "serial_entry platid c =
     (case if nat platid < length plat_port then plat_port ! nat platid else None of
        None \<Rightarrow> []
      | Some p \<Rightarrow> snprintf MAX_PATH (p @ dec_int (sint (se_port_num c))))"

text \<open>
  A pointer to a freed block does not occur (theorem \<open>artik_serial_run_invariant\<close>); the model's
  release then does nothing.
\<close>

definition os_serial_release :: "artik_serial_config \<Rightarrow> serial_dev \<Rightarrow> artik_error \<times> serial_dev" where
  "os_serial_release c s =
     (if se_data_user c = 0 then (S_OK, s)
      else case data s (se_data_user c) of
        None \<Rightarrow> (S_OK, s)
      | Some d \<Rightarrow>
          let (_, s) = (if 0 \<le> sd_fd d then on_wld (sys (Close (sd_fd d))) s else (0, s))
          in (S_OK, free_data (se_data_user c) s))"

definition set_sdata :: "addr \<Rightarrow> os_serial_data \<Rightarrow> serial_dev \<Rightarrow> serial_dev" where
  "set_sdata a d s = s\<lparr>data := (data s)(a \<mapsto> d)\<rparr>"

text \<open>
  \<^verbatim>\<open>-E_NO_MEM\<close> is 4.  The block is not initialised by \<^verbatim>\<open>malloc\<close>; the model's fields other than
  the descriptor and its set start as 0.
\<close>

definition os_serial_request ::
  "artik_serial_config \<Rightarrow> serial_dev \<Rightarrow> (artik_error \<times> artik_serial_config) \<times> serial_dev" where
  "os_serial_request c s =
     (let (platid, s) = on_wld (ext ''artik_get_platform'' []) s
      in if platid < 0 then ((E_NOT_SUPPORTED, c), s)
         else
           let (a, s) = malloc_data zero_serial_data 168 s
           in if a = 0 then ((- E_NO_MEM, c), s)
              else
                let c = c\<lparr>se_data_user := a\<rparr>;
                    (fd, s) = on_wld (sys (Open (serial_entry platid c) [O_RDWR, O_NOCTTY, O_NONBLOCK])) s;
                    s = set_sdata a (zero_serial_data\<lparr>sd_fd := fd\<rparr>) s
                in if fd < 0 then let (_, s) = os_serial_release c s in ((E_ACCESS_DENIED, c), s)
                   else
                     let s = set_sdata a (zero_serial_data\<lparr>sd_fd := fd, sd_rdfs := (\<lambda>x. x = fd)\<rparr>) s
                     in if se_baudrate c = BAUD_NUM
                        then let (_, s) = os_serial_release c s in ((E_BAD_ARGS, c), s)
                        else
                          let t = serial_termios c;
                              (_, s) = on_wld (sys (Ioctl fd ''TCFLSH'' [0])) s;
                              (r, s) = on_wld (sys (Ioctl fd ''TCSETS'' [uint (c_iflag t), uint (c_cflag t), c_vmin t, c_vtime t])) s
                          in if r \<noteq> 0
                             then let (_, s) = os_serial_release c s in ((E_ACCESS_DENIED, c), s)
                             else ((S_OK, c), s))"

definition os_serial_read ::
  "artik_serial_config \<Rightarrow> int \<Rightarrow> serial_dev \<Rightarrow> ((artik_error \<times> string \<times> int) \<times> serial_dev) option" where
  "os_serial_read c len s =
     (case data s (se_data_user c) of
        None \<Rightarrow> None
      | Some d \<Rightarrow>
          if sd_fd d < 0 then Some ((E_ACCESS_DENIED, [], len), s)
          else let ((k, b), s) = on_wld (sys_read (sd_fd d) (size_t len)) s
               in if k < 0
                  then Some ((if errno (wld s) = EAGAIN then E_TRY_AGAIN else E_ACCESS_DENIED, [], len), s)
                  else Some ((S_OK, b, k), s))"

definition os_serial_write ::
  "artik_serial_config \<Rightarrow> string \<Rightarrow> int \<Rightarrow> serial_dev \<Rightarrow> ((artik_error \<times> int) \<times> serial_dev) option" where
  "os_serial_write c buf len s =
     (case data s (se_data_user c) of
        None \<Rightarrow> None
      | Some d \<Rightarrow>
          if sd_fd d < 0 then Some ((E_ACCESS_DENIED, len), s)
          else let (k, s) = on_wld (sys (Write (sd_fd d) (take (nat (size_t len)) buf))) s
               in if k < 0 then Some ((E_ACCESS_DENIED, len), s) else Some ((S_OK, k), s))"

text \<open>
  The loop's callback on input.  \<^verbatim>\<open>select\<close> reports in the set whether the descriptor is ready
  (the \<^verbatim>\<open>out_int\<close> of the call); its remaining-time output is not modelled.  The user's function
  is called with the bytes read, or with none.
\<close>

definition sel :: "int \<Rightarrow> os_serial_data \<Rightarrow> world \<Rightarrow> (int \<times> os_serial_data) \<times> world" where
  "sel fd d w =
     (let n = length (trace w); (r, w) = sys (Ioctl (fd + 1) ''select'' []) w
      in ((r, if r < 0 then d
              else d\<lparr>sd_rdfs := (\<lambda>x. sd_rdfs d x \<and> 0 < r \<and> (x = fd \<longrightarrow> out_int w n \<noteq> 0))\<rparr>), w))"

definition user_call :: "os_serial_data \<Rightarrow> int \<Rightarrow> world \<Rightarrow> world" where
  "user_call d res w = snd (ext ''serial_callback'' [int (sd_callback d), int (sd_user_data d), res] w)"

definition os_serial_change_callback :: "int \<Rightarrow> addr \<Rightarrow> serial_dev \<Rightarrow> (int \<times> serial_dev) option" where
  "os_serial_change_callback fd ud s =
     (if ud = 0 then Some (0, s)
      else case data s ud of
        None \<Rightarrow> None
      | Some d \<Rightarrow>
          if sd_fd d < 0 then Some (0, s)
          else
            let ((res, d), s) = on_wld (sel (sd_fd d) d) s;
                (res, s) = (if res \<noteq> 0 \<and> sd_rdfs d (sd_fd d)
                            then let ((k, b), s) = on_wld (sys_read (sd_fd d) 255) s in (k, s)
                            else (if 0 < res then 0 else res, s));
                d = d\<lparr>sd_rdfs := (sd_rdfs d)(sd_fd d := True)\<rparr>
            in if res < 0 then Some (0, set_sdata ud d s)
               else
                 let (res, d, s) =
                       (if sd_callback d \<noteq> 0
                        then
                          let s = s\<lparr>wld := user_call d res (wld s)\<rparr>;
                              ((res, d), s) = on_wld (sel fd d) s;
                              s = (if res = 0 \<or> (0 < res \<and> \<not> sd_rdfs d fd)
                                   then s\<lparr>wld := user_call d 0 (wld s)\<rparr> else s)
                          in (res, d, s)
                        else (res, d, s))
                 in Some (1, set_sdata ud (d\<lparr>sd_rdfs := (sd_rdfs d)(fd := (res \<noteq> 0))\<rparr>) s))"

text \<open>
  \<^verbatim>\<open>set_received_callback\<close>.  The model's \<open>Ext\<close> call is the loop module's \<^verbatim>\<open>add_fd_watch\<close>.
\<close>

definition os_serial_set_received_callback ::
  "artik_serial_config \<Rightarrow> addr \<Rightarrow> addr \<Rightarrow> serial_dev \<Rightarrow> (artik_error \<times> serial_dev) option" where
  "os_serial_set_received_callback c cb ud s =
     (case data s (se_data_user c) of
        None \<Rightarrow> None
      | Some d \<Rightarrow>
          if sd_fd d = -1 then Some (E_BUSY, s)
          else
            let d = d\<lparr>sd_callback := cb, sd_user_data := ud\<rparr>;
                (l, s) = on_wld (request_api_module ''loop'') s
            in case l of
                 None \<Rightarrow> None
               | Some l \<Rightarrow>
               let d = d\<lparr>sd_loop := l\<rparr>
               in if l = 0 then Some (E_BUSY, set_sdata (se_data_user c) d s)
               else
                 let n = length (trace (wld s));
                     (ret, s) = on_wld (ext ''loop.add_fd_watch'' [sd_fd d, int (se_data_user c)]) s
                 in if ret = S_OK
                    then Some (S_OK, set_sdata (se_data_user c) (d\<lparr>sd_watch_id := out_int (wld s) n\<rparr>) s)
                    else Some (ret, set_sdata (se_data_user c) (d\<lparr>sd_loop := 0\<rparr>)
                                      (s\<lparr>wld := release_api_module ''loop'' l (wld s)\<rparr>)))"

definition os_serial_unset_received_callback ::
  "artik_serial_config \<Rightarrow> serial_dev \<Rightarrow> (artik_error \<times> serial_dev) option" where
  "os_serial_unset_received_callback c s =
     (let (l, s) = on_wld (request_api_module ''loop'') s
      in case data s (se_data_user c) of
        None \<Rightarrow> None
      | Some d \<Rightarrow>
          if sd_fd d \<noteq> 0 then
            if sd_loop d = 0 then Some (S_OK, set_sdata (se_data_user c) zero_serial_data s)
            else
              let (_, s) = on_wld (ext ''loop.remove_fd_watch'' [sd_watch_id d]) s
              in case l of
                   None \<Rightarrow> None
                 | Some l \<Rightarrow> Some (S_OK, set_sdata (se_data_user c) zero_serial_data
                                   (s\<lparr>wld := release_api_module ''loop'' l (wld s)\<rparr>))
          else Some (S_OK, s))"

section \<open>The module\<close>

definition serial_check_exist :: "u32 \<Rightarrow> artik_serial_config \<Rightarrow> bool" where
  "serial_check_exist val_id c \<longleftrightarrow> se_port_num c = val_id"

definition artik_serial_request :: "artik_serial_config \<Rightarrow> serial_dev \<Rightarrow> (artik_error \<times> addr) \<times> serial_dev" where
  "artik_serial_request c s =
     (if node_check (serial_check_exist (se_port_num c)) s then ((E_BUSY, 0), s)
      else
        let (node, s) = node_add zero_serial_config 96 s
        in if node = 0 then ((E_NO_MEM, 0), s)
           else
             let ((ret, c), s) = os_serial_request c s
             in if ret = S_OK then ((S_OK, node), node_set node c s)
                else ((ret, 0), node_del node s))"

definition artik_serial_release :: "addr \<Rightarrow> serial_dev \<Rightarrow> artik_error \<times> serial_dev" where
  "artik_serial_release h s =
     (case node_get h s of
        None \<Rightarrow> (E_BAD_ARGS, s)
      | Some c \<Rightarrow>
          let (ret, s) = os_serial_release c s
          in if ret \<noteq> S_OK then (ret, s) else (ret, node_del h s))"

definition artik_serial_read ::
  "addr \<Rightarrow> int \<Rightarrow> serial_dev \<Rightarrow> ((artik_error \<times> string \<times> int) \<times> serial_dev) option" where
  "artik_serial_read h len s =
     (case node_get h s of None \<Rightarrow> Some ((E_BAD_ARGS, [], len), s) | Some c \<Rightarrow> os_serial_read c len s)"

definition artik_serial_write ::
  "addr \<Rightarrow> string \<Rightarrow> int \<Rightarrow> serial_dev \<Rightarrow> ((artik_error \<times> int) \<times> serial_dev) option" where
  "artik_serial_write h buf len s =
     (case node_get h s of None \<Rightarrow> Some ((E_BAD_ARGS, len), s) | Some c \<Rightarrow> os_serial_write c buf len s)"

definition artik_serial_set_received_callback ::
  "addr \<Rightarrow> addr \<Rightarrow> addr \<Rightarrow> serial_dev \<Rightarrow> (artik_error \<times> serial_dev) option" where
  "artik_serial_set_received_callback h cb ud s =
     (case node_get h s of None \<Rightarrow> Some (E_BAD_ARGS, s) | Some c \<Rightarrow> os_serial_set_received_callback c cb ud s)"

definition artik_serial_unset_received_callback ::
  "addr \<Rightarrow> serial_dev \<Rightarrow> (artik_error \<times> serial_dev) option" where
  "artik_serial_unset_received_callback h s =
     (case node_get h s of None \<Rightarrow> Some (E_BAD_ARGS, s) | Some c \<Rightarrow> os_serial_unset_received_callback c s)"

section \<open>What the operations do to the state\<close>

lemma set_sdata_simps [simp]:
  "nodes (set_sdata a d s) = nodes s" "data (set_sdata a d s) = (data s)(a \<mapsto> d)" "wld (set_sdata a d s) = wld s"
  by (simp_all add: set_sdata_def)

lemma set_sdata_twice [simp]: "set_sdata a d (set_sdata a d' s) = set_sdata a d s"
  by (simp add: set_sdata_def)

lemma os_serial_release_facts:
  assumes "os_serial_release c s = (r, s')" and "se_data_user c \<noteq> 0" and "data s (se_data_user c) = Some d"
  shows "r = S_OK \<and> nodes s' = nodes s \<and> data s' = (data s)(se_data_user c := None) \<and>
    (\<forall>x. fds (wld s') x = fds (wld s) x - (if 0 \<le> sd_fd d \<and> x = sd_fd d then 1 else 0))"
  using assms
  by (auto simp: os_serial_release_def Let_def fds_Close split: prod.splits if_splits dest!: on_wldD)

lemma release_new_block:
  assumes "os_serial_release (c\<lparr>se_data_user := a\<rparr>) (set_sdata a d s) = (r, s')" and "a \<noteq> 0" and "a \<notin> dom m"
    and "data s = m(a \<mapsto> d0)"
  shows "nodes s' = nodes s \<and> data s' = m \<and>
    (\<forall>x. fds (wld s') x = fds (wld s) x - (if 0 \<le> sd_fd d \<and> x = sd_fd d then 1 else 0))"
  using os_serial_release_facts [OF assms(1), of d] assms(2-4) by (auto simp: fun_eq_iff)

lemma os_serial_request_facts:
  assumes "os_serial_request c s = ((r, c'), s')"
  shows "nodes s' = nodes s \<and>
    (if r = S_OK
     then c' = c\<lparr>se_data_user := se_data_user c'\<rparr> \<and> se_data_user c' \<noteq> 0 \<and> se_data_user c' \<notin> live s \<and>
       (\<exists>d. 0 \<le> sd_fd d \<and> data s' = (data s)(se_data_user c' \<mapsto> d) \<and>
          (\<forall>x. fds (wld s') x = fds (wld s) x + (if x = sd_fd d then 1 else 0)))
     else data s' = data s \<and> fds (wld s') = fds (wld s))"
proof -
  obtain platid s0 where p: "on_wld (ext ''artik_get_platform'' []) s = (platid, s0)" by (metis prod.exhaust)
  obtain a s1 where m: "malloc_data zero_serial_data 168 s0 = (a, s1)" by force
  define c1 where "c1 = c\<lparr>se_data_user := a\<rparr>"
  obtain fd s2 where o: "on_wld (sys (Open (serial_entry platid c1) [O_RDWR, O_NOCTTY, O_NONBLOCK])) s1 = (fd, s2)"
    by (metis prod.exhaust)
  note pf = on_wldD [OF p] and mf = malloc_data_facts [OF m] and of' = on_wldD [OF o]
  have f0: "fds (wld s0) = fds (wld s)" using pf by (auto simp: fds_ext)
  have l0: "live s0 = live s" using pf by (simp add: live_def)
  have f2: "fds (wld s2) x = fds (wld s) x + (if 0 \<le> fd \<and> fd = x then 1 else 0)" for x
    using fds_Open [OF of' [THEN conjunct2, THEN conjunct2]] mf f0 by simp
  define d where "d = zero_serial_data\<lparr>sd_fd := fd, sd_rdfs := (\<lambda>x. x = fd)\<rparr>"
  consider "platid < 0" | "0 \<le> platid" "a = 0" | "0 \<le> platid" "a \<noteq> 0" "fd < 0"
    | "0 \<le> platid" "a \<noteq> 0" "0 \<le> fd" by linarith
  then show ?thesis
  proof cases
    case 1
    with assms p pf f0 show ?thesis by (simp add: os_serial_request_def)
  next
    case 2
    with assms p m pf mf f0 show ?thesis by (auto simp: os_serial_request_def)
  next
    case 3
    obtain r' s3 where q: "os_serial_release (c\<lparr>se_data_user := a\<rparr>) (set_sdata a (zero_serial_data\<lparr>sd_fd := fd\<rparr>) s2) = (r', s3)"
      by force
    have e: "r = E_ACCESS_DENIED" "s' = s3"
      using 3 assms p m o q by (simp_all add: os_serial_request_def c1_def)
    have "nodes s3 = nodes s2 \<and> data s3 = data s0 \<and> (\<forall>x. fds (wld s3) x = fds (wld s2) x)"
      using release_new_block [OF q 3(2), of "data s0" zero_serial_data] 3 mf of'
      by (auto simp: live_def live_of_def)
    with e 3 pf mf of' f2 show ?thesis by (auto simp: fun_eq_iff)
  next
    case 4
    let ?t = "serial_termios c1"
    let ?s2 = "set_sdata a d s2"
    obtain q1 s3 where t1: "on_wld (sys (Ioctl fd ''TCFLSH'' [0])) ?s2 = (q1, s3)" by (metis prod.exhaust)
    obtain q2 s4 where t2: "on_wld (sys (Ioctl fd ''TCSETS'' [uint (c_iflag ?t), uint (c_cflag ?t), c_vmin ?t, c_vtime ?t])) s3 = (q2, s4)"
      by (metis prod.exhaust)
    note t1f = on_wldD [OF t1] and t2f = on_wldD [OF t2]
    have f4: "fds (wld s4) = fds (wld s2)" using t1f t2f by (auto simp: fds_Ioctl)
    have a_live: "a \<notin> live s" "a \<notin> dom (data s0)" using mf 4 l0 by (auto simp: live_def live_of_def)
    have none: "data s a = None" using a_live(2) pf by auto
    obtain r5 s5 where rel5: "os_serial_release c1 ?s2 = (r5, s5)" by force
    obtain r6 s6 where rel6: "os_serial_release c1 s4 = (r6, s6)" by force
    have "os_serial_request c s =
        (if se_baudrate c = BAUD_NUM then ((E_BAD_ARGS, c1), s5)
         else if q2 \<noteq> 0 then ((E_ACCESS_DENIED, c1), s6) else ((S_OK, c1), s4))"
      using 4 p m o t1 t2 rel5 rel6
      by (cases "se_baudrate c = BAUD_NUM"; cases "q2 = 0")
        (simp_all add: os_serial_request_def Let_def c1_def d_def)
    moreover have "nodes s5 = nodes s \<and> data s5 = data s \<and> (\<forall>x. fds (wld s5) x = fds (wld s) x)"
      using release_new_block [OF rel5 [unfolded c1_def] 4(2) a_live(2)] 4 pf mf of' f2
      by (auto simp: d_def)
    moreover have "data s4 (se_data_user c1) = Some d" using t1f t2f by (simp add: c1_def)
    then have "nodes s6 = nodes s \<and> data s6 = data s \<and> (\<forall>x. fds (wld s6) x = fds (wld s) x)"
      using os_serial_release_facts [OF rel6, of d] 4 pf mf of' t1f t2f f2 f4 none
      by (auto simp: d_def c1_def fun_eq_iff)
    ultimately show ?thesis
      using assms 4 pf mf of' t1f t2f f2 f4 a_live
      by (auto simp: c1_def d_def fun_eq_iff split: if_splits)
  qed
qed

section \<open>The registry of ports\<close>

lemma serial_node_check: "node_check (serial_check_exist b) s \<longleftrightarrow> b \<in> se_port_num ` snd ` set (nodes s)"
  by (rule node_check_key) (simp add: serial_check_exist_def)

lemma artik_serial_request_facts:
  assumes "artik_serial_request c s = ((r, h), s')" and "se_port_num c \<notin> se_port_num ` snd ` set (nodes s)"
  shows "if r = S_OK
     then h \<noteq> 0 \<and> h \<notin> fst ` set (nodes s) \<and>
       (\<exists>a d. a \<noteq> 0 \<and> a \<notin> dom (data s) \<and> 0 \<le> sd_fd d \<and> nodes s' = nodes s @ [(h, c\<lparr>se_data_user := a\<rparr>)] \<and>
          data s' = (data s)(a \<mapsto> d) \<and> (\<forall>x. fds (wld s') x = fds (wld s) x + (if x = sd_fd d then 1 else 0)))
     else h = 0 \<and> nodes s' = nodes s \<and> data s' = data s \<and> fds (wld s') = fds (wld s)"
proof -
  obtain node s1 where n: "node_add zero_serial_config 96 s = (node, s1)" by force
  obtain ret c1 s2 where o: "os_serial_request c s1 = ((ret, c1), s2)" by (metis prod.exhaust)
  note f = node_add_facts [OF n] os_serial_request_facts [OF o]
  from assms n o have "node = 0 \<and> ((r, h), s') = ((E_NO_MEM, 0), s1) \<or>
      node \<noteq> 0 \<and> ((r, h), s') = (if ret = S_OK then ((S_OK, node), node_set node c1 s2)
                             else ((ret, 0), node_del node s2))"
    by (cases "node = 0"; cases "ret = S_OK"; simp add: artik_serial_request_def serial_node_check)
  then consider "node = 0" "r = E_NO_MEM" "h = 0" "s' = s1"
    | "node \<noteq> 0" "ret = S_OK" "r = S_OK" "h = node" "s' = node_set node c1 s2"
    | "node \<noteq> 0" "ret \<noteq> S_OK" "r = ret" "h = 0" "s' = node_del node s2"
    by (auto split: if_splits)
  then show ?thesis
  proof cases
    case 2
    with f obtain d where "0 \<le> sd_fd d" "data s2 = (data s1)(se_data_user c1 \<mapsto> d)"
      "\<forall>x. fds (wld s2) x = fds (wld s1) x + (if x = sd_fd d then 1 else 0)" by auto
    with 2 f show ?thesis by (auto simp: live_def live_of_def)
  qed (use f in \<open>auto simp: live_def live_of_def\<close>)
qed

lemma artik_serial_release_facts:
  assumes "artik_serial_release h s = (r, s')" and "node_get h s = Some c" and "owns_data se_data_user s"
  shows "r = S_OK \<and> nodes s' = filter (\<lambda>(b, c). b \<noteq> h) (nodes s) \<and>
    data s' = (data s)(se_data_user c := None) \<and>
    (\<exists>d. data s (se_data_user c) = Some d \<and>
      (\<forall>x. fds (wld s') x = fds (wld s) x - (if 0 \<le> sd_fd d \<and> x = sd_fd d then 1 else 0)))"
proof -
  obtain d where d: "data s (se_data_user c) = Some d" using owns_data_live [OF assms(3,2)] by blast
  moreover have "se_data_user c \<noteq> 0" using assms(3) d by (auto simp: owns_data_def)
  moreover obtain ret s1 where "os_serial_release c s = (ret, s1)" by force
  ultimately show ?thesis
    using os_serial_release_facts [of c s ret s1 d] assms(1,2)
    by (auto simp: artik_serial_release_def)
qed

text \<open>
  The calls between request and release, without the removal of the callback, which breaks the
  ownership of the descriptor (see the last property).
\<close>

datatype serial_call =
    SeRead addr int
  | SeWrite addr string int
  | SeSet addr addr addr
  | SeInput int addr

fun serial_other :: "serial_call \<Rightarrow> serial_dev \<Rightarrow> serial_dev" where
  "serial_other (SeRead h len) s = (case artik_serial_read h len s of None \<Rightarrow> s | Some (r, s') \<Rightarrow> s')"
| "serial_other (SeWrite h b len) s = (case artik_serial_write h b len s of None \<Rightarrow> s | Some (r, s') \<Rightarrow> s')"
| "serial_other (SeSet h cb ud) s =
     (case artik_serial_set_received_callback h cb ud s of None \<Rightarrow> s | Some (r, s') \<Rightarrow> s')"
| "serial_other (SeInput fd ud) s = (case os_serial_change_callback fd ud s of None \<Rightarrow> s | Some (r, s') \<Rightarrow> s')"

text \<open>What these calls keep: the nodes, the descriptors, and which block has which descriptor.\<close>

definition same_fds :: "serial_dev \<Rightarrow> serial_dev \<Rightarrow> bool" where
  "same_fds s s' \<longleftrightarrow> nodes s' = nodes s \<and> fds (wld s') = fds (wld s) \<and>
     (\<forall>a. map_option sd_fd (data s' a) = map_option sd_fd (data s a))"

lemma same_fds_refl [simp]: "same_fds s s"
  by (simp add: same_fds_def)

lemma os_serial_read_same: "os_serial_read c len s = Some (r, s') \<Longrightarrow> same_fds s s'"
  by (auto simp: os_serial_read_def Let_def same_fds_def fds_D split: option.splits prod.splits if_splits dest!: on_wldD)

lemma os_serial_write_same: "os_serial_write c b len s = Some (r, s') \<Longrightarrow> same_fds s s'"
  by (auto simp: os_serial_write_def Let_def same_fds_def fds_D split: option.splits prod.splits if_splits dest!: on_wldD)

lemma os_serial_set_same: "os_serial_set_received_callback c cb ud s = Some (r, s') \<Longrightarrow> same_fds s s'"
  by (auto simp: os_serial_set_received_callback_def Let_def same_fds_def fds_D
      split: option.splits prod.splits if_splits dest!: on_wldD)

lemma sel_facts: "sel fd d w = ((r, d'), w') \<Longrightarrow> fds w' = fds w \<and> sd_fd d' = sd_fd d \<and> sd_callback d' = sd_callback d"
  by (auto simp: sel_def Let_def fds_D split: prod.splits if_splits)

lemma user_call_fds [simp]: "fds (user_call d r w) = fds w"
  by (simp add: user_call_def fds_ext [of _ _ w "fst (ext ''serial_callback'' [int (sd_callback d), int (sd_user_data d), r] w)"])

lemma os_serial_change_same: "os_serial_change_callback fd ud s = Some (r, s') \<Longrightarrow> same_fds s s'"
  by (auto simp: os_serial_change_callback_def Let_def same_fds_def fds_D
      split: option.splits prod.splits if_splits dest!: on_wldD sel_facts)

lemma serial_other_same: "same_fds s (serial_other x s)"
proof (cases x)
  case (SeRead h len)
  then show ?thesis
    by (auto simp: artik_serial_read_def split: option.splits dest: os_serial_read_same)
next
  case (SeWrite h b len)
  then show ?thesis
    by (auto simp: artik_serial_write_def split: option.splits dest: os_serial_write_same)
next
  case (SeSet h cb ud)
  then show ?thesis
    by (auto simp: artik_serial_set_received_callback_def split: option.splits dest: os_serial_set_same)
next
  case (SeInput fd ud)
  then show ?thesis by (auto split: option.splits dest: os_serial_change_same)
qed

lemma same_fds_owns: "same_fds s s' \<Longrightarrow> owns_data ud s' = owns_data ud s"
proof -
  assume "same_fds s s'"
  then have "nodes s' = nodes s" "\<And>a. data s' a = None \<longleftrightarrow> data s a = None"
    by (auto simp: same_fds_def) (metis option.map_disc_iff)+
  then show ?thesis by (intro owns_data_cong) (auto simp: dom_def)
qed

interpretation serial_reg: device_registry artik_serial_request artik_serial_release serial_other se_port_num
proof
  show "artik_serial_request c s = ((E_BUSY, 0), s)" if "se_port_num c \<in> se_port_num ` snd ` set (nodes s)"
    for c and s :: serial_dev
    using that by (simp add: artik_serial_request_def serial_node_check)
next
  fix c h r and s s' :: serial_dev
  assume "artik_serial_request c s = ((r, h), s')" "se_port_num c \<notin> se_port_num ` snd ` set (nodes s)"
  from artik_serial_request_facts [OF this]
  show "if r = S_OK
    then h \<noteq> 0 \<and> h \<notin> fst ` set (nodes s) \<and> (\<exists>c'. se_port_num c' = se_port_num c \<and> nodes s' = nodes s @ [(h, c')])
    else nodes s' = nodes s"
    by (auto split: if_splits)
next
  show "artik_serial_release h s = (E_BAD_ARGS, s)" if "node_get h s = None" for h and s :: serial_dev
    using that by (simp add: artik_serial_release_def)
next
  fix c h r and s s' :: serial_dev
  assume "artik_serial_release h s = (r, s')" "node_get h s = Some c"
  then show "nodes s' = (if r = S_OK then filter (\<lambda>(b, c). b \<noteq> h) (nodes s) else nodes s)"
    by (auto simp: artik_serial_release_def os_serial_release_def Let_def
        split: option.splits prod.splits if_splits dest!: on_wldD)
qed (use serial_other_same in \<open>simp add: same_fds_def\<close>)

abbreviation serial_step :: "(artik_serial_config, serial_call) reg_op \<Rightarrow> serial_dev \<Rightarrow> serial_dev" where
  "serial_step \<equiv> reg_step artik_serial_request artik_serial_release serial_other"

section \<open>Who owns the open descriptors\<close>

definition fd_of :: "serial_dev \<Rightarrow> artik_serial_config \<Rightarrow> int option" where
  "fd_of s c = map_option sd_fd (data s (se_data_user c))"

text \<open>How many requested ports use descriptor \<open>x\<close>.\<close>

definition fd_users :: "serial_dev \<Rightarrow> int \<Rightarrow> int" where
  "fd_users s x = (\<Sum>(h, c) \<leftarrow> nodes s. if fd_of s c = Some x then 1 else 0)"

text \<open>
  Relative to the descriptors \<open>f0\<close> that were open before: every port owns its block and its valid
  descriptor, and nothing else has been left open.
\<close>

definition serial_inv :: "(int \<Rightarrow> int) \<Rightarrow> serial_dev \<Rightarrow> bool" where
  "serial_inv f0 s \<longleftrightarrow> owns_data se_data_user s \<and> (\<forall>a d. data s a = Some d \<longrightarrow> 0 \<le> sd_fd d) \<and>
     (\<forall>x. fds (wld s) x = f0 x + fd_users s x)"

lemma fd_users_cong:
  "nodes s' = nodes s \<Longrightarrow> (\<And>h c. (h, c) \<in> set (nodes s) \<Longrightarrow> fd_of s' c = fd_of s c) \<Longrightarrow> fd_users s' x = fd_users s x"
  unfolding fd_users_def by (intro arg_cong [of _ _ sum_list] map_cong) auto

lemma serial_inv_same: "same_fds s s' \<Longrightarrow> serial_inv f0 s \<Longrightarrow> serial_inv f0 s'"
proof -
  assume s: "same_fds s s'" and i: "serial_inv f0 s"
  have e: "\<And>a. map_option sd_fd (data s' a) = map_option sd_fd (data s a)" using s by (simp add: same_fds_def)
  have "fd_users s' x = fd_users s x" for x
    using s e by (intro fd_users_cong) (auto simp: same_fds_def fd_of_def)
  moreover have "0 \<le> sd_fd d" if "data s' a = Some d" for a d
    using i e [of a] that by (cases "data s a") (auto simp: serial_inv_def)
  ultimately show ?thesis
    using s i same_fds_owns [OF s] by (simp add: serial_inv_def same_fds_def)
qed

lemma serial_inv_add:
  assumes "serial_inv f0 s" and "a \<noteq> 0" "a \<notin> dom (data s)" and "0 \<le> sd_fd d" and "h \<notin> fst ` set (nodes s)"
    and "nodes s' = nodes s @ [(h, c\<lparr>se_data_user := a\<rparr>)]" and "data s' = (data s)(a \<mapsto> d)"
    and "\<forall>x. fds (wld s') x = fds (wld s) x + (if x = sd_fd d then 1 else 0)"
  shows "serial_inv f0 s'"
proof -
  have own: "owns_data se_data_user s" using assms(1) by (simp add: serial_inv_def)
  have "owns_data se_data_user s'"
    using assms(2,3,5-7) by (intro owns_data_add [OF own, of s' h "c\<lparr>se_data_user := a\<rparr>" d]) simp_all
  moreover have old: "fd_of s' c' = fd_of s c'" if "(h', c') \<in> set (nodes s)" for h' c'
  proof -
    have "se_data_user c' \<in> dom (data s)" using own that by (force simp: owns_data_def)
    with assms(3,7) show ?thesis by (auto simp: fd_of_def)
  qed
  have "fd_users s' x = fd_users s x + (if sd_fd d = x then 1 else 0)" for x
  proof -
    have "(\<Sum>(h, c) \<leftarrow> nodes s. if fd_of s' c = Some x then 1 else 0) =
        (\<Sum>(h, c) \<leftarrow> nodes s. if fd_of s c = Some x then 1 else (0 :: int))"
      using old by (intro arg_cong [of _ _ sum_list] map_cong) auto
    with assms(6,7) show ?thesis by (simp add: fd_users_def fd_of_def)
  qed
  ultimately show ?thesis using assms(1,4,7,8) by (auto simp: serial_inv_def)
qed

lemma sum_list_remove:
  "distinct (map fst l) \<Longrightarrow> (a, c) \<in> set l \<Longrightarrow>
    (\<Sum>y\<leftarrow>l. f y) = f (a, c) + (\<Sum>y\<leftarrow>filter (\<lambda>(b, c). b \<noteq> a) l. f y)" for f :: "'a \<times> 'b \<Rightarrow> int"
proof (induction l)
  case (Cons y l)
  show ?case
  proof (cases "fst y = a")
    case True
    with Cons.prems have "y = (a, c)" "a \<notin> fst ` set l" by (auto simp: rev_image_eqI)
    then show ?thesis by simp
  next
    case False
    with Cons show ?thesis by (cases y) auto
  qed
qed simp

lemma serial_inv_del:
  assumes "serial_inv f0 s" and "node_get h s = Some c" and "data s (se_data_user c) = Some d"
    and "nodes s' = filter (\<lambda>(b, c). b \<noteq> h) (nodes s)" and "data s' = (data s)(se_data_user c := None)"
    and "\<forall>x. fds (wld s') x = fds (wld s) x - (if 0 \<le> sd_fd d \<and> x = sd_fd d then 1 else 0)"
  shows "serial_inv f0 s'"
proof -
  have own: "owns_data se_data_user s" and fd: "0 \<le> sd_fd d" using assms(1,3) by (auto simp: serial_inv_def)
  have hc: "(h, c) \<in> set (nodes s)" using node_get_Some [OF assms(2)] by simp
  have "owns_data se_data_user s'" by (rule owns_data_del [OF own hc assms(4,5)])
  moreover have rest: "fd_of s' c' = fd_of s c'" if "(h', c') \<in> set (nodes s)" "h' \<noteq> h" for h' c'
  proof -
    have "inj_on (se_data_user \<circ> snd) (set (nodes s))"
      using own by (simp add: owns_data_def distinct_map)
    from inj_onD [OF this, of "(h', c')" "(h, c)"] that hc have "se_data_user c' \<noteq> se_data_user c" by auto
    then show ?thesis by (simp add: fd_of_def assms(5))
  qed
  have "fd_users s x = (if sd_fd d = x then 1 else 0) + fd_users s' x" for x
  proof -
    have "fd_users s x = (if fd_of s c = Some x then 1 else 0) +
        (\<Sum>(h, c) \<leftarrow> nodes s'. if fd_of s c = Some x then 1 else 0)"
      using sum_list_remove [OF _ hc, of "\<lambda>(h, c). if fd_of s c = Some x then 1 else 0"] own assms(4)
      by (simp add: fd_users_def owns_data_def)
    also have "(\<Sum>(h, c) \<leftarrow> nodes s'. if fd_of s c = Some x then 1 else 0) = fd_users s' x"
      unfolding fd_users_def using rest assms(4) by (intro arg_cong [of _ _ sum_list] map_cong) auto
    finally show ?thesis using assms(3) by (simp add: fd_of_def)
  qed
  ultimately show ?thesis using assms(1,5,6) fd by (auto simp: serial_inv_def split: if_splits)
qed

lemma serial_step_inv:
  assumes "serial_inv f0 s"
  shows "serial_inv f0 (serial_step x s)"
proof (cases x)
  case (Req c)
  obtain r h s' where q: "artik_serial_request c s = ((r, h), s')" by (metis prod.exhaust)
  show ?thesis
  proof (cases "se_port_num c \<in> se_port_num ` snd ` set (nodes s)")
    case True
    with assms serial_reg.request_busy [OF True] Req show ?thesis by simp
  next
    case False
    note f = artik_serial_request_facts [OF q False]
    show ?thesis
    proof (cases "r = S_OK")
      case True
      with f obtain a d where "a \<noteq> 0" "a \<notin> dom (data s)" "0 \<le> sd_fd d" "h \<notin> fst ` set (nodes s)"
        "nodes s' = nodes s @ [(h, c\<lparr>se_data_user := a\<rparr>)]" "data s' = (data s)(a \<mapsto> d)"
        "\<forall>x. fds (wld s') x = fds (wld s) x + (if x = sd_fd d then 1 else 0)" by auto
      from serial_inv_add [OF assms this] q Req show ?thesis by simp
    next
      case False
      with f have "same_fds s s'" by (simp add: same_fds_def)
      from serial_inv_same [OF this assms] q Req show ?thesis by simp
    qed
  qed
next
  case (Rel h)
  show ?thesis
  proof (cases "node_get h s")
    case None
    with assms Rel serial_reg.release_bad [OF None] show ?thesis by simp
  next
    case (Some c)
    obtain r s' where q: "artik_serial_release h s = (r, s')" by force
    have "owns_data se_data_user s" using assms by (simp add: serial_inv_def)
    from artik_serial_release_facts [OF q Some this] obtain d where
      "data s (se_data_user c) = Some d" "nodes s' = filter (\<lambda>(b, c). b \<noteq> h) (nodes s)"
      "data s' = (data s)(se_data_user c := None)"
      "\<forall>x. fds (wld s') x = fds (wld s) x - (if 0 \<le> sd_fd d \<and> x = sd_fd d then 1 else 0)" by blast
    from serial_inv_del [OF assms Some this] q Rel show ?thesis by simp
  qed
next
  case (Other y)
  with serial_inv_same [OF serial_other_same assms] show ?thesis by simp
qed

interpretation serial_fds: invariant_steps serial_step "serial_inv f0"
  by unfold_locales (rule serial_step_inv)

section \<open>The control flags\<close>

definition flow_bits :: "artik_serial_config \<Rightarrow> u32" where
  "flow_bits c =
     (case se_flowctrl c of FLOWCTRL_NONE \<Rightarrow> 0 | FLOWCTRL_HARD \<Rightarrow> CRTSCTS
        | FLOWCTRL_SOFT \<Rightarrow> IXON OR IXOFF OR IXANY)"

definition parity_bits :: "artik_serial_config \<Rightarrow> u32" where
  "parity_bits c = (case se_parity c of PARITY_NONE \<Rightarrow> 0 | PARITY_ODD \<Rightarrow> PARENB OR PARODD | PARITY_EVEN \<Rightarrow> PARENB)"

definition stop_bits :: "artik_serial_config \<Rightarrow> u32" where
  "stop_bits c = (case se_stop_bits c of STOP_1BIT \<Rightarrow> 0 | STOP_2BIT \<Rightarrow> CSTOPB)"

definition size_bits :: "artik_serial_config \<Rightarrow> u32" where
  "size_bits c = (case se_data_bits c of DATA_5BIT \<Rightarrow> CS5 | DATA_6BIT \<Rightarrow> CS6 | DATA_7BIT \<Rightarrow> CS7 | DATA_8BIT \<Rightarrow> CS8)"

definition speed_bits :: "artik_serial_config \<Rightarrow> u32" where
  "speed_bits c = (if se_baudrate c = BAUD_14400 then 0 else baudrate_value (se_baudrate c))"

lemmas flag_defs = CBAUD_def CS5_def CS6_def CS7_def CS8_def CSTOPB_def CREAD_def PARENB_def PARODD_def
  HUPCL_def CLOCAL_def CRTSCTS_def IXON_def IXANY_def IXOFF_def B57600_def B4000000_def

lemma cfsetspeed_table:
  "c_cflag (cfsetspeed (baudrate_value (se_baudrate c)) (cfsetspeed (baudrate_value (se_baudrate c)) 
      \<lparr>c_iflag = 0, c_cflag = CREAD OR CLOCAL, c_vmin = 1, c_vtime = 5\<rparr>)) = (CREAD OR CLOCAL) OR speed_bits c"
  by (cases "se_baudrate c"; simp add: cfsetspeed_def speed_bits_def flag_defs)

lemma c_flags_or_cflag [simp]:
  "c_cflag (or_cflag m t) = c_cflag t OR m" "c_iflag (or_cflag m t) = c_iflag t"
  by (simp_all add: or_cflag_def)

lemma c_iflag_cfsetspeed [simp]: "c_iflag (cfsetspeed v t) = c_iflag t"
  by (simp add: cfsetspeed_def)

lemma serial_cflag:
  "c_cflag (serial_termios c) =
     (CREAD OR CLOCAL) OR speed_bits c OR flow_bits c OR parity_bits c OR stop_bits c OR size_bits c"
proof -
  have t0: "(or_cflag (CREAD OR CLOCAL) \<lparr>c_iflag = 0, c_cflag = 0, c_vmin = 0, c_vtime = 0\<rparr>)\<lparr>c_vmin := 1, c_vtime := 5\<rparr> =
      \<lparr>c_iflag = 0, c_cflag = CREAD OR CLOCAL, c_vmin = 1, c_vtime = 5\<rparr>"
    by (simp add: or_cflag_def)
  show ?thesis
    unfolding serial_termios_def Let_def t0
    by (cases "se_flowctrl c"; cases "se_parity c"; cases "se_stop_bits c"; cases "se_data_bits c";
        simp add: cfsetspeed_table flow_bits_def parity_bits_def stop_bits_def size_bits_def CS5_def or.assoc)
qed

lemma serial_iflag: "c_iflag (serial_termios c) = 0"
  unfolding serial_termios_def Let_def
  by (cases "se_flowctrl c"; cases "se_parity c"; cases "se_stop_bits c"; cases "se_data_bits c";
      simp add: or_cflag_def cfsetspeed_def)

lemma speed_masks:
  "speed_bits c AND CBAUD = speed_bits c" "speed_bits c AND CS8 = 0" "speed_bits c AND CSTOPB = 0"
  "speed_bits c AND (PARENB OR PARODD) = 0" "speed_bits c AND CRTSCTS = 0"
  by (cases "se_baudrate c"; simp add: speed_bits_def flag_defs)+

lemma flow_masks:
  "flow_bits c AND CBAUD = (if se_flowctrl c = FLOWCTRL_SOFT then 0x1000 else 0)"
  "flow_bits c AND CS8 = 0" "flow_bits c AND CSTOPB = 0" "flow_bits c AND (PARENB OR PARODD) = 0"
  "flow_bits c AND CRTSCTS = (if se_flowctrl c = FLOWCTRL_HARD then CRTSCTS else 0)"
  by (cases "se_flowctrl c"; simp add: flow_bits_def flag_defs)+

lemma parity_masks:
  "parity_bits c AND CBAUD = 0" "parity_bits c AND CS8 = 0" "parity_bits c AND CSTOPB = 0"
  "parity_bits c AND (PARENB OR PARODD) = parity_bits c" "parity_bits c AND CRTSCTS = 0"
  by (cases "se_parity c"; simp add: parity_bits_def flag_defs)+

lemma stop_masks:
  "stop_bits c AND CBAUD = 0" "stop_bits c AND CS8 = 0" "stop_bits c AND CSTOPB = stop_bits c"
  "stop_bits c AND (PARENB OR PARODD) = 0" "stop_bits c AND CRTSCTS = 0"
  by (cases "se_stop_bits c"; simp add: stop_bits_def flag_defs)+

lemma size_masks:
  "size_bits c AND CBAUD = 0" "size_bits c AND CS8 = size_bits c" "size_bits c AND CSTOPB = 0"
  "size_bits c AND (PARENB OR PARODD) = 0" "size_bits c AND CRTSCTS = 0"
  by (cases "se_data_bits c"; simp add: size_bits_def flag_defs)+

lemma base_masks:
  "CREAD AND CBAUD = 0" "CREAD AND CS8 = 0" "CREAD AND CSTOPB = 0" "CREAD AND (PARENB OR PARODD) = 0"
  "CREAD AND CRTSCTS = 0"
  "CLOCAL AND CBAUD = 0" "CLOCAL AND CS8 = 0" "CLOCAL AND CSTOPB = 0" "CLOCAL AND (PARENB OR PARODD) = 0"
  "CLOCAL AND CRTSCTS = 0"
  by (simp_all add: flag_defs)

lemmas all_masks = speed_masks flow_masks parity_masks stop_masks size_masks base_masks

section \<open>Properties\<close>

text \<open>
  C21. The serial registry over every history of requests, releases, transfers and callbacks (the
  removal of a callback apart): no port is held twice, every node owns one block with a valid
  descriptor, and the descriptors left open are exactly those of the requested ports; so nothing
  leaks on any of the error paths of the request.
\<close>

theorem artik_serial_run_invariant:
  "reg_inv se_port_num (fold serial_step xs (init_dev w)) \<and>
   serial_inv (fds w) (fold serial_step xs (init_dev w))"
proof -
  have "serial_inv (fds w) (init_dev w)" by (simp add: serial_inv_def fd_users_def)
  then show ?thesis
    using serial_reg.run_inv [OF reg_inv_init, of xs w] serial_fds.run_inv by blast
qed

text \<open>
  The frame format that the request hands to \<^verbatim>\<open>tcsetattr\<close>: character size, stop bits, parity and
  hardware flow control are the configured ones, for every combination of the settings.
\<close>

theorem serial_termios_frame:
  "c_cflag (serial_termios c) AND CS8 =
     (case se_data_bits c of DATA_5BIT \<Rightarrow> CS5 | DATA_6BIT \<Rightarrow> CS6 | DATA_7BIT \<Rightarrow> CS7 | DATA_8BIT \<Rightarrow> CS8) \<and>
   c_cflag (serial_termios c) AND CSTOPB = (if se_stop_bits c = STOP_2BIT then CSTOPB else 0) \<and>
   c_cflag (serial_termios c) AND (PARENB OR PARODD) =
     (case se_parity c of PARITY_NONE \<Rightarrow> 0 | PARITY_ODD \<Rightarrow> PARENB OR PARODD | PARITY_EVEN \<Rightarrow> PARENB) \<and>
   c_cflag (serial_termios c) AND CRTSCTS = (if se_flowctrl c = FLOWCTRL_HARD then CRTSCTS else 0)"
  unfolding serial_cflag bit.conj_disj_distrib2 all_masks
  by (simp add: size_bits_def stop_bits_def parity_bits_def split: artik_serial_stop_bits_t.split)

text \<open>
  The speed that the request programs is the configured one except for 14400 baud, whose
  table entry is no speed code, so that the code for "hang up" stays, and for software flow control below
  57600 baud: \<^verbatim>\<open>IXOFF\<close> is set in \<^verbatim>\<open>c_cflag\<close>, where that bit selects the high speeds.  Software flow
  control itself is never enabled in \<^verbatim>\<open>c_iflag\<close>.
\<close>

theorem serial_termios_speed:
  "c_iflag (serial_termios c) = 0 \<and>
   (c_cflag (serial_termios c) AND CBAUD = baudrate_value (se_baudrate c) \<longleftrightarrow>
     se_baudrate c \<noteq> BAUD_14400 \<and>
     \<not> (se_flowctrl c = FLOWCTRL_SOFT \<and> baudrate_value (se_baudrate c) < B57600))"
proof -
  have "c_cflag (serial_termios c) AND CBAUD =
      speed_bits c OR (if se_flowctrl c = FLOWCTRL_SOFT then 0x1000 else 0)"
    unfolding serial_cflag bit.conj_disj_distrib2 all_masks by simp
  then show ?thesis
    by (cases "se_baudrate c"; cases "se_flowctrl c = FLOWCTRL_SOFT"; simp add: serial_iflag speed_bits_def B57600_def)
qed

text \<open>
  Removing the callback wipes the port's block, descriptor included: the handle then stands for
  descriptor 0.  A release of the handle closes descriptor 0, and the port's own descriptor stays
  open for ever.
\<close>

theorem artik_serial_unset_loses_fd:
  assumes "owns_data se_data_user s" and "node_get h s = Some c" and "data s (se_data_user c) = Some d"
    and "0 < sd_fd d" and "artik_serial_unset_received_callback h s = Some (r, s1)"
    and "artik_serial_release h s1 = (r2, s2)"
  shows "fds (wld s2) (sd_fd d) = fds (wld s) (sd_fd d) \<and> fds (wld s2) 0 = fds (wld s) 0 - 1"
proof -
  have u: "os_serial_unset_received_callback c s = Some (r, s1)"
    using assms(2,5) by (simp add: artik_serial_unset_received_callback_def)
  have s1: "nodes s1 = nodes s" "data s1 = (data s)(se_data_user c \<mapsto> zero_serial_data)" "fds (wld s1) = fds (wld s)"
    using u assms(3,4)
    by (auto simp: os_serial_unset_received_callback_def Let_def fds_D
        split: prod.splits if_splits option.splits dest!: on_wldD)
  have "owns_data se_data_user s1"
    using assms(1) s1 owns_data_cong [of s1 s se_data_user] assms(3) by (auto simp: insert_absorb)
  moreover have "node_get h s1 = Some c" using assms(2) s1(1) by (simp add: node_get_def split: if_splits)
  ultimately show ?thesis
    using artik_serial_release_facts [OF assms(6)] s1(2,3) assms(4) by (auto simp: zero_serial_data_def)
qed

section \<open>Witnesses\<close>

definition serial_world :: world where
  "serial_world = \<lparr>result = (\<lambda>n. if n = 1 then 3 else if n = 4 \<or> n = 5 then 0 else int n + 5),
     rdata = (\<lambda>_. ''''), out_int = (\<lambda>_. 0), module_addr = (\<lambda>_. 40), errno = 0, trace = []\<rparr>"

definition serial_port :: artik_serial_config where
  "serial_port = \<lparr>se_port_num = 4, se_name = 0, se_baudrate = BAUD_115200, se_parity = PARITY_NONE,
     se_data_bits = DATA_8BIT, se_stop_bits = STOP_1BIT, se_flowctrl = FLOWCTRL_NONE, se_data_user = 0\<rparr>"

definition serial_s1 :: serial_dev where
  "serial_s1 = snd (artik_serial_request serial_port (init_dev serial_world))"

lemma artik_serial_unset_loses_fd_witness:
  "\<exists>r s1 s2. artik_serial_unset_received_callback 5 serial_s1 = Some (r, s1) \<and>
     artik_serial_release 5 s1 = (S_OK, s2) \<and> fds (wld s2) 8 = 1 \<and> fds (wld s2) 0 = -1"
proof -
  obtain r s1 where u: "artik_serial_unset_received_callback 5 serial_s1 = Some (r, s1)"
  proof -
    have "\<not> Option.is_none (artik_serial_unset_received_callback 5 serial_s1)" by code_simp
    then show ?thesis using that by (auto simp: Option.is_none_def)
  qed
  obtain r2 s2 where rel: "artik_serial_release 5 s1 = (r2, s2)" by force
  have own: "owns_data se_data_user serial_s1"
    using serial_fds.run_inv [of "\<lambda>_. 0" "init_dev serial_world" "[Req serial_port]"]
    by (simp add: serial_inv_def fd_users_def serial_s1_def serial_world_def fds_def)
  have "node_get 5 serial_s1 = Some (serial_port\<lparr>se_data_user := 7\<rparr>)" by code_simp
  moreover have "map_option sd_fd (data serial_s1 7) = Some 8" by code_simp
  then obtain d where "data serial_s1 7 = Some d" "sd_fd d = 8" by auto
  ultimately have "fds (wld s2) 8 = fds (wld serial_s1) 8 \<and> fds (wld s2) 0 = fds (wld serial_s1) 0 - 1"
    using artik_serial_unset_loses_fd [OF own _ _ _ u rel, of "serial_port\<lparr>se_data_user := 7\<rparr>" d] by simp
  moreover have "fds (wld serial_s1) 8 = 1" "fds (wld serial_s1) 0 = 0" by code_simp+
  moreover have "r2 = S_OK"
  proof -
    have "fst (artik_serial_release 5 (snd (the (artik_serial_unset_received_callback 5 serial_s1)))) = S_OK" by code_simp
    with u rel show ?thesis by simp
  qed
  ultimately show ?thesis using u rel by auto
qed

end
