(* ===== verification/Adc.thy ===== *)
theory Adc
  imports Registry
begin

text \<open>
  The ADC module: \<^verbatim>\<open>adc/artik_adc.c\<close> over \<^verbatim>\<open>adc/linux_adc.c\<close> (IIO sysfs).  A value is read as text and
  converted with \<^verbatim>\<open>strtoul\<close> in base 0, which is modelled here.
\<close>

section \<open>strtoul with base 0\<close>

definition ULONG_MAX :: nat where "ULONG_MAX = 2 ^ 64 - 1"

definition char_digit :: "nat \<Rightarrow> char \<Rightarrow> nat option" where
  "char_digit base ch =
     (let k = of_char ch :: nat;
          v = (if 48 \<le> k \<and> k \<le> 57 then k - 48
               else if 97 \<le> k \<and> k \<le> 122 then k - 87
               else if 65 \<le> k \<and> k \<le> 90 then k - 55 else 99)
      in if v < base then Some v else None)"

text \<open>The digits at the front, as a number, and whether there was one.\<close>

fun read_digits :: "nat \<Rightarrow> nat \<Rightarrow> bool \<Rightarrow> string \<Rightarrow> nat \<times> bool" where
  "read_digits base acc any [] = (acc, any)"
| "read_digits base acc any (ch # s) =
     (case char_digit base ch of None \<Rightarrow> (acc, any) | Some v \<Rightarrow> read_digits base (acc * base + v) True s)"

fun skip_space :: "string \<Rightarrow> string" where
  "skip_space [] = []"
| "skip_space (ch # s) = (if of_char ch \<in> {32, 9, 10, 11, 12, 13 :: nat} then skip_space s else ch # s)"

definition read_base0 :: "string \<Rightarrow> nat \<times> bool" where
  "read_base0 s =
     (case s of
        z # x # d # rest \<Rightarrow>
          if z = CHR ''0'' \<and> (x = CHR ''x'' \<or> x = CHR ''X'') \<and> char_digit 16 d \<noteq> None
          then read_digits 16 0 False (d # rest)
          else if z = CHR ''0'' then read_digits 8 0 False s else read_digits 10 0 False s
      | z # rest \<Rightarrow> if z = CHR ''0'' then read_digits 8 0 False s else read_digits 10 0 False s
      | [] \<Rightarrow> (0, False))"

text \<open>The result and whether anything was converted (\<^verbatim>\<open>endptr != str\<close>).\<close>

definition strtoul :: "string \<Rightarrow> nat \<times> bool" where
  "strtoul str =
     (let s = skip_space str;
          neg = (s \<noteq> [] \<and> hd s = CHR ''-'');
          s = (if s \<noteq> [] \<and> (hd s = CHR ''-'' \<or> hd s = CHR ''+'') then tl s else s);
          (n, any) = read_base0 s
      in (if ULONG_MAX < n then ULONG_MAX
          else if neg then nat ((- int n) mod 2 ^ 64) else n, any))"

section \<open>Data\<close>

record artik_adc_config =
  a_pin_num :: int
  a_name :: addr
  a_user_data :: addr

record artik_adc_user_data =
  ad_fd :: int
  ad_path :: string

type_synonym adc_dev = "(artik_adc_config, artik_adc_user_data) dev"

definition zero_adc_config :: artik_adc_config where
  "zero_adc_config = \<lparr>a_pin_num = 0, a_name = 0, a_user_data = 0\<rparr>"

section \<open>The OS layer\<close>

definition MAX_SIZE :: nat where "MAX_SIZE = 128"

definition adc_path :: "int \<Rightarrow> string" where
  "adc_path pin = snprintf MAX_SIZE (''/sys/bus/iio/devices/iio:device0/in_voltage'' @ dec_int pin @ ''_raw'')"

definition set_adata :: "addr \<Rightarrow> artik_adc_user_data \<Rightarrow> adc_dev \<Rightarrow> adc_dev" where
  "set_adata a d s = s\<lparr>data := (data s)(a \<mapsto> d)\<rparr>"

text \<open>\<^term>\<open>None\<close> is an access through a NULL or freed \<^verbatim>\<open>user_data\<close>.\<close>

definition os_adc_open :: "artik_adc_config \<Rightarrow> adc_dev \<Rightarrow> (artik_error \<times> adc_dev) option" where
  "os_adc_open c s =
     (case data s (a_user_data c) of
        None \<Rightarrow> None
      | Some d \<Rightarrow>
          let (fd, s) = on_wld (sys (Open (ad_path d) [O_SYNC, O_RDONLY])) s
          in Some (if fd \<le> 0 then E_BUSY else S_OK, set_adata (a_user_data c) (d\<lparr>ad_fd := fd\<rparr>) s))"

text \<open>The result is the error and, on success, the value.  The buffer holds what \<^verbatim>\<open>read\<close> stored.\<close>

definition os_adc_get_value :: "artik_adc_config \<Rightarrow> adc_dev \<Rightarrow> ((artik_error \<times> int) \<times> adc_dev) option" where
  "os_adc_get_value c s =
     (case os_adc_open c s of
        None \<Rightarrow> None
      | Some (e, s) \<Rightarrow>
          if e \<noteq> S_OK then Some ((E_BAD_ARGS, -1), s)
          else
            let fd = ad_fd (the (data s (a_user_data c)));
                ((k, buf), s) = on_wld (sys_read fd (int MAX_SIZE)) s
            in if k = -1 then Some ((E_BUSY, -1), s)
               else
                 let (_, s) = on_wld (sys (Close fd)) s; (n, any) = strtoul buf
                 in if \<not> any \<or> n = ULONG_MAX then Some ((E_BUSY, -1), s)
                    else Some ((S_OK, sint (of_nat n :: u32)), s))"

definition os_adc_request ::
  "artik_adc_config \<Rightarrow> adc_dev \<Rightarrow> (artik_error \<times> artik_adc_config) \<times> adc_dev" where
  "os_adc_request c s =
     (let (a, s) = malloc_data \<lparr>ad_fd = 0, ad_path = adc_path (a_pin_num c)\<rparr> 16 s
      in if a = 0 then ((E_NO_MEM, c), s)
         else
           let (p, s) = malloc (MAX_SIZE + 1) s
           in if p = 0 then ((E_NO_MEM, c), free_data a s)
              else
                let c = c\<lparr>a_user_data := a\<rparr>
                in case os_adc_get_value c s of
                     None \<Rightarrow> ((E_BAD_ARGS, c), s)
                   | Some ((e, v), s) \<Rightarrow> ((e, c), s))"

definition os_adc_release :: "artik_adc_config \<Rightarrow> adc_dev \<Rightarrow> artik_error \<times> adc_dev" where
  "os_adc_release c s =
     (if a_user_data c \<noteq> 0 then (S_OK, free_data (a_user_data c) s) else (S_OK, s))"

section \<open>The module\<close>

definition adc_check_exist :: "int \<Rightarrow> artik_adc_config \<Rightarrow> bool" where
  "adc_check_exist val_pin c \<longleftrightarrow> a_pin_num c = val_pin"

definition artik_adc_request :: "artik_adc_config \<Rightarrow> adc_dev \<Rightarrow> (artik_error \<times> addr) \<times> adc_dev" where
  "artik_adc_request c s =
     (if node_check (adc_check_exist (a_pin_num c)) s then ((E_BUSY, 0), s)
      else
        let ((res, c), s) = os_adc_request c s
        in if res \<noteq> S_OK then ((res, 0), s)
           else
             let (node, s) = node_add zero_adc_config 72 s
             in if node = 0 then ((E_NO_MEM, 0), s)
                else ((S_OK, node), node_set node c s))"

definition artik_adc_release :: "addr \<Rightarrow> adc_dev \<Rightarrow> artik_error \<times> adc_dev" where
  "artik_adc_release h s =
     (case node_get h s of
        None \<Rightarrow> (E_BAD_ARGS, s)
      | Some c \<Rightarrow> let (ret, s) = os_adc_release c s in (ret, if ret = S_OK then node_del h s else s))"

definition artik_adc_get_value :: "addr \<Rightarrow> adc_dev \<Rightarrow> ((artik_error \<times> int) \<times> adc_dev) option" where
  "artik_adc_get_value h s =
     (case node_get h s of None \<Rightarrow> Some ((E_BAD_ARGS, -1), s) | Some c \<Rightarrow> os_adc_get_value c s)"

section \<open>What the operations do to the state\<close>

lemma set_adata_simps [simp]:
  "nodes (set_adata a d s) = nodes s" "data (set_adata a d s) = (data s)(a \<mapsto> d)" "wld (set_adata a d s) = wld s"
  by (simp_all add: set_adata_def)

lemma os_adc_open_facts:
  assumes "os_adc_open c s = Some (e, s')"
  shows "\<exists>d fd. data s (a_user_data c) = Some d \<and> nodes s' = nodes s \<and>
    data s' = (data s)(a_user_data c \<mapsto> d\<lparr>ad_fd := fd\<rparr>) \<and> (e = S_OK \<longleftrightarrow> 0 < fd) \<and>
    (\<forall>x. fds (wld s') x = fds (wld s) x + (if 0 \<le> fd \<and> x = fd then 1 else 0))"
  using assms
  by (auto simp: os_adc_open_def Let_def fds_Open split: option.splits prod.splits if_splits dest!: on_wldD)

text \<open>Reading a value: the descriptor is closed again, unless the read itself fails.\<close>

lemma os_adc_get_value_facts:
  assumes "os_adc_get_value c s = Some ((e, v), s')"
  shows "nodes s' = nodes s \<and> dom (data s') = dom (data s) \<and> (e = S_OK \<longrightarrow> fds (wld s') = fds (wld s))"
proof -
  obtain e1 s1 where o: "os_adc_open c s = Some (e1, s1)"
    using assms by (auto simp: os_adc_get_value_def split: option.splits)
  from os_adc_open_facts [OF o] obtain d fd where f: "data s (a_user_data c) = Some d" "nodes s1 = nodes s"
    "data s1 = (data s)(a_user_data c \<mapsto> d\<lparr>ad_fd := fd\<rparr>)" "e1 = S_OK \<longleftrightarrow> 0 < fd"
    "\<forall>x. fds (wld s1) x = fds (wld s) x + (if 0 \<le> fd \<and> x = fd then 1 else 0)" by blast
  have dom1: "dom (data s1) = dom (data s)" using f(1,3) by auto
  have fd1: "ad_fd (the (data s1 (a_user_data c))) = fd" using f(3) by simp
  have "nodes s' = nodes s1 \<and> data s' = data s1"
    using assms o
    by (auto simp: os_adc_get_value_def Let_def split: prod.splits if_splits dest!: on_wldD)
  moreover have "fds (wld s') x = fds (wld s) x" if "e = S_OK" for x
  proof -
    from assms o that obtain k buf s2 r where r: "e1 = S_OK"
      "on_wld (sys_read fd (int MAX_SIZE)) s1 = ((k, buf), s2)" "on_wld (sys (Close fd)) s2 = (r, s')"
      unfolding fd1 [symmetric]
      by (auto simp: os_adc_get_value_def Let_def split: prod.splits if_splits)
    then have "fds (wld s2) = fds (wld s1)" "fds (wld s') x = fds (wld s2) x - (if fd = x then 1 else 0)"
      by (auto simp: fds_D dest!: on_wldD)
    with f(4,5) r(1) show ?thesis by auto
  qed
  ultimately show ?thesis using dom1 f(2) by auto
qed

lemma os_adc_request_nodes: "os_adc_request c s = ((r, c'), s') \<Longrightarrow> nodes s' = nodes s \<and> a_pin_num c' = a_pin_num c"
  by (auto simp: os_adc_request_def Let_def split: prod.splits if_splits option.splits
      dest!: malloc_data_facts malloc_facts os_adc_get_value_facts)

lemma adc_node_check: "node_check (adc_check_exist b) s \<longleftrightarrow> b \<in> a_pin_num ` snd ` set (nodes s)"
  by (rule node_check_key) (simp add: adc_check_exist_def)

section \<open>The registry of pins\<close>

fun adc_other :: "addr \<Rightarrow> adc_dev \<Rightarrow> adc_dev" where
  "adc_other h s = (case artik_adc_get_value h s of None \<Rightarrow> s | Some (r, s') \<Rightarrow> s')"

interpretation adc_reg: device_registry artik_adc_request artik_adc_release adc_other a_pin_num
proof
  show "artik_adc_request c s = ((E_BUSY, 0), s)" if "a_pin_num c \<in> a_pin_num ` snd ` set (nodes s)"
    for c and s :: adc_dev
    using that by (simp add: artik_adc_request_def adc_node_check)
next
  fix c h r and s s' :: adc_dev
  assume q: "artik_adc_request c s = ((r, h), s')" "a_pin_num c \<notin> a_pin_num ` snd ` set (nodes s)"
  obtain ret c1 s1 where o: "os_adc_request c s = ((ret, c1), s1)" by (metis prod.exhaust)
  obtain node s2 where n: "node_add zero_adc_config 72 s1 = (node, s2)" by force
  from q o n have "((r, h), s') = (if ret \<noteq> S_OK then ((ret, 0), s1)
      else if node = 0 then ((E_NO_MEM, 0), s2) else ((S_OK, node), node_set node c1 s2))"
    by (cases "ret = S_OK"; cases "node = 0"; simp add: artik_adc_request_def adc_node_check)
  with os_adc_request_nodes [OF o] node_add_facts [OF n]
  show "if r = S_OK
    then h \<noteq> 0 \<and> h \<notin> fst ` set (nodes s) \<and> (\<exists>c'. a_pin_num c' = a_pin_num c \<and> nodes s' = nodes s @ [(h, c')])
    else nodes s' = nodes s"
    by (auto simp: live_def live_of_def split: if_splits)
next
  show "artik_adc_release h s = (E_BAD_ARGS, s)" if "node_get h s = None" for h and s :: adc_dev
    using that by (simp add: artik_adc_release_def)
next
  fix c h r and s s' :: adc_dev
  assume "artik_adc_release h s = (r, s')" "node_get h s = Some c"
  then show "nodes s' = (if r = S_OK then filter (\<lambda>(b, c). b \<noteq> h) (nodes s) else nodes s)"
    by (auto simp: artik_adc_release_def os_adc_release_def split: if_splits)
next
  show "nodes (adc_other h s) = nodes s" for h and s :: adc_dev
    by (auto simp: artik_adc_get_value_def split: option.splits dest: os_adc_get_value_facts)
qed

section \<open>The text of a value\<close>

lemma char_digit_digit: "d < 10 \<Longrightarrow> char_digit 10 (digit d) = Some d"
  by (simp add: char_digit_def of_char_digit)

lemma read_digits_append:
  "(\<And>ch. ch \<in> set s \<Longrightarrow> \<exists>v. char_digit base ch = Some v) \<Longrightarrow> s \<noteq> [] \<Longrightarrow>
    read_digits base acc any (s @ t) = read_digits base (fst (read_digits base acc any s)) True t"
proof (induction s arbitrary: acc any)
  case (Cons ch s)
  obtain v where v: "char_digit base ch = Some v" using Cons.prems(1) [of ch] by auto
  show ?case
  proof (cases "s = []")
    case True
    with v show ?thesis by simp
  next
    case False
    with v Cons.IH [of "acc * base + v" True] Cons.prems show ?thesis by simp
  qed
qed simp

lemma dec_nat_chars: "ch \<in> set (dec_nat n) \<Longrightarrow> \<exists>d < 10. ch = digit d"
proof (induction n rule: dec_nat.induct)
  case (1 n)
  have "\<exists>d < 10. digit (n mod 10) = digit d" by (intro exI [of _ "n mod 10"]) simp
  with 1 show ?case by (cases "n < 10") (auto simp: dec_nat.simps [of n])
qed

lemma read_digits_dec_nat: "read_digits 10 0 False (dec_nat n) = (n, True)"
proof (induction n rule: dec_nat.induct)
  case (1 n)
  show ?case
  proof (cases "n < 10")
    case True
    then show ?thesis by (subst dec_nat.simps) (simp add: char_digit_digit)
  next
    case False
    have "read_digits 10 0 False (dec_nat (n div 10) @ [digit (n mod 10)]) =
        read_digits 10 (fst (read_digits 10 0 False (dec_nat (n div 10)))) True [digit (n mod 10)]"
      by (rule read_digits_append) (use dec_nat_chars char_digit_digit in \<open>fastforce, simp\<close>)
    with 1 False show ?thesis by (subst dec_nat.simps) (simp add: char_digit_digit)
  qed
qed

lemma dec_nat_hd: "0 < n \<Longrightarrow> \<exists>d s. dec_nat n = digit d # s \<and> 0 < d \<and> d < 10"
proof (induction n rule: dec_nat.induct)
  case (1 n)
  show ?case
  proof (cases "n < 10")
    case True
    with 1(2) show ?thesis by (intro exI [of _ n]) (simp add: dec_nat.simps [of n])
  next
    case False
    then have "0 < n div 10" by (simp add: div_greater_zero_iff)
    with 1(1) False show ?thesis by (auto simp: dec_nat.simps [of n])
  qed
qed

lemma digit_0: "digit 0 = CHR ''0''"
  by code_simp

lemma strtoul_dec_nat:
  assumes "n \<le> ULONG_MAX"
  shows "strtoul (dec_nat n @ CHR 0x0A # t) = (n, True)"
proof (cases "n = 0")
  case True
  then show ?thesis
    by (cases t) (simp_all add: strtoul_def dec_nat.simps [of 0] digit_0 read_base0_def char_digit_def ULONG_MAX_def Let_def)
next
  case False
  then obtain d s where d: "dec_nat n = digit d # s" "0 < d" "d < 10" using dec_nat_hd [of n] by blast
  have ne: "digit d \<noteq> CHR ''0''" "digit d \<noteq> CHR ''-''" "digit d \<noteq> CHR ''+''"
    using d(2,3) by (auto dest!: arg_cong [of _ _ "of_char :: char \<Rightarrow> nat"] simp: of_char_digit)
  have "skip_space (dec_nat n @ CHR 0x0A # t) = dec_nat n @ CHR 0x0A # t"
    using d by (simp add: of_char_digit)
  moreover have "read_base0 (dec_nat n @ CHR 0x0A # t) = read_digits 10 0 False (dec_nat n @ CHR 0x0A # t)"
    using d(1) ne(1) by (auto simp: read_base0_def split: list.split)
  moreover have "read_digits 10 0 False (dec_nat n @ CHR 0x0A # t) = (n, True)"
    using read_digits_append [of "dec_nat n" 10 0 False "CHR 0x0A # t"] dec_nat_chars char_digit_digit
    by (fastforce simp: read_digits_dec_nat char_digit_def)
  ultimately show ?thesis using assms d(1) ne by (simp add: strtoul_def)
qed

text \<open>The same request, call by call, when everything up to the read goes well.\<close>

lemma os_adc_get_value_read:
  assumes "os_adc_open c s = Some (S_OK, s1)" and "ad_fd (the (data s1 (a_user_data c))) = fd"
    and "sys_read fd (int MAX_SIZE) (wld s1) = ((k, buf), w2)"
  shows "os_adc_get_value c s =
    (if k = -1 then Some ((E_BUSY, -1), s1\<lparr>wld := w2\<rparr>)
     else let w3 = snd (sys (Close fd) w2); (n, any) = strtoul buf
          in Some ((if \<not> any \<or> n = ULONG_MAX then (E_BUSY, -1) else (S_OK, sint (of_nat n :: u32))),
               s1\<lparr>wld := w3\<rparr>))"
  using assms by (auto simp: os_adc_get_value_def on_wld_def Let_def split: prod.split)

section \<open>Properties\<close>

text \<open>
  The value: whenever the read returns a decimal number below 2^31 and a newline (what the kernel's
  IIO files contain), the operation succeeds with exactly that number and leaves no descriptor open.
\<close>

theorem artik_adc_get_value_decimal:
  assumes "node_get h s = Some c" and "os_adc_open c s = Some (S_OK, s1)"
    and "data s1 (a_user_data c) = Some d"
    and "sys_read (ad_fd d) (int MAX_SIZE) (wld s1) = ((k, dec_nat n @ CHR 0x0A # t), w2)"
    and "k \<noteq> -1" and "n < 2 ^ 31"
  shows "\<exists>s'. artik_adc_get_value h s = Some ((S_OK, int n), s') \<and> fds (wld s') = fds (wld s)"
proof -
  have n: "n \<le> ULONG_MAX" "n \<noteq> ULONG_MAX" using assms(6) by (simp_all add: ULONG_MAX_def)
  have "sint (of_nat n :: u32) = int n"
    using assms(6) by (simp add: signed_of_nat signed_take_bit_int_eq_self)
  then obtain s' where "os_adc_get_value c s = Some ((S_OK, int n), s')"
    using os_adc_get_value_read [OF assms(2) _ assms(4)] assms(3,5) n by (simp add: strtoul_dec_nat)
  with os_adc_get_value_facts [OF this] assms(1) show ?thesis by (simp add: artik_adc_get_value_def)
qed

text \<open>
  A request whose first read fails leaks: it reports \<^verbatim>\<open>E_BUSY\<close> and registers nothing, but
  the block it allocated for the device stays allocated and the descriptor stays open.
\<close>

theorem artik_adc_request_read_failure_leaks:
  assumes "a_pin_num c \<notin> a_pin_num ` snd ` set (nodes s)" and "n = length (trace (wld s))"
    and "0 < result (wld s) n" and "nat (result (wld s) n) \<notin> live s"
    and "0 < result (wld s) (n + 1)" and "nat (result (wld s) (n + 1)) \<notin> live s"
    and "result (wld s) (n + 1) \<noteq> result (wld s) n"
    and "0 < result (wld s) (n + 2)" and "result (wld s) (n + 3) < 0"
  shows "\<exists>s'. artik_adc_request c s = ((E_BUSY, 0), s') \<and> nodes s' = nodes s \<and>
    dom (data s') = insert (nat (result (wld s) n)) (dom (data s)) \<and>
    (\<forall>x. fds (wld s') x = fds (wld s) x + (if x = result (wld s) (n + 2) then 1 else 0))"
proof -
  have r: "result (wld s) n \<noteq> result (wld s) (n + 1)" using assms(7) by simp
  show ?thesis
    using assms(1,3-6,8,9) r unfolding assms(2)
    by (auto simp: artik_adc_request_def adc_node_check os_adc_request_def malloc_data_def malloc_def
        is_live_live live_def live_of_def os_adc_get_value_def os_adc_open_def on_wld_def set_adata_def sys_def
        sys_read_def Let_def fds_def eq_nat_nat_iff numeral_3_eq_3)
qed

section \<open>Witnesses\<close>

definition adc_pin :: artik_adc_config where
  "adc_pin = \<lparr>a_pin_num = 0, a_name = 0, a_user_data = 0\<rparr>"

definition adc_world :: world where
  "adc_world = \<lparr>result = (\<lambda>n. int n + 5), rdata = (\<lambda>_. ''42'' @ [CHR 0x0A]), out_int = (\<lambda>_. 0), module_addr = (\<lambda>_. 40),
     errno = 0, trace = []\<rparr>"

definition adc_node :: artik_adc_config where
  "adc_node = \<lparr>a_pin_num = 0, a_name = 0, a_user_data = 5\<rparr>"

definition adc_block :: artik_adc_user_data where
  "adc_block = \<lparr>ad_fd = 0, ad_path = adc_path 0\<rparr>"

definition adc_s1 :: adc_dev where
  "adc_s1 = \<lparr>nodes = [(10, adc_node)], data = [5 \<mapsto> adc_block], wld = adc_world\<rparr>"

lemma artik_adc_get_value_decimal_witness:
  "\<exists>s'. artik_adc_get_value 10 adc_s1 = Some ((S_OK, 42), s') \<and> fds (wld s') = fds adc_world"
proof -
  have n: "node_get 10 adc_s1 = Some adc_node" by (simp add: node_get_def adc_s1_def)
  obtain s1 where o: "os_adc_open adc_node adc_s1 = Some (S_OK, s1)" "data s1 5 = Some (adc_block\<lparr>ad_fd := 5\<rparr>)"
    "result (wld s1) = result adc_world" "rdata (wld s1) = rdata adc_world" "length (trace (wld s1)) = 1"
    by (simp add: os_adc_open_def adc_s1_def adc_node_def adc_world_def on_wld_def sys_def Let_def)
  have d42: "dec_nat 42 = ''42''" by code_simp
  obtain w2 where w2: "sys_read 5 (int MAX_SIZE) (wld s1) = ((6, dec_nat 42 @ CHR 0x0A # []), w2)"
    using o(3-5) by (simp add: sys_read_def sys_def Let_def adc_world_def MAX_SIZE_def d42)
  show ?thesis
    using artik_adc_get_value_decimal [OF n o(1), of "adc_block\<lparr>ad_fd := 5\<rparr>" 6 42 "[]" w2] o(2) w2
    by (simp add: adc_node_def adc_s1_def)
qed

definition adc_bad_world :: world where
  "adc_bad_world = adc_world\<lparr>result := (\<lambda>n. if n = 3 then -5 else int n + 5)\<rparr>"

lemma artik_adc_request_read_failure_leaks_witness:
  "\<exists>s'. artik_adc_request adc_pin (init_dev adc_bad_world) = ((E_BUSY, 0), s') \<and> nodes s' = [] \<and>
     dom (data s') = {5} \<and> fds (wld s') 7 = 1"
  using artik_adc_request_read_failure_leaks [of adc_pin "init_dev adc_bad_world" 0]
  by (auto simp: adc_bad_world_def adc_world_def live_def live_of_def fds_def)

end
