(* ===== verification/Coap_Queue.thy ===== *)
theory Coap_Queue
  imports Prelude
begin

text \<open>
  The CoAP retransmission queue of \<^verbatim>\<open>coap/tizenrt/coap.c\<close>.  Times are stored as differences: the
  \<^verbatim>\<open>t\<close> of a node is relative to its predecessor.  The linked list is a list of nodes here; the
  abstraction \<open>deadlines\<close> turns the differences back into absolute times.
\<close>

section \<open>Nodes\<close>

text \<open>The fields of the parsed message that the queue code looks at.\<close>

datatype coap_msg_type = COAP_TYPE_CON | COAP_TYPE_NON | COAP_TYPE_ACK | COAP_TYPE_RST

record coap_packet_t =
  pk_type :: coap_msg_type
  pk_code :: u8
  pk_mid :: u16
  pk_token :: "u8 list"

record coap_queue_t =
  q_t :: u32
  q_retransmit_cnt :: u8
  q_timeout :: u32
  q_session :: addr
  q_id :: int
  q_packet :: coap_packet_t

section \<open>The operations\<close>

text \<open>
  The loop of the insertion: \<open>p\<close> is the node just passed, whose time has been taken off the new
  node's.
\<close>

fun insert_after :: "coap_queue_t \<Rightarrow> coap_queue_t list \<Rightarrow> coap_queue_t \<Rightarrow> coap_queue_t list" where
  "insert_after p [] node = [p, node\<lparr>q_t := q_t node - q_t p\<rparr>]"
| "insert_after p (q # qs) node =
     (let node = node\<lparr>q_t := q_t node - q_t p\<rparr>
      in if q_t q \<le> q_t node then p # insert_after q qs node
         else p # node # q\<lparr>q_t := q_t q - q_t node\<rparr> # qs)"

definition artik_coap_insert_node :: "coap_queue_t list \<Rightarrow> coap_queue_t \<Rightarrow> coap_queue_t list" where
  "artik_coap_insert_node queue node =
     (case queue of
        [] \<Rightarrow> [node]
      | q # qs \<Rightarrow>
          if q_t node < q_t q then node # q\<lparr>q_t := q_t q - q_t node\<rparr> # qs
          else insert_after q qs node)"

text \<open>\<^verbatim>\<open>p->next->t += t\<close>, when there is a next node.\<close>

definition add_head :: "u32 \<Rightarrow> coap_queue_t list \<Rightarrow> coap_queue_t list" where
  "add_head d qs = (case qs of [] \<Rightarrow> [] | q # qs' \<Rightarrow> q\<lparr>q_t := q_t q + d\<rparr> # qs')"

text \<open>
  The search after the head in \<^verbatim>\<open>artik_coap_remove_from_queue\<close>: it goes on
  \<^verbatim>\<open>while (q && session != q->session && mid != q->mid)\<close>.
\<close>

fun remove_after :: "addr \<Rightarrow> int \<Rightarrow> coap_queue_t list \<Rightarrow> coap_queue_t option \<times> coap_queue_t list" where
  "remove_after session mid [] = (None, [])"
| "remove_after session mid (q # qs) =
     (if session \<noteq> q_session q \<and> mid \<noteq> q_id q
      then let (r, qs') = remove_after session mid qs in (r, q # qs')
      else (Some q, add_head (q_t q) qs))"

definition artik_coap_remove_from_queue ::
  "coap_queue_t list \<Rightarrow> addr \<Rightarrow> int \<Rightarrow> coap_queue_t option \<times> coap_queue_t list" where
  "artik_coap_remove_from_queue queue session mid =
     (case queue of
        [] \<Rightarrow> (None, [])
      | q # qs \<Rightarrow>
          if session = q_session q \<and> mid = q_id q then (Some q, add_head (q_t q) qs)
          else let (r, qs') = remove_after session mid qs in (r, q # qs'))"

definition artik_coap_peek_next :: "coap_queue_t list \<Rightarrow> coap_queue_t option" where
  "artik_coap_peek_next queue = (case queue of [] \<Rightarrow> None | q # qs \<Rightarrow> Some q)"

definition artik_coap_pop_next :: "coap_queue_t list \<Rightarrow> coap_queue_t option \<times> coap_queue_t list" where
  "artik_coap_pop_next queue =
     (case queue of [] \<Rightarrow> (None, []) | q # qs \<Rightarrow> (Some q, add_head (q_t q) qs))"

definition token_match :: "u8 list \<Rightarrow> u8 list \<Rightarrow> bool" where
  "token_match a b \<longleftrightarrow> length a = length b \<and> (length a = 0 \<or> a = b)"

text \<open>
  The two cancel functions have the same two loops: the matching nodes at the head of the queue
  are taken off, then, if a node is left, the matching nodes behind it are unlinked.  The second
  loop also asks for a session.  The result holds the deleted nodes in order and the rest of the
  queue; no time is adjusted.
\<close>

fun cancel_heads ::
  "(coap_queue_t \<Rightarrow> bool) \<Rightarrow> coap_queue_t list \<Rightarrow> coap_queue_t list \<times> coap_queue_t list" where
  "cancel_heads P [] = ([], [])"
| "cancel_heads P (q # qs) =
     (if P q then let (del, rest) = cancel_heads P qs in (q # del, rest) else ([], q # qs))"

fun cancel_behind ::
  "(coap_queue_t \<Rightarrow> bool) \<Rightarrow> coap_queue_t \<Rightarrow> coap_queue_t list \<Rightarrow> coap_queue_t list \<times> coap_queue_t list" where
  "cancel_behind P p [] = ([], [p])"
| "cancel_behind P p (q # qs) =
     (if P q then let (del, rest) = cancel_behind P p qs in (q # del, rest)
      else let (del, rest) = cancel_behind P q qs in (del, p # rest))"

definition cancel_loops ::
  "(coap_queue_t \<Rightarrow> bool) \<Rightarrow> coap_queue_t list \<Rightarrow> coap_queue_t list \<times> coap_queue_t list" where
  "cancel_loops P queue =
     (let (heads, rest) = cancel_heads P queue
      in case rest of
           [] \<Rightarrow> (heads, [])
         | p # qs \<Rightarrow>
             let (del, rest') = cancel_behind (\<lambda>q. q_session q \<noteq> 0 \<and> P q) p qs in (heads @ del, rest'))"

text \<open>The calls of the nack handler: the message and the id of every deleted confirmable message.\<close>

definition nacks :: "bool \<Rightarrow> coap_queue_t list \<Rightarrow> (coap_packet_t \<times> int) list" where
  "nacks nack_handler del =
     (if nack_handler
      then map (\<lambda>q. (q_packet q, q_id q)) (filter (\<lambda>q. pk_type (q_packet q) = COAP_TYPE_CON) del)
      else [])"

definition coap_cancel_session_messages ::
  "bool \<Rightarrow> coap_queue_t list \<Rightarrow> addr \<Rightarrow> (coap_packet_t \<times> int) list \<times> coap_queue_t list \<times> coap_queue_t list" where
  "coap_cancel_session_messages nack_handler queue session =
     (let (del, rest) = cancel_loops (\<lambda>q. q_session q = session) queue
      in (nacks nack_handler del, del, rest))"

definition artik_coap_cancel_all_messages ::
  "coap_queue_t list \<Rightarrow> addr \<Rightarrow> u8 list \<Rightarrow> coap_queue_t list \<times> coap_queue_t list" where
  "artik_coap_cancel_all_messages queue session token =
     cancel_loops (\<lambda>q. q_session q = session \<and> token_match token (pk_token (q_packet q))) queue"

section \<open>Timeouts\<close>

definition COAP_DEFAULT_MAX_RETRANSMIT :: u8 where "COAP_DEFAULT_MAX_RETRANSMIT = 4"
definition COAP_TICKS_PER_SECOND :: nat where "COAP_TICKS_PER_SECOND = 1000"
definition FRAC_BITS :: nat where "FRAC_BITS = 6"
definition MAX_BITS :: nat where "MAX_BITS = 8"

text \<open>\<^verbatim>\<open>Q(frac, fval)\<close> for the two constants 2 and 1.5, given in halves.\<close>

definition Q_half :: "nat \<Rightarrow> nat \<Rightarrow> nat" where
  "Q_half frac halves = 2 ^ frac * halves div 2"

definition SHR_FP :: "nat \<Rightarrow> nat \<Rightarrow> nat" where
  "SHR_FP val frac = (val + 2 ^ (frac - 1)) div 2 ^ frac"

definition calc_timeout :: "u8 \<Rightarrow> nat" where
  "calc_timeout r =
     (let ack_random_factor = Q_half FRAC_BITS 3; ack_timeout = Q_half FRAC_BITS 4; fp1 = Q_half FRAC_BITS 2;
          result = SHR_FP ((ack_random_factor - fp1) * unat r) MAX_BITS;
          result = SHR_FP ((result + fp1) * ack_timeout) FRAC_BITS
      in SHR_FP (COAP_TICKS_PER_SECOND * result) FRAC_BITS)"

section \<open>Absolute times\<close>

text \<open>The queue as a list of absolute times (from the base time) and messages.\<close>

fun deadlines_from :: "nat \<Rightarrow> coap_queue_t list \<Rightarrow> (nat \<times> coap_queue_t) list" where
  "deadlines_from b [] = []"
| "deadlines_from b (q # qs) =
     (b + unat (q_t q), q\<lparr>q_t := 0\<rparr>) # deadlines_from (b + unat (q_t q)) qs"

definition deadlines :: "coap_queue_t list \<Rightarrow> (nat \<times> coap_queue_t) list" where
  "deadlines qs = deadlines_from 0 qs"

text \<open>The specification of the insertion: behind everything that is due no later.\<close>

definition insert_due :: "nat \<times> 'a \<Rightarrow> (nat \<times> 'a) list \<Rightarrow> (nat \<times> 'a) list" where
  "insert_due x xs = takeWhile (\<lambda>y. fst y \<le> fst x) xs @ x # dropWhile (\<lambda>y. fst y \<le> fst x) xs"

lemma deadlines_from_ge: "x \<in> set (deadlines_from b qs) \<Longrightarrow> b \<le> fst x"
  by (induction qs arbitrary: b) fastforce+

lemma deadlines_sorted: "sorted (map fst (deadlines_from b qs))"
  by (induction qs arbitrary: b) (auto dest: deadlines_from_ge)

lemma unat_diff: "(b :: u32) \<le> a \<Longrightarrow> unat (a - b) = unat a - unat b"
  by (simp add: unat_sub)

lemma insert_after_deadlines:
  "q_t p \<le> q_t node \<Longrightarrow>
    deadlines_from b (insert_after p qs node) =
      insert_due (b + unat (q_t node), node\<lparr>q_t := 0\<rparr>) (deadlines_from b (p # qs))"
proof (induction p qs node arbitrary: b rule: insert_after.induct)
  case (1 p node)
  then show ?case by (simp add: insert_due_def unat_diff word_le_nat_alt)
next
  case (2 p q qs node)
  let ?n = "node\<lparr>q_t := q_t node - q_t p\<rparr>"
  have t: "unat (q_t ?n) = unat (q_t node) - unat (q_t p)" "unat (q_t p) \<le> unat (q_t node)"
    using 2(2) by (simp_all add: unat_diff word_le_nat_alt)
  show ?case
  proof (cases "q_t q \<le> q_t ?n")
    case True
    have "deadlines_from (b + unat (q_t p)) (insert_after q qs ?n) =
        insert_due (b + unat (q_t p) + unat (q_t ?n), ?n\<lparr>q_t := 0\<rparr>) (deadlines_from (b + unat (q_t p)) (q # qs))"
      using "2.IH" [OF refl True True, of "b + unat (q_t p)"] by simp
    with True t show ?thesis by (simp add: insert_due_def Let_def)
  next
    case False
    then have less: "unat (q_t ?n) < unat (q_t q)" by (simp add: word_le_nat_alt)
    have d: "unat (q_t q - (q_t node - q_t p)) = unat (q_t q) - unat (q_t ?n)"
      using False unat_diff [of "q_t ?n" "q_t q"] by simp
    have "unat (q_t node) < unat (q_t p) + unat (q_t q)" using less t by linarith
    with False t d show ?thesis by (simp add: insert_due_def Let_def ac_simps)
  qed
qed

lemma insert_node_deadlines:
  "deadlines (artik_coap_insert_node queue node) =
     insert_due (unat (q_t node), node\<lparr>q_t := 0\<rparr>) (deadlines queue)"
proof (cases queue)
  case Nil
  then show ?thesis by (simp add: artik_coap_insert_node_def deadlines_def insert_due_def)
next
  case (Cons q qs)
  show ?thesis
  proof (cases "q_t node < q_t q")
    case True
    then have "unat (q_t q - q_t node) = unat (q_t q) - unat (q_t node)"
      by (intro unat_diff) simp
    moreover have "unat (q_t node) < unat (q_t q)" using True by (simp add: word_less_nat_alt)
    ultimately have "unat (q_t node) + unat (q_t q - q_t node) = unat (q_t q)"
        "unat (q_t node) < unat (q_t q)" by simp_all
    with Cons True show ?thesis by (simp add: artik_coap_insert_node_def deadlines_def insert_due_def)
  next
    case False
    then show ?thesis
      using Cons insert_after_deadlines [of q node 0 qs]
      by (simp add: artik_coap_insert_node_def deadlines_def)
  qed
qed

text \<open>Taking a node out, with its time handed on, keeps all other times; here the sum must not wrap.\<close>

definition no_wrap :: "coap_queue_t list \<Rightarrow> bool" where
  "no_wrap qs \<longleftrightarrow> (\<forall>x \<in> set (deadlines qs). fst x < 2 ^ 32)"

lemma add_head_deadlines:
  "(\<forall>x \<in> set (deadlines_from (b + unat d) qs). fst x < 2 ^ 32 + b) \<Longrightarrow>
    deadlines_from b (add_head d qs) = deadlines_from (b + unat d) qs"
proof (cases qs)
  case (Cons q qs')
  assume "\<forall>x \<in> set (deadlines_from (b + unat d) qs). fst x < 2 ^ 32 + b"
  with Cons have "unat (q_t q) + unat d < 2 ^ 32" by simp
  then have "unat (q_t q + d) = unat (q_t q) + unat d"
    by (simp add: unat_word_ariths)
  with Cons show ?thesis by (simp add: add_head_def add.commute add.left_commute)
qed (simp add: add_head_def)

lemma deadlines_from_bound:
  "(\<forall>x \<in> set (deadlines_from b qs). fst x < 2 ^ 32) \<Longrightarrow> (\<forall>x \<in> set (deadlines_from b qs). fst x < 2 ^ 32 + c)"
  by auto


lemma add_head_no_wrap:
  "b < 2 ^ 32 \<Longrightarrow> (\<forall>x \<in> set (deadlines_from b (q # qs)). fst x < 2 ^ 32) \<Longrightarrow>
    deadlines_from b (add_head (q_t q) qs) = deadlines_from (b + unat (q_t q)) qs"
  by (rule add_head_deadlines) (use deadlines_from_bound in auto)

lemma remove_after_None:
  "fst (remove_after s i qs) = None \<longleftrightarrow> (\<forall>q \<in> set qs. q_session q \<noteq> s \<and> q_id q \<noteq> i)"
  by (induction qs) (auto simp: Let_def split: prod.splits)

lemma remove_after_keeps: "remove_after s i qs = (None, qs') \<Longrightarrow> qs' = qs"
  by (induction qs arbitrary: qs') (auto split: if_splits prod.splits)

lemma remove_after_deadlines:
  "remove_after s i qs = (Some q, qs') \<Longrightarrow> \<forall>x \<in> set (deadlines_from b qs). fst x < 2 ^ 32 \<Longrightarrow> b < 2 ^ 32 \<Longrightarrow>
    \<exists>as t bs. deadlines_from b qs = as @ (t, q\<lparr>q_t := 0\<rparr>) # bs \<and> deadlines_from b qs' = as @ bs \<and>
      (q_session q = s \<or> q_id q = i)"
proof (induction qs arbitrary: b qs')
  case (Cons p ps)
  show ?case
  proof (cases "s \<noteq> q_session p \<and> i \<noteq> q_id p")
    case True
    with Cons.prems obtain ps' where r: "remove_after s i ps = (Some q, ps')" "qs' = p # ps'"
      by (auto split: prod.splits)
    from Cons.IH [OF r(1), of "b + unat (q_t p)"] Cons.prems obtain as t bs where
      "deadlines_from (b + unat (q_t p)) ps = as @ (t, q\<lparr>q_t := 0\<rparr>) # bs"
      "deadlines_from (b + unat (q_t p)) ps' = as @ bs" "q_session q = s \<or> q_id q = i" by auto
    with r show ?thesis
      by (intro exI [of _ "(b + unat (q_t p), p\<lparr>q_t := 0\<rparr>) # as"] exI [of _ t] exI [of _ bs]) simp
  next
    case False
    then have q: "q = p" "qs' = add_head (q_t p) ps" "q_session q = s \<or> q_id q = i" using Cons.prems by auto
    from add_head_no_wrap [OF Cons.prems(3,2)] q
    show ?thesis by (intro exI [of _ "[]"] exI) auto
  qed
qed simp

section \<open>Cancelling\<close>

lemma cancel_heads_eq: "cancel_heads P qs = (takeWhile P qs, dropWhile P qs)"
  by (induction qs) auto

lemma cancel_behind_eq: "cancel_behind P p qs = (filter P qs, p # filter (\<lambda>q. \<not> P q) qs)"
  by (induction P p qs rule: cancel_behind.induct) (auto simp: Let_def)

lemma filter_takeWhile_split:
  "filter P xs = takeWhile P xs @ filter P (dropWhile P xs)"
  "filter (\<lambda>x. \<not> P x) xs = filter (\<lambda>x. \<not> P x) (dropWhile P xs)"
  by (induction xs) auto

lemma cancel_loops_eq:
  assumes "\<And>q. P q \<Longrightarrow> q_session q \<noteq> 0"
  shows "cancel_loops P queue = (filter P queue, filter (\<lambda>q. \<not> P q) queue)"
proof -
  have P: "(\<lambda>q. q_session q \<noteq> 0 \<and> P q) = P" using assms by blast
  have l: "cancel_loops P queue =
      (case dropWhile P queue of [] \<Rightarrow> (takeWhile P queue, [])
       | p # qs \<Rightarrow> (takeWhile P queue @ filter P qs, p # filter (\<lambda>q. \<not> P q) qs))"
    unfolding cancel_loops_def P by (simp add: cancel_heads_eq cancel_behind_eq)
  show ?thesis
  proof (cases "dropWhile P queue")
    case Nil
    with l filter_takeWhile_split [of P queue] show ?thesis by simp
  next
    case (Cons p qs)
    then have "\<not> P p" by (metis hd_dropWhile list.discI list.sel(1))
    with l Cons filter_takeWhile_split [of P queue] show ?thesis by simp
  qed
qed

lemma deadlines_from_append:
  "deadlines_from b (as @ bs) = deadlines_from b as @ deadlines_from (b + sum_list (map (unat \<circ> q_t) as)) bs"
  by (induction as arbitrary: b) (auto simp: add.assoc)

lemma deadlines_from_shift:
  "deadlines_from b qs = map (\<lambda>(t, x). (t - d, x)) (deadlines_from (b + d) qs)"
proof (induction qs arbitrary: b)
  case (Cons q qs)
  have "b + d + unat (q_t q) = b + unat (q_t q) + d" by simp
  then show ?case by (simp only: deadlines_from.simps list.map prod.case Cons [of "b + unat (q_t q)"] diff_add_inverse2)
qed simp

lemma length_deadlines_from [simp]: "length (deadlines_from b qs) = length qs"
  by (induction qs arbitrary: b) auto

section \<open>The properties\<close>

text \<open>
  \<^verbatim>\<open>artik_coap_insert_node\<close> puts a message exactly behind every message that is due no later,
  at the time it is given: the absolute times of all other messages and their order stay as they
  are, whatever the differences stored in the nodes; and the queue is in order of time.
\<close>

theorem coap_insert_node_deadlines:
  "deadlines (artik_coap_insert_node queue node) =
     insert_due (unat (q_t node), node\<lparr>q_t := 0\<rparr>) (deadlines queue) \<and>
   sorted (map fst (deadlines (artik_coap_insert_node queue node)))"
  by (intro conjI insert_node_deadlines) (simp add: deadlines_def deadlines_sorted)

text \<open>
  \<^verbatim>\<open>artik_coap_remove_from_queue\<close> takes out at most one message and hands its time on, so every
  other message keeps its absolute time (as long as the times fit 32 bits).  It reports nothing
  only when the head is another message and no later message has the session or the id asked for;
  what it takes out has one of the two.
\<close>

theorem coap_remove_from_queue_deadlines:
  assumes "no_wrap queue"
  shows "case artik_coap_remove_from_queue queue s i of
      (None, queue') \<Rightarrow> queue' = queue \<and>
        (\<forall>q. artik_coap_peek_next queue = Some q \<longrightarrow> q_session q \<noteq> s \<or> q_id q \<noteq> i) \<and>
        (\<forall>q \<in> set (tl queue). q_session q \<noteq> s \<and> q_id q \<noteq> i)
    | (Some q, queue') \<Rightarrow> (q_session q = s \<or> q_id q = i) \<and>
        (\<exists>as t bs. deadlines queue = as @ (t, q\<lparr>q_t := 0\<rparr>) # bs \<and> deadlines queue' = as @ bs)"
proof (cases queue)
  case Nil
  then show ?thesis by (simp add: artik_coap_remove_from_queue_def artik_coap_peek_next_def)
next
  case (Cons p ps)
  have wrap: "\<forall>x \<in> set (deadlines_from 0 (p # ps)). fst x < 2 ^ 32"
    using assms Cons by (simp add: no_wrap_def deadlines_def)
  show ?thesis
  proof (cases "s = q_session p \<and> i = q_id p")
    case True
    have "deadlines (add_head (q_t p) ps) = deadlines_from (unat (q_t p)) ps"
      using add_head_no_wrap [OF _ wrap] by (simp add: deadlines_def)
    with True Cons show ?thesis
      by (auto simp: artik_coap_remove_from_queue_def deadlines_def intro!: exI [of _ "[]"])
  next
    case False
    obtain r ps' where r: "remove_after s i ps = (r, ps')" by fastforce
    have res: "artik_coap_remove_from_queue queue s i = (r, p # ps')"
      using False Cons r by (auto simp: artik_coap_remove_from_queue_def)
    show ?thesis
    proof (cases r)
      case None
      with r Cons remove_after_keeps [of s i ps ps'] remove_after_None [of s i ps] res
      show ?thesis using False by (auto simp: artik_coap_peek_next_def)
    next
      case (Some q)
      have "unat (q_t p) < 2 ^ 32" "\<forall>x \<in> set (deadlines_from (unat (q_t p)) ps). fst x < 2 ^ 32"
        using wrap by auto
      from remove_after_deadlines [OF _ this(2,1)] r Some obtain as t bs where
        "deadlines_from (unat (q_t p)) ps = as @ (t, q\<lparr>q_t := 0\<rparr>) # bs"
        "deadlines_from (unat (q_t p)) ps' = as @ bs" "q_session q = s \<or> q_id q = i" by blast
      then show ?thesis using Cons Some res
        by (auto simp: deadlines_def intro!: exI [of _ "(unat (q_t p), p\<lparr>q_t := 0\<rparr>) # as"])
    qed
  qed
qed


text \<open>Runs of the queue against a sorted list of absolute times.\<close>

datatype queue_op = Insert coap_queue_t | Pop | Remove addr int

fun queue_step :: "queue_op \<Rightarrow> coap_queue_t list \<Rightarrow> coap_queue_t list" where
  "queue_step (Insert node) queue = artik_coap_insert_node queue node"
| "queue_step Pop queue = snd (artik_coap_pop_next queue)"
| "queue_step (Remove s i) queue = snd (artik_coap_remove_from_queue queue s i)"

fun drop_first :: "('a \<Rightarrow> bool) \<Rightarrow> 'a list \<Rightarrow> 'a list" where
  "drop_first P [] = []"
| "drop_first P (x # xs) = (if P x then xs else x # drop_first P xs)"

fun due_step :: "queue_op \<Rightarrow> (nat \<times> coap_queue_t) list \<Rightarrow> (nat \<times> coap_queue_t) list" where
  "due_step (Insert node) xs = insert_due (unat (q_t node), node\<lparr>q_t := 0\<rparr>) xs"
| "due_step Pop xs = tl xs"
| "due_step (Remove s i) xs =
     (case xs of
        [] \<Rightarrow> []
      | (t, q) # ys \<Rightarrow>
          if q_session q = s \<and> q_id q = i then ys
          else (t, q) # drop_first (\<lambda>(t, q). q_session q = s \<or> q_id q = i) ys)"

lemma remove_after_drop_first:
  "\<forall>x \<in> set (deadlines_from b qs). fst x < 2 ^ 32 \<Longrightarrow> b < 2 ^ 32 \<Longrightarrow>
    deadlines_from b (snd (remove_after s i qs)) =
      drop_first (\<lambda>(t, q). q_session q = s \<or> q_id q = i) (deadlines_from b qs)"
proof (induction qs arbitrary: b)
  case (Cons q qs)
  then show ?case
    using add_head_no_wrap [OF Cons.prems(2,1)] Cons.IH [of "b + unat (q_t q)"]
    by (auto simp: Let_def split: prod.splits)
qed simp

lemma in_set_drop_firstD: "x \<in> set (drop_first P xs) \<Longrightarrow> x \<in> set xs"
  by (induction xs) (auto split: if_splits)

lemma set_insert_due: "set (insert_due x xs) = insert x (set xs)"
  by (simp add: insert_due_def) (metis Un_insert_right set_append takeWhile_dropWhile_id)

lemma due_step_bound:
  "\<forall>x \<in> set xs. fst x < 2 ^ 32 \<Longrightarrow> \<forall>x \<in> set (due_step x' xs). fst x < 2 ^ 32"
proof (induction x' xs rule: due_step.induct)
  case (1 node xs)
  then show ?case
    using unsigned_less [of "q_t node", where ?'a = nat] by (auto simp: set_insert_due)
next
  case (2 xs)
  then show ?case by (cases xs) auto
next
  case (3 s i xs)
  have "set (due_step (Remove s i) xs) \<subseteq> set xs"
    by (auto split: list.splits if_splits dest: in_set_drop_firstD)
  with 3 show ?case by blast
qed

lemma queue_step_due:
  assumes "no_wrap queue"
  shows "deadlines (queue_step x queue) = due_step x (deadlines queue)"
proof (cases x)
  case (Insert node)
  then show ?thesis by (simp add: insert_node_deadlines)
next
  case Pop
  with assms add_head_no_wrap [of 0 "hd queue" "tl queue"] show ?thesis
    by (cases queue) (simp_all add: artik_coap_pop_next_def deadlines_def no_wrap_def)
next
  case (Remove s i)
  show ?thesis
  proof (cases queue)
    case Nil
    with Remove show ?thesis by (simp add: artik_coap_remove_from_queue_def deadlines_def)
  next
    case (Cons q qs)
    have w: "\<forall>x \<in> set (deadlines_from 0 (q # qs)). fst x < 2 ^ 32"
      using assms Cons by (simp add: no_wrap_def deadlines_def)
    have "deadlines (snd (artik_coap_remove_from_queue (q # qs) s i)) =
        due_step (Remove s i) (deadlines (q # qs))"
      using add_head_no_wrap [OF _ w] remove_after_drop_first [of "unat (q_t q)" qs s i] w
      by (auto simp: artik_coap_remove_from_queue_def deadlines_def Let_def split: prod.splits)
    with Remove Cons show ?thesis by simp
  qed
qed

interpretation coap_sendqueue: simulation
  "\<lambda>x queue. Some (queue_step x queue)" due_step "\<lambda>queue xs. no_wrap queue \<and> deadlines queue = xs"
proof unfold_locales
  fix queue xs x
  assume "no_wrap queue \<and> deadlines queue = xs"
  then show "\<exists>queue'. Some (queue_step x queue) = Some queue' \<and>
      no_wrap queue' \<and> deadlines queue' = due_step x xs"
    using queue_step_due [of queue x] due_step_bound [of xs x] by (simp add: no_wrap_def)
qed

lemma run_opt_Some: "run_opt (\<lambda>x c. Some (f x c)) xs c = Some (fold f xs c)"
  by (induction xs arbitrary: c) auto

text \<open>
  C4. Along every run of insertions, pops and removals from the empty queue, the queue holds what
  a list of absolute times holds that inserts behind everything due no later, pops the first and
  drops the first match: no message ever gets another time, and no time wraps.
\<close>

theorem coap_queue_run_refines:
  "deadlines (fold queue_step ops []) = fold due_step ops [] \<and> no_wrap (fold queue_step ops [])"
  using coap_sendqueue.run_sim [of "[]" "[]" ops]
  by (simp add: no_wrap_def deadlines_def run_opt_Some)

text \<open>The search stops at the first message that has the session or the id.\<close>

lemma remove_after_first:
  assumes "\<forall>q \<in> set ps. q_session q \<noteq> s \<and> q_id q \<noteq> i" and "q_session q = s \<or> q_id q = i"
  shows "remove_after s i (ps @ q # qs) = (Some q, ps @ add_head (q_t q) qs)"
  using assms by (induction ps) auto

lemma add_head_zero: "map (q_t_update (\<lambda>_. 0)) (add_head t qs) = map (q_t_update (\<lambda>_. 0)) qs"
  by (simp add: add_head_def split: list.split)

lemma first_or_none:
  obtains "\<forall>q \<in> set xs. \<not> P q" | as q bs where "xs = as @ q # bs" "\<forall>q \<in> set as. \<not> P q" "P q"
  using split_list_first_prop [of xs P] by blast

text \<open>
  C39. An acknowledgement is matched by \<^verbatim>\<open>artik_coap_remove_from_queue\<close> with the message of its session
  and id.  Let \<open>m\<close> be the first message of the queue with both, in any queue.  It is taken out exactly when
  no message between the head of the queue and \<open>m\<close> has its session or its id; otherwise the first such
  message is taken out in its place, a message that has not both, and \<open>m\<close> and all others stay queued
  in their order.  (Times apart: a removed message hands its time on.)  So two messages of a session
  waiting before a third are enough for an acknowledgement to cancel the wrong one.
\<close>

theorem coap_remove_from_queue_wrong_message:
  assumes "queue = xs @ m # ys" and "q_session m = s" and "q_id m = i"
    and "\<forall>q \<in> set xs. q_session q \<noteq> s \<or> q_id q \<noteq> i"
  defines "zero \<equiv> q_t_update (\<lambda>_. 0)" and "taken \<equiv> artik_coap_remove_from_queue queue s i"
  shows "(fst taken = Some m \<longleftrightarrow> (\<forall>q \<in> set (tl xs). q_session q \<noteq> s \<and> q_id q \<noteq> i)) \<and>
    (fst taken = Some m \<longrightarrow> map zero (snd taken) = map zero (xs @ ys)) \<and>
    (fst taken \<noteq> Some m \<longrightarrow> (\<exists>p ps q qs. xs = p # ps @ q # qs \<and> fst taken = Some q \<and>
       (q_session q = s) \<noteq> (q_id q = i) \<and> map zero (snd taken) = map zero (p # ps @ qs @ m # ys)))"
proof (cases xs)
  case Nil
  with assms(1-3) show ?thesis
    by (simp add: taken_def zero_def artik_coap_remove_from_queue_def add_head_zero)
next
  case (Cons p rest)
  have p: "\<not> (s = q_session p \<and> i = q_id p)" using assms(4) Cons by auto
  have t: "taken = (let (r, qs) = remove_after s i (rest @ m # ys) in (r, p # qs))"
    using assms(1) Cons by (simp only: taken_def artik_coap_remove_from_queue_def append_Cons list.case p if_False)
  show ?thesis
  proof (rule first_or_none [of rest "\<lambda>q. q_session q = s \<or> q_id q = i"])
    assume n: "\<forall>q \<in> set rest. \<not> (q_session q = s \<or> q_id q = i)"
    then have "taken = (Some m, p # rest @ add_head (q_t m) ys)"
      using t remove_after_first [of rest s i m ys] assms(2,3) by simp
    with n Cons show ?thesis by (simp add: zero_def add_head_zero)
  next
    fix as q bs
    assume q: "rest = as @ q # bs" "\<forall>q \<in> set as. \<not> (q_session q = s \<or> q_id q = i)" "q_session q = s \<or> q_id q = i"
    then have tk: "taken = (Some q, p # as @ add_head (q_t q) (bs @ m # ys))"
      using t remove_after_first [of as s i q "bs @ m # ys"] by simp
    have one: "(q_session q = s) \<noteq> (q_id q = i)" using q(1,3) assms(4) Cons by auto
    then have "q \<noteq> m" using assms(2,3) by auto
    moreover have "map zero (snd taken) = map zero (p # as @ bs @ m # ys)"
      by (simp only: tk snd_conv) (simp add: zero_def add_head_zero)
    ultimately show ?thesis using tk one q(1,3) Cons by auto
  qed
qed

definition ex_packet :: "coap_msg_type \<Rightarrow> u8 \<Rightarrow> coap_packet_t" where
  "ex_packet t tok = \<lparr>pk_type = t, pk_code = 1, pk_mid = 0, pk_token = [tok]\<rparr>"

definition ex_node :: "u32 \<Rightarrow> addr \<Rightarrow> int \<Rightarrow> coap_queue_t" where
  "ex_node t s i = \<lparr>q_t = t, q_retransmit_cnt = 0, q_timeout = 2000, q_session = s, q_id = i,
     q_packet = ex_packet COAP_TYPE_CON (of_int i)\<rparr>"

lemma coap_remove_from_queue_wrong_message_witness:
  "fst (artik_coap_remove_from_queue [ex_node 0 8 1, ex_node 5 8 2, ex_node 5 8 3] 8 3) \<noteq> Some (ex_node 5 8 3) \<and>
    map (q_t_update (\<lambda>_. 0)) (snd (artik_coap_remove_from_queue [ex_node 0 8 1, ex_node 5 8 2] 8 2)) =
      map (q_t_update (\<lambda>_. 0)) [ex_node 0 8 1]"
proof -
  have f: "q_session (ex_node t s i) = s" "q_id (ex_node t s i) = i" for t s i by (simp_all add: ex_node_def)
  note a = coap_remove_from_queue_wrong_message [of "[ex_node 0 8 1, ex_node 5 8 2, ex_node 5 8 3]"
      "[ex_node 0 8 1, ex_node 5 8 2]" "ex_node 5 8 3" "[]" 8 3]
  note b = coap_remove_from_queue_wrong_message [of "[ex_node 0 8 1, ex_node 5 8 2]" "[ex_node 0 8 1]" "ex_node 5 8 2" "[]" 8 2]
  show ?thesis using a b by (simp add: f)
qed

lemma coap_remove_from_queue_deadlines_witness:
  "case artik_coap_remove_from_queue [ex_node 10 8 1, ex_node 5 8 2, ex_node 5 8 3] 8 1 of
      (None, queue') \<Rightarrow> queue' = [ex_node 10 8 1, ex_node 5 8 2, ex_node 5 8 3] \<and>
        (\<forall>q. artik_coap_peek_next [ex_node 10 8 1, ex_node 5 8 2, ex_node 5 8 3] = Some q \<longrightarrow>
          q_session q \<noteq> 8 \<or> q_id q \<noteq> 1) \<and>
        (\<forall>q \<in> set (tl [ex_node 10 8 1, ex_node 5 8 2, ex_node 5 8 3]). q_session q \<noteq> 8 \<and> q_id q \<noteq> 1)
    | (Some q, queue') \<Rightarrow> (q_session q = 8 \<or> q_id q = 1) \<and>
        (\<exists>as t bs. deadlines [ex_node 10 8 1, ex_node 5 8 2, ex_node 5 8 3] = as @ (t, q\<lparr>q_t := 0\<rparr>) # bs \<and>
          deadlines queue' = as @ bs)"
  by (rule coap_remove_from_queue_deadlines) (simp add: no_wrap_def deadlines_def ex_node_def)

text \<open>
  The two cancel functions take out exactly the messages of the session (with the token) and
  keep the order of the rest; every confirmable message cancelled with its session is reported to
  the nack handler once, in the order of the queue.
\<close>

theorem coap_cancel_functional:
  assumes "session \<noteq> 0"
  shows "artik_coap_cancel_all_messages queue session token =
      (filter (\<lambda>q. q_session q = session \<and> pk_token (q_packet q) = token) queue,
       filter (\<lambda>q. \<not> (q_session q = session \<and> pk_token (q_packet q) = token)) queue) \<and>
    coap_cancel_session_messages nack_handler queue session =
      (nacks nack_handler (filter (\<lambda>q. q_session q = session) queue),
       filter (\<lambda>q. q_session q = session) queue, filter (\<lambda>q. q_session q \<noteq> session) queue)"
proof -
  have m: "token_match token t \<longleftrightarrow> t = token" for t by (auto simp: token_match_def)
  have "cancel_loops (\<lambda>q. q_session q = session \<and> pk_token (q_packet q) = token) queue =
      (filter (\<lambda>q. q_session q = session \<and> pk_token (q_packet q) = token) queue,
       filter (\<lambda>q. \<not> (q_session q = session \<and> pk_token (q_packet q) = token)) queue)"
    by (rule cancel_loops_eq) (use assms in simp)
  moreover have "cancel_loops (\<lambda>q. q_session q = session) queue =
      (filter (\<lambda>q. q_session q = session) queue, filter (\<lambda>q. \<not> q_session q = session) queue)"
    by (rule cancel_loops_eq) (use assms in simp)
  ultimately show ?thesis
    by (simp add: artik_coap_cancel_all_messages_def coap_cancel_session_messages_def m)
qed

lemma coap_cancel_functional_witness:
  "artik_coap_cancel_all_messages [ex_node 10 8 1, ex_node 5 9 2, ex_node 5 8 3] 8 [3] =
      (filter (\<lambda>q. q_session q = 8 \<and> pk_token (q_packet q) = [3]) [ex_node 10 8 1, ex_node 5 9 2, ex_node 5 8 3],
       filter (\<lambda>q. \<not> (q_session q = 8 \<and> pk_token (q_packet q) = [3])) [ex_node 10 8 1, ex_node 5 9 2, ex_node 5 8 3]) \<and>
    coap_cancel_session_messages True [ex_node 10 8 1, ex_node 5 9 2, ex_node 5 8 3] 8 =
      (nacks True (filter (\<lambda>q. q_session q = 8) [ex_node 10 8 1, ex_node 5 9 2, ex_node 5 8 3]),
       filter (\<lambda>q. q_session q = 8) [ex_node 10 8 1, ex_node 5 9 2, ex_node 5 8 3],
       filter (\<lambda>q. q_session q \<noteq> 8) [ex_node 10 8 1, ex_node 5 9 2, ex_node 5 8 3])"
  by (rule coap_cancel_functional) simp

text \<open>
  Cancelling one message makes all later ones fire early, by exactly the time the cancelled
  message stored: the cancel functions do not hand it on to the successor.
\<close>

theorem coap_cancel_fires_early:
  assumes "session \<noteq> 0" and "q_session q = session" and "pk_token (q_packet q) = token"
    and "\<forall>x \<in> set (as @ bs). q_session x \<noteq> session \<or> pk_token (q_packet x) \<noteq> token"
  shows "deadlines (snd (artik_coap_cancel_all_messages (as @ q # bs) session token)) =
    take (length as) (deadlines (as @ q # bs)) @
    map (\<lambda>(t, x). (t - unat (q_t q), x)) (drop (Suc (length as)) (deadlines (as @ q # bs)))"
proof -
  have m: "token_match token t \<longleftrightarrow> t = token" for t by (auto simp: token_match_def)
  have "snd (artik_coap_cancel_all_messages (as @ q # bs) session token) = as @ bs"
    unfolding artik_coap_cancel_all_messages_def m
    by (subst cancel_loops_eq) (use assms in \<open>auto simp: filter_id_conv\<close>)
  then show ?thesis
    using deadlines_from_shift [of "sum_list (map (unat \<circ> q_t) as)" bs "unat (q_t q)"]
    by (simp only: deadlines_def deadlines_from_append) simp
qed

lemma coap_cancel_fires_early_witness:
  "deadlines (snd (artik_coap_cancel_all_messages ([ex_node 7 9 4] @ ex_node 2000 8 1 # [ex_node 5 9 2]) 8 [1])) =
    take (length [ex_node 7 9 4]) (deadlines ([ex_node 7 9 4] @ ex_node 2000 8 1 # [ex_node 5 9 2])) @
    map (\<lambda>(t, x). (t - unat (q_t (ex_node 2000 8 1)), x))
      (drop (Suc (length [ex_node 7 9 4])) (deadlines ([ex_node 7 9 4] @ ex_node 2000 8 1 # [ex_node 5 9 2])))"
  by (rule coap_cancel_fires_early) (simp_all add: ex_node_def ex_packet_def)

lemma calc_timeout_eq:
  "calc_timeout r = (2000 * ((unat r * 32 + 128) div 256 + 64) + 32) div 64"
proof -
  define k where "k = (unat r * 32 + 128) div 256"
  have "(8224 + 128 * k) div 64 = 2 * k + 128" by simp
  then show ?thesis
    by (simp add: k_def calc_timeout_def Q_half_def SHR_FP_def FRAC_BITS_def MAX_BITS_def
        COAP_TICKS_PER_SECOND_def Let_def mult.commute)
qed

text \<open>
  The first timeout of a message is between two and three seconds and does not decrease with
  the random byte.
\<close>

theorem calc_timeout_bounds:
  "2000 \<le> calc_timeout r \<and> calc_timeout r \<le> 3000 \<and> mono calc_timeout"
proof -
  have "unat r < 256" using unsigned_less [of r, where ?'a = nat] by simp
  then have k: "(unat r * 32 + 128) div 256 \<le> 32" by linarith
  have "(2000 * (0 + 64) + 32) div 64 \<le> calc_timeout r"
    unfolding calc_timeout_eq by (intro div_le_mono) simp
  moreover have "calc_timeout r \<le> (2000 * (32 + 64) + 32) div 64"
    unfolding calc_timeout_eq using k by (intro div_le_mono) simp
  ultimately have "2000 \<le> calc_timeout r \<and> calc_timeout r \<le> 3000" by simp
  moreover have "mono calc_timeout"
    unfolding calc_timeout_eq mono_def
    by (intro allI impI div_le_mono add_mono mult_le_mono order_refl) (simp add: word_le_nat_alt)
  ultimately show ?thesis by blast
qed

end
