(* ===== verification/Coap_Session.thy ===== *)
theory Coap_Session
  imports Coap_Queue Os_World "HOL-Library.Monad_Syntax"
begin

text \<open>
  The sessions of the CoAP engine: \<^verbatim>\<open>coap_session.c\<close>, the observers of \<^verbatim>\<open>coap_resource.c\<close>, the
  addresses of \<^verbatim>\<open>coap_address.c\<close> and the part of \<^verbatim>\<open>coap.c\<close> that sends, waits for
  acknowledgements and retransmits.  Sessions live in a store of their own, because the send queue,
  the observers and the application all hold counted references to them; \<^term>\<open>None\<close> is an access
  to a session that has been freed, or another invalid access.  Library and system calls (the
  serialiser, TLS, the sockets, the clock, the random numbers) go through the oracle of
  \<^theory_text>\<open>Os_World\<close>.
\<close>

section \<open>Addresses\<close>

datatype sa_family_t = AF_INET | AF_INET6 | AF_OTHER

record coap_address_t =
  ad_size :: u32
  ad_family :: sa_family_t
  ad_port :: u16
  ad_bytes :: "u8 list"

text \<open>\<^verbatim>\<open>IN_MULTICAST\<close> of an IPv4 address in network order, and the first byte of an IPv6 address.\<close>

definition coap_is_mcast :: "coap_address_t \<Rightarrow> bool" where
  "coap_is_mcast a =
     (case ad_family a of
        AF_INET \<Rightarrow> hd (ad_bytes a) AND 0xF0 = 0xE0
      | AF_INET6 \<Rightarrow> hd (ad_bytes a) = 0xFF
      | AF_OTHER \<Rightarrow> False)"

definition coap_address_equals :: "coap_address_t \<Rightarrow> coap_address_t \<Rightarrow> bool" where
  "coap_address_equals a b =
     (if ad_size a \<noteq> ad_size b \<or> ad_family a \<noteq> ad_family b then False
      else case ad_family a of
        AF_INET \<Rightarrow> ad_port a = ad_port b \<and> take 4 (ad_bytes a) = take 4 (ad_bytes b)
      | AF_INET6 \<Rightarrow> ad_port a = ad_port b \<and> take 16 (ad_bytes a) = take 16 (ad_bytes b)
      | AF_OTHER \<Rightarrow> False)"

section \<open>State\<close>

datatype coap_protocol_t = COAP_UDP | COAP_UDP_DTLS
datatype session_type = COAP_SESSION_TYPE_CLIENT | COAP_SESSION_TYPE_SERVER | COAP_SESSION_TYPE_HELLO
datatype session_state =
    COAP_SESSION_STATE_NONE | COAP_SESSION_STATE_CONNECTING
  | COAP_SESSION_STATE_HANDSHAKE | COAP_SESSION_STATE_ESTABLISHED
datatype coap_nack_reason_t =
    COAP_NACK_TOO_MANY_RETRIES | COAP_NACK_NOT_DELIVERABLE | COAP_NACK_RST | COAP_NACK_TLS_FAILED

text \<open>
  \<open>ss_sock\<close> says whether the session has a socket of its own, \<open>ss_context\<close> whether its context
  pointer is set.  Keys and the packet size are not modelled.
\<close>

record coap_session_t =
  ss_proto :: coap_protocol_t
  ss_type :: session_type
  ss_state :: session_state
  ss_context :: bool
  ss_endpoint :: addr
  ss_tls :: bool
  ss_sendqueue :: "coap_queue_t list"
  ss_last_rx_tx :: u32
  ss_ref :: u8
  ss_remote :: coap_address_t
  ss_local :: coap_address_t
  ss_sock :: bool
  ss_newly_created :: bool
  ss_tx_mid :: u16

record coap_endpoint_t =
  ep_proto :: coap_protocol_t
  ep_sessions :: "addr list"

record coap_subscription_t =
  sub_session :: addr
  sub_fail_cnt :: nat
  sub_token :: "u8 list"
  sub_non_cnt :: nat
  sub_dirty :: bool
  sub_query :: addr

text \<open>
  The context.  \<open>c_subscribers\<close> holds the observers of every resource, \<open>c_queries\<close> the blocks of the
  queries (\<^verbatim>\<open>coap_str\<close>) that observers point to, \<open>c_next\<close> the next address the allocator hands out:
  addresses of what was freed are not used again, so that a stale pointer shows.  \<open>c_nacks\<close> is the log
  of the calls of the nack handler, \<open>c_response_handler\<close> whether there is a handler of responses.
\<close>

record coap_context_t =
  c_subscribers :: "coap_subscription_t list list"
  c_sendqueue :: "coap_queue_t list"
  c_basetime :: u32
  c_endpoints :: "addr \<Rightarrow> coap_endpoint_t option"
  c_sessions :: "addr list"
  c_nack_handler :: bool
  c_max_idle :: nat
  c_session_timeout :: u32
  c_clock_offset :: int
  c_next :: addr
  c_sess :: "addr \<Rightarrow> coap_session_t option"
  c_nacks :: "(addr \<times> coap_nack_reason_t \<times> int) list"
  c_queries :: "addr \<Rightarrow> string option"
  c_observe :: u32
  c_response_handler :: bool
  c_world :: world

definition put_sess :: "addr \<Rightarrow> coap_session_t \<Rightarrow> coap_context_t \<Rightarrow> coap_context_t" where
  "put_sess a x s = s\<lparr>c_sess := (c_sess s)(a \<mapsto> x)\<rparr>"

definition ext_call :: "string \<Rightarrow> int list \<Rightarrow> coap_context_t \<Rightarrow> int \<times> coap_context_t" where
  "ext_call f args s = (let (r, w) = ext f args (c_world s) in (r, s\<lparr>c_world := w\<rparr>))"

text \<open>
  The clock, in ticks of a millisecond since the offset.  \<^verbatim>\<open>Q(FRAC, 0.001)\<close> is 1 after the conversion
  to an integer, so a tick of the second is 1024 microseconds.
\<close>

definition coap_ticks_of :: "int \<Rightarrow> int \<Rightarrow> int \<Rightarrow> u32" where
  "coap_ticks_of tv_sec tv_usec offset =
     (let q = 2 ^ 10 * int COAP_TICKS_PER_SECOND div 1000000
      in of_int ((tv_usec * q + 2 ^ 9) div 2 ^ 10) + of_int (tv_sec - offset) * of_nat COAP_TICKS_PER_SECOND)"

definition coap_ticks :: "coap_context_t \<Rightarrow> u32 \<times> coap_context_t" where
  "coap_ticks s =
     (let usec = out_int (c_world s) (length (trace (c_world s))); (sec, s) = ext_call ''gettimeofday'' [] s
      in (coap_ticks_of sec usec (c_clock_offset s), s))"

definition prng_byte :: "coap_context_t \<Rightarrow> u8 \<times> coap_context_t" where
  "prng_byte s = (let (r, s) = ext_call ''prng'' [] s in (of_int r, s))"

text \<open>A call of the nack handler for a confirmable message, when there is a handler.\<close>

definition nack :: "addr \<Rightarrow> coap_nack_reason_t \<Rightarrow> coap_queue_t \<Rightarrow> coap_context_t \<Rightarrow> coap_context_t" where
  "nack a reason q s =
     (if pk_type (q_packet q) = COAP_TYPE_CON \<and> c_nack_handler s
      then s\<lparr>c_nacks := c_nacks s @ [(a, reason, q_id q)]\<rparr> else s)"

section \<open>References\<close>

definition coap_session_reference :: "addr \<Rightarrow> coap_context_t \<Rightarrow> coap_context_t option" where
  "coap_session_reference a s =
     (case c_sess s a of None \<Rightarrow> None | Some x \<Rightarrow> Some (put_sess a (x\<lparr>ss_ref := ss_ref x + 1\<rparr>) s))"

definition unlink_session :: "addr \<Rightarrow> coap_session_t \<Rightarrow> coap_context_t \<Rightarrow> coap_context_t option" where
  "unlink_session a x s =
     (if ss_endpoint x \<noteq> 0 then
        (case c_endpoints s (ss_endpoint x) of
           None \<Rightarrow> None
         | Some ep \<Rightarrow> Some (s\<lparr>c_endpoints := (c_endpoints s)(ss_endpoint x \<mapsto> ep\<lparr>ep_sessions := remove1 a (ep_sessions ep)\<rparr>)\<rparr>))
      else if ss_context x then Some (s\<lparr>c_sessions := remove1 a (c_sessions s)\<rparr>)
      else Some s)"

text \<open>
  The delayed messages of a session carry no session pointer: a new node is zero and
  \<^verbatim>\<open>coap_session_delay_packet\<close> clears it, so deleting one releases nothing.  A message with a
  session there would be an error.
\<close>

definition nack_reason :: "coap_session_t \<Rightarrow> coap_nack_reason_t" where
  "nack_reason x = (if ss_proto x = COAP_UDP_DTLS then COAP_NACK_TLS_FAILED else COAP_NACK_NOT_DELIVERABLE)"

definition coap_session_free :: "addr \<Rightarrow> coap_context_t \<Rightarrow> coap_context_t option" where
  "coap_session_free a s =
     (if a = 0 then Some s
      else case c_sess s a of
        None \<Rightarrow> None
      | Some x \<Rightarrow>
          if ss_ref x \<noteq> 0 then Some s
          else if \<exists>q \<in> set (ss_sendqueue x). q_session q \<noteq> 0 then None
          else
            let s = (if ss_proto x = COAP_UDP_DTLS \<and> ss_tls x
                     then snd (ext_call ''TLSSession_free'' [int a] s) else s);
                s = (if ss_sock x then snd (ext_call ''close'' [int a] s) else s)
            in case unlink_session a x s of
                 None \<Rightarrow> None
               | Some s \<Rightarrow>
                   let s = (if ss_context x then fold (nack a (nack_reason x)) (ss_sendqueue x) s else s)
                   in Some (s\<lparr>c_sess := (c_sess s)(a := None)\<rparr>))"

definition coap_session_release :: "addr \<Rightarrow> coap_context_t \<Rightarrow> coap_context_t option" where
  "coap_session_release a s =
     (if a = 0 then Some s
      else case c_sess s a of
        None \<Rightarrow> None
      | Some x \<Rightarrow>
          let x = (if 0 < ss_ref x then x\<lparr>ss_ref := ss_ref x - 1\<rparr> else x); s = put_sess a x s
          in if ss_ref x = 0 \<and> ss_type x = COAP_SESSION_TYPE_CLIENT then coap_session_free a s else Some s)"

text \<open>Deleting a node frees its message and releases its session.\<close>

definition artik_coap_delete_node :: "coap_queue_t option \<Rightarrow> coap_context_t \<Rightarrow> coap_context_t option" where
  "artik_coap_delete_node node s =
     (case node of None \<Rightarrow> Some s | Some q \<Rightarrow> coap_session_release (q_session q) s)"

fun delete_nodes :: "coap_queue_t list \<Rightarrow> coap_context_t \<Rightarrow> coap_context_t option" where
  "delete_nodes [] s = Some s"
| "delete_nodes (q # qs) s = do { s \<leftarrow> artik_coap_delete_node (Some q) s; delete_nodes qs s }"

section \<open>Waiting for an acknowledgement\<close>

text \<open>The time a node gets, from the base time of the queue, and the insertion.\<close>

definition queue_at :: "u32 \<Rightarrow> u32 \<Rightarrow> coap_queue_t \<Rightarrow> coap_context_t \<Rightarrow> coap_context_t" where
  "queue_at now timeout node s =
     (let s = (if c_sendqueue s = [] then s\<lparr>c_basetime := now\<rparr> else s);
          t = (if c_sendqueue s = [] then timeout else (now - c_basetime s) + timeout)
      in s\<lparr>c_sendqueue := artik_coap_insert_node (c_sendqueue s) (node\<lparr>q_t := t\<rparr>)\<rparr>)"

definition coap_wait_ack :: "addr \<Rightarrow> coap_queue_t \<Rightarrow> coap_context_t \<Rightarrow> (int \<times> coap_context_t) option" where
  "coap_wait_ack session node s =
     do {
       s \<leftarrow> coap_session_reference session s;
       let (now, s) = coap_ticks s;
       Some (q_id node, queue_at now (q_timeout node) (node\<lparr>q_session := session\<rparr>) s)
     }"

text \<open>The message id is kept in network order in the message and in host order in the node.\<close>

definition ntohs :: "u16 \<Rightarrow> u16" where
  "ntohs m = push_bit 8 m OR drop_bit 8 m"

definition artik_coap_new_node :: "coap_packet_t \<Rightarrow> coap_queue_t" where
  "artik_coap_new_node packet =
     \<lparr>q_t = 0, q_retransmit_cnt = 0, q_timeout = 0, q_session = 0, q_id = uint (ntohs (pk_mid packet)), q_packet = packet\<rparr>"

text \<open>
  \<^verbatim>\<open>coap_session_delay_packet\<close>.  A message that is sent again is taken out of the send queue first.
  When the queue hands out another message than this one, the message is linked into two lists
  afterwards, which is an error.
\<close>

definition coap_session_delay_packet ::
  "addr \<Rightarrow> coap_packet_t \<Rightarrow> coap_queue_t option \<Rightarrow> coap_context_t \<Rightarrow> (int \<times> coap_context_t) option" where
  "coap_session_delay_packet session packet node s =
     (case node of
        Some node \<Rightarrow>
          (let (removed, queue) = artik_coap_remove_from_queue (c_sendqueue s) session (q_id node)
           in if map_option (q_t_update (\<lambda>_. 0)) removed \<noteq> Some (node\<lparr>q_t := 0\<rparr>) then None
              else do {
                s \<leftarrow> coap_session_release (q_session node) (s\<lparr>c_sendqueue := queue\<rparr>);
                x \<leftarrow> c_sess s session;
                Some (-3, put_sess session (x\<lparr>ss_sendqueue := ss_sendqueue x @ [node\<lparr>q_session := 0, q_t := 0\<rparr>]\<rparr>) s)
              })
      | None \<Rightarrow>
          (let (m, s) = ext_call ''malloc'' [] s
           in if m = 0 then Some (-1, s)
              else
                let node = artik_coap_new_node packet;
                    (node, s) = (if pk_type packet = COAP_TYPE_CON
                                 then let (r, s) = prng_byte s in (node\<lparr>q_timeout := of_nat (calc_timeout r)\<rparr>, s)
                                 else (node, s))
                in do {
                  x \<leftarrow> c_sess s session;
                  Some (-3, put_sess session (x\<lparr>ss_sendqueue := ss_sendqueue x @ [node]\<rparr>) s)
                }))"

section \<open>Sending\<close>

definition coap_dtls_send :: "addr \<Rightarrow> int \<Rightarrow> coap_context_t \<Rightarrow> (int \<times> coap_context_t) option" where
  "coap_dtls_send a n s =
     (let (res, s) = ext_call ''TLSSend'' [int a, n] s
      in if 0 \<le> res then Some (res, s)
         else let (fatal, s) = ext_call ''is_dtls_event_fatal'' [res] s
              in if fatal = 0 then Some (res, s)
                 else if \<not> c_nack_handler s then None
                 else do {
                   s \<leftarrow> coap_session_free a (s\<lparr>c_nacks := c_nacks s @ [(a, COAP_NACK_TLS_FAILED, 0)]\<rparr>);
                   Some (res, s)
                 })"

text \<open>A session without a socket of its own uses its endpoint's.\<close>

definition coap_session_send :: "addr \<Rightarrow> int \<Rightarrow> coap_context_t \<Rightarrow> (int \<times> coap_context_t) option" where
  "coap_session_send a n s =
     do {
       x \<leftarrow> c_sess s a;
       (if \<not> ss_sock x \<and> c_endpoints s (ss_endpoint x) = None then None else Some ());
       let (bytes_written, s) = ext_call ''network_send'' [int a, n] s;
       (if bytes_written = n
        then let (now, s) = coap_ticks s in Some (bytes_written, put_sess a (x\<lparr>ss_last_rx_tx := now\<rparr>) s)
        else Some (bytes_written, s))
     }"

text \<open>What the serialiser gets: the session and the header of the message.\<close>

fun type_number :: "coap_msg_type \<Rightarrow> int" where
  "type_number COAP_TYPE_CON = 0"
| "type_number COAP_TYPE_NON = 1"
| "type_number COAP_TYPE_ACK = 2"
| "type_number COAP_TYPE_RST = 3"

definition message :: "addr \<Rightarrow> coap_packet_t \<Rightarrow> int list" where
  "message a p = [int a, type_number (pk_type p), uint (pk_code p), uint (pk_mid p)] @ map uint (pk_token p)"

text \<open>
  The tail of \<^verbatim>\<open>coap_send_packet\<close>, after the message has been serialised; the strings of the
  header options that it builds before are not modelled.
\<close>

definition coap_send_packet ::
  "addr \<Rightarrow> coap_packet_t \<Rightarrow> coap_queue_t option \<Rightarrow> coap_context_t \<Rightarrow> (int \<times> coap_context_t) option" where
  "coap_send_packet a packet node s =
     do {
       x \<leftarrow> c_sess s a;
       let (n, s) = ext_call ''coap_serialize_message'' (message a packet) s;
       (if coap_is_mcast (ss_local x) \<and> 2 < drop_bit 5 (pk_code packet) then Some (-2, s)
        else if ss_state x = COAP_SESSION_STATE_NONE then
          (if ss_proto x = COAP_UDP_DTLS \<and> \<not> ss_tls x
           then let (t, s) = ext_call ''TLSSession'' [int a] s
                in if t = 0 then Some (-1, s)
                   else coap_session_delay_packet a packet node
                          (put_sess a (x\<lparr>ss_tls := True, ss_state := COAP_SESSION_STATE_ESTABLISHED\<rparr>) s)
           else Some (-1, s))
        else if ss_state x \<noteq> COAP_SESSION_STATE_ESTABLISHED then coap_session_delay_packet a packet node s
        else if ss_proto x = COAP_UDP_DTLS then coap_dtls_send a n s
        else coap_session_send a n s)
     }"

definition artik_coap_send :: "addr \<Rightarrow> coap_packet_t \<Rightarrow> coap_context_t \<Rightarrow> (int \<times> coap_context_t) option" where
  "artik_coap_send a packet s =
     do {
       (bytes_written, s) \<leftarrow> coap_send_packet a packet None s;
       (if bytes_written = -3 then Some (uint (ntohs (pk_mid packet)), s)
        else if bytes_written < 0 then Some (bytes_written, s)
        else if pk_type packet \<noteq> COAP_TYPE_CON then Some (uint (ntohs (pk_mid packet)), s)
        else let (m, s) = ext_call ''malloc'' [] s
             in if m = 0 then Some (-1, s)
                else let (r, s) = prng_byte s
                     in coap_wait_ack a ((artik_coap_new_node packet)\<lparr>q_timeout := of_nat (calc_timeout r)\<rparr>) s)
     }"

section \<open>Observers\<close>

definition COAP_OBS_MAX_FAIL :: nat where "COAP_OBS_MAX_FAIL = 3"

text \<open>
  A missing token matches every observer of the session.  Tokens have at most eight bytes: the
  parser and \<^verbatim>\<open>artik_handle_request\<close> reject longer ones.
\<close>

definition observes :: "addr \<Rightarrow> u8 list option \<Rightarrow> coap_subscription_t \<Rightarrow> bool" where
  "observes session token sub \<longleftrightarrow>
     sub_session sub = session \<and> (case token of None \<Rightarrow> True | Some t \<Rightarrow> token_match t (sub_token sub))"

definition artik_coap_find_observer ::
  "coap_subscription_t list \<Rightarrow> addr \<Rightarrow> u8 list option \<Rightarrow> coap_subscription_t option" where
  "artik_coap_find_observer subs session token = find (observes session token) subs"

definition put_subs :: "nat \<Rightarrow> coap_subscription_t list \<Rightarrow> coap_context_t \<Rightarrow> coap_context_t" where
  "put_subs r subs s = s\<lparr>c_subscribers := (c_subscribers s)[r := subs]\<rparr>"

definition free_query :: "addr \<Rightarrow> coap_context_t \<Rightarrow> coap_context_t option" where
  "free_query q s =
     (if q = 0 then Some s
      else case c_queries s q of
        None \<Rightarrow> None
      | Some _ \<Rightarrow> Some (s\<lparr>c_queries := (c_queries s)(q := None)\<rparr>))"

text \<open>
  A new observer holds a reference; an existing one is reused and gets the new query.  \<open>None\<close> is no
  memory.
\<close>

fun map_first :: "('a \<Rightarrow> bool) \<Rightarrow> ('a \<Rightarrow> 'a) \<Rightarrow> 'a list \<Rightarrow> 'a list" where
  "map_first P f [] = []"
| "map_first P f (x # xs) = (if P x then f x # xs else x # map_first P f xs)"

definition artik_coap_add_observer ::
  "nat \<Rightarrow> addr \<Rightarrow> u8 list \<Rightarrow> addr \<Rightarrow> coap_context_t \<Rightarrow> (coap_subscription_t option \<times> coap_context_t) option" where
  "artik_coap_add_observer r session token query s =
     (case artik_coap_find_observer (c_subscribers s ! r) session (Some token) of
        Some sub \<Rightarrow> do {
          s \<leftarrow> free_query (sub_query sub) s;
          Some (Some (sub\<lparr>sub_query := query\<rparr>), put_subs r
             (map_first (observes session (Some token)) (\<lambda>sub. sub\<lparr>sub_query := query\<rparr>) (c_subscribers s ! r)) s)
        }
      | None \<Rightarrow>
          (let (m, s) = ext_call ''malloc'' [] s
           in if m = 0 then do { s \<leftarrow> free_query query s; Some (None, s) }
              else do {
                s \<leftarrow> coap_session_reference session s;
                let sub = \<lparr>sub_session = session, sub_fail_cnt = 0, sub_token = take 8 token,
                           sub_non_cnt = 0, sub_dirty = False, sub_query = query\<rparr>;
                Some (Some sub, put_subs r (sub # c_subscribers s ! r) s)
              }))"

definition artik_coap_delete_observer ::
  "nat \<Rightarrow> addr \<Rightarrow> u8 list \<Rightarrow> coap_context_t \<Rightarrow> (nat \<times> coap_context_t) option" where
  "artik_coap_delete_observer r session token s =
     (case artik_coap_find_observer (c_subscribers s ! r) session (Some token) of
        None \<Rightarrow> Some (0, s)
      | Some _ \<Rightarrow> do {
          s \<leftarrow> coap_session_release session
                 (put_subs r (drop_first (observes session (Some token)) (c_subscribers s ! r)) s);
          Some (1, s)
        })"

text \<open>\<^verbatim>\<open>coap_delete_observers\<close>: the loop over one resource, then over all of them.\<close>

fun delete_subs :: "nat \<Rightarrow> addr \<Rightarrow> coap_subscription_t list \<Rightarrow> coap_context_t \<Rightarrow> coap_context_t option" where
  "delete_subs r session [] s = Some s"
| "delete_subs r session (sub # subs) s =
     (if sub_session sub = session
      then do {
        s \<leftarrow> coap_session_release session (put_subs r (remove1 sub (c_subscribers s ! r)) s);
        delete_subs r session subs s
      }
      else delete_subs r session subs s)"

fun delete_subs_from :: "addr \<Rightarrow> nat list \<Rightarrow> coap_context_t \<Rightarrow> coap_context_t option" where
  "delete_subs_from session [] s = Some s"
| "delete_subs_from session (r # rs) s =
     do { s \<leftarrow> delete_subs r session (c_subscribers s ! r) s; delete_subs_from session rs s }"

definition coap_delete_observers :: "addr \<Rightarrow> coap_context_t \<Rightarrow> coap_context_t option" where
  "coap_delete_observers session s = delete_subs_from session [0..<length (c_subscribers s)] s"

text \<open>The first observer found in every resource is reset.\<close>

definition artik_coap_touch_observer :: "addr \<Rightarrow> u8 list \<Rightarrow> coap_context_t \<Rightarrow> coap_context_t" where
  "artik_coap_touch_observer session token s =
     s\<lparr>c_subscribers :=
         map (map_first (observes session (Some token)) (\<lambda>sub. sub\<lparr>sub_fail_cnt := 0\<rparr>)) (c_subscribers s)\<rparr>"

definition cancel_messages :: "addr \<Rightarrow> u8 list \<Rightarrow> coap_context_t \<Rightarrow> coap_context_t option" where
  "cancel_messages session token s =
     (let (del, rest) = artik_coap_cancel_all_messages (c_sendqueue s) session token
      in delete_nodes del (s\<lparr>c_sendqueue := rest\<rparr>))"

definition coap_remove_failed_observers ::
  "nat \<Rightarrow> addr \<Rightarrow> u8 list \<Rightarrow> coap_context_t \<Rightarrow> coap_context_t option" where
  "coap_remove_failed_observers r session token s =
     (let P = observes session (Some token); subs = c_subscribers s ! r
      in case find P subs of
           None \<Rightarrow> Some s
         | Some obs \<Rightarrow>
             if sub_fail_cnt obs < COAP_OBS_MAX_FAIL
             then Some (put_subs r (map_first P (\<lambda>obs. obs\<lparr>sub_fail_cnt := (sub_fail_cnt obs + 1) mod 4\<rparr>) subs) s)
             else do {
               s \<leftarrow> cancel_messages (sub_session obs) (sub_token obs) (put_subs r (drop_first P subs) s);
               coap_session_release (sub_session obs) s
             })"

fun failed_notify_from :: "nat list \<Rightarrow> addr \<Rightarrow> u8 list \<Rightarrow> coap_context_t \<Rightarrow> coap_context_t option" where
  "failed_notify_from [] session token s = Some s"
| "failed_notify_from (r # rs) session token s =
     do { s \<leftarrow> coap_remove_failed_observers r session token s; failed_notify_from rs session token s }"

definition artik_coap_handle_failed_notify :: "addr \<Rightarrow> u8 list \<Rightarrow> coap_context_t \<Rightarrow> coap_context_t option" where
  "artik_coap_handle_failed_notify session token s =
     failed_notify_from [0..<length (c_subscribers s)] session token s"

section \<open>Retransmission\<close>

text \<open>
  Sending a popped message again.  After the last attempt the observer's failure is counted and a
  confirmable message is reported to the nack handler, which drops the reference of the
  application as well as the one of the message.
\<close>

definition artik_coap_retransmit ::
  "coap_queue_t option \<Rightarrow> coap_context_t \<Rightarrow> (int \<times> coap_context_t) option" where
  "artik_coap_retransmit node s =
     (case node of
        None \<Rightarrow> Some (-1, s)
      | Some node \<Rightarrow>
          if q_retransmit_cnt node < COAP_DEFAULT_MAX_RETRANSMIT then
            (let node = node\<lparr>q_retransmit_cnt := q_retransmit_cnt node + 1\<rparr>;
                 (now, s) = coap_ticks s;
                 s = queue_at now (push_bit (unat (q_retransmit_cnt node)) (q_timeout node)) node s
             in do {
                  (bytes_written, s) \<leftarrow> coap_send_packet (q_session node) (q_packet node) (Some node) s;
                  Some (if bytes_written = -3 then q_id node
                        else if bytes_written < 0 then bytes_written else q_id node, s)
                })
          else do {
            s \<leftarrow> (if 64 \<le> pk_code (q_packet node)
                  then artik_coap_handle_failed_notify (q_session node) (pk_token (q_packet node)) s else Some s);
            s \<leftarrow> (if pk_type (q_packet node) = COAP_TYPE_CON \<and> c_nack_handler s
                  then coap_session_release (q_session node)
                         (nack (q_session node) COAP_NACK_TOO_MANY_RETRIES node s)
                  else Some s);
            s \<leftarrow> artik_coap_delete_node (Some node) s;
            Some (-1, s)
          })"

text \<open>\<^verbatim>\<open>coap_write\<close>'s test and one round of its loop.\<close>

definition is_due :: "u32 \<Rightarrow> coap_context_t \<Rightarrow> bool" where
  "is_due now s \<longleftrightarrow>
     (case artik_coap_peek_next (c_sendqueue s) of
        None \<Rightarrow> False
      | Some nextpdu \<Rightarrow> c_basetime s \<le> now \<and> q_t nextpdu \<le> now - c_basetime s)"

definition write_round :: "coap_context_t \<Rightarrow> (int \<times> coap_context_t) option" where
  "write_round s =
     (let (next, queue) = artik_coap_pop_next (c_sendqueue s)
      in artik_coap_retransmit next (s\<lparr>c_sendqueue := queue\<rparr>))"

text \<open>
  The loop sends everything that is due.  It runs until the head of the queue is not due or an
  invalid access stops it; \<open>fuel\<close> bounds the rounds, and running out of it is \<^term>\<open>Inl ()\<close>.
\<close>

fun write_loop :: "nat \<Rightarrow> u32 \<Rightarrow> coap_context_t \<Rightarrow> unit + coap_context_t option" where
  "write_loop 0 now s = (if is_due now s then Inl () else Inr (Some s))"
| "write_loop (Suc fuel) now s =
     (if is_due now s then (case write_round s of None \<Rightarrow> Inr None | Some (r, s) \<Rightarrow> write_loop fuel now s)
      else Inr (Some s))"

section \<open>Acknowledgements and resets\<close>

definition take_sent :: "addr \<Rightarrow> int \<Rightarrow> coap_context_t \<Rightarrow> coap_queue_t option \<times> coap_context_t" where
  "take_sent session i s =
     (let (sent, queue) = artik_coap_remove_from_queue (c_sendqueue s) session i
      in (sent, s\<lparr>c_sendqueue := queue\<rparr>))"

fun cancel_from :: "nat list \<Rightarrow> addr \<Rightarrow> u8 list \<Rightarrow> nat \<Rightarrow> coap_context_t \<Rightarrow> (nat \<times> coap_context_t) option" where
  "cancel_from [] session token n s = Some (n, s)"
| "cancel_from (r # rs) session token n s =
     do {
       (k, s) \<leftarrow> artik_coap_delete_observer r session token s;
       s \<leftarrow> cancel_messages session token s;
       cancel_from rs session token (n + k) s
     }"

definition coap_cancel :: "coap_queue_t \<Rightarrow> coap_context_t \<Rightarrow> (nat \<times> coap_context_t) option" where
  "coap_cancel sent s =
     cancel_from [0..<length (c_subscribers s)] (q_session sent) (pk_token (q_packet sent)) 0 s"

text \<open>
  \<^verbatim>\<open>artik_coap_dispatch\<close> for an empty acknowledgement and for a reset.  The received message
  \<open>rcvd\<close> holds a reference of its own, which is dropped at the end.
\<close>

definition dispatch_empty_ack :: "coap_queue_t \<Rightarrow> coap_context_t \<Rightarrow> coap_context_t option" where
  "dispatch_empty_ack rcvd s =
     do {
       let (sent, s) = take_sent (q_session rcvd) (q_id rcvd) s;
       s \<leftarrow> artik_coap_delete_node sent s;
       artik_coap_delete_node (Some rcvd) s
     }"

definition dispatch_rst :: "coap_queue_t \<Rightarrow> coap_context_t \<Rightarrow> coap_context_t option" where
  "dispatch_rst rcvd s =
     do {
       let (sent, s) = take_sent (q_session rcvd) (q_id rcvd) s;
       s \<leftarrow> (case sent of
               None \<Rightarrow> Some s
             | Some sent \<Rightarrow> do {
                 (n, s) \<leftarrow> coap_cancel sent s;
                 Some (nack (q_session sent) COAP_NACK_RST
                         (sent\<lparr>q_id := uint (pk_mid (q_packet rcvd))\<rparr>) s)
               });
       s \<leftarrow> artik_coap_delete_node sent s;
       artik_coap_delete_node (Some rcvd) s
     }"

section \<open>State changes of a session\<close>

text \<open>The messages that waited for the connection are sent in order, until one cannot be sent.\<close>

fun send_delayed :: "addr \<Rightarrow> coap_queue_t list \<Rightarrow> coap_context_t \<Rightarrow> coap_context_t option" where
  "send_delayed a [] s = Some s"
| "send_delayed a (q # qs) s =
     do {
       x \<leftarrow> c_sess s a;
       if ss_state x \<noteq> COAP_SESSION_STATE_ESTABLISHED then Some s
       else do {
         let s = put_sess a (x\<lparr>ss_sendqueue := qs\<rparr>) s;
         let (n, s) = ext_call ''coap_serialize_message'' (message a (q_packet q)) s;
         (bytes_written, s) \<leftarrow> (if ss_proto x = COAP_UDP_DTLS then coap_dtls_send a n s else coap_session_send a n s);
         s \<leftarrow> (if pk_type (q_packet q) = COAP_TYPE_CON
               then do {
                 (r, s) \<leftarrow> coap_wait_ack a q s;
                 artik_coap_delete_node (if 0 \<le> r then None else Some q) s
               }
               else artik_coap_delete_node (Some q) s);
         if bytes_written < 0 then Some s else send_delayed a qs s
       }
     }"

definition coap_session_connected :: "addr \<Rightarrow> coap_context_t \<Rightarrow> coap_context_t option" where
  "coap_session_connected a s =
     do {
       x \<leftarrow> c_sess s a;
       send_delayed a (ss_sendqueue x) (put_sess a (x\<lparr>ss_state := COAP_SESSION_STATE_ESTABLISHED\<rparr>) s)
     }"

text \<open>The TLS state is dropped and the session goes back to its first state.\<close>

definition session_down :: "addr \<Rightarrow> coap_context_t \<Rightarrow> coap_context_t option" where
  "session_down a s =
     do {
       x \<leftarrow> c_sess s a;
       let (x, s) = (if ss_proto x = COAP_UDP_DTLS \<and> ss_tls x
                     then (x\<lparr>ss_tls := False\<rparr>, snd (ext_call ''TLSSession_free'' [int a] s)) else (x, s));
       Some (put_sess a (x\<lparr>ss_state := COAP_SESSION_STATE_NONE\<rparr>) s)
     }"

fun queue_delayed :: "addr \<Rightarrow> coap_queue_t list \<Rightarrow> coap_context_t \<Rightarrow> coap_context_t option" where
  "queue_delayed a [] s = Some s"
| "queue_delayed a (q # qs) s =
     do {
       x \<leftarrow> c_sess s a;
       let s = put_sess a (x\<lparr>ss_sendqueue := qs\<rparr>) s;
       s \<leftarrow> (if pk_type (q_packet q) = COAP_TYPE_CON
             then do {
               (r, s) \<leftarrow> coap_wait_ack a q s;
               artik_coap_delete_node (if 0 \<le> r then None else Some q) s
             }
             else artik_coap_delete_node (Some q) s);
       queue_delayed a qs s
     }"

definition coap_session_disconnected ::
  "addr \<Rightarrow> coap_nack_reason_t \<Rightarrow> coap_context_t \<Rightarrow> coap_context_t option" where
  "coap_session_disconnected a reason s =
     do {
       x \<leftarrow> c_sess s a;
       let s = (if reason = COAP_NACK_TLS_FAILED \<or> reason = COAP_NACK_NOT_DELIVERABLE
                then fold (nack a (nack_reason x)) (ss_sendqueue x) s else s);
       s \<leftarrow> session_down a s;
       queue_delayed a (ss_sendqueue x) s
     }"

fun nack_delete :: "addr \<Rightarrow> coap_queue_t list \<Rightarrow> coap_context_t \<Rightarrow> coap_context_t option" where
  "nack_delete a [] s = Some s"
| "nack_delete a (q # qs) s =
     do {
       s \<leftarrow> artik_coap_delete_node (Some q) (nack a COAP_NACK_NOT_DELIVERABLE q s);
       nack_delete a qs s
     }"

text \<open>The queued messages of the session are reported and deleted, its delayed ones after them.\<close>

definition coap_session_reset :: "addr \<Rightarrow> coap_context_t \<Rightarrow> coap_context_t option" where
  "coap_session_reset a s =
     do {
       s \<leftarrow> coap_delete_observers a s;
       let (log, del, rest) = coap_cancel_session_messages (c_nack_handler s) (c_sendqueue s) a;
       s \<leftarrow> nack_delete a del (s\<lparr>c_sendqueue := rest\<rparr>);
       s \<leftarrow> session_down a s;
       x \<leftarrow> c_sess s a;
       nack_delete a (ss_sendqueue x) (put_sess a (x\<lparr>ss_sendqueue := []\<rparr>) s)
     }"

section \<open>Creating sessions\<close>

text \<open>A new session is zero but for its arguments and its first message id.\<close>

definition coap_make_session ::
  "coap_protocol_t \<Rightarrow> session_type \<Rightarrow> coap_address_t \<Rightarrow> coap_address_t \<Rightarrow> addr \<Rightarrow> coap_context_t \<Rightarrow>
    (coap_session_t \<times> addr) option \<times> coap_context_t" where
  "coap_make_session proto type local remote endpoint s =
     (let (m, s) = ext_call ''malloc'' [] s
      in if m = 0 then (None, s)
         else
           let (r, s) = ext_call ''prng'' [] s; a = c_next s
           in (Some (\<lparr>ss_proto = proto, ss_type = type, ss_state = COAP_SESSION_STATE_NONE,
                      ss_context = True, ss_endpoint = endpoint, ss_tls = False, ss_sendqueue = [],
                      ss_last_rx_tx = 0, ss_ref = 0, ss_remote = remote, ss_local = local,
                      ss_sock = False, ss_newly_created = False, ss_tx_mid = of_int r\<rparr>, a), s\<lparr>c_next := a + 1\<rparr>))"

text \<open>
  The search of \<^verbatim>\<open>coap_endpoint_get_session\<close>: the session of the two addresses, or the number of
  idle sessions and the one that has been idle for the longest time.
\<close>

definition is_idle :: "coap_session_t \<Rightarrow> bool" where
  "is_idle x \<longleftrightarrow> ss_ref x = 0 \<and> ss_sendqueue x = [] \<and> ss_type x = COAP_SESSION_TYPE_SERVER"

fun scan_sessions ::
  "(addr \<Rightarrow> coap_session_t option) \<Rightarrow> coap_address_t \<Rightarrow> coap_address_t \<Rightarrow> addr list \<Rightarrow> nat \<Rightarrow> (addr \<times> u32) option \<Rightarrow>
    (addr + nat \<times> (addr \<times> u32) option) option" where
  "scan_sessions sess dst src [] n oldest = Some (Inr (n, oldest))"
| "scan_sessions sess dst src (a # as) n oldest =
     do {
       x \<leftarrow> sess a;
       if coap_address_equals (ss_local x) dst \<and> coap_address_equals (ss_remote x) src then Some (Inl a)
       else if is_idle x then
         scan_sessions sess dst src as (n + 1)
           (case oldest of
              None \<Rightarrow> Some (a, ss_last_rx_tx x)
            | Some (b, t) \<Rightarrow> if ss_last_rx_tx x < t then Some (a, ss_last_rx_tx x) else oldest)
       else scan_sessions sess dst src as n oldest
     }"

text \<open>The new session is put in front of the sessions of its endpoint.\<close>

definition link_session :: "addr \<Rightarrow> addr \<Rightarrow> coap_session_t \<Rightarrow> coap_context_t \<Rightarrow> coap_context_t option" where
  "link_session e a x s =
     do {
       ep \<leftarrow> c_endpoints s e;
       Some (put_sess a x (s\<lparr>c_endpoints := (c_endpoints s)(e \<mapsto> ep\<lparr>ep_sessions := a # ep_sessions ep\<rparr>)\<rparr>))
     }"

definition new_server_session ::
  "coap_protocol_t \<Rightarrow> addr \<Rightarrow> coap_address_t \<Rightarrow> coap_address_t \<Rightarrow> u32 \<Rightarrow> coap_context_t \<Rightarrow>
    (addr \<times> coap_context_t) option" where
  "new_server_session proto e dst src now s =
     (case coap_make_session proto COAP_SESSION_TYPE_SERVER dst src e s of
        (None, s) \<Rightarrow> Some (0, s)
      | (Some (x, a), s) \<Rightarrow>
          if proto = COAP_UDP_DTLS then
            (let x = x\<lparr>ss_last_rx_tx := now, ss_state := COAP_SESSION_STATE_HANDSHAKE\<rparr>;
                 (t, s) = ext_call ''TLSSession'' [int a] s
             in if t \<noteq> 0
                then do {
                  s \<leftarrow> link_session e a
                         (x\<lparr>ss_tls := True, ss_state := COAP_SESSION_STATE_ESTABLISHED, ss_newly_created := True\<rparr>) s;
                  Some (a, s)
                }
                else do { s \<leftarrow> coap_session_free a (put_sess a x s); Some (0, s) })
          else do {
            s \<leftarrow> link_session e a (x\<lparr>ss_last_rx_tx := now, ss_state := COAP_SESSION_STATE_ESTABLISHED\<rparr>) s;
            Some (a, s)
          })"

definition coap_endpoint_get_session ::
  "addr \<Rightarrow> coap_address_t \<Rightarrow> coap_address_t \<Rightarrow> u32 \<Rightarrow> coap_context_t \<Rightarrow> (addr \<times> coap_context_t) option" where
  "coap_endpoint_get_session e dst src now s =
     do {
       ep \<leftarrow> c_endpoints s e;
       found \<leftarrow> scan_sessions (c_sess s) dst src (ep_sessions ep) 0 None;
       case found of
         Inl a \<Rightarrow> do {
           x \<leftarrow> c_sess s a;
           Some (a, put_sess a (x\<lparr>ss_last_rx_tx := now, ss_newly_created := False\<rparr>) s)
         }
       | Inr (num_idle, oldest) \<Rightarrow> do {
           let old = (case oldest of None \<Rightarrow> 0 | Some (b, t) \<Rightarrow> b);
           s \<leftarrow> (if 0 < c_max_idle s \<and> c_max_idle s \<le> num_idle
                 then do { s \<leftarrow> coap_session_release old s; coap_session_free old s } else Some s);
           new_server_session (ep_proto ep) e dst src now s
         }
     }"

text \<open>
  Connecting a socket.  The result says whether it worked and whether \<^verbatim>\<open>getsockname\<close> and
  \<^verbatim>\<open>getpeername\<close> reported the addresses.
\<close>

definition connect_local :: "int \<Rightarrow> coap_address_t option \<Rightarrow> coap_context_t \<Rightarrow> bool \<times> coap_context_t" where
  "connect_local fd local_if s =
     (case local_if of
        None \<Rightarrow> (True, s)
      | Some _ \<Rightarrow>
          (let (_, s) = ext_call ''setsockopt'' [fd] s; (r, s) = ext_call ''bind'' [fd] s in (r \<noteq> -1, s)))"

definition coap_socket_connect_udp ::
  "coap_address_t option \<Rightarrow> coap_address_t \<Rightarrow> coap_context_t \<Rightarrow> (bool \<times> bool \<times> bool) \<times> coap_context_t" where
  "coap_socket_connect_udp local_if server s =
     (let (fd, s) = ext_call ''socket'' [] s
      in if fd = -1 then ((False, False, False), s)
         else
           let s = (if ad_family server = AF_INET6 then snd (ext_call ''setsockopt'' [fd] s) else s);
               (bound, s) = connect_local fd local_if s;
               (r, s) = (if bound then ext_call ''connect'' [fd] s else (-1, s))
           in if r = -1 then ((False, False, False), snd (ext_call ''close'' [fd] s))
              else
                let (sn, s) = ext_call ''getsockname'' [fd] s; (pn, s) = ext_call ''getpeername'' [fd] s
                in ((True, sn \<noteq> -1, pn \<noteq> -1), s))"

definition zero_address :: coap_address_t where
  "zero_address = \<lparr>ad_size = 0, ad_family = AF_OTHER, ad_port = 0, ad_bytes = []\<rparr>"

text \<open>\<open>names\<close> are the addresses that the system reports for the connected socket.\<close>

definition coap_session_create_client ::
  "coap_address_t \<times> coap_address_t \<Rightarrow> coap_address_t option \<Rightarrow> coap_address_t \<Rightarrow> coap_protocol_t \<Rightarrow>
    coap_context_t \<Rightarrow> (addr \<times> coap_context_t) option" where
  "coap_session_create_client names local_if server proto s =
     (case coap_make_session proto COAP_SESSION_TYPE_CLIENT
             (case local_if of None \<Rightarrow> zero_address | Some l \<Rightarrow> l) server 0 s of
        (None, s) \<Rightarrow> do { s \<leftarrow> coap_session_free 0 s; Some (0, s) }
      | (Some (x, a), s) \<Rightarrow>
          (case coap_socket_connect_udp local_if server s of
             ((ok, named, peer), s) \<Rightarrow>
               if \<not> ok then do { s \<leftarrow> coap_session_free a (put_sess a x s); Some (0, s) }
               else
                 Some (a, put_sess a
                   (x\<lparr>ss_ref := 1, ss_sock := True,
                      ss_local := (if named then fst names else ss_local x),
                      ss_remote := (if peer then snd names else ss_remote x)\<rparr>)
                   (s\<lparr>c_sessions := a # c_sessions s\<rparr>))))"

text \<open>A session whose handshake fails is freed whatever its count says.\<close>

definition coap_session_connect :: "addr \<Rightarrow> coap_context_t \<Rightarrow> (addr \<times> coap_context_t) option" where
  "coap_session_connect a s =
     do {
       x \<leftarrow> c_sess s a;
       let (x, r, s) =
         (if ss_proto x = COAP_UDP then (x\<lparr>ss_state := COAP_SESSION_STATE_ESTABLISHED\<rparr>, a, s)
          else let (t, s) = ext_call ''TLSSession'' [int a] s
               in if t \<noteq> 0 then (x\<lparr>ss_tls := True, ss_state := COAP_SESSION_STATE_ESTABLISHED\<rparr>, a, s)
                  else (x\<lparr>ss_tls := False, ss_ref := 0\<rparr>, 0, s));
       (if r = 0 then do { s \<leftarrow> coap_session_free a (put_sess a x s); Some (0, s) }
        else let (now, s) = coap_ticks s in Some (a, put_sess a (x\<lparr>ss_last_rx_tx := now\<rparr>) s))
     }"

definition coap_new_client_session ::
  "coap_address_t \<times> coap_address_t \<Rightarrow> coap_address_t option \<Rightarrow> coap_address_t \<Rightarrow> coap_protocol_t \<Rightarrow>
    coap_context_t \<Rightarrow> (addr \<times> coap_context_t) option" where
  "coap_new_client_session names local_if server proto s =
     do {
       (a, s) \<leftarrow> coap_session_create_client names local_if server proto s;
       (if a = 0 then Some (0, s) else coap_session_connect a s)
     }"

text \<open>
  The expiry of idle server sessions in \<^verbatim>\<open>coap_write\<close>, and freeing an endpoint.  The loop of
  \<^verbatim>\<open>coap_free_endpoint\<close> reads the \<^verbatim>\<open>next\<close> field of the session after the body has run.
\<close>

definition session_timeout :: "coap_context_t \<Rightarrow> u32" where
  "session_timeout s =
     (if 0 < c_session_timeout s then c_session_timeout s * of_nat COAP_TICKS_PER_SECOND
      else 300 * of_nat COAP_TICKS_PER_SECOND)"

fun expire_sessions :: "u32 \<Rightarrow> addr list \<Rightarrow> coap_context_t \<Rightarrow> coap_context_t option" where
  "expire_sessions now [] s = Some s"
| "expire_sessions now (a # as) s =
     do {
       x \<leftarrow> c_sess s a;
       s \<leftarrow> (if ss_type x = COAP_SESSION_TYPE_SERVER \<and> ss_ref x = 0 \<and> ss_sendqueue x = [] \<and>
                (ss_last_rx_tx x + session_timeout s \<le> now \<or> ss_state x = COAP_SESSION_STATE_NONE)
             then coap_session_free a s else Some s);
       expire_sessions now as s
     }"

fun free_sessions :: "addr list \<Rightarrow> coap_context_t \<Rightarrow> coap_context_t option" where
  "free_sessions [] s = Some s"
| "free_sessions (a # as) s =
     do {
       x \<leftarrow> c_sess s a;
       s \<leftarrow> (if ss_ref x = 0
             then coap_session_free a (put_sess a (x\<lparr>ss_endpoint := 0, ss_context := False\<rparr>) s) else Some s);
       next_field \<leftarrow> c_sess s a;
       free_sessions as s
     }"

definition coap_free_endpoint :: "addr \<Rightarrow> coap_context_t \<Rightarrow> coap_context_t option" where
  "coap_free_endpoint e s =
     (if e = 0 then Some s
      else do {
        ep \<leftarrow> c_endpoints s e;
        s \<leftarrow> free_sessions (ep_sessions ep) (snd (ext_call ''close'' [int e] s));
        Some (s\<lparr>c_endpoints := (c_endpoints s)(e := None)\<rparr>)
      })"

end
