(* ===== verification/Coap_References.thy ===== *)
theory Coap_References
  imports Coap_Session
begin

text \<open>
  The reference counts of the CoAP sessions.  Queued messages, observers, the application and the
  code that is running hold references; the invariant says that every count is the number of
  holders, that nothing refers to a freed session, and that the session lists lead to live
  sessions.  Every operation of \<^theory_text>\<open>Coap_Session\<close> keeps it.
\<close>

section \<open>Counting references\<close>

text \<open>
  The references to a session: the queued messages, the observers and, in \<open>app\<close>, those of the
  application and of the code that is running.
\<close>

definition q_count :: "coap_queue_t list \<Rightarrow> addr \<Rightarrow> nat" where
  "q_count queue a = length (filter (\<lambda>q. q_session q = a) queue)"

definition sub_count :: "coap_subscription_t list list \<Rightarrow> addr \<Rightarrow> nat" where
  "sub_count rs a = length (filter (\<lambda>sub. sub_session sub = a) (concat rs))"

definition held :: "coap_context_t \<Rightarrow> addr \<Rightarrow> nat" where
  "held s a = q_count (c_sendqueue s) a + sub_count (c_subscribers s) a"

definition sess_ok :: "nat \<Rightarrow> (addr \<Rightarrow> coap_endpoint_t option) \<Rightarrow> coap_session_t \<Rightarrow> bool" where
  "sess_ok n eps x \<longleftrightarrow>
     unat (ss_ref x) = n \<and> (\<forall>q \<in> set (ss_sendqueue x). q_session q = 0) \<and> ss_context x \<and>
     (ss_endpoint x \<noteq> 0 \<or> \<not> ss_sock x \<longrightarrow> eps (ss_endpoint x) \<noteq> None)"

text \<open>Every link of a list of sessions leads to a session that belongs to the list.\<close>

definition links_ok :: "coap_context_t \<Rightarrow> bool" where
  "links_ok s \<longleftrightarrow>
     (\<forall>e ep. c_endpoints s e = Some ep \<longrightarrow>
        e \<noteq> 0 \<and> distinct (ep_sessions ep) \<and>
        (\<forall>a \<in> set (ep_sessions ep). \<exists>x. c_sess s a = Some x \<and> ss_endpoint x = e)) \<and>
     distinct (c_sessions s) \<and>
     (\<forall>a \<in> set (c_sessions s). \<exists>x. c_sess s a = Some x \<and> ss_endpoint x = 0)"

text \<open>A slot of the store: nothing refers to a freed session, the count of a live one is right.\<close>

definition slot_ok :: "nat \<Rightarrow> (addr \<Rightarrow> coap_endpoint_t option) \<Rightarrow> addr \<Rightarrow> addr \<Rightarrow> coap_session_t option \<Rightarrow> bool" where
  "slot_ok n eps next_addr a slot \<longleftrightarrow>
     (case slot of None \<Rightarrow> n = 0 | Some x \<Rightarrow> a \<noteq> 0 \<and> a < next_addr \<and> sess_ok n eps x)"

lemma slot_ok_simps [simp]:
  "slot_ok n eps next_addr a None \<longleftrightarrow> n = 0"
  "slot_ok n eps next_addr a (Some x) \<longleftrightarrow> a \<noteq> 0 \<and> a < next_addr \<and> sess_ok n eps x"
  by (simp_all add: slot_ok_def)

definition coap_inv :: "(addr \<Rightarrow> nat) \<Rightarrow> coap_context_t \<Rightarrow> bool" where
  "coap_inv app s \<longleftrightarrow>
     c_nack_handler s \<and> 0 < c_next s \<and> links_ok s \<and>
     (\<forall>a. slot_ok (held s a + app a) (c_endpoints s) (c_next s) a (c_sess s a))"

lemma coap_inv_slot: "coap_inv app s \<Longrightarrow> slot_ok (held s a + app a) (c_endpoints s) (c_next s) a (c_sess s a)"
  by (simp add: coap_inv_def)

lemma coap_inv_None: "coap_inv app s \<Longrightarrow> c_sess s a = None \<Longrightarrow> held s a = 0 \<and> app a = 0"
  using coap_inv_slot [of app s a] by simp

lemma coap_inv_Some:
  "coap_inv app s \<Longrightarrow> c_sess s a = Some x \<Longrightarrow>
    a \<noteq> 0 \<and> a < c_next s \<and> sess_ok (held s a + app a) (c_endpoints s) x"
  using coap_inv_slot [of app s a] by simp

lemma coap_inv_alive: "coap_inv app s \<Longrightarrow> 0 < held s a + app a \<Longrightarrow> \<exists>x. c_sess s a = Some x"
  using coap_inv_None by fastforce

lemma coap_inv_cong:
  "c_sendqueue s' = c_sendqueue s \<Longrightarrow> c_subscribers s' = c_subscribers s \<Longrightarrow> c_sess s' = c_sess s \<Longrightarrow>
    c_endpoints s' = c_endpoints s \<Longrightarrow> c_sessions s' = c_sessions s \<Longrightarrow>
    c_nack_handler s' = c_nack_handler s \<Longrightarrow> c_next s' = c_next s \<Longrightarrow> coap_inv app s' = coap_inv app s"
  by (simp add: coap_inv_def links_ok_def held_def)

lemma coap_inv_world [simp]: "coap_inv app (s\<lparr>c_world := w\<rparr>) = coap_inv app s"
  by (rule coap_inv_cong) simp_all

lemma coap_inv_nacks [simp]: "coap_inv app (s\<lparr>c_nacks := w\<rparr>) = coap_inv app s"
  by (rule coap_inv_cong) simp_all

lemma coap_inv_basetime [simp]: "coap_inv app (s\<lparr>c_basetime := w\<rparr>) = coap_inv app s"
  by (rule coap_inv_cong) simp_all

text \<open>What a library call and the nack handler leave alone.\<close>

lemma ext_call_world: "\<exists>r w. ext_call f args s = (r, s\<lparr>c_world := w\<rparr>)"
  by (auto simp: ext_call_def split: prod.splits)

lemma ext_callE:
  obtains r w where "ext_call f args s = (r, s\<lparr>c_world := w\<rparr>)"
  using ext_call_world by blast

lemma coap_ticksE:
  obtains t w where "coap_ticks s = (t, s\<lparr>c_world := w\<rparr>)"
  using ext_call_world [of "''gettimeofday''" "[]" s] that by (auto simp: coap_ticks_def)

lemma prng_byteE:
  obtains t w where "prng_byte s = (t, s\<lparr>c_world := w\<rparr>)"
  unfolding prng_byte_def using ext_call_world [of "''prng''" "[]" s] by auto

lemma nack_log: "\<exists>l. nack a r q s = s\<lparr>c_nacks := l\<rparr>"
proof (cases "pk_type (q_packet q) = COAP_TYPE_CON \<and> c_nack_handler s")
  case False
  then have "nack a r q s = s\<lparr>c_nacks := c_nacks s\<rparr>" by (simp add: nack_def)
  then show ?thesis by blast
qed (auto simp: nack_def)

lemma fold_nack_log: "\<exists>l. fold (nack a r) qs s = s\<lparr>c_nacks := l\<rparr>"
proof (induction qs arbitrary: s)
  case Nil
  have "fold (nack a r) [] s = s\<lparr>c_nacks := c_nacks s\<rparr>" by simp
  then show ?case by blast
next
  case (Cons q qs)
  obtain l where "nack a r q s = s\<lparr>c_nacks := l\<rparr>" using nack_log by blast
  with Cons [of "s\<lparr>c_nacks := l\<rparr>"] show ?case by simp
qed

text \<open>Updates of one part of the state.\<close>

lemma put_sess_simps [simp]:
  "c_sendqueue (put_sess a x s) = c_sendqueue s" "c_subscribers (put_sess a x s) = c_subscribers s"
  "c_endpoints (put_sess a x s) = c_endpoints s" "c_sessions (put_sess a x s) = c_sessions s"
  "c_nack_handler (put_sess a x s) = c_nack_handler s" "c_next (put_sess a x s) = c_next s"
  "c_sess (put_sess a x s) = (c_sess s)(a \<mapsto> x)" "held (put_sess a x s) = held s"
  by (simp_all add: put_sess_def held_def fun_eq_iff)

lemma coap_inv_put:
  assumes "coap_inv app s" "c_sess s a = Some x"
    and "ss_endpoint x' = ss_endpoint x" "sess_ok (held s a + app' a) (c_endpoints s) x'"
    and "\<And>b. b \<noteq> a \<Longrightarrow> app' b = app b"
  shows "coap_inv app' (put_sess a x' s)"
proof -
  have "links_ok s" using assms(1) by (simp add: coap_inv_def)
  with assms(2,3) have "links_ok (put_sess a x' s)" unfolding links_ok_def by fastforce
  moreover have "slot_ok (held s b + app' b) (c_endpoints s) (c_next s) b (((c_sess s)(a \<mapsto> x')) b)" for b
    using assms coap_inv_slot [of app s b] by (cases "b = a") auto
  ultimately show ?thesis using assms(1) by (simp add: coap_inv_def)
qed

lemma coap_inv_held:
  assumes "coap_inv app s" "\<And>a. held s' a + app' a = held s a + app a"
    and "c_sess s' = c_sess s" "c_endpoints s' = c_endpoints s" "c_sessions s' = c_sessions s"
    and "c_nack_handler s' = c_nack_handler s" "c_next s' = c_next s"
  shows "coap_inv app' s'"
  using assms unfolding coap_inv_def links_ok_def by simp

lemma coap_inv_queue:
  "coap_inv app s \<Longrightarrow> (\<And>a. q_count queue a + app' a = q_count (c_sendqueue s) a + app a) \<Longrightarrow>
    coap_inv app' (s\<lparr>c_sendqueue := queue\<rparr>)"
  by (erule coap_inv_held) (simp_all add: held_def add.assoc add.left_commute)

lemma coap_inv_subs:
  "coap_inv app s \<Longrightarrow> (\<And>a. sub_count subs a + app' a = sub_count (c_subscribers s) a + app a) \<Longrightarrow>
    coap_inv app' (s\<lparr>c_subscribers := subs\<rparr>)"
  by (erule coap_inv_held) (simp_all add: held_def add.assoc)

section \<open>Freeing and releasing\<close>

lemma links_ok_unlink:
  assumes "links_ok s" "c_sess s a = Some x" "ss_context x" "a \<noteq> 0"
    and "ss_endpoint x \<noteq> 0 \<Longrightarrow> c_endpoints s (ss_endpoint x) \<noteq> None"
  shows "\<exists>s'. unlink_session a x s = Some s' \<and> c_sess s' = c_sess s \<and> c_sendqueue s' = c_sendqueue s \<and>
    c_subscribers s' = c_subscribers s \<and> c_nack_handler s' = c_nack_handler s \<and> c_next s' = c_next s \<and>
    (\<forall>e. (c_endpoints s' e = None) = (c_endpoints s e = None)) \<and>
    links_ok (s'\<lparr>c_sess := (c_sess s)(a := None)\<rparr>)"
proof (cases "ss_endpoint x = 0")
  case True
  with assms have "unlink_session a x s = Some (s\<lparr>c_sessions := remove1 a (c_sessions s)\<rparr>)"
    by (simp add: unlink_session_def)
  moreover have "links_ok (s\<lparr>c_sessions := remove1 a (c_sessions s), c_sess := (c_sess s)(a := None)\<rparr>)"
    using assms True unfolding links_ok_def by (auto dest: notin_set_remove1) fastforce+
  ultimately show ?thesis by simp
next
  case False
  with assms obtain ep where ep: "c_endpoints s (ss_endpoint x) = Some ep" by blast
  let ?ep = "ep\<lparr>ep_sessions := remove1 a (ep_sessions ep)\<rparr>"
  have "unlink_session a x s = Some (s\<lparr>c_endpoints := (c_endpoints s)(ss_endpoint x \<mapsto> ?ep)\<rparr>)"
    using False ep by (simp add: unlink_session_def)
  moreover have "links_ok (s\<lparr>c_endpoints := (c_endpoints s)(ss_endpoint x \<mapsto> ?ep), c_sess := (c_sess s)(a := None)\<rparr>)"
    using assms False ep unfolding links_ok_def by (auto dest: notin_set_remove1) fastforce+
  ultimately show ?thesis using ep by simp
qed

definition keeps :: "coap_context_t \<Rightarrow> coap_context_t \<Rightarrow> bool" where
  "keeps s s' \<longleftrightarrow>
     c_sendqueue s' = c_sendqueue s \<and> c_subscribers s' = c_subscribers s \<and>
     (\<forall>e. (c_endpoints s' e = None) = (c_endpoints s e = None))"

lemma keeps_trans: "keeps s s' \<Longrightarrow> keeps s' s'' \<Longrightarrow> keeps s s''"
  by (simp add: keeps_def)

lemma keeps_simps [simp]:
  "keeps s s" "keeps s (s'\<lparr>c_world := w\<rparr>) = keeps s s'" "keeps (s\<lparr>c_world := w\<rparr>) s' = keeps s s'"
  "keeps s (put_sess a x s') = keeps s s'" "keeps s (s'\<lparr>c_nacks := l\<rparr>) = keeps s s'"
  "keeps (put_sess a x s) s' = keeps s s'" "keeps (s\<lparr>c_nacks := l\<rparr>) s' = keeps s s'"
  by (simp_all add: keeps_def)

lemma keepsD: "keeps s s' \<Longrightarrow> held s' = held s"
  by (simp add: keeps_def held_def fun_eq_iff)

lemma coap_session_free_referenced:
  "c_sess s a = Some x \<Longrightarrow> ss_ref x \<noteq> 0 \<Longrightarrow> coap_session_free a s = Some s"
  by (simp add: coap_session_free_def)

lemma sess_ok_endpoints:
  "(\<forall>e. (eps' e = None) = (eps e = None)) \<Longrightarrow> sess_ok n eps' x = sess_ok n eps x"
  by (simp add: sess_ok_def)

lemma slot_ok_endpoints:
  "(\<forall>e. (eps' e = None) = (eps e = None)) \<Longrightarrow> slot_ok n eps' k a x = slot_ok n eps k a x"
  using sess_ok_endpoints [of eps' eps n] by (cases x) (auto simp del: not_None_eq)

text \<open>Freeing an unreferenced session, with the library calls made.\<close>

lemma coap_session_free_steps:
  assumes x: "c_sess s a = Some x" "ss_ref x = 0" "a \<noteq> 0"
  shows "\<exists>w. coap_session_free a s =
    (if \<exists>q \<in> set (ss_sendqueue x). q_session q \<noteq> 0 then None
     else case unlink_session a x (s\<lparr>c_world := w\<rparr>) of None \<Rightarrow> None
     | Some s \<Rightarrow> let s = (if ss_context x then fold (nack a (nack_reason x)) (ss_sendqueue x) s else s)
                 in Some (s\<lparr>c_sess := (c_sess s)(a := None)\<rparr>))"
proof -
  obtain w where w: "(if ss_proto x = COAP_UDP_DTLS \<and> ss_tls x
      then snd (ext_call ''TLSSession_free'' [int a] s) else s) = s\<lparr>c_world := w\<rparr>"
    by (cases "ss_proto x = COAP_UDP_DTLS \<and> ss_tls x")
      (auto intro: that [of "c_world s"] ext_callE [of "''TLSSession_free''" "[int a]" s])
  obtain w' where w': "(if ss_sock x then snd (ext_call ''close'' [int a] (s\<lparr>c_world := w\<rparr>)) else s\<lparr>c_world := w\<rparr>) =
      s\<lparr>c_world := w'\<rparr>"
    by (cases "ss_sock x") (auto intro: that [of w] ext_callE [of "''close''" "[int a]" "s\<lparr>c_world := w\<rparr>"])
  then show ?thesis
    unfolding coap_session_free_def using x w by (intro exI [of _ w']) (auto simp: Let_def)
qed

lemma coap_session_free_ok:
  assumes inv: "coap_inv app s" and x: "c_sess s a = Some x" and ref: "ss_ref x = 0"
  shows "\<exists>s'. coap_session_free a s = Some s' \<and> coap_inv app s' \<and> keeps s s' \<and> c_sess s' = (c_sess s)(a := None)"
proof -
  have ok: "a \<noteq> 0" "sess_ok (held s a + app a) (c_endpoints s) x"
    using coap_inv_Some [OF inv x] by auto
  then have zero: "held s a = 0" "app a = 0" using ref by (auto simp: sess_ok_def)
  obtain w where free: "coap_session_free a s =
    (if \<exists>q \<in> set (ss_sendqueue x). q_session q \<noteq> 0 then None
     else case unlink_session a x (s\<lparr>c_world := w\<rparr>) of None \<Rightarrow> None
     | Some s \<Rightarrow> let s = (if ss_context x then fold (nack a (nack_reason x)) (ss_sendqueue x) s else s)
                 in Some (s\<lparr>c_sess := (c_sess s)(a := None)\<rparr>))"
    using coap_session_free_steps [OF x ref ok(1)] by blast
  let ?s = "s\<lparr>c_world := w\<rparr>"
  have "links_ok ?s" using inv by (simp add: coap_inv_def links_ok_def)
  then obtain t where t: "unlink_session a x ?s = Some t" "c_sess t = c_sess s"
      "c_sendqueue t = c_sendqueue s" "c_subscribers t = c_subscribers s" "c_nack_handler t = c_nack_handler s"
      "c_next t = c_next s" "\<forall>e. (c_endpoints t e = None) = (c_endpoints s e = None)"
      "links_ok (t\<lparr>c_sess := (c_sess s)(a := None)\<rparr>)"
    using links_ok_unlink [of ?s a x] ok x by (auto simp: sess_ok_def simp del: not_None_eq)
  obtain l where l: "fold (nack a (nack_reason x)) (ss_sendqueue x) t = t\<lparr>c_nacks := l\<rparr>"
    using fold_nack_log by blast
  let ?t = "t\<lparr>c_nacks := l, c_sess := (c_sess s)(a := None)\<rparr>"
  have "coap_session_free a s = Some ?t"
    using free ok t l by (auto simp: sess_ok_def)
  moreover have "coap_inv app ?t"
  proof -
    have h: "held ?t = held s" using t by (simp add: held_def fun_eq_iff)
    have "slot_ok (held s b + app b) (c_endpoints t) (c_next s) b (((c_sess s)(a := None)) b)" for b
      using coap_inv_slot [OF inv, of b] zero slot_ok_endpoints [OF t(7)] by auto
    moreover have "links_ok ?t" using t(8) by (simp add: links_ok_def)
    ultimately show ?thesis using inv t h by (simp add: coap_inv_def)
  qed
  moreover have "keeps s ?t" using t by (simp add: keeps_def)
  ultimately show ?thesis by (intro exI [of _ ?t]) simp
qed

text \<open>Dropping a reference that is counted in \<open>app\<close>.\<close>

definition drop_ref :: "addr \<Rightarrow> (addr \<Rightarrow> nat) \<Rightarrow> addr \<Rightarrow> nat" where
  "drop_ref a app = app(a := app a - 1)"

definition take_ref :: "addr \<Rightarrow> (addr \<Rightarrow> nat) \<Rightarrow> addr \<Rightarrow> nat" where
  "take_ref a app = app(a := app a + 1)"

lemma take_drop [simp]: "drop_ref a (take_ref a app) = app"
  by (simp add: take_ref_def drop_ref_def)

lemma coap_session_release_ok:
  assumes inv: "coap_inv app s" and app: "0 < app a"
  shows "\<exists>s'. coap_session_release a s = Some s' \<and> coap_inv (drop_ref a app) s' \<and> keeps s s' \<and>
    (\<forall>b. b \<noteq> a \<longrightarrow> c_sess s' b = c_sess s b)"
proof -
  from coap_inv_alive [OF inv] app obtain x where x: "c_sess s a = Some x" by auto
  have ok: "a \<noteq> 0" "sess_ok (held s a + app a) (c_endpoints s) x"
    using coap_inv_Some [OF inv x] by auto
  then have pos: "0 < ss_ref x" using app by (auto simp: sess_ok_def word_less_nat_alt)
  have "unat (ss_ref x - 1) = unat (ss_ref x) - 1"
    using pos by (subst unat_sub) (simp_all add: word_le_nat_alt word_less_nat_alt)
  then have x': "sess_ok (held s a + drop_ref a app a) (c_endpoints s) (x\<lparr>ss_ref := ss_ref x - 1\<rparr>)"
    using ok app by (auto simp: sess_ok_def drop_ref_def)
  let ?s = "put_sess a (x\<lparr>ss_ref := ss_ref x - 1\<rparr>) s"
  have inv': "coap_inv (drop_ref a app) ?s"
    using x' by (intro coap_inv_put [OF inv x]) (simp_all add: drop_ref_def)
  show ?thesis
  proof (cases "ss_ref x - 1 = 0 \<and> ss_type x = COAP_SESSION_TYPE_CLIENT")
    case True
    then obtain s' where "coap_session_free a ?s = Some s'" "coap_inv (drop_ref a app) s'" "keeps ?s s'"
        "c_sess s' = (c_sess ?s)(a := None)"
      using coap_session_free_ok [OF inv', of a "x\<lparr>ss_ref := ss_ref x - 1\<rparr>"] by auto
    with True ok pos x show ?thesis by (auto simp: coap_session_release_def Let_def)
  next
    case False
    then have "coap_session_release a s = Some ?s"
      using ok pos x by (auto simp: coap_session_release_def Let_def)
    then show ?thesis using inv' by (intro exI [of _ ?s]) (auto)
  qed
qed

lemma coap_session_release_NULL [simp]: "coap_session_release 0 s = Some s"
  by (simp add: coap_session_release_def)

lemma coap_session_reference_ok:
  assumes inv: "coap_inv app s" and alive: "c_sess s a = Some x" and small: "held s a + app a < 255"
  shows "coap_session_reference a s = Some (put_sess a (x\<lparr>ss_ref := ss_ref x + 1\<rparr>) s) \<and>
    coap_inv (take_ref a app) (put_sess a (x\<lparr>ss_ref := ss_ref x + 1\<rparr>) s)"
proof -
  have ok: "sess_ok (held s a + app a) (c_endpoints s) x" using coap_inv_Some [OF inv alive] by simp
  then have "unat (ss_ref x + 1) = unat (ss_ref x) + 1"
    using small by (subst unat_plus_simple [THEN iffD1]) (auto simp: sess_ok_def word_le_nat_alt unat_word_ariths)
  then have "sess_ok (held s a + take_ref a app a) (c_endpoints s) (x\<lparr>ss_ref := ss_ref x + 1\<rparr>)"
    using ok by (simp add: sess_ok_def take_ref_def)
  then have "coap_inv (take_ref a app) (put_sess a (x\<lparr>ss_ref := ss_ref x + 1\<rparr>) s)"
    by (intro coap_inv_put [OF inv alive]) (simp_all add: take_ref_def)
  then show ?thesis using alive by (simp add: coap_session_reference_def)
qed

section \<open>Moving references\<close>

lemma q_count_simps [simp]:
  "q_count [] a = 0" "q_count (q # qs) a = of_bool (q_session q = a) + q_count qs a"
  "q_count (qs @ qs') a = q_count qs a + q_count qs' a"
  by (simp_all add: q_count_def)

lemma q_count_insert_after:
  "q_count (insert_after p qs node) a = q_count (p # qs) a + of_bool (q_session node = a)"
  by (induction p qs node rule: insert_after.induct) (simp_all add: Let_def)

lemma q_count_insert [simp]:
  "q_count (artik_coap_insert_node queue node) a = q_count queue a + of_bool (q_session node = a)"
  by (simp add: artik_coap_insert_node_def q_count_insert_after split: list.split)

lemma q_count_add_head [simp]: "q_count (add_head d qs) a = q_count qs a"
  by (simp add: add_head_def split: list.split)

definition opt_count :: "coap_queue_t option \<Rightarrow> addr \<Rightarrow> nat" where
  "opt_count node a = (case node of None \<Rightarrow> 0 | Some q \<Rightarrow> of_bool (q_session q = a))"

lemma opt_count_simps [simp]: "opt_count None a = 0" "opt_count (Some q) a = of_bool (q_session q = a)"
  by (simp_all add: opt_count_def)

lemma q_count_remove_after:
  "remove_after s i qs = (r, qs') \<Longrightarrow> q_count qs a = q_count qs' a + opt_count r a"
  by (induction qs arbitrary: qs') (auto split: if_splits prod.splits)

lemma q_count_remove:
  "artik_coap_remove_from_queue queue s i = (r, queue') \<Longrightarrow> q_count queue a = q_count queue' a + opt_count r a"
  by (cases queue)
    (auto simp: artik_coap_remove_from_queue_def split: if_splits prod.splits dest: q_count_remove_after [of s i _ _ _ a])

lemma q_count_pop:
  "artik_coap_pop_next queue = (r, queue') \<Longrightarrow> q_count queue a = q_count queue' a + opt_count r a"
  by (auto simp: artik_coap_pop_next_def split: list.splits)

lemma q_count_filter: "q_count (filter P qs) a + q_count (filter (\<lambda>q. \<not> P q) qs) a = q_count qs a"
  by (induction qs) auto

lemma delete_nodes_ok:
  "coap_inv (\<lambda>a. app a + q_count del a) s \<Longrightarrow>
    \<exists>s'. delete_nodes del s = Some s' \<and> coap_inv app s' \<and> keeps s s'"
proof (induction del arbitrary: s)
  case (Cons q del)
  let ?app = "\<lambda>a. app a + q_count (q # del) a"
  have "drop_ref (q_session q) ?app = (\<lambda>a. app a + q_count del a)"
    by (auto simp: drop_ref_def fun_eq_iff)
  then obtain s1 where s1: "coap_session_release (q_session q) s = Some s1"
      "coap_inv (\<lambda>a. app a + q_count del a) s1" "keeps s s1"
    using coap_session_release_ok [OF Cons.prems, of "q_session q"] by auto
  from Cons.IH [OF s1(2)] obtain s' where "delete_nodes del s1 = Some s'" "coap_inv app s'" "keeps s1 s'"
    by blast
  with s1 show ?case by (auto simp: artik_coap_delete_node_def intro: keeps_trans)
qed (simp)

text \<open>Operations that also change the queue or the observers keep the other list.\<close>

definition keeps_subs :: "coap_context_t \<Rightarrow> coap_context_t \<Rightarrow> bool" where
  "keeps_subs s s' \<longleftrightarrow>
     c_subscribers s' = c_subscribers s \<and> (\<forall>e. (c_endpoints s' e = None) = (c_endpoints s e = None))"

lemma cancel_messages_ok:
  assumes inv: "coap_inv app s" and "a \<noteq> 0"
  shows "\<exists>s'. cancel_messages a token s = Some s' \<and> coap_inv app s' \<and> keeps_subs s s'"
proof -
  let ?P = "\<lambda>q. q_session q = a \<and> token_match token (pk_token (q_packet q))"
  have c: "artik_coap_cancel_all_messages (c_sendqueue s) a token =
      (filter ?P (c_sendqueue s), filter (\<lambda>q. \<not> ?P q) (c_sendqueue s))"
    unfolding artik_coap_cancel_all_messages_def by (rule cancel_loops_eq) (use assms in simp)
  let ?s = "s\<lparr>c_sendqueue := filter (\<lambda>q. \<not> ?P q) (c_sendqueue s)\<rparr>"
  have "coap_inv (\<lambda>b. app b + q_count (filter ?P (c_sendqueue s)) b) ?s"
    by (rule coap_inv_queue [OF inv]) (use q_count_filter [of ?P "c_sendqueue s"] in \<open>simp add: add.commute add.left_commute\<close>)
  from delete_nodes_ok [OF this] c show ?thesis
    by (auto simp: cancel_messages_def keeps_def keeps_subs_def)
qed

definition s_count :: "coap_subscription_t list \<Rightarrow> addr \<Rightarrow> nat" where
  "s_count subs a = length (filter (\<lambda>sub. sub_session sub = a) subs)"

lemma s_count_simps [simp]:
  "s_count [] a = 0" "s_count (sub # subs) a = of_bool (sub_session sub = a) + s_count subs a"
  by (simp_all add: s_count_def)

lemma sub_count_update:
  "r < length rs \<Longrightarrow> sub_count (rs[r := subs]) a + s_count (rs ! r) a = sub_count rs a + s_count subs a"
proof (induction rs arbitrary: r)
  case (Cons x rs)
  then show ?case by (cases r) (auto simp: sub_count_def s_count_def)
qed simp

lemma put_subs_inv:
  assumes "coap_inv app s" "r < length (c_subscribers s)"
    and "\<And>a. s_count subs a + app' a = s_count (c_subscribers s ! r) a + app a"
  shows "coap_inv app' (put_subs r subs s)"
  unfolding put_subs_def
proof (rule coap_inv_subs [OF assms(1)])
  fix a
  show "sub_count ((c_subscribers s)[r := subs]) a + app' a = sub_count (c_subscribers s) a + app a"
    using sub_count_update [OF assms(2), of subs a] assms(3) [of a] by simp
qed

lemma s_count_drop_first:
  "find P subs = Some sub \<Longrightarrow> s_count (drop_first P subs) a + of_bool (sub_session sub = a) = s_count subs a"
  by (induction subs) (auto split: if_splits)

lemma s_count_map_first:
  "(\<And>sub. sub_session (f sub) = sub_session sub) \<Longrightarrow> s_count (map_first P f subs) a = s_count subs a"
  by (induction subs) auto

lemma find_observes: "find (observes a t) subs = Some sub \<Longrightarrow> sub_session sub = a"
  by (auto simp: find_Some_iff observes_def)

text \<open>The number of resources never changes.\<close>

definition keeps_shape :: "coap_context_t \<Rightarrow> coap_context_t \<Rightarrow> bool" where
  "keeps_shape s s' \<longleftrightarrow>
     length (c_subscribers s') = length (c_subscribers s) \<and>
     (\<forall>e. (c_endpoints s' e = None) = (c_endpoints s e = None))"

lemma keeps_shape_trans: "keeps_shape s s' \<Longrightarrow> keeps_shape s' s'' \<Longrightarrow> keeps_shape s s''"
  by (simp add: keeps_shape_def)

lemma keeps_shapeI: "keeps s s' \<Longrightarrow> keeps_shape s s'" "keeps_subs s s' \<Longrightarrow> keeps_shape s s'"
  by (simp_all add: keeps_def keeps_subs_def keeps_shape_def)

lemma keeps_shape_simps [simp]:
  "keeps_shape s s" "keeps_shape s (s'\<lparr>c_world := w\<rparr>) = keeps_shape s s'" "keeps_shape (s\<lparr>c_world := w\<rparr>) s' = keeps_shape s s'"
  "keeps_shape s (put_sess a x s') = keeps_shape s s'" "keeps_shape (put_subs r subs s) s' = keeps_shape s s'"
  "keeps_shape s (put_subs r subs s') = keeps_shape s s'" "keeps_shape s (s'\<lparr>c_nacks := l\<rparr>) = keeps_shape s s'"
  "keeps_shape s (s'\<lparr>c_sendqueue := q\<rparr>) = keeps_shape s s'" "keeps_shape (s\<lparr>c_sendqueue := q\<rparr>) s' = keeps_shape s s'"
  "keeps_shape (put_sess a x s) s' = keeps_shape s s'" "keeps_shape (s\<lparr>c_nacks := l\<rparr>) s' = keeps_shape s s'"
  "keeps_shape s (s'\<lparr>c_basetime := t\<rparr>) = keeps_shape s s'" "keeps_shape (s\<lparr>c_basetime := t\<rparr>) s' = keeps_shape s s'"
  by (simp_all add: keeps_shape_def put_sess_def put_subs_def)

section \<open>The operations keep the counts\<close>

lemma coap_inv_queries [simp]: "coap_inv app (s\<lparr>c_queries := q\<rparr>) = coap_inv app s"
  by (rule coap_inv_cong) simp_all

lemma free_query_ok:
  assumes "query = 0 \<or> c_queries s query \<noteq> None"
  shows "\<exists>q. free_query query s = Some (s\<lparr>c_queries := q\<rparr>)"
proof (cases "query = 0")
  case True
  have "s = s\<lparr>c_queries := c_queries s\<rparr>" by simp
  with True show ?thesis by (metis free_query_def)
qed (use assms in \<open>auto simp: free_query_def\<close>)

text \<open>
  Observing: the query of an observer that is already there, and the one that is given, are blocks
  that can be freed.
\<close>

definition query_ok :: "nat \<Rightarrow> addr \<Rightarrow> u8 list \<Rightarrow> addr \<Rightarrow> coap_context_t \<Rightarrow> bool" where
  "query_ok r a token query s \<longleftrightarrow>
     (query = 0 \<or> c_queries s query \<noteq> None) \<and>
     (case artik_coap_find_observer (c_subscribers s ! r) a (Some token) of
        None \<Rightarrow> True
      | Some sub \<Rightarrow> sub_query sub = 0 \<or> c_queries s (sub_query sub) \<noteq> None)"

lemma artik_coap_add_observer_ok:
  assumes inv: "coap_inv app s" and r: "r < length (c_subscribers s)"
    and alive: "c_sess s a \<noteq> None" and small: "held s a + app a < 255" and query: "query_ok r a token query s"
  shows "\<exists>sub s'. artik_coap_add_observer r a token query s = Some (sub, s') \<and> coap_inv app s' \<and> keeps_shape s s'"
proof (cases "artik_coap_find_observer (c_subscribers s ! r) a (Some token)")
  case None
  obtain m w where m: "ext_call ''malloc'' [] s = (m, s\<lparr>c_world := w\<rparr>)" by (rule ext_callE)
  show ?thesis
  proof (cases "m = 0")
    case True
    have "query = 0 \<or> c_queries (s\<lparr>c_world := w\<rparr>) query \<noteq> None" using query by (simp add: query_ok_def)
    then obtain q where "free_query query (s\<lparr>c_world := w\<rparr>) = Some (s\<lparr>c_world := w\<rparr>\<lparr>c_queries := q\<rparr>)"
      using free_query_ok by blast
    with True None m inv show ?thesis
      by (simp add: artik_coap_add_observer_def keeps_shape_def)
  next
    case False
    from alive obtain x where x: "c_sess s a = Some x" by auto
    let ?s = "s\<lparr>c_world := w\<rparr>" and ?sub = "\<lparr>sub_session = a, sub_fail_cnt = 0, sub_token = take 8 token,
      sub_non_cnt = 0, sub_dirty = False, sub_query = query\<rparr>"
    let ?t = "put_sess a (x\<lparr>ss_ref := ss_ref x + 1\<rparr>) ?s"
    have t: "coap_session_reference a ?s = Some ?t" "coap_inv (take_ref a app) ?t"
      using coap_session_reference_ok [of app ?s a x] inv x small by (simp_all add: held_def)
    have "coap_inv app (put_subs r (?sub # c_subscribers s ! r) ?t)"
      by (rule put_subs_inv [OF t(2)]) (use r in \<open>auto simp: take_ref_def\<close>)
    with None m False t(1) show ?thesis by (simp add: artik_coap_add_observer_def Let_def)
  qed
next
  case (Some sub)
  then obtain q where q: "free_query (sub_query sub) s = Some (s\<lparr>c_queries := q\<rparr>)"
    using query free_query_ok by (fastforce simp: query_ok_def)
  have "coap_inv app (put_subs r (map_first (observes a (Some token)) (\<lambda>sub. sub\<lparr>sub_query := query\<rparr>)
      (c_subscribers s ! r)) (s\<lparr>c_queries := q\<rparr>))"
    by (rule put_subs_inv) (use inv r in \<open>simp_all add: s_count_map_first\<close>)
  with Some q show ?thesis by (simp add: artik_coap_add_observer_def keeps_shape_def put_subs_def)
qed

lemma unsubscribe_ok:
  assumes inv: "coap_inv app s" and r: "r < length (c_subscribers s)"
    and "\<And>b. s_count subs b + of_bool (a = b) = s_count (c_subscribers s ! r) b"
  shows "\<exists>s'. coap_session_release a (put_subs r subs s) = Some s' \<and> coap_inv app s' \<and>
    keeps (put_subs r subs s) s'"
proof -
  have "coap_inv (take_ref a app) (put_subs r subs s)"
  proof (rule put_subs_inv [OF inv r])
    show "s_count subs b + take_ref a app b = s_count (c_subscribers s ! r) b + app b" for b
      using assms(3) [of b] by (auto simp: take_ref_def)
  qed
  from coap_session_release_ok [OF this, of a] show ?thesis by (auto simp: take_ref_def drop_ref_def)
qed

lemma keeps_put_subs: "keeps (put_subs r subs s) s' \<Longrightarrow>
    c_subscribers s' = (c_subscribers s)[r := subs] \<and> c_sendqueue s' = c_sendqueue s \<and> keeps_shape s s'"
  by (simp add: keeps_def put_subs_def keeps_shape_def)

lemma artik_coap_delete_observer_ok:
  assumes inv: "coap_inv app s" and r: "r < length (c_subscribers s)"
  shows "\<exists>k s'. artik_coap_delete_observer r a token s = Some (k, s') \<and> coap_inv app s' \<and> keeps_shape s s'"
proof (cases "artik_coap_find_observer (c_subscribers s ! r) a (Some token)")
  case (Some sub)
  let ?subs = "drop_first (observes a (Some token)) (c_subscribers s ! r)"
  have f: "find (observes a (Some token)) (c_subscribers s ! r) = Some sub"
    using Some by (simp add: artik_coap_find_observer_def)
  from s_count_drop_first [OF f] find_observes [OF f] obtain s' where
    "coap_session_release a (put_subs r ?subs s) = Some s'" "coap_inv app s'" "keeps (put_subs r ?subs s) s'"
    using unsubscribe_ok [OF inv r, of ?subs a] by auto
  with Some keeps_put_subs [of r ?subs s s'] show ?thesis by (simp add: artik_coap_delete_observer_def)
qed (use inv in \<open>simp add: artik_coap_delete_observer_def\<close>)

lemma delete_subs_ok:
  "coap_inv app s \<Longrightarrow> r < length (c_subscribers s) \<Longrightarrow> c_subscribers s ! r = pre @ subs \<Longrightarrow>
    \<forall>sub \<in> set pre. sub_session sub \<noteq> a \<Longrightarrow>
    \<exists>s'. delete_subs r a subs s = Some s' \<and> coap_inv app s' \<and> keeps_shape s s'"
proof (induction subs arbitrary: s pre)
  case (Cons sub subs)
  show ?case
  proof (cases "sub_session sub = a")
    case True
    with Cons.prems(4) have "sub \<notin> set pre" by blast
    then have rem: "remove1 sub (c_subscribers s ! r) = pre @ subs"
      using Cons.prems(3) by (simp add: remove1_append)
    have "s_count (pre @ subs) b + of_bool (a = b) = s_count (c_subscribers s ! r) b" for b
      using Cons.prems(3) True by (simp add: s_count_def)
    from unsubscribe_ok [OF Cons.prems(1,2) this] obtain s1 where s1:
      "coap_session_release a (put_subs r (pre @ subs) s) = Some s1" "coap_inv app s1"
      "keeps (put_subs r (pre @ subs) s) s1" by blast
    have "c_subscribers s1 ! r = pre @ subs" "r < length (c_subscribers s1)" "keeps_shape s s1"
      using keeps_put_subs [OF s1(3)] Cons.prems(2) by (simp_all)
    with Cons.IH [OF s1(2) _ _ Cons.prems(4)] s1(1) True rem show ?thesis
      by (auto intro: keeps_shape_trans)
  next
    case False
    with Cons.IH [OF Cons.prems(1,2), of "pre @ [sub]"] Cons.prems(3,4) show ?thesis by auto
  qed
qed simp

lemma delete_subs_from_ok:
  "coap_inv app s \<Longrightarrow> \<forall>r \<in> set rs. r < length (c_subscribers s) \<Longrightarrow>
    \<exists>s'. delete_subs_from a rs s = Some s' \<and> coap_inv app s' \<and> keeps_shape s s'"
proof (induction rs arbitrary: s)
  case (Cons r rs)
  from delete_subs_ok [OF Cons.prems(1), of r "[]" "c_subscribers s ! r" a] Cons.prems(2)
  obtain s1 where s1: "delete_subs r a (c_subscribers s ! r) s = Some s1" "coap_inv app s1" "keeps_shape s s1"
    by auto
  with Cons.IH [OF s1(2)] Cons.prems(2) show ?case
    by (auto simp: keeps_shape_def)
qed simp

lemma coap_delete_observers_ok:
  "coap_inv app s \<Longrightarrow> \<exists>s'. coap_delete_observers a s = Some s' \<and> coap_inv app s' \<and> keeps_shape s s'"
  unfolding coap_delete_observers_def by (rule delete_subs_from_ok) auto

lemma coap_remove_failed_observers_ok:
  assumes inv: "coap_inv app s" and r: "r < length (c_subscribers s)"
  shows "\<exists>s'. coap_remove_failed_observers r a token s = Some s' \<and> coap_inv app s' \<and> keeps_shape s s'"
proof (cases "find (observes a (Some token)) (c_subscribers s ! r)")
  case None
  with inv show ?thesis by (simp add: coap_remove_failed_observers_def)
next
  case (Some sub)
  let ?P = "observes a (Some token)"
  show ?thesis
  proof (cases "sub_fail_cnt sub < COAP_OBS_MAX_FAIL")
    case True
    have "coap_inv app (put_subs r (map_first ?P (\<lambda>obs. obs\<lparr>sub_fail_cnt := (sub_fail_cnt obs + 1) mod 4\<rparr>)
        (c_subscribers s ! r)) s)"
      by (rule put_subs_inv [OF inv r]) (simp add: s_count_map_first)
    with Some True show ?thesis by (simp add: coap_remove_failed_observers_def)
  next
    case False
    let ?s = "put_subs r (drop_first ?P (c_subscribers s ! r)) s"
    have a: "sub_session sub = a" using find_observes Some by blast
    have inv1: "coap_inv (take_ref a app) ?s"
    proof (rule put_subs_inv [OF inv r])
      show "s_count (drop_first ?P (c_subscribers s ! r)) b + take_ref a app b = s_count (c_subscribers s ! r) b + app b" for b
        using s_count_drop_first [OF Some, of b] a by (auto simp: take_ref_def)
    qed
    have "a \<noteq> 0" using coap_inv_alive [OF inv1, of a] coap_inv_Some [OF inv1, of a] by (auto simp: take_ref_def)
    from cancel_messages_ok [OF inv1 this, of "sub_token sub"] obtain s1 where s1:
      "cancel_messages a (sub_token sub) ?s = Some s1" "coap_inv (take_ref a app) s1" "keeps_subs ?s s1" by blast
    from coap_session_release_ok [OF s1(2), of a] obtain s2 where s2:
      "coap_session_release a s1 = Some s2" "coap_inv app s2" "keeps s1 s2"
      by (auto simp: take_ref_def drop_ref_def)
    have "keeps_shape s s2"
      using keeps_shapeI(2) [OF s1(3)] keeps_shapeI(1) [OF s2(3)] by (auto intro: keeps_shape_trans)
    with Some False a s1 s2 show ?thesis by (simp add: coap_remove_failed_observers_def Let_def)
  qed
qed

lemma failed_notify_from_ok:
  "coap_inv app s \<Longrightarrow> \<forall>r \<in> set rs. r < length (c_subscribers s) \<Longrightarrow>
    \<exists>s'. failed_notify_from rs a token s = Some s' \<and> coap_inv app s' \<and> keeps_shape s s'"
proof (induction rs arbitrary: s)
  case (Cons r rs)
  from coap_remove_failed_observers_ok [OF Cons.prems(1), of r a token] Cons.prems(2)
  obtain s1 where s1: "coap_remove_failed_observers r a token s = Some s1" "coap_inv app s1" "keeps_shape s s1"
    by auto
  with Cons.IH [OF s1(2)] Cons.prems(2) show ?case by (auto simp: keeps_shape_def)
qed simp

lemma cancel_from_ok:
  "coap_inv app s \<Longrightarrow> \<forall>r \<in> set rs. r < length (c_subscribers s) \<Longrightarrow> a \<noteq> 0 \<Longrightarrow>
    \<exists>k s'. cancel_from rs a token n s = Some (k, s') \<and> coap_inv app s' \<and> keeps_shape s s'"
proof (induction rs arbitrary: s n)
  case (Cons r rs)
  from artik_coap_delete_observer_ok [OF Cons.prems(1), of r a token] Cons.prems(2)
  obtain k s1 where s1: "artik_coap_delete_observer r a token s = Some (k, s1)" "coap_inv app s1" "keeps_shape s s1"
    by auto
  from cancel_messages_ok [OF s1(2) Cons.prems(3), of token] obtain s2 where s2:
    "cancel_messages a token s1 = Some s2" "coap_inv app s2" "keeps_subs s1 s2" by blast
  from s1(3) s2(3) Cons.prems(2) have "keeps_shape s s2" "\<forall>r \<in> set rs. r < length (c_subscribers s2)"
    by (auto simp: keeps_shape_def keeps_subs_def)
  with Cons.IH [OF s2(2) this(2) Cons.prems(3), of "n + k"] s1 s2 show ?case
    by (auto intro: keeps_shape_trans)
qed simp

lemma queue_at_ok:
  assumes "coap_inv (take_ref (q_session node) app) s"
  shows "coap_inv app (queue_at now t node s) \<and> keeps_subs s (queue_at now t node s) \<and>
    c_sess (queue_at now t node s) = c_sess s"
proof -
  obtain q b where q: "queue_at now t node s = s\<lparr>c_basetime := b, c_sendqueue := q\<rparr>"
      "\<And>a. q_count q a = q_count (c_sendqueue s) a + of_bool (q_session node = a)"
  proof (cases "c_sendqueue s = []")
    case True
    then show ?thesis
      using that [of "[node\<lparr>q_t := t\<rparr>]" now] by (simp add: queue_at_def Let_def artik_coap_insert_node_def)
  next
    case False
    let ?q = "artik_coap_insert_node (c_sendqueue s) (node\<lparr>q_t := (now - c_basetime s) + t\<rparr>)"
    have "queue_at now t node s = s\<lparr>c_basetime := c_basetime s, c_sendqueue := ?q\<rparr>"
      using False by (simp add: queue_at_def Let_def)
    then show ?thesis by (rule that) simp
  qed
  have "coap_inv app (s\<lparr>c_basetime := b, c_sendqueue := q\<rparr>)"
    by (rule coap_inv_queue [of "take_ref (q_session node) app"])
      (use assms q(2) in \<open>auto simp: take_ref_def\<close>)
  with q(1) show ?thesis by (simp add: keeps_subs_def)
qed

lemma coap_wait_ack_ok:
  assumes inv: "coap_inv app s" and alive: "c_sess s a \<noteq> None" and small: "held s a + app a < 255"
  shows "\<exists>s'. coap_wait_ack a node s = Some (q_id node, s') \<and> coap_inv app s' \<and> keeps_subs s s' \<and>
    c_sess s' a \<noteq> None"
proof -
  from alive obtain x where x: "c_sess s a = Some x" by auto
  let ?s = "put_sess a (x\<lparr>ss_ref := ss_ref x + 1\<rparr>) s"
  note ref = coap_session_reference_ok [OF inv x small]
  obtain now w where t: "coap_ticks ?s = (now, ?s\<lparr>c_world := w\<rparr>)" by (rule coap_ticksE)
  let ?n = "node\<lparr>q_session := a\<rparr>" and ?t = "?s\<lparr>c_world := w\<rparr>"
  have "coap_inv (take_ref (q_session ?n) app) ?t" using ref by simp
  from queue_at_ok [OF this, of now "q_timeout node"] ref t show ?thesis
    by (simp add: coap_wait_ack_def Let_def keeps_subs_def del: not_None_eq)
qed

lemma coap_inv_referenced:
  assumes "coap_inv app s" "0 < held s a + app a"
  obtains x where "c_sess s a = Some x" "a \<noteq> 0" "ss_ref x \<noteq> 0" "sess_ok (held s a + app a) (c_endpoints s) x"
proof -
  from coap_inv_alive [OF assms] obtain x where "c_sess s a = Some x" by blast
  moreover note coap_inv_Some [OF assms(1) this]
  moreover from this have "ss_ref x \<noteq> 0" using assms(2) unfolding sess_ok_def by auto
  ultimately show ?thesis using that by blast
qed

lemma coap_dtls_send_ok:
  assumes inv: "coap_inv app s" and ref: "0 < held s a + app a"
  shows "\<exists>r s'. coap_dtls_send a n s = Some (r, s') \<and> coap_inv app s' \<and> keeps s s'"
proof -
  from inv ref obtain x where x: "c_sess s a = Some x" "ss_ref x \<noteq> 0" by (rule coap_inv_referenced)
  obtain res w where t: "ext_call ''TLSSend'' [int a, n] s = (res, s\<lparr>c_world := w\<rparr>)" by (rule ext_callE)
  obtain fatal w' where f: "ext_call ''is_dtls_event_fatal'' [res] (s\<lparr>c_world := w\<rparr>) = (fatal, s\<lparr>c_world := w'\<rparr>)"
    using ext_call_world [of "''is_dtls_event_fatal''" "[res]" "s\<lparr>c_world := w\<rparr>"] by auto
  have "c_nack_handler s" using inv by (simp add: coap_inv_def)
  moreover have "coap_session_free a (s\<lparr>c_world := w', c_nacks := l\<rparr>) = Some (s\<lparr>c_world := w', c_nacks := l\<rparr>)" for l
    using x by (intro coap_session_free_referenced) auto
  ultimately show ?thesis using inv t f by (simp add: coap_dtls_send_def)
qed

lemma coap_session_send_ok:
  assumes inv: "coap_inv app s" and alive: "c_sess s a \<noteq> None"
  shows "\<exists>r s'. coap_session_send a n s = Some (r, s') \<and> coap_inv app s' \<and> keeps s s'"
proof -
  from alive obtain x where x: "c_sess s a = Some x" by auto
  have ok: "sess_ok (held s a + app a) (c_endpoints s) x" using coap_inv_Some [OF inv x] by simp
  obtain r w where r: "ext_call ''network_send'' [int a, n] s = (r, s\<lparr>c_world := w\<rparr>)" by (rule ext_callE)
  obtain now w' where t: "coap_ticks (s\<lparr>c_world := w\<rparr>) = (now, s\<lparr>c_world := w\<rparr>\<lparr>c_world := w'\<rparr>)"
    by (rule coap_ticksE)
  have "coap_inv app (put_sess a (x\<lparr>ss_last_rx_tx := now\<rparr>) (s\<lparr>c_world := w'\<rparr>))"
    by (rule coap_inv_put [of app _ _ x]) (use inv x ok in \<open>simp_all add: sess_ok_def held_def\<close>)
  with inv x ok r t show ?thesis by (auto simp: coap_session_send_def sess_ok_def)
qed

text \<open>Sending a message that is not delayed with its queue node.\<close>

definition no_delay :: "coap_session_t \<Rightarrow> bool" where
  "no_delay x \<longleftrightarrow>
     ss_state x = COAP_SESSION_STATE_ESTABLISHED \<or>
     ss_state x = COAP_SESSION_STATE_NONE \<and> \<not> (ss_proto x = COAP_UDP_DTLS \<and> \<not> ss_tls x)"

lemma delay_packet_ok:
  assumes inv: "coap_inv app s" and alive: "c_sess s a \<noteq> None"
  shows "\<exists>r s'. coap_session_delay_packet a packet None s = Some (r, s') \<and> coap_inv app s' \<and> keeps s s'"
proof -
  from alive obtain x where x: "c_sess s a = Some x" by auto
  have ok: "sess_ok (held s a + app a) (c_endpoints s) x" using coap_inv_Some [OF inv x] by simp
  obtain m w where m: "ext_call ''malloc'' [] s = (m, s\<lparr>c_world := w\<rparr>)" by (rule ext_callE)
  obtain r w' where r: "prng_byte (s\<lparr>c_world := w\<rparr>) = (r, s\<lparr>c_world := w\<rparr>\<lparr>c_world := w'\<rparr>)" by (rule prng_byteE)
  have app: "coap_inv app (put_sess a (x\<lparr>ss_sendqueue := ss_sendqueue x @ [n]\<rparr>) (s\<lparr>c_world := v\<rparr>))"
    if "q_session n = 0" for n v
    by (rule coap_inv_put [of app _ _ x]) (use inv x ok that in \<open>auto simp: sess_ok_def held_def\<close>)
  have n0: "q_session (artik_coap_new_node packet) = 0" "q_session (artik_coap_new_node packet\<lparr>q_timeout := k\<rparr>) = 0" for k
    by (simp_all add: artik_coap_new_node_def)
  show ?thesis
    using x m r app [OF n0(1)] app [OF n0(2)] inv
    by (simp add: coap_session_delay_packet_def Let_def del: not_None_eq)
qed

lemma coap_send_packet_ok:
  assumes inv: "coap_inv app s" and ref: "0 < held s a + app a"
    and node: "node = None \<or> (\<forall>x. c_sess s a = Some x \<longrightarrow> no_delay x)"
  shows "\<exists>r s'. coap_send_packet a packet node s = Some (r, s') \<and> coap_inv app s' \<and> keeps s s'"
proof -
  from inv ref obtain x where x: "c_sess s a = Some x" "a \<noteq> 0" "ss_ref x \<noteq> 0"
    "sess_ok (held s a + app a) (c_endpoints s) x" by (rule coap_inv_referenced)
  obtain n w where n: "ext_call ''coap_serialize_message'' (message a packet) s = (n, s\<lparr>c_world := w\<rparr>)"
    by (rule ext_callE)
  let ?s = "s\<lparr>c_world := w\<rparr>"
  obtain t w' where t: "ext_call ''TLSSession'' [int a] ?s = (t, ?s\<lparr>c_world := w'\<rparr>)"
    by (rule ext_callE)
  have h: "held ?s = held s" "held (s\<lparr>c_world := w'\<rparr>) = held s" by (simp_all add: held_def fun_eq_iff)
  let ?x = "x\<lparr>ss_tls := True, ss_state := COAP_SESSION_STATE_ESTABLISHED\<rparr>"
  have new: "coap_inv app (put_sess a ?x (s\<lparr>c_world := w'\<rparr>))"
    by (rule coap_inv_put [of app _ _ x]) (use inv x h in \<open>simp_all add: sess_ok_def\<close>)
  have keep: "keeps s s'" if "keeps (put_sess a ?x (s\<lparr>c_world := w'\<rparr>)) s'" for s'
    using that by simp
  show ?thesis
  proof (cases "ss_state x = COAP_SESSION_STATE_ESTABLISHED \<or> coap_is_mcast (ss_local x) \<and> 2 < drop_bit 5 (pk_code packet)")
    case True
    then show ?thesis
      using x n t inv h ref coap_dtls_send_ok [of app ?s a n] coap_session_send_ok [of app ?s a n]
      by (auto simp: coap_send_packet_def)
  next
    case False
    show ?thesis
    proof (cases "no_delay x")
      case True
      with False x n t inv show ?thesis by (auto simp: coap_send_packet_def no_delay_def)
    next
      case False': False
      with node x have "node = None" by auto
      with False False' x n t h inv new
        delay_packet_ok [of app ?s a packet] delay_packet_ok [OF new, of a packet]
      show ?thesis by (auto simp: coap_send_packet_def no_delay_def)
    qed
  qed
qed

lemma artik_coap_send_ok:
  assumes inv: "coap_inv app s" and ref: "0 < held s a + app a" and small: "held s a + app a < 255"
  shows "\<exists>r s'. artik_coap_send a packet s = Some (r, s') \<and> coap_inv app s' \<and> keeps_subs s s'"
proof -
  from coap_send_packet_ok [OF inv ref, of None packet] obtain n s1 where s1:
    "coap_send_packet a packet None s = Some (n, s1)" "coap_inv app s1" "keeps s s1" by auto
  obtain m w where m: "ext_call ''malloc'' [] s1 = (m, s1\<lparr>c_world := w\<rparr>)" by (rule ext_callE)
  obtain r w' where r: "prng_byte (s1\<lparr>c_world := w\<rparr>) = (r, s1\<lparr>c_world := w\<rparr>\<lparr>c_world := w'\<rparr>)" by (rule prng_byteE)
  let ?t = "s1\<lparr>c_world := w'\<rparr>" and ?n = "(artik_coap_new_node packet)\<lparr>q_timeout := of_nat (calc_timeout r)\<rparr>"
  have h: "held ?t = held s" using keepsD [OF s1(3)] by (simp add: held_def fun_eq_iff)
  have inv': "coap_inv app ?t" using s1(2) by simp
  from coap_inv_alive [OF inv', of a] ref h have "c_sess ?t a \<noteq> None" by auto
  from coap_wait_ack_ok [OF inv' this, of ?n] small h obtain s2 where s2:
    "coap_wait_ack a ?n ?t = Some (q_id ?n, s2)" "coap_inv app s2" "keeps_subs ?t s2" by auto
  have "keeps_subs s s1" "keeps_subs s s2" "keeps_subs s (s1\<lparr>c_world := w\<rparr>)"
    using s1(3) s2(3) by (auto simp: keeps_def keeps_subs_def simp del: not_None_eq)
  with s1 s2 m r show ?thesis by (simp add: artik_coap_send_def)
qed

definition exhausted :: "coap_queue_t \<Rightarrow> bool" where
  "exhausted node \<longleftrightarrow> COAP_DEFAULT_MAX_RETRANSMIT \<le> q_retransmit_cnt node"

text \<open>The reference the application loses when a confirmable message is given up.\<close>

definition after_retransmit :: "coap_queue_t \<Rightarrow> (addr \<Rightarrow> nat) \<Rightarrow> addr \<Rightarrow> nat" where
  "after_retransmit node app =
     (if exhausted node \<and> pk_type (q_packet node) = COAP_TYPE_CON then drop_ref (q_session node) app else app)"

definition retransmit_ok :: "coap_queue_t \<Rightarrow> (addr \<Rightarrow> nat) \<Rightarrow> coap_context_t \<Rightarrow> bool" where
  "retransmit_ok node app s \<longleftrightarrow>
     (if exhausted node then pk_type (q_packet node) = COAP_TYPE_CON \<longrightarrow> 0 < app (q_session node)
      else \<forall>x. c_sess s (q_session node) = Some x \<longrightarrow> no_delay x)"

lemma retransmit_again_ok:
  assumes inv: "coap_inv (take_ref (q_session node) app) s" and again: "\<not> exhausted node"
    and ok: "retransmit_ok node app s"
  shows "\<exists>r s'. artik_coap_retransmit (Some node) s = Some (r, s') \<and> coap_inv app s' \<and> keeps_shape s s'"
proof -
  let ?a = "q_session node" and ?n = "node\<lparr>q_retransmit_cnt := q_retransmit_cnt node + 1\<rparr>"
  obtain now w where t: "coap_ticks s = (now, s\<lparr>c_world := w\<rparr>)" by (rule coap_ticksE)
  let ?s = "queue_at now (push_bit (unat (q_retransmit_cnt ?n)) (q_timeout ?n)) ?n (s\<lparr>c_world := w\<rparr>)"
  have q: "coap_inv app ?s" "keeps_subs (s\<lparr>c_world := w\<rparr>) ?s" "c_sess ?s = c_sess s"
    using queue_at_ok [of ?n app "s\<lparr>c_world := w\<rparr>"] inv by simp_all
  have "0 < held s ?a + take_ref ?a app ?a" by (simp add: take_ref_def)
  with inv obtain x where "c_sess s ?a = Some x" by (rule coap_inv_referenced)
  have "q_count (artik_coap_insert_node qs (?n\<lparr>q_t := t'\<rparr>)) ?a > 0" for qs t' by simp
  then have "0 < held ?s ?a + app ?a" by (simp add: queue_at_def Let_def held_def)
  from coap_send_packet_ok [OF q(1) this, of "Some ?n" "q_packet ?n"] ok again q(3)
  obtain r s' where r: "coap_send_packet ?a (q_packet ?n) (Some ?n) ?s = Some (r, s')" "coap_inv app s'" "keeps ?s s'"
    by (auto simp: retransmit_ok_def)
  have "keeps_shape s s'"
    using q(2) r(3) by (auto simp: keeps_def keeps_subs_def keeps_shape_def simp del: not_None_eq)
  moreover have "q_retransmit_cnt node < COAP_DEFAULT_MAX_RETRANSMIT"
    using again by (simp add: exhausted_def)
  ultimately show ?thesis using r t by (simp add: artik_coap_retransmit_def Let_def)
qed

lemma retransmit_exhausted_ok:
  assumes inv: "coap_inv (take_ref (q_session node) app) s" and last: "exhausted node"
    and ok: "retransmit_ok node app s"
  shows "\<exists>r s'. artik_coap_retransmit (Some node) s = Some (r, s') \<and>
    coap_inv (after_retransmit node app) s' \<and> keeps_shape s s'"
proof -
  let ?a = "q_session node" and ?con = "pk_type (q_packet node) = COAP_TYPE_CON"
  have cnt: "\<not> q_retransmit_cnt node < COAP_DEFAULT_MAX_RETRANSMIT" using last by (simp add: exhausted_def)
  obtain s1 where s1: "(if 64 \<le> pk_code (q_packet node)
      then artik_coap_handle_failed_notify ?a (pk_token (q_packet node)) s else Some s) = Some s1"
      "coap_inv (take_ref ?a app) s1" "keeps_shape s s1"
    using failed_notify_from_ok [OF inv, of "[0..<length (c_subscribers s)]" ?a "pk_token (q_packet node)"] inv
    by (cases "64 \<le> pk_code (q_packet node)") (auto simp: artik_coap_handle_failed_notify_def)
  have nh: "c_nack_handler s1" using s1(2) by (simp add: coap_inv_def)
  obtain l where l: "nack ?a COAP_NACK_TOO_MANY_RETRIES node s1 = s1\<lparr>c_nacks := l\<rparr>" using nack_log by blast
  obtain s2 where s2: "(if ?con \<and> c_nack_handler s1
      then coap_session_release ?a (nack ?a COAP_NACK_TOO_MANY_RETRIES node s1) else Some s1) = Some s2"
      "coap_inv (take_ref ?a (after_retransmit node app)) s2" "keeps_shape s1 s2"
  proof (cases ?con)
    case True
    then have pos: "0 < app ?a" using ok last by (simp add: retransmit_ok_def)
    have e: "drop_ref ?a (take_ref ?a app) = take_ref ?a (after_retransmit node app)"
      using True last pos by (simp add: after_retransmit_def take_ref_def drop_ref_def)
    have "coap_inv (take_ref ?a app) (s1\<lparr>c_nacks := l\<rparr>)" using s1(2) by simp
    from coap_session_release_ok [OF this, of ?a] e keepsD True nh l show ?thesis
      using that keeps_shapeI(1) by (fastforce simp: take_ref_def)
  next
    case False
    with s1(2) that show ?thesis by (simp add: after_retransmit_def)
  qed
  from coap_session_release_ok [OF s2(2), of ?a] obtain s3 where s3:
    "coap_session_release ?a s2 = Some s3" "coap_inv (after_retransmit node app) s3" "keeps s2 s3"
    by (auto simp: take_ref_def drop_ref_def)
  have "keeps_shape s s3" using s1(3) s2(3) keeps_shapeI(1) [OF s3(3)] keeps_shape_trans by blast
  with cnt s1 s2 s3 show ?thesis
    by (simp add: artik_coap_retransmit_def artik_coap_delete_node_def)
qed

lemma write_round_ok:
  assumes inv: "coap_inv app s" and head: "c_sendqueue s = node # queue" and ok: "retransmit_ok node app s"
  shows "\<exists>r s'. write_round s = Some (r, s') \<and> coap_inv (after_retransmit node app) s' \<and> keeps_shape s s'"
proof -
  let ?s = "s\<lparr>c_sendqueue := add_head (q_t node) queue\<rparr>"
  have pop: "artik_coap_pop_next (c_sendqueue s) = (Some node, add_head (q_t node) queue)"
    using head by (simp add: artik_coap_pop_next_def)
  have inv': "coap_inv (take_ref (q_session node) app) ?s"
    by (rule coap_inv_queue [OF inv]) (use head in \<open>auto simp: take_ref_def\<close>)
  have ok': "retransmit_ok node app ?s" using ok by (simp add: retransmit_ok_def)
  show ?thesis
  proof (cases "exhausted node")
    case True
    from retransmit_exhausted_ok [OF inv' True ok'] pop show ?thesis by (simp add: write_round_def)
  next
    case False
    from retransmit_again_ok [OF inv' False ok'] False pop show ?thesis
      by (simp add: write_round_def after_retransmit_def)
  qed
qed

lemma take_sent_ok:
  assumes inv: "coap_inv app s" and t: "take_sent a i s = (sent, s')"
  shows "coap_inv (\<lambda>b. app b + opt_count sent b) s' \<and> keeps_shape s s'"
proof -
  from t obtain queue where q: "artik_coap_remove_from_queue (c_sendqueue s) a i = (sent, queue)"
      "s' = s\<lparr>c_sendqueue := queue\<rparr>"
    by (auto simp: take_sent_def split: prod.splits)
  have "coap_inv (\<lambda>b. app b + opt_count sent b) (s\<lparr>c_sendqueue := queue\<rparr>)"
  proof (rule coap_inv_queue [OF inv])
    show "q_count queue b + (app b + opt_count sent b) = q_count (c_sendqueue s) b + app b" for b
      using q_count_remove [OF q(1), of b] by simp
  qed
  with q(2) show ?thesis by simp
qed

lemma delete_node_ok:
  assumes "coap_inv (\<lambda>b. app b + opt_count node b) s"
  shows "\<exists>s'. artik_coap_delete_node node s = Some s' \<and> coap_inv app s' \<and> keeps s s'"
proof (cases node)
  case None
  with assms show ?thesis by (simp add: artik_coap_delete_node_def)
next
  case (Some q)
  have "drop_ref (q_session q) (\<lambda>b. app b + opt_count node b) = app"
    using Some by (auto simp: drop_ref_def fun_eq_iff)
  with coap_session_release_ok [OF assms, of "q_session q"] Some show ?thesis
    by (auto simp: artik_coap_delete_node_def)
qed

lemma take_ref_opt: "take_ref (q_session q) app = (\<lambda>b. app b + opt_count (Some q) b)"
  by (auto simp: take_ref_def fun_eq_iff)

lemma dispatch_empty_ack_ok:
  assumes inv: "coap_inv (take_ref (q_session rcvd) app) s"
  shows "\<exists>s'. dispatch_empty_ack rcvd s = Some s' \<and> coap_inv app s' \<and> keeps_shape s s'"
proof -
  obtain sent s1 where t: "take_sent (q_session rcvd) (q_id rcvd) s = (sent, s1)" by fastforce
  note s1 = take_sent_ok [OF inv t]
  from s1 delete_node_ok [of "take_ref (q_session rcvd) app" sent s1] obtain s2 where s2:
    "artik_coap_delete_node sent s1 = Some s2" "coap_inv (take_ref (q_session rcvd) app) s2" "keeps s1 s2" by auto
  from delete_node_ok [OF s2(2) [unfolded take_ref_opt]] obtain s3 where s3:
    "artik_coap_delete_node (Some rcvd) s2 = Some s3" "coap_inv app s3" "keeps s2 s3" by auto
  have "keeps_shape s s3"
    using s1 keeps_shapeI(1) [OF s2(3)] keeps_shapeI(1) [OF s3(3)] keeps_shape_trans by blast
  with t s2 s3 show ?thesis by (simp add: dispatch_empty_ack_def)
qed

lemma coap_cancel_ok:
  assumes "coap_inv app s" "q_session sent \<noteq> 0"
  shows "\<exists>k s'. coap_cancel sent s = Some (k, s') \<and> coap_inv app s' \<and> keeps_shape s s'"
  unfolding coap_cancel_def by (rule cancel_from_ok) (use assms in auto)

lemma dispatch_rst_ok:
  assumes inv: "coap_inv (take_ref (q_session rcvd) app) s"
  shows "\<exists>s'. dispatch_rst rcvd s = Some s' \<and> coap_inv app s' \<and> keeps_shape s s'"
proof -
  let ?app = "take_ref (q_session rcvd) app"
  obtain sent s1 where t: "take_sent (q_session rcvd) (q_id rcvd) s = (sent, s1)" by fastforce
  note s1 = take_sent_ok [OF inv t]
  let ?cancel = "\<lambda>s. case sent of None \<Rightarrow> Some s
      | Some sent \<Rightarrow> do { (n, s) \<leftarrow> coap_cancel sent s;
          Some (nack (q_session sent) COAP_NACK_RST (sent\<lparr>q_id := uint (pk_mid (q_packet rcvd))\<rparr>) s) }"
  obtain s2 where s2: "?cancel s1 = Some s2" "coap_inv (\<lambda>b. ?app b + opt_count sent b) s2" "keeps_shape s1 s2"
  proof (cases sent)
    case None
    with s1 that show ?thesis by simp
  next
    case (Some q)
    then have "0 < held s1 (q_session q) + (?app (q_session q) + opt_count sent (q_session q))" by simp
    with s1 [THEN conjunct1] have "q_session q \<noteq> 0" by (rule coap_inv_referenced)
    with s1 obtain k s' where c: "coap_cancel q s1 = Some (k, s')"
        "coap_inv (\<lambda>b. ?app b + opt_count sent b) s'" "keeps_shape s1 s'" using coap_cancel_ok by blast
    obtain l where "nack (q_session q) COAP_NACK_RST (q\<lparr>q_id := uint (pk_mid (q_packet rcvd))\<rparr>) s' =
        s'\<lparr>c_nacks := l\<rparr>" using nack_log by blast
    with Some c that show ?thesis by simp
  qed
  from delete_node_ok [OF s2(2)] obtain s3 where s3:
    "artik_coap_delete_node sent s2 = Some s3" "coap_inv ?app s3" "keeps s2 s3" by auto
  from delete_node_ok [OF s3(2) [unfolded take_ref_opt]] obtain s4 where s4:
    "artik_coap_delete_node (Some rcvd) s3 = Some s4" "coap_inv app s4" "keeps s3 s4" by auto
  have "keeps_shape s s4"
    using s1 s2(3) keeps_shapeI(1) [OF s3(3)] keeps_shapeI(1) [OF s4(3)] keeps_shape_trans by blast
  with t s2 s3 s4 show ?thesis by (simp add: dispatch_rst_def)
qed

lemma session_down_ok:
  assumes inv: "coap_inv app s" and alive: "c_sess s a \<noteq> None"
  shows "\<exists>s' x. session_down a s = Some s' \<and> coap_inv app s' \<and> keeps s s' \<and> c_sess s' a = Some x"
proof -
  from alive obtain x where x: "c_sess s a = Some x" by auto
  have ok: "sess_ok (held s a + app a) (c_endpoints s) x" using coap_inv_Some [OF inv x] by simp
  obtain r w where w: "ext_call ''TLSSession_free'' [int a] s = (r, s\<lparr>c_world := w\<rparr>)" by (rule ext_callE)
  have "coap_inv app (put_sess a (x\<lparr>ss_tls := b, ss_state := COAP_SESSION_STATE_NONE\<rparr>) (s\<lparr>c_world := v\<rparr>))" for b v
    by (rule coap_inv_put [of app _ _ x]) (use inv x ok in \<open>simp_all add: sess_ok_def held_def\<close>)
  from this [of False w] this [of "ss_tls x" "c_world s"] x w show ?thesis
    by (simp add: session_down_def)
qed

lemma nack_delete_ok:
  "coap_inv (\<lambda>b. app b + q_count del b) s \<Longrightarrow>
    \<exists>s'. nack_delete a del s = Some s' \<and> coap_inv app s' \<and> keeps s s'"
proof (induction del arbitrary: s)
  case (Cons q del)
  obtain l where l: "nack a COAP_NACK_NOT_DELIVERABLE q s = s\<lparr>c_nacks := l\<rparr>" using nack_log by blast
  have e: "(\<lambda>b. app b + q_count (q # del) b) = (\<lambda>b. (app b + q_count del b) + opt_count (Some q) b)"
    by (simp add: fun_eq_iff)
  have "coap_inv (\<lambda>b. (app b + q_count del b) + opt_count (Some q) b) (s\<lparr>c_nacks := l\<rparr>)"
    using Cons.prems unfolding e by simp
  from delete_node_ok [OF this] obtain s1 where s1: "artik_coap_delete_node (Some q) (s\<lparr>c_nacks := l\<rparr>) = Some s1"
      "coap_inv (\<lambda>b. app b + q_count del b) s1" "keeps s s1" by auto
  with Cons.IH [OF s1(2)] l show ?case by (auto intro: keeps_trans)
qed simp

text \<open>Delayed messages hold no reference.\<close>

lemma nack_delete_delayed:
  "\<forall>q \<in> set del. q_session q = 0 \<Longrightarrow> \<exists>l. nack_delete a del s = Some (s\<lparr>c_nacks := l\<rparr>)"
proof (induction del arbitrary: s)
  case Nil
  have "nack_delete a [] s = Some (s\<lparr>c_nacks := c_nacks s\<rparr>)" by simp
  then show ?case by blast
next
  case (Cons q del)
  obtain l where "nack a COAP_NACK_NOT_DELIVERABLE q s = s\<lparr>c_nacks := l\<rparr>" using nack_log by blast
  with Cons.IH [of "s\<lparr>c_nacks := l\<rparr>"] Cons.prems show ?case by (auto simp: artik_coap_delete_node_def)
qed

lemma coap_session_reset_ok:
  assumes inv: "coap_inv app s" and app: "0 < app a"
  shows "\<exists>s'. coap_session_reset a s = Some s' \<and> coap_inv app s' \<and> keeps_shape s s'"
proof -
  from coap_delete_observers_ok [OF inv, of a] obtain s1 where s1:
    "coap_delete_observers a s = Some s1" "coap_inv app s1" "keeps_shape s s1" by blast
  have a0: "a \<noteq> 0" using inv app by (auto elim: coap_inv_referenced [of app s a])
  let ?del = "filter (\<lambda>q. q_session q = a) (c_sendqueue s1)"
  let ?rest = "filter (\<lambda>q. q_session q \<noteq> a) (c_sendqueue s1)"
  have c: "coap_cancel_session_messages (c_nack_handler s1) (c_sendqueue s1) a =
      (nacks (c_nack_handler s1) ?del, ?del, ?rest)"
  proof -
    have "cancel_loops (\<lambda>q. q_session q = a) (c_sendqueue s1) = (?del, ?rest)"
      by (rule cancel_loops_eq) (use a0 in simp)
    then show ?thesis by (simp add: coap_cancel_session_messages_def)
  qed
  have "coap_inv (\<lambda>b. app b + q_count ?del b) (s1\<lparr>c_sendqueue := ?rest\<rparr>)"
    by (rule coap_inv_queue [OF s1(2)])
      (use q_count_filter [of "\<lambda>q. q_session q = a" "c_sendqueue s1"] in \<open>simp add: add.commute add.left_commute\<close>)
  from nack_delete_ok [OF this, of a] obtain s2 where s2:
    "nack_delete a ?del (s1\<lparr>c_sendqueue := ?rest\<rparr>) = Some s2" "coap_inv app s2" "keeps (s1\<lparr>c_sendqueue := ?rest\<rparr>) s2"
    by blast
  have alive: "c_sess s2 a \<noteq> None" using coap_inv_alive [OF s2(2), of a] app by simp
  from session_down_ok [OF s2(2) alive] obtain s3 x where s3:
    "session_down a s2 = Some s3" "coap_inv app s3" "keeps s2 s3" "c_sess s3 a = Some x" by blast
  have ok: "sess_ok (held s3 a + app a) (c_endpoints s3) x" using coap_inv_Some [OF s3(2,4)] by simp
  let ?s4 = "put_sess a (x\<lparr>ss_sendqueue := []\<rparr>) s3"
  have inv4: "coap_inv app ?s4"
    by (rule coap_inv_put [OF s3(2,4)]) (use ok in \<open>simp_all add: sess_ok_def\<close>)
  obtain l where l: "nack_delete a (ss_sendqueue x) ?s4 = Some (?s4\<lparr>c_nacks := l\<rparr>)"
    using nack_delete_delayed [of "ss_sendqueue x" a ?s4] ok by (auto simp: sess_ok_def)
  have "keeps_shape s s3"
    using s1(3) keeps_shapeI(1) [OF s2(3)] keeps_shapeI(1) [OF s3(3)] by (simp add: keeps_shape_def)
  with s1 s2 s3 c l inv4 show ?thesis by (simp add: coap_session_reset_def)
qed

lemma held_wait_ack:
  "coap_wait_ack a node s = Some (r, s') \<Longrightarrow> held s' a = Suc (held s a)"
proof -
  have h: "held (queue_at now t (n\<lparr>q_session := a\<rparr>) (s0\<lparr>c_world := w\<rparr>)) a = Suc (held s0 a)" for now t n s0 w
    by (simp add: queue_at_def Let_def held_def)
  assume "coap_wait_ack a node s = Some (r, s')"
  then obtain s0 now where "coap_session_reference a s = Some s0" "\<exists>w. coap_ticks s0 = (now, s0\<lparr>c_world := w\<rparr>) \<and>
      s' = queue_at now (q_timeout node) (node\<lparr>q_session := a\<rparr>) (s0\<lparr>c_world := w\<rparr>)"
    using coap_ticksE by (auto simp: coap_wait_ack_def split: Option.bind_splits prod.splits) (metis prod.inject)
  moreover from this(1) have "held s0 a = held s a"
    by (auto simp: coap_session_reference_def split: option.splits)
  ultimately show ?thesis using h by auto
qed

lemma put_sendqueue_ok:
  assumes "coap_inv app s" "c_sess s a = Some x" "\<forall>q \<in> set qs. q_session q = 0"
  shows "coap_inv app (put_sess a (x\<lparr>ss_sendqueue := qs\<rparr>) s)"
  by (rule coap_inv_put [OF assms(1,2)])
    (use coap_inv_Some [OF assms(1,2)] assms(3) in \<open>simp_all add: sess_ok_def\<close>)

lemma queue_delayed_ok:
  "coap_inv app s \<Longrightarrow> 0 < held s a + app a \<Longrightarrow> held s a + app a + length qs < 256 \<Longrightarrow>
    \<forall>q \<in> set qs. q_session q = 0 \<Longrightarrow>
    \<exists>s'. queue_delayed a qs s = Some s' \<and> coap_inv app s' \<and> keeps_subs s s'"
proof (induction qs arbitrary: s)
  case Nil
  then show ?case by (simp add: keeps_subs_def)
next
  case (Cons q qs)
  from Cons.prems(1,2) obtain x where x: "c_sess s a = Some x" by (rule coap_inv_referenced)
  let ?s = "put_sess a (x\<lparr>ss_sendqueue := qs\<rparr>) s"
  have inv: "coap_inv app ?s" using put_sendqueue_ok [OF Cons.prems(1) x] Cons.prems(4) by simp
  show ?case
  proof (cases "pk_type (q_packet q) = COAP_TYPE_CON")
    case True
    from coap_wait_ack_ok [OF inv, of a q] Cons.prems(3) obtain s1 where s1:
      "coap_wait_ack a q ?s = Some (q_id q, s1)" "coap_inv app s1" "keeps_subs ?s s1" by auto
    from Cons.IH [OF s1(2)] held_wait_ack [OF s1(1)] Cons.prems obtain s2 where s2:
      "queue_delayed a qs s1 = Some s2" "coap_inv app s2" "keeps_subs s1 s2" by auto
    from s1(3) s2(3) have "keeps_subs s s2" by (simp add: keeps_subs_def)
    with x True s1 s2 Cons.prems(4) show ?thesis by (simp add: artik_coap_delete_node_def)
  next
    case False
    from Cons.IH [OF inv] Cons.prems obtain s2 where "queue_delayed a qs ?s = Some s2" "coap_inv app s2" "keeps_subs ?s s2"
      by auto
    with x False Cons.prems(4) show ?thesis by (simp add: artik_coap_delete_node_def keeps_subs_def)
  qed
qed

lemma coap_session_disconnected_ok:
  assumes inv: "coap_inv app s" and ref: "0 < held s a + app a" and x: "c_sess s a = Some x"
    and small: "held s a + app a + length (ss_sendqueue x) < 256"
  shows "\<exists>s'. coap_session_disconnected a reason s = Some s' \<and> coap_inv app s' \<and> keeps_subs s s'"
proof -
  obtain l where l: "(if reason = COAP_NACK_TLS_FAILED \<or> reason = COAP_NACK_NOT_DELIVERABLE
      then fold (nack a (nack_reason x)) (ss_sendqueue x) s else s) = s\<lparr>c_nacks := l\<rparr>"
  proof (cases "reason = COAP_NACK_TLS_FAILED \<or> reason = COAP_NACK_NOT_DELIVERABLE")
    case True
    then show ?thesis using fold_nack_log [of a "nack_reason x" "ss_sendqueue x" s] that by auto
  next
    case False
    then show ?thesis using that [of "c_nacks s"] by simp
  qed
  have "coap_inv app (s\<lparr>c_nacks := l\<rparr>)" using inv by simp
  from session_down_ok [OF this, of a] x obtain s1 y where s1:
    "session_down a (s\<lparr>c_nacks := l\<rparr>) = Some s1" "coap_inv app s1" "keeps s s1" "c_sess s1 a = Some y" by auto
  have d: "\<forall>q \<in> set (ss_sendqueue x). q_session q = 0"
    using coap_inv_Some [OF inv x] by (simp add: sess_ok_def)
  from queue_delayed_ok [OF s1(2) _ _ d, of a] ref small keepsD [OF s1(3)] obtain s2 where s2:
    "queue_delayed a (ss_sendqueue x) s1 = Some s2" "coap_inv app s2" "keeps_subs s1 s2" by auto
  from s1(3) s2(3) have "keeps_subs s s2" by (simp add: keeps_def keeps_subs_def)
  with x l s1 s2 show ?thesis by (simp add: coap_session_disconnected_def)
qed

lemma send_delayed_ok:
  "coap_inv app s \<Longrightarrow> 0 < held s a + app a \<Longrightarrow> held s a + app a + length qs < 256 \<Longrightarrow>
    \<forall>q \<in> set qs. q_session q = 0 \<Longrightarrow>
    \<exists>s'. send_delayed a qs s = Some s' \<and> coap_inv app s' \<and> keeps_subs s s'"
proof (induction qs arbitrary: s)
  case Nil
  then show ?case by (simp add: keeps_subs_def)
next
  case (Cons q qs)
  from Cons.prems(1,2) obtain x where x: "c_sess s a = Some x" by (rule coap_inv_referenced)
  show ?case
  proof (cases "ss_state x = COAP_SESSION_STATE_ESTABLISHED")
    case False
    with x Cons.prems(1) show ?thesis by (simp add: keeps_subs_def)
  next
    case True
    let ?s = "put_sess a (x\<lparr>ss_sendqueue := qs\<rparr>) s"
    obtain n w where n: "ext_call ''coap_serialize_message'' (message a (q_packet q)) ?s =
        (n, ?s\<lparr>c_world := w\<rparr>)" by (rule ext_callE)
    let ?t = "?s\<lparr>c_world := w\<rparr>"
    have inv: "coap_inv app ?t" using put_sendqueue_ok [OF Cons.prems(1) x] Cons.prems(4) by simp
    have h: "held ?t = held s" by (simp add: held_def fun_eq_iff put_sess_def)
    obtain r s1 where s1: "(if ss_proto x = COAP_UDP_DTLS then coap_dtls_send a n ?t else coap_session_send a n ?t) =
        Some (r, s1)" "coap_inv app s1" "keeps ?t s1"
      using coap_dtls_send_ok [OF inv, of a n] coap_session_send_ok [OF inv, of a n] Cons.prems(2) h
      by (cases "ss_proto x = COAP_UDP_DTLS") auto
    have h1: "held s1 = held s" using keepsD [OF s1(3)] h by simp
    have alive: "c_sess s1 a \<noteq> None" using coap_inv_alive [OF s1(2), of a] Cons.prems(2) h1 by auto
    obtain s2 where s2: "(if pk_type (q_packet q) = COAP_TYPE_CON
        then do { (r, s) \<leftarrow> coap_wait_ack a q s1; artik_coap_delete_node (if 0 \<le> r then None else Some q) s }
        else artik_coap_delete_node (Some q) s1) = Some s2" "coap_inv app s2" "keeps_subs s1 s2"
        "held s2 a + app a + length qs < 256" "0 < held s2 a + app a"
    proof (cases "pk_type (q_packet q) = COAP_TYPE_CON")
      case True
      from coap_wait_ack_ok [OF s1(2) alive, of q] Cons.prems(3) h1 obtain s' where s':
        "coap_wait_ack a q s1 = Some (q_id q, s')" "coap_inv app s'" "keeps_subs s1 s'" by auto
      with that [of s'] held_wait_ack [OF s'(1)] True h1 Cons.prems(2,3,4) show ?thesis
        by (simp add: artik_coap_delete_node_def)
    next
      case False
      with that [of s1] s1(2) h1 Cons.prems show ?thesis by (simp add: artik_coap_delete_node_def keeps_subs_def)
    qed
    from Cons.IH [OF s2(2,5,4)] Cons.prems(4) obtain s3 where s3:
      "send_delayed a qs s2 = Some s3" "coap_inv app s3" "keeps_subs s2 s3" by auto
    have k: "keeps_subs s s2" "keeps_subs s s3"
      using s1(3) s2(3) s3(3) by (auto simp: keeps_def keeps_subs_def put_sess_def simp del: not_None_eq)
    have "send_delayed a (q # qs) s = (if r < 0 then Some s2 else send_delayed a qs s2)"
      using x True n s1(1) s2(1) by simp
    with s2(2) s3 k show ?thesis by auto
  qed
qed

lemma coap_session_connected_ok:
  assumes inv: "coap_inv app s" and ref: "0 < held s a + app a" and x: "c_sess s a = Some x"
    and small: "held s a + app a + length (ss_sendqueue x) < 256"
  shows "\<exists>s'. coap_session_connected a s = Some s' \<and> coap_inv app s' \<and> keeps_subs s s'"
proof -
  let ?s = "put_sess a (x\<lparr>ss_state := COAP_SESSION_STATE_ESTABLISHED\<rparr>) s"
  have ok: "sess_ok (held s a + app a) (c_endpoints s) x" using coap_inv_Some [OF inv x] by simp
  have "coap_inv app ?s" by (rule coap_inv_put [OF inv x]) (use ok in \<open>simp_all add: sess_ok_def\<close>)
  from send_delayed_ok [OF this, of a "ss_sendqueue x"] ref small ok x show ?thesis
    by (auto simp: coap_session_connected_def keeps_subs_def sess_ok_def)
qed

section \<open>Looking up and creating sessions\<close>

lemma scan_sessions_found:
  "scan_sessions sess dst src as n oldest = Some (Inl a) \<Longrightarrow>
    a \<in> set as \<and> (\<exists>x. sess a = Some x \<and> coap_address_equals (ss_local x) dst \<and> coap_address_equals (ss_remote x) src)"
  by (induction as arbitrary: n oldest) (auto split: Option.bind_splits if_splits)

definition idle_at :: "(addr \<Rightarrow> coap_session_t option) \<Rightarrow> addr \<Rightarrow> bool" where
  "idle_at sess a \<longleftrightarrow> (\<exists>x. sess a = Some x \<and> is_idle x)"

text \<open>\<open>oldest\<close> is one of the idle sessions of \<open>as\<close> and none of them is older.\<close>

definition oldest_of :: "(addr \<Rightarrow> coap_session_t option) \<Rightarrow> addr set \<Rightarrow> (addr \<times> u32) option \<Rightarrow> bool" where
  "oldest_of sess as oldest \<longleftrightarrow>
     (case oldest of
        None \<Rightarrow> \<forall>a \<in> as. \<not> idle_at sess a
      | Some (b, t) \<Rightarrow> b \<in> as \<and> (\<exists>x. sess b = Some x \<and> is_idle x \<and> ss_last_rx_tx x = t) \<and>
          (\<forall>a \<in> as. \<forall>x. sess a = Some x \<and> is_idle x \<longrightarrow> t \<le> ss_last_rx_tx x))"

lemma scan_sessions_new:
  "scan_sessions sess dst src as n oldest = Some (Inr (k, old)) \<Longrightarrow> oldest_of sess seen oldest \<Longrightarrow>
    k = n + length (filter (idle_at sess) as) \<and> oldest_of sess (seen \<union> set as) old"
proof (induction as arbitrary: n oldest seen)
  case (Cons a as)
  from Cons.prems(1) obtain x where x: "sess a = Some x" by (auto split: Option.bind_splits)
  show ?case
  proof (cases "is_idle x")
    case True
    let ?o = "case oldest of None \<Rightarrow> Some (a, ss_last_rx_tx x)
      | Some (b, t) \<Rightarrow> if ss_last_rx_tx x < t then Some (a, ss_last_rx_tx x) else oldest"
    have "oldest_of sess (insert a seen) ?o"
    proof (cases oldest)
      case None
      with Cons.prems(2) x True show ?thesis by (auto simp: oldest_of_def idle_at_def)
    next
      case (Some bt)
      obtain b t where "bt = (b, t)" by fastforce
      with Cons.prems(2) x True Some show ?thesis
        by (auto simp: oldest_of_def)
    qed
    moreover have "scan_sessions sess dst src as (n + 1) ?o = Some (Inr (k, old))"
      using Cons.prems(1) x True by (simp split: if_splits)
    moreover have "idle_at sess a" using x True by (simp add: idle_at_def)
    ultimately show ?thesis using Cons.IH by fastforce
  next
    case False
    then have "oldest_of sess (insert a seen) oldest"
      using Cons.prems(2) x by (auto simp: oldest_of_def idle_at_def split: option.splits)
    from Cons.IH [OF _ this] Cons.prems(1) x False show ?thesis
      by (auto simp: idle_at_def split: if_splits)
  qed
qed simp

lemma scan_sessions_total:
  "\<forall>a \<in> set as. sess a \<noteq> None \<Longrightarrow> scan_sessions sess dst src as n oldest \<noteq> None"
proof (induction as arbitrary: n oldest)
  case (Cons a as)
  then obtain x where "sess a = Some x" "\<And>n oldest. scan_sessions sess dst src as n oldest \<noteq> None" by auto
  then show ?case by (auto simp del: not_None_eq)
qed simp

text \<open>What freeing does to the endpoints.\<close>

lemma coap_session_free_endpoints:
  assumes "coap_session_free a s = Some s'" "c_sess s a = Some x" "ss_ref x = 0" "a \<noteq> 0"
  shows "c_endpoints s' = (if ss_endpoint x = 0 then c_endpoints s
       else (c_endpoints s)(ss_endpoint x := map_option (ep_sessions_update (remove1 a)) (c_endpoints s (ss_endpoint x)))) \<and>
     c_next s' = c_next s \<and> c_max_idle s' = c_max_idle s"
proof -
  obtain w where e: "coap_session_free a s =
    (if \<exists>q \<in> set (ss_sendqueue x). q_session q \<noteq> 0 then None
     else case unlink_session a x (s\<lparr>c_world := w\<rparr>) of None \<Rightarrow> None
     | Some s \<Rightarrow> let s = (if ss_context x then fold (nack a (nack_reason x)) (ss_sendqueue x) s else s)
                 in Some (s\<lparr>c_sess := (c_sess s)(a := None)\<rparr>))"
    using coap_session_free_steps [OF assms(2-4)] by blast
  from assms(1) e obtain t where t: "unlink_session a x (s\<lparr>c_world := w\<rparr>) = Some t"
    by (auto split: if_splits option.splits)
  obtain l where l: "(if ss_context x then fold (nack a (nack_reason x)) (ss_sendqueue x) t else t) = t\<lparr>c_nacks := l\<rparr>"
    using fold_nack_log [of a "nack_reason x" "ss_sendqueue x" t] that [of "c_nacks t"] by (cases "ss_context x") auto
  from assms(1) e t l have s': "s' = t\<lparr>c_nacks := l, c_sess := (c_sess t)(a := None)\<rparr>"
    by (auto split: if_splits)
  show ?thesis using t unfolding s'
    by (auto simp: unlink_session_def fun_eq_iff split: if_splits option.splits)
qed

lemma coap_inv_linked:
  "coap_inv app s \<Longrightarrow> c_endpoints s e = Some ep \<Longrightarrow>
    e \<noteq> 0 \<and> distinct (ep_sessions ep) \<and> (\<forall>a \<in> set (ep_sessions ep). \<exists>x. c_sess s a = Some x \<and> ss_endpoint x = e)"
  by (simp add: coap_inv_def links_ok_def)

text \<open>The eviction of an idle session.\<close>

lemma evict_idle:
  assumes inv: "coap_inv app s" and x: "c_sess s b = Some x" "is_idle x" "ss_endpoint x = e"
    and ep: "c_endpoints s e = Some ep"
  shows "\<exists>s'. do { s \<leftarrow> coap_session_release b s; coap_session_free b s } = Some s' \<and>
    coap_inv app s' \<and> keeps s s' \<and> c_sess s' = (c_sess s)(b := None) \<and> c_max_idle s' = c_max_idle s \<and>
    c_next s' = c_next s \<and> c_endpoints s' e = Some (ep\<lparr>ep_sessions := remove1 b (ep_sessions ep)\<rparr>)"
proof -
  have b: "b \<noteq> 0" using coap_inv_Some [OF inv x(1)] by simp
  have "put_sess b x s = s" using x(1) by (simp add: put_sess_def fun_upd_idem)
  then have "coap_session_release b s = Some s"
    using x b by (simp add: coap_session_release_def is_idle_def)
  moreover from coap_session_free_ok [OF inv x(1)] x(2) obtain s' where s':
    "coap_session_free b s = Some s'" "coap_inv app s'" "keeps s s'" "c_sess s' = (c_sess s)(b := None)"
    by (auto simp: is_idle_def)
  moreover have "e \<noteq> 0" using coap_inv_linked [OF inv ep] by simp
  moreover note coap_session_free_endpoints [OF s'(1) x(1) _ b]
  ultimately show ?thesis using x ep by (simp add: is_idle_def)
qed

text \<open>Linking a new session.\<close>

lemma link_session_ok:
  assumes inv: "coap_inv app s" and ep: "c_endpoints s e = Some ep"
    and a: "c_sess s a = None" "a \<noteq> 0" "a < c_next s"
    and x: "ss_ref x = 0" "ss_sendqueue x = []" "ss_context x" "ss_endpoint x = e"
  shows "\<exists>s'. link_session e a x s = Some s' \<and> coap_inv app s' \<and> keeps s s' \<and>
    c_sess s' = (c_sess s)(a \<mapsto> x) \<and> c_endpoints s' e = Some (ep\<lparr>ep_sessions := a # ep_sessions ep\<rparr>)"
proof -
  let ?eps = "(c_endpoints s)(e \<mapsto> ep\<lparr>ep_sessions := a # ep_sessions ep\<rparr>)"
  let ?s = "put_sess a x (s\<lparr>c_endpoints := ?eps\<rparr>)"
  have zero: "held s a + app a = 0" using coap_inv_None [OF inv a(1)] by simp
  have "a \<notin> set (ep_sessions ep)" using coap_inv_linked [OF inv ep] a(1) by auto
  moreover have "b \<noteq> a" if "c_endpoints s f = Some epf" "b \<in> set (ep_sessions epf)" for f epf b
    using coap_inv_linked [OF inv that(1)] that(2) a(1) by auto
  moreover have links: "links_ok s" using inv by (simp add: coap_inv_def)
  moreover from links have "b \<noteq> a" if "b \<in> set (c_sessions s)" for b
    using that a(1) unfolding links_ok_def by fastforce
  ultimately have "links_ok ?s"
    using ep x(4) unfolding links_ok_def by (auto split: if_splits)
  moreover have "slot_ok (held s b + app b) ?eps (c_next s) b (((c_sess s)(a \<mapsto> x)) b)" for b
    using coap_inv_slot [OF inv, of b] zero a x slot_ok_endpoints [of ?eps "c_endpoints s"] ep
    by (cases "b = a") (auto simp: sess_ok_def)
  moreover have "held ?s = held s" by (simp add: held_def fun_eq_iff)
  ultimately have "coap_inv app ?s" using inv by (simp add: coap_inv_def)
  with ep show ?thesis by (auto simp: link_session_def keeps_def)
qed

lemma coap_make_session_ok:
  assumes inv: "coap_inv app s"
  shows "case coap_make_session proto type local remote e s of
      (None, s') \<Rightarrow> \<exists>w. s' = s\<lparr>c_world := w\<rparr>
    | (Some (x, a), s') \<Rightarrow> coap_inv app s' \<and> keeps s s' \<and> a = c_next s \<and> c_sess s a = None \<and> a \<noteq> 0 \<and>
        c_next s' = a + 1 \<and> c_sess s' = c_sess s \<and> c_endpoints s' = c_endpoints s \<and> c_max_idle s' = c_max_idle s \<and>
        ss_ref x = 0 \<and> ss_sendqueue x = [] \<and> ss_context x \<and> ss_endpoint x = e \<and> ss_local x = local \<and>
        ss_remote x = remote \<and> ss_type x = type \<and> \<not> ss_tls x \<and> \<not> ss_sock x"
proof -
  obtain m w where m: "ext_call ''malloc'' [] s = (m, s\<lparr>c_world := w\<rparr>)" by (rule ext_callE)
  obtain r w' where r: "ext_call ''prng'' [] (s\<lparr>c_world := w\<rparr>) = (r, s\<lparr>c_world := w\<rparr>\<lparr>c_world := w'\<rparr>)"
    by (rule ext_callE)
  let ?s = "s\<lparr>c_world := w', c_next := c_next s + 1\<rparr>"
  have slot: "slot_ok (held s b + app b) (c_endpoints s) (c_next s + 1) b (c_sess s b)" for b
    using coap_inv_slot [OF inv, of b] by (cases "c_sess s b") auto
  have "coap_inv app ?s"
    using inv slot by (simp add: coap_inv_def links_ok_def held_def)
  moreover have "c_sess s (c_next s) = None"
    using coap_inv_Some [OF inv, of "c_next s"] by (cases "c_sess s (c_next s)") auto
  moreover have "0 < c_next s" using inv by (simp add: coap_inv_def)
  ultimately show ?thesis using m r by (auto simp: coap_make_session_def Let_def keeps_def)
qed

lemma coap_inv_fresh:
  assumes inv: "coap_inv app s" and a: "c_sess s a = None" "a \<noteq> 0" "a < c_next s"
    and x: "ss_ref x = 0" "ss_sendqueue x = []" "ss_context x" "c_endpoints s (ss_endpoint x) \<noteq> None"
  shows "coap_inv app (put_sess a x s)"
proof -
  have zero: "held s a + app a = 0" using coap_inv_None [OF inv a(1)] by simp
  have links: "links_ok s" using inv by (simp add: coap_inv_def)
  then have "b \<noteq> a" if "c_endpoints s f = Some epf" "b \<in> set (ep_sessions epf)" for f epf b
    using that a(1) unfolding links_ok_def by fastforce
  moreover from links have "b \<noteq> a" if "b \<in> set (c_sessions s)" for b
    using that a(1) unfolding links_ok_def by fastforce
  ultimately have "links_ok (put_sess a x s)"
    using links unfolding links_ok_def by auto
  moreover have "slot_ok (held s b + app b) (c_endpoints s) (c_next s) b (((c_sess s)(a \<mapsto> x)) b)" for b
    using coap_inv_slot [OF inv, of b] zero a x by (cases "b = a") (auto simp: sess_ok_def)
  ultimately show ?thesis using inv by (simp add: coap_inv_def)
qed

text \<open>A server session \<open>a\<close> of \<open>e\<close> has been added, or none when \<open>a\<close> is \<^verbatim>\<open>NULL\<close>.\<close>

definition session_added ::
  "addr \<Rightarrow> coap_address_t \<Rightarrow> coap_address_t \<Rightarrow> u32 \<Rightarrow> addr \<Rightarrow> coap_context_t \<Rightarrow> coap_context_t \<Rightarrow> bool" where
  "session_added e dst src now a s s' \<longleftrightarrow>
     (if a = 0 then c_sess s' = c_sess s \<and> map_option ep_sessions (c_endpoints s' e) = map_option ep_sessions (c_endpoints s e)
      else c_sess s a = None \<and>
        (\<exists>x. c_sess s' = (c_sess s)(a \<mapsto> x) \<and> ss_local x = dst \<and> ss_remote x = src \<and> ss_last_rx_tx x = now) \<and>
        map_option ep_sessions (c_endpoints s' e) = map_option ((#) a \<circ> ep_sessions) (c_endpoints s e))"

lemma new_server_session_ok:
  assumes inv: "coap_inv app s" and ep: "c_endpoints s e = Some ep"
  shows "\<exists>a s'. new_server_session proto e dst src now s = Some (a, s') \<and> coap_inv app s' \<and> keeps s s' \<and>
    session_added e dst src now a s s'"
proof (cases "coap_make_session proto COAP_SESSION_TYPE_SERVER dst src e s")
  case (Pair xa s1)
  note made = coap_make_session_ok [OF inv, where proto = proto and type = COAP_SESSION_TYPE_SERVER
      and local = dst and remote = src and e = e]
  show ?thesis
  proof (cases xa)
    case None
    with made Pair inv show ?thesis by (auto simp: new_server_session_def session_added_def)
  next
    case (Some p)
    then obtain x a where p: "xa = Some (x, a)" by (cases p) auto
    with made Pair have m: "coap_inv app s1" "keeps s s1" "c_sess s a = None" "a \<noteq> 0" "a < c_next s1"
      "c_sess s1 = c_sess s" "c_endpoints s1 = c_endpoints s" and
      x: "ss_ref x = 0" "ss_sendqueue x = []" "ss_context x" "ss_endpoint x = e" "ss_local x = dst" "ss_remote x = src"
      by auto
    let ?x = "x\<lparr>ss_last_rx_tx := now, ss_state := COAP_SESSION_STATE_ESTABLISHED\<rparr>"
    let ?y = "x\<lparr>ss_last_rx_tx := now, ss_tls := True, ss_state := COAP_SESSION_STATE_ESTABLISHED, ss_newly_created := True\<rparr>"
    let ?z = "x\<lparr>ss_last_rx_tx := now, ss_state := COAP_SESSION_STATE_HANDSHAKE\<rparr>"
    obtain t w where t: "ext_call ''TLSSession'' [int a] s1 = (t, s1\<lparr>c_world := w\<rparr>)"
      by (rule ext_callE)
    have inv1: "coap_inv app (s1\<lparr>c_world := w\<rparr>)" using m(1) by simp
    consider (udp) "proto \<noteq> COAP_UDP_DTLS" | (dtls) "proto = COAP_UDP_DTLS" "t \<noteq> 0"
      | (failed) "proto = COAP_UDP_DTLS" "t = 0" by blast
    then show ?thesis
    proof cases
      case udp
      obtain s2 where s2: "link_session e a ?x s1 = Some s2" "coap_inv app s2" "keeps s1 s2"
          "c_sess s2 = (c_sess s1)(a \<mapsto> ?x)" "c_endpoints s2 e = Some (ep\<lparr>ep_sessions := a # ep_sessions ep\<rparr>)"
        using link_session_ok [OF m(1), of e ep a ?x] ep m x by auto
      then show ?thesis using udp Pair p m x ep keeps_trans [OF m(2) s2(3)]
        by (auto simp: new_server_session_def session_added_def)
    next
      case dtls
      obtain s2 where s2: "link_session e a ?y (s1\<lparr>c_world := w\<rparr>) = Some s2" "coap_inv app s2" "keeps s1 s2"
          "c_sess s2 = (c_sess s1)(a \<mapsto> ?y)" "c_endpoints s2 e = Some (ep\<lparr>ep_sessions := a # ep_sessions ep\<rparr>)"
        using link_session_ok [OF inv1, of e ep a ?y] ep m x by auto
      then show ?thesis using dtls Pair p m x t ep keeps_trans [OF m(2) s2(3)]
        by (auto simp: new_server_session_def session_added_def)
    next
      case failed
      let ?s = "put_sess a ?z (s1\<lparr>c_world := w\<rparr>)"
      have inv2: "coap_inv app ?s"
        by (rule coap_inv_fresh [OF inv1]) (use m x ep in auto)
      from coap_session_free_ok [OF inv2, of a ?z] x obtain s2 where s2:
        "coap_session_free a ?s = Some s2" "coap_inv app s2" "keeps s1 s2" "c_sess s2 = (c_sess ?s)(a := None)" by auto
      have "e \<noteq> 0" "a \<notin> set (ep_sessions ep)" using coap_inv_linked [OF inv ep] m(3) by auto
      with coap_session_free_endpoints [OF s2(1), of ?z] x m ep
      have "map_option ep_sessions (c_endpoints s2 e) = map_option ep_sessions (c_endpoints s e)"
        by (simp add: remove1_idem)
      moreover have "c_sess s2 = c_sess s" using s2(4) m by (auto simp: fun_eq_iff)
      ultimately show ?thesis using failed Pair p t s2 keeps_trans [OF m(2) s2(3)]
        by (auto simp: new_server_session_def session_added_def)
    qed
  qed
qed

lemma filter_remove1_length:
  "b \<in> set as \<Longrightarrow> distinct as \<Longrightarrow> P b \<Longrightarrow> Suc (length (filter P (remove1 b as))) = length (filter P as)"
  by (induction as) (auto simp: remove1_idem)

definition idle_count :: "coap_context_t \<Rightarrow> addr \<Rightarrow> nat" where
  "idle_count s e =
     (case c_endpoints s e of None \<Rightarrow> 0 | Some ep \<Rightarrow> length (filter (idle_at (c_sess s)) (ep_sessions ep)))"

lemma idle_count_remove:
  assumes inv: "coap_inv app s" and ep: "c_endpoints s e = Some ep" and b: "b \<in> set (ep_sessions ep)" "idle_at (c_sess s) b"
    and t: "c_sess t = (c_sess s)(b := None)" "c_endpoints t e = Some (ep\<lparr>ep_sessions := remove1 b (ep_sessions ep)\<rparr>)"
  shows "Suc (idle_count t e) = idle_count s e"
proof -
  have d: "distinct (ep_sessions ep)" using coap_inv_linked [OF inv ep] by simp
  have "filter (idle_at (c_sess t)) (remove1 b (ep_sessions ep)) = filter (idle_at (c_sess s)) (remove1 b (ep_sessions ep))"
    by (rule filter_cong) (use d t in \<open>auto simp: idle_at_def\<close>)
  with filter_remove1_length [of b "ep_sessions ep" "idle_at (c_sess s)"] b d ep t show ?thesis
    by (simp add: idle_count_def)
qed

lemma idle_count_added:
  assumes inv: "coap_inv app s" and "session_added e dst src now a s s'"
  shows "idle_count s' e \<le> Suc (idle_count s e)"
proof (cases "c_endpoints s e")
  case None
  with assms(2) show ?thesis by (auto simp: idle_count_def session_added_def split: if_splits option.splits)
next
  case (Some ep)
  show ?thesis
  proof (cases "a = 0")
    case True
    with assms(2) Some show ?thesis by (auto simp: idle_count_def session_added_def)
  next
    case False
    with assms(2) Some obtain x ep' where x: "c_sess s a = None" "c_sess s' = (c_sess s)(a \<mapsto> x)"
        "c_endpoints s' e = Some ep'" "ep_sessions ep' = a # ep_sessions ep"
      by (auto simp: session_added_def)
    have "a \<notin> set (ep_sessions ep)" using coap_inv_linked [OF inv Some] x(1) by auto
    then have "filter (idle_at (c_sess s')) (ep_sessions ep) = filter (idle_at (c_sess s)) (ep_sessions ep)"
      by (intro filter_cong) (auto simp: x(2) idle_at_def)
    with x Some show ?thesis by (simp add: idle_count_def)
  qed
qed

text \<open>The outcome of a lookup.\<close>

definition lookup_ok ::
  "addr \<Rightarrow> coap_address_t \<Rightarrow> coap_address_t \<Rightarrow> u32 \<Rightarrow> addr \<Rightarrow> coap_context_t \<Rightarrow> coap_context_t \<Rightarrow> bool" where
  "lookup_ok e dst src now a s s' \<longleftrightarrow>
     (a \<noteq> 0 \<longrightarrow>
       (\<exists>ep x. c_endpoints s' e = Some ep \<and> a \<in> set (ep_sessions ep) \<and> c_sess s' a = Some x \<and>
         ss_last_rx_tx x = now \<and> (ss_local x = dst \<or> coap_address_equals (ss_local x) dst) \<and>
         (ss_remote x = src \<or> coap_address_equals (ss_remote x) src))) \<and>
     (\<forall>b x. c_sess s b = Some x \<and> c_sess s' b = None \<longrightarrow>
       is_idle x \<and> c_max_idle s \<le> idle_count s e \<and>
       (\<forall>ep. c_endpoints s e = Some ep \<longrightarrow> oldest_of (c_sess s) (set (ep_sessions ep)) (Some (b, ss_last_rx_tx x)))) \<and>
     (0 < c_max_idle s \<longrightarrow> idle_count s' e \<le> max (c_max_idle s) (idle_count s e))"

lemma get_session_found:
  assumes inv: "coap_inv app s" and ep: "c_endpoints s e = Some ep"
    and found: "scan_sessions (c_sess s) dst src (ep_sessions ep) 0 None = Some (Inl a)"
  shows "\<exists>s'. coap_endpoint_get_session e dst src now s = Some (a, s') \<and> coap_inv app s' \<and> keeps s s' \<and>
    lookup_ok e dst src now a s s'"
proof -
  from scan_sessions_found [OF found] obtain x where x: "a \<in> set (ep_sessions ep)" "c_sess s a = Some x"
    "coap_address_equals (ss_local x) dst" "coap_address_equals (ss_remote x) src" by blast
  let ?x = "x\<lparr>ss_last_rx_tx := now, ss_newly_created := False\<rparr>"
  let ?s = "put_sess a ?x s"
  have "coap_inv app ?s"
    by (rule coap_inv_put [OF inv x(2)]) (use coap_inv_Some [OF inv x(2)] in \<open>simp_all add: sess_ok_def\<close>)
  moreover have "idle_at (c_sess ?s) = idle_at (c_sess s)"
    using x(2) by (auto simp: idle_at_def is_idle_def fun_eq_iff)
  then have "idle_count ?s e = idle_count s e" using ep by (simp add: idle_count_def)
  then have "lookup_ok e dst src now a s ?s"
    using ep x by (auto simp: lookup_ok_def split: if_splits)
  ultimately show ?thesis using ep found x by (simp add: coap_endpoint_get_session_def)
qed

lemma get_session_new:
  assumes inv: "coap_inv app s" and ep: "c_endpoints s e = Some ep"
    and new: "scan_sessions (c_sess s) dst src (ep_sessions ep) 0 None = Some (Inr (k, old))"
  shows "\<exists>a s'. coap_endpoint_get_session e dst src now s = Some (a, s') \<and> coap_inv app s' \<and> keeps s s' \<and>
    lookup_ok e dst src now a s s'"
proof -
  have "oldest_of (c_sess s) {} None" by (simp add: oldest_of_def)
  from scan_sessions_new [OF new this] have k: "k = idle_count s e" "oldest_of (c_sess s) (set (ep_sessions ep)) old"
    using ep by (simp_all add: idle_count_def)
  show ?thesis
  proof (cases "0 < c_max_idle s \<and> c_max_idle s \<le> k")
    case False
    from new_server_session_ok [OF inv ep] obtain a s' where a:
      "new_server_session (ep_proto ep) e dst src now s = Some (a, s')" "coap_inv app s'" "keeps s s'"
      "session_added e dst src now a s s'" by blast
    have "lookup_ok e dst src now a s s'"
      using a(4) ep idle_count_added [OF inv a(4)] False k(1)
      unfolding lookup_ok_def session_added_def by (auto split: if_splits)
    moreover have "coap_endpoint_get_session e dst src now s = new_server_session (ep_proto ep) e dst src now s"
      unfolding coap_endpoint_get_session_def using False ep new by (simp add: Let_def if_not_P [OF False])
    ultimately show ?thesis using a by simp
  next
    case True
    then have "filter (idle_at (c_sess s)) (ep_sessions ep) \<noteq> []" using k ep by (auto simp: idle_count_def)
    then obtain c where "c \<in> set (ep_sessions ep)" "idle_at (c_sess s) c" by (auto simp: filter_empty_conv)
    with k(2) obtain b t where old: "old = Some (b, t)" by (auto simp: oldest_of_def split: option.splits)
    with k(2) obtain x where b: "b \<in> set (ep_sessions ep)" "c_sess s b = Some x" "is_idle x" "ss_last_rx_tx x = t"
      by (auto simp: oldest_of_def)
    have xe: "ss_endpoint x = e" using coap_inv_linked [OF inv ep] b(1,2) by fastforce
    from evict_idle [OF inv b(2,3) xe ep] obtain s1 where s1:
      "do { s \<leftarrow> coap_session_release b s; coap_session_free b s } = Some s1" "coap_inv app s1" "keeps s s1"
      "c_sess s1 = (c_sess s)(b := None)"
      "c_endpoints s1 e = Some (ep\<lparr>ep_sessions := remove1 b (ep_sessions ep)\<rparr>)" by blast
    from new_server_session_ok [OF s1(2,5)] obtain a s' where a:
      "new_server_session (ep_proto ep) e dst src now s1 = Some (a, s')" "coap_inv app s'" "keeps s1 s'"
      "session_added e dst src now a s1 s'" by blast
    have "Suc (idle_count s1 e) = idle_count s e"
      using idle_count_remove [OF inv ep b(1)] b s1(4,5) by (auto simp: idle_at_def)
    then have cnt: "idle_count s' e \<le> idle_count s e" using idle_count_added [OF s1(2) a(4)] by simp
    have "c = b" if "c_sess s c = Some y" "c_sess s' c = None" for c y
      using that a(4) s1(4) by (auto simp: session_added_def split: if_splits)
    note gone = this
    have found: "\<exists>ep y. c_endpoints s' e = Some ep \<and> a \<in> set (ep_sessions ep) \<and> c_sess s' a = Some y \<and>
        ss_last_rx_tx y = now \<and> ss_local y = dst \<and> ss_remote y = src" if "a \<noteq> 0"
    proof -
      from a(4) that s1(5) obtain y ep' where "c_sess s' = (c_sess s1)(a \<mapsto> y)" "ss_local y = dst" "ss_remote y = src"
        "ss_last_rx_tx y = now" "c_endpoints s' e = Some ep'" "ep_sessions ep' = a # remove1 b (ep_sessions ep)"
        by (auto simp: session_added_def)
      then show ?thesis by simp
    qed
    have evicted: "is_idle y \<and> c_max_idle s \<le> idle_count s e \<and>
        (\<forall>ep. c_endpoints s e = Some ep \<longrightarrow> oldest_of (c_sess s) (set (ep_sessions ep)) (Some (c, ss_last_rx_tx y)))"
      if "c_sess s c = Some y" "c_sess s' c = None" for c y
    proof -
      have "c = b" "y = x" using gone [OF that] that(1) b(2) by auto
      with b True k old ep show ?thesis by simp
    qed
    have "lookup_ok e dst src now a s s'"
      unfolding lookup_ok_def
    proof (intro conjI impI allI)
      assume "a \<noteq> 0"
      from found [OF this] show "\<exists>ep x. c_endpoints s' e = Some ep \<and> a \<in> set (ep_sessions ep) \<and> c_sess s' a = Some x \<and>
         ss_last_rx_tx x = now \<and> (ss_local x = dst \<or> coap_address_equals (ss_local x) dst) \<and>
         (ss_remote x = src \<or> coap_address_equals (ss_remote x) src)" by blast
    next
      show "idle_count s' e \<le> max (c_max_idle s) (idle_count s e)" using cnt by simp
    qed (use evicted in blast)+
    moreover from s1(1) obtain s0 where "coap_session_release b s = Some s0" "coap_session_free b s0 = Some s1"
      by (auto simp: Option.bind_eq_Some_conv)
    ultimately show ?thesis using True a ep new old keeps_trans [OF s1(3) a(3)]
      by (simp add: coap_endpoint_get_session_def Let_def)
  qed
qed

lemma coap_endpoint_get_session_ok:
  assumes inv: "coap_inv app s" and ep: "c_endpoints s e = Some ep"
  shows "\<exists>a s'. coap_endpoint_get_session e dst src now s = Some (a, s') \<and> coap_inv app s' \<and> keeps s s' \<and>
    lookup_ok e dst src now a s s'"
proof -
  have "\<forall>a \<in> set (ep_sessions ep). c_sess s a \<noteq> None" using coap_inv_linked [OF inv ep] by auto
  then obtain r where "scan_sessions (c_sess s) dst src (ep_sessions ep) 0 None = Some r"
    using scan_sessions_total by blast
  then show ?thesis
    using get_session_found [OF inv ep] get_session_new [OF inv ep] by (cases r) (fastforce, auto)
qed

section \<open>Client sessions\<close>

definition world_only :: "coap_context_t \<Rightarrow> coap_context_t \<Rightarrow> bool" where
  "world_only s s' \<longleftrightarrow> (\<exists>w. s' = s\<lparr>c_world := w\<rparr>)"

lemma world_only_refl: "world_only s s"
  unfolding world_only_def by (rule exI [of _ "c_world s"]) simp

lemma world_only_ext_call: "world_only s t \<Longrightarrow> world_only s (snd (ext_call f args t))"
  by (auto simp: world_only_def ext_call_def split: prod.splits)

lemma connect_udp_world: "world_only s (snd (coap_socket_connect_udp local_if server s))"
  unfolding coap_socket_connect_udp_def connect_local_def Let_def case_prod_beta
  by (simp add: world_only_refl world_only_ext_call split: option.split)

lemma connect_udpE:
  obtains r w where "coap_socket_connect_udp local_if server s = (r, s\<lparr>c_world := w\<rparr>)"
  using connect_udp_world [of s local_if server] that
  by (cases "coap_socket_connect_udp local_if server s") (auto simp: world_only_def)

lemma coap_inv_sessions:
  "coap_inv app s \<Longrightarrow> distinct (c_sessions s) \<and> (\<forall>a \<in> set (c_sessions s). \<exists>x. c_sess s a = Some x \<and> ss_endpoint x = 0)"
  by (simp add: coap_inv_def links_ok_def)

lemma free_unconnected:
  assumes inv: "coap_inv app s" and a: "c_sess s a = None" "a \<noteq> 0"
    and x: "ss_ref x = 0" "ss_sendqueue x = []" "ss_endpoint x = 0" "ss_context x" "\<not> ss_tls x" "\<not> ss_sock x"
  shows "coap_session_free a (put_sess a x s) = Some s"
proof -
  have "a \<notin> set (c_sessions s)" using coap_inv_sessions [OF inv] a by auto
  then have "remove1 a (c_sessions s) = c_sessions s" by (simp add: remove1_idem)
  moreover have "((c_sess s)(a \<mapsto> x))(a := None) = c_sess s" using a by (auto simp: fun_eq_iff)
  ultimately show ?thesis
    using a x by (simp add: coap_session_free_def unlink_session_def put_sess_def)
qed

lemma coap_inv_client:
  assumes inv: "coap_inv app s" and a: "c_sess s a = None" "a \<noteq> 0" "a < c_next s"
    and x: "ss_ref x = 1" "ss_sendqueue x = []" "ss_endpoint x = 0" "ss_context x" "ss_sock x"
  shows "coap_inv (take_ref a app) (put_sess a x (s\<lparr>c_sessions := a # c_sessions s\<rparr>))"
proof -
  let ?s = "put_sess a x (s\<lparr>c_sessions := a # c_sessions s\<rparr>)"
  have zero: "held s a = 0" "app a = 0" using coap_inv_None [OF inv a(1)] by simp_all
  have links: "links_ok s" using inv by (simp add: coap_inv_def)
  have "b \<noteq> a" if "c_endpoints s f = Some epf" "b \<in> set (ep_sessions epf)" for f epf b
    using coap_inv_linked [OF inv that(1)] that(2) a(1) by auto
  moreover have "b \<noteq> a" if "b \<in> set (c_sessions s)" for b
    using coap_inv_sessions [OF inv] that a(1) by auto
  ultimately have "links_ok ?s" using links x(3) unfolding links_ok_def by auto
  moreover have "slot_ok (held s b + take_ref a app b) (c_endpoints s) (c_next s) b (((c_sess s)(a \<mapsto> x)) b)" for b
    using coap_inv_slot [OF inv, of b] zero a x by (cases "b = a") (auto simp: sess_ok_def take_ref_def)
  moreover have "held ?s = held s" by (simp add: held_def fun_eq_iff)
  ultimately show ?thesis using inv by (simp add: coap_inv_def)
qed

lemma coap_session_create_client_ok:
  assumes inv: "coap_inv app s"
  shows "\<exists>a s'. coap_session_create_client names local_if server proto s = Some (a, s') \<and>
    coap_inv (if a = 0 then app else take_ref a app) s' \<and> keeps s s' \<and> (a \<noteq> 0 \<longrightarrow> app a = 0 \<and> held s' a = 0)"
proof -
  let ?local = "case local_if of None \<Rightarrow> zero_address | Some l \<Rightarrow> l"
  note made = coap_make_session_ok [OF inv, where proto = proto and type = COAP_SESSION_TYPE_CLIENT
      and local = ?local and remote = server and e = 0]
  obtain xa s1 where Pair: "coap_make_session proto COAP_SESSION_TYPE_CLIENT ?local server 0 s = (xa, s1)" by fastforce
  show ?thesis
  proof (cases xa)
    case None
    with made Pair inv show ?thesis by (auto simp: coap_session_create_client_def coap_session_free_def)
  next
    case (Some p)
    then obtain x a where p: "xa = Some (x, a)" by (cases p) auto
    with made Pair have m: "coap_inv app s1" "keeps s s1" "c_sess s1 a = None" "a \<noteq> 0" "a < c_next s1" and
      x: "ss_ref x = 0" "ss_sendqueue x = []" "ss_context x" "ss_endpoint x = 0" "\<not> ss_tls x" "\<not> ss_sock x"
      by auto
    obtain ok named peer w where c: "coap_socket_connect_udp local_if server s1 = ((ok, named, peer), s1\<lparr>c_world := w\<rparr>)"
      by (metis connect_udpE prod_cases3)
    have inv1: "coap_inv app (s1\<lparr>c_world := w\<rparr>)" using m(1) by simp
    show ?thesis
    proof (cases ok)
      case True
      let ?x = "x\<lparr>ss_ref := 1, ss_sock := True, ss_local := (if named then fst names else ss_local x),
        ss_remote := (if peer then snd names else ss_remote x)\<rparr>"
      let ?s = "put_sess a ?x (s1\<lparr>c_world := w, c_sessions := a # c_sessions s1\<rparr>)"
      have "coap_inv (take_ref a app) ?s" using coap_inv_client [OF inv1, of a ?x] m x by simp
      moreover have "held ?s a = 0" "app a = 0" using coap_inv_None [OF m(1,3)] by (simp_all add: held_def)
      moreover have "keeps s ?s" using m(2) by (simp add: keeps_def)
      ultimately show ?thesis using True Pair p c m(4) by (simp add: coap_session_create_client_def)
    next
      case False
      have "coap_session_free a (put_sess a x (s1\<lparr>c_world := w\<rparr>)) = Some (s1\<lparr>c_world := w\<rparr>)"
        by (rule free_unconnected [OF inv1]) (use m x in simp_all)
      with False Pair p c inv1 m(2) show ?thesis by (simp add: coap_session_create_client_def)
    qed
  qed
qed

lemma coap_session_connect_ok:
  assumes inv: "coap_inv (take_ref a app) s" and a: "app a = 0" "held s a = 0"
  shows "\<exists>r s'. coap_session_connect a s = Some (r, s') \<and> (r = 0 \<or> r = a) \<and>
    coap_inv (if r = 0 then app else take_ref a app) s' \<and> keeps s s'"
proof -
  have "0 < held s a + take_ref a app a" by (simp add: take_ref_def)
  with inv obtain x where x: "c_sess s a = Some x" "a \<noteq> 0" "sess_ok (held s a + take_ref a app a) (c_endpoints s) x"
    by (rule coap_inv_referenced)
  have keep: "coap_inv (take_ref a app) (put_sess a (x\<lparr>ss_tls := b, ss_state := st, ss_last_rx_tx := t\<rparr>) (s\<lparr>c_world := w\<rparr>))"
    for st b t w
    by (rule coap_inv_put [of "take_ref a app" _ _ x]) (use inv x in \<open>simp_all add: sess_ok_def held_def\<close>)
  obtain t w where t: "ext_call ''TLSSession'' [int a] s = (t, s\<lparr>c_world := w\<rparr>)" by (rule ext_callE)
  consider (udp) "ss_proto x = COAP_UDP" | (dtls) "ss_proto x \<noteq> COAP_UDP" "t \<noteq> 0" | (failed) "ss_proto x \<noteq> COAP_UDP" "t = 0"
    by blast
  then show ?thesis
  proof cases
    case udp
    obtain now w1 where n: "coap_ticks s = (now, s\<lparr>c_world := w1\<rparr>)" by (rule coap_ticksE)
    show ?thesis
      using udp x n keep [where st = COAP_SESSION_STATE_ESTABLISHED and b = "ss_tls x" and t = now and w = w1] by (simp add: coap_session_connect_def)
  next
    case dtls
    obtain now w1 where n: "coap_ticks (s\<lparr>c_world := w\<rparr>) = (now, s\<lparr>c_world := w\<rparr>\<lparr>c_world := w1\<rparr>)" by (rule coap_ticksE)
    show ?thesis
      using dtls x t n keep [where st = COAP_SESSION_STATE_ESTABLISHED and b = True and t = now and w = w1] by (simp add: coap_session_connect_def)
  next
    case failed
    let ?x = "x\<lparr>ss_tls := False, ss_ref := 0\<rparr>"
    have "coap_inv app (put_sess a ?x (s\<lparr>c_world := w\<rparr>))"
      by (rule coap_inv_put [of "take_ref a app" _ _ x])
        (use inv x a in \<open>simp_all add: sess_ok_def held_def take_ref_def\<close>)
    from coap_session_free_ok [OF this, of a ?x] failed x t show ?thesis
      by (auto simp: coap_session_connect_def)
  qed
qed

lemma coap_new_client_session_ok:
  assumes inv: "coap_inv app s"
  shows "\<exists>a s'. coap_new_client_session names local_if server proto s = Some (a, s') \<and>
    coap_inv (if a = 0 then app else take_ref a app) s' \<and> keeps s s'"
proof -
  from coap_session_create_client_ok [OF inv, of names local_if server proto] obtain a s1 where s1:
    "coap_session_create_client names local_if server proto s = Some (a, s1)"
    "coap_inv (if a = 0 then app else take_ref a app) s1" "keeps s s1" "a \<noteq> 0 \<longrightarrow> app a = 0 \<and> held s1 a = 0" by blast
  show ?thesis
  proof (cases "a = 0")
    case True
    with s1 show ?thesis by (simp add: coap_new_client_session_def)
  next
    case False
    with s1 coap_session_connect_ok [of a app s1] obtain r s2 where
      "coap_session_connect a s1 = Some (r, s2)" "r = 0 \<or> r = a" "coap_inv (if r = 0 then app else take_ref a app) s2"
      "keeps s1 s2" by auto
    with False s1 keeps_trans [OF s1(3)] show ?thesis by (auto simp: coap_new_client_session_def)
  qed
qed

end
