(* ===== verification/Coap_Uri.thy ===== *)
theory Coap_Uri
  imports Prelude
begin

text \<open>
  CoAP URIs and resource keys: \<^verbatim>\<open>coap/tizenrt/coap_uri.c\<close>, \<^verbatim>\<open>hashkey.c\<close> and the lookups of
  \<^verbatim>\<open>coap_resource.c\<close>.  A pointer into the URI with the length left is the list of the characters
  left; pointers are compared by these lengths.
\<close>

section \<open>Splitting a URI\<close>

definition COAP_DEFAULT_PORT :: nat where "COAP_DEFAULT_PORT = 5683"
definition COAPS_DEFAULT_PORT :: nat where "COAPS_DEFAULT_PORT = 5684"
definition COAP_DEFAULT_SCHEME :: string where "COAP_DEFAULT_SCHEME = ''coap''"

text \<open>A component is its offset in the URI with its characters; an absent one is \<^verbatim>\<open>(0, NULL)\<close>.\<close>

record coap_uri =
  u_host :: "nat \<times> string"
  u_port :: u16
  u_path :: "nat \<times> string"
  u_query :: "nat \<times> string"
  u_secure :: bool

definition zero_uri :: coap_uri where
  "zero_uri = \<lparr>u_host = (0, []), u_port = of_nat COAP_DEFAULT_PORT, u_path = (0, []), u_query = (0, []),
     u_secure = False\<rparr>"

definition isdigit :: "char \<Rightarrow> bool" where
  "isdigit c \<longleftrightarrow> (of_char c :: nat) \<in> {48..57}"

definition islower :: "char \<Rightarrow> bool" where
  "islower c \<longleftrightarrow> (of_char c :: nat) \<in> {97..122}"

definition ISEQUAL_CI :: "char \<Rightarrow> char \<Rightarrow> bool" where
  "ISEQUAL_CI a b \<longleftrightarrow> a = b \<or> islower b \<and> (of_char a :: nat) = of_char b - 32"

text \<open>The loops over a constant: \<^verbatim>\<open>while (len && *q && eq(*p, *q))\<close>; the rests of \<open>q\<close> and \<open>p\<close>.\<close>

fun eat :: "(char \<Rightarrow> char \<Rightarrow> bool) \<Rightarrow> string \<Rightarrow> string \<Rightarrow> string \<times> string" where
  "eat eq [] p = ([], p)"
| "eat eq (c # q) [] = (c # q, [])"
| "eat eq (c # q) (d # p) = (if eq d c then eat eq q p else (c # q, d # p))"

text \<open>The value of the port's digits; \<^term>\<open>None\<close> is an overflow of \<^verbatim>\<open>int\<close>.\<close>

fun port_value :: "nat \<Rightarrow> string \<Rightarrow> nat option" where
  "port_value n [] = Some n"
| "port_value n (c # cs) =
     (let m = n * 10 + (of_char c - 48) in if m < 2 ^ 31 then port_value m cs else None)"

text \<open>The part behind the label \<^verbatim>\<open>path\<close>; \<open>s\<close> is the whole URI.\<close>

definition split_path_query :: "string \<Rightarrow> string \<Rightarrow> string \<Rightarrow> coap_uri \<Rightarrow> int \<times> coap_uri" where
  "split_path_query s p q u =
     (if q = [] then (0, u)
      else
        let (p, q, u) =
              (if hd q = CHR ''/'' then
                 let p = tl q; q = dropWhile (\<lambda>c. c \<noteq> CHR ''?'') p
                 in (q, q, if length q < length p
                           then u\<lparr>u_path := (length s - length p, take (length p - length q) p)\<rparr> else u)
               else (p, q, u))
        in if q \<noteq> [] \<and> p \<noteq> [] \<and> hd p = CHR ''?''
           then (0, u\<lparr>u_query := (length s - length (tl p), take (length q - 1) (tl p))\<rparr>)
           else (if q = [] then 0 else -1, u))"

text \<open>The port, when there is one, from \<open>q\<close> on.\<close>

definition split_port :: "string \<Rightarrow> string \<Rightarrow> string \<Rightarrow> coap_uri \<Rightarrow> (int \<times> coap_uri) option" where
  "split_port s p q u =
     (if q \<noteq> [] \<and> hd q = CHR '':'' then
        let p = tl q; q = dropWhile isdigit p
        in if length q < length p then
             (case port_value 0 (take (length p - length q) p) of
                None \<Rightarrow> None
              | Some n \<Rightarrow>
                  if 65535 < n then Some (-4, u)
                  else Some (split_path_query s q q (u\<lparr>u_port := of_nat n\<rparr>)))
           else Some (split_path_query s p q u)
      else Some (split_path_query s p q u))"

definition split_host :: "string \<Rightarrow> string \<Rightarrow> coap_uri \<Rightarrow> (int \<times> coap_uri) option" where
  "split_host s p u =
     (if p \<noteq> [] \<and> hd p = CHR ''['' then
        let q = dropWhile (\<lambda>c. c \<noteq> CHR '']'') p; p = tl p
        in if q = [] \<or> length p = length q then Some (-3, u)
           else split_port s p (tl q) (u\<lparr>u_host := (length s - length p, take (length p - length q) p)\<rparr>)
      else
        let q = dropWhile (\<lambda>c. c \<noteq> CHR '':'' \<and> c \<noteq> CHR ''/'' \<and> c \<noteq> CHR ''?'') p
        in if length p = length q then Some (-3, u)
           else split_port s p q (u\<lparr>u_host := (length s - length p, take (length p - length q) p)\<rparr>))"

definition artik_coap_split_uri :: "string option \<Rightarrow> (int \<times> coap_uri) option" where
  "artik_coap_split_uri uri =
     (case uri of
        None \<Rightarrow> Some (-1, zero_uri)
      | Some s \<Rightarrow>
          if s \<noteq> [] \<and> hd s = CHR ''/'' then Some (split_path_query s s s zero_uri)
          else
            let (rest, p) = eat ISEQUAL_CI COAP_DEFAULT_SCHEME s
            in if rest \<noteq> [] then Some (-1, zero_uri)
               else
                 let (p, u) = (if p \<noteq> [] \<and> hd p = CHR ''s''
                               then (tl p, zero_uri\<lparr>u_secure := True, u_port := of_nat COAPS_DEFAULT_PORT\<rparr>)
                               else (p, zero_uri));
                     (rest, p) = eat (=) ''://'' p
                 in if rest \<noteq> [] then Some (-2, u) else split_host s p u)"

text \<open>
  What the function writes into the caller's buffer when it gets to its end: a NUL behind every
  component that is not empty.
\<close>

definition nul_writes :: "coap_uri \<Rightarrow> nat list" where
  "nul_writes u = [o1 + length c. (o1, c) \<leftarrow> [u_host u, u_path u, u_query u], c \<noteq> []]"

section \<open>Resource keys\<close>

type_synonym coap_key_t = "u8 \<times> u8 \<times> u8 \<times> u8"

definition hash_byte :: "u8 \<Rightarrow> coap_key_t \<Rightarrow> coap_key_t" where
  "hash_byte c h =
     (case h of (h0, h1, h2, h3) \<Rightarrow>
        (push_bit 7 h0 + h0 + c,
         (push_bit 7 h1 OR drop_bit 1 h0) + h1,
         (push_bit 7 h2 OR drop_bit 1 h1) + h2,
         (push_bit 7 h3 OR drop_bit 1 h2) + h3))"

definition coap_hash_impl :: "string \<Rightarrow> coap_key_t \<Rightarrow> coap_key_t" where
  "coap_hash_impl s h = fold (\<lambda>c. hash_byte (of_char c)) s h"

definition dots :: "string \<Rightarrow> bool" where
  "dots s \<longleftrightarrow> s \<noteq> [] \<and> hd s = CHR ''.'' \<and> (length s = 1 \<or> length s = 2 \<and> s ! 1 = CHR ''.'')"

text \<open>The segments handed to the callback; \<open>cur\<close> is the segment read so far.\<close>

fun coap_split_path_impl :: "string \<Rightarrow> string \<Rightarrow> string list" where
  "coap_split_path_impl cur [] = (if dots cur then [] else [cur])"
| "coap_split_path_impl cur (c # s) =
     (if c = CHR ''?'' \<or> c = CHR ''#'' then (if dots cur then [] else [cur])
      else if c = CHR ''/'' then (if dots cur then [] else [cur]) @ coap_split_path_impl [] s
      else coap_split_path_impl (cur @ [c]) s)"

definition artik_coap_hash_path :: "string option \<Rightarrow> coap_key_t \<Rightarrow> int \<times> coap_key_t" where
  "artik_coap_hash_path path key =
     (case path of None \<Rightarrow> (0, key) | Some s \<Rightarrow> (1, fold coap_hash_impl (coap_split_path_impl [] s) (0, 0, 0, 0)))"

text \<open>A request carries its path as a list of options.\<close>

definition artik_coap_hash_request_uri :: "string list option \<Rightarrow> coap_key_t" where
  "artik_coap_hash_request_uri uri_path =
     (case uri_path of None \<Rightarrow> (0, 0, 0, 0) | Some os \<Rightarrow> fold coap_hash_impl os (0, 0, 0, 0))"

record coap_resource_t =
  r_key :: coap_key_t
  r_uri :: string

definition artik_coap_resource_init :: "string \<Rightarrow> coap_resource_t" where
  "artik_coap_resource_init uri =
     \<lparr>r_key = snd (artik_coap_hash_path (Some uri) (0, 0, 0, 0)), r_uri = uri\<rparr>"

definition artik_coap_add_resource :: "coap_resource_t \<Rightarrow> coap_resource_t list \<Rightarrow> coap_resource_t list" where
  "artik_coap_add_resource r rs = r # rs"

definition artik_coap_get_resource_from_key :: "coap_resource_t list \<Rightarrow> coap_key_t \<Rightarrow> coap_resource_t option" where
  "artik_coap_get_resource_from_key rs k = find (\<lambda>r. r_key r = k) rs"

section \<open>Facts\<close>

lemma eat_append: "(\<And>c. c \<in> set pat \<Longrightarrow> eq c c) \<Longrightarrow> eat eq pat (pat @ s) = ([], s)"
  by (induction pat) auto

lemma isdigit_digit [simp]: "d < 10 \<Longrightarrow> isdigit (digit d)"
  by (simp add: isdigit_def of_char_digit)

lemma dec_nat_digits: "\<forall>c \<in> set (dec_nat n). isdigit c"
proof (induction n rule: dec_nat.induct)
  case (1 n)
  then show ?case by (subst dec_nat.simps) auto
qed

lemma port_value_append:
  "port_value n (xs @ ys) = Option.bind (port_value n xs) (\<lambda>m. port_value m ys)"
  by (induction xs arbitrary: n) (auto simp: Let_def)

lemma port_value_dec: "n < 2 ^ 31 \<Longrightarrow> port_value 0 (dec_nat n) = Some n"
proof (induction n rule: dec_nat.induct)
  case (1 n)
  show ?case
  proof (cases "n < 10")
    case True
    then show ?thesis by (subst dec_nat.simps) (simp add: of_char_digit)
  next
    case False
    with 1 have "port_value 0 (dec_nat (n div 10)) = Some (n div 10)" by simp
    moreover have "n div 10 * 10 + n mod 10 = n" by simp
    ultimately show ?thesis
      using False 1(2) by (subst dec_nat.simps) (simp add: port_value_append of_char_digit)
  qed
qed

lemma dropWhile_append_stop:
  "\<forall>c \<in> set xs. P c \<Longrightarrow> ys = [] \<or> \<not> P (hd ys) \<Longrightarrow> dropWhile P (xs @ ys) = ys"
  by (induction xs) (auto simp: dropWhile_eq_self_iff)


section \<open>Printing\<close>

text \<open>
  A URI with all its parts; the port may be left to the scheme's default.  A host in brackets may
  contain colons.
\<close>

datatype host = Name string | Bracketed string

fun host_text :: "host \<Rightarrow> string" where
  "host_text (Name h) = h"
| "host_text (Bracketed h) = CHR ''['' # h @ '']''"

fun host_chars :: "host \<Rightarrow> string" where
  "host_chars (Name h) = h"
| "host_chars (Bracketed h) = h"

fun host_wf :: "host \<Rightarrow> bool" where
  "host_wf (Name h) \<longleftrightarrow> h \<noteq> [] \<and> hd h \<noteq> CHR ''['' \<and> (\<forall>c \<in> set h. c \<notin> {CHR '':'', CHR ''/'', CHR ''?''})"
| "host_wf (Bracketed h) \<longleftrightarrow> h \<noteq> [] \<and> CHR '']'' \<notin> set h"

definition port_text :: "nat option \<Rightarrow> string" where
  "port_text port = (case port of None \<Rightarrow> [] | Some n \<Rightarrow> CHR '':'' # dec_nat n)"

definition path_query :: "string \<Rightarrow> string option \<Rightarrow> string" where
  "path_query path query = CHR ''/'' # path @ (case query of None \<Rightarrow> [] | Some q \<Rightarrow> CHR ''?'' # q)"

definition print_uri :: "bool \<Rightarrow> host \<Rightarrow> nat option \<Rightarrow> string \<Rightarrow> string option \<Rightarrow> string" where
  "print_uri secure h port path query =
     ''coap'' @ (if secure then ''s'' else []) @ ''://'' @ host_text h @ port_text port @ path_query path query"

definition or_else :: "'a \<Rightarrow> 'a option \<Rightarrow> 'a" where
  "or_else d x = (case x of None \<Rightarrow> d | Some y \<Rightarrow> y)"

lemma or_else_simps [simp]: "or_else d None = d" "or_else d (Some x) = x"
  by (simp_all add: or_else_def)

text \<open>The components of the result, without their offsets.\<close>

definition parts :: "coap_uri \<Rightarrow> string \<times> nat \<times> string \<times> string \<times> bool" where
  "parts u = (snd (u_host u), unat (u_port u), snd (u_path u), snd (u_query u), u_secure u)"

text \<open>A URI under construction, before its path.\<close>

definition no_path :: "coap_uri \<Rightarrow> bool" where
  "no_path u \<longleftrightarrow> snd (u_path u) = [] \<and> snd (u_query u) = []"

lemma split_path_query_print:
  assumes "CHR ''?'' \<notin> set path" and "no_path u"
  shows "\<exists>u'. split_path_query s p (path_query path query) u = (0, u') \<and>
    parts u' = (snd (u_host u), unat (u_port u), path, or_else [] query, u_secure u)"
proof -
  let ?q = "case query of None \<Rightarrow> [] | Some q \<Rightarrow> CHR ''?'' # q"
  have d: "dropWhile (\<lambda>c. c \<noteq> CHR ''?'') (path @ ?q) = ?q"
  proof (rule dropWhile_append_stop)
    show "\<forall>c \<in> set path. c \<noteq> CHR ''?''" using assms(1) by blast
    show "?q = [] \<or> \<not> hd ?q \<noteq> CHR ''?''" by (cases query) simp_all
  qed
  show ?thesis
  proof (cases query)
    case None
    then have "dropWhile (\<lambda>c. c \<noteq> CHR ''?'') path = []" using d by (simp only: option.case append_Nil2)
    with None assms(2) show ?thesis
      by (simp del: dropWhile_eq_Nil_conv add: split_path_query_def path_query_def parts_def no_path_def Let_def)
  next
    case (Some q)
    with d assms(2) show ?thesis
      by (simp add: split_path_query_def path_query_def parts_def no_path_def Let_def)
  qed
qed

lemma split_port_print:
  assumes "CHR ''?'' \<notin> set path" and "no_path u" and "\<forall>n. port = Some n \<longrightarrow> n \<le> 65535"
  shows "\<exists>u'. split_port s p (port_text port @ path_query path query) u = Some (0, u') \<and>
    parts u' = (snd (u_host u), or_else (unat (u_port u)) port, path, or_else [] query, u_secure u)"
proof (cases port)
  case None
  have "hd (path_query path query) \<noteq> CHR '':''" by (simp add: path_query_def)
  with None split_path_query_print [OF assms(1,2), of s p query] show ?thesis
    by (auto simp: split_port_def port_text_def)
next
  case (Some n)
  have d: "dropWhile isdigit (dec_nat n @ path_query path query) = path_query path query"
    by (rule dropWhile_append_stop) (use dec_nat_digits in \<open>auto simp: path_query_def isdigit_def\<close>)
  have v: "port_value 0 (dec_nat n) = Some n" "n \<le> 65535" "unat (of_nat n :: u16) = n"
    using assms(3) Some by (simp_all add: port_value_dec unat_of_nat take_bit_nat_eq_self)
  have "no_path (u\<lparr>u_port := of_nat n\<rparr>)" using assms(2) by (simp add: no_path_def)
  from split_path_query_print [OF assms(1) this, of s "path_query path query" query] obtain u' where
    "split_path_query s (path_query path query) (path_query path query) (u\<lparr>u_port := of_nat n\<rparr>) = (0, u')"
    "parts u' = (snd (u_host u), n, path, or_else [] query, u_secure u)"
    using v by auto
  with Some d v show ?thesis by (simp add: split_port_def port_text_def Let_def)
qed

lemma split_host_print:
  assumes "CHR ''?'' \<notin> set path" and "no_path u" and "\<forall>n. port = Some n \<longrightarrow> n \<le> 65535" and "host_wf h"
  shows "\<exists>u'. split_host s (host_text h @ port_text port @ path_query path query) u = Some (0, u') \<and>
    parts u' = (host_chars h, or_else (unat (u_port u)) port, path, or_else [] query, u_secure u)"
proof -
  let ?rest = "port_text port @ path_query path query"
  have r: "?rest \<noteq> []" "hd ?rest = CHR '':'' \<or> hd ?rest = CHR ''/''"
    by (auto simp: path_query_def port_text_def split: option.splits)
  show ?thesis
  proof (cases h)
    case (Name n)
    have d: "dropWhile (\<lambda>c. c \<noteq> CHR '':'' \<and> c \<noteq> CHR ''/'' \<and> c \<noteq> CHR ''?'') (n @ ?rest) = ?rest"
      using assms(4) Name r by (intro dropWhile_append_stop) auto
    let ?u = "u\<lparr>u_host := (length s - length (n @ ?rest), n)\<rparr>"
    have "split_host s (n @ ?rest) u = split_port s (n @ ?rest) ?rest ?u"
      using d assms(4) Name by (simp add: split_host_def Let_def)
    moreover have "no_path ?u" using assms(2) by (simp add: no_path_def)
    ultimately show ?thesis
      using split_port_print [OF assms(1) _ assms(3), of ?u s "n @ ?rest" query] Name by simp
  next
    case (Bracketed n)
    have "\<forall>c \<in> set (CHR ''['' # n). c \<noteq> CHR '']''" using assms(4) Bracketed by auto
    from dropWhile_append_stop [OF this, of "'']'' @ ?rest"]
    have d: "dropWhile (\<lambda>c. c \<noteq> CHR '']'') (CHR ''['' # n @ '']'' @ ?rest) = '']'' @ ?rest" by simp
    let ?u = "u\<lparr>u_host := (length s - length (n @ '']'' @ ?rest), n)\<rparr>"
    have "split_host s (CHR ''['' # n @ '']'' @ ?rest) u = split_port s (n @ '']'' @ ?rest) ?rest ?u"
      using d assms(4) Bracketed by (simp add: split_host_def Let_def)
    moreover have "no_path ?u" using assms(2) by (simp add: no_path_def)
    ultimately show ?thesis
      using split_port_print [OF assms(1) _ assms(3), of ?u s "n @ '']'' @ ?rest" query] Bracketed by simp
  qed
qed

section \<open>Properties\<close>

text \<open>
  C11. Splitting a printed URI gives its parts back: scheme, host (a name, or an address in
  brackets), port (the scheme's default when none is given), path and query.
\<close>

theorem artik_coap_split_uri_print:
  assumes "host_wf h" and "CHR ''?'' \<notin> set path" and "\<forall>n. port = Some n \<longrightarrow> n \<le> 65535"
  shows "\<exists>u. artik_coap_split_uri (Some (print_uri secure h port path query)) = Some (0, u) \<and>
    parts u = (host_chars h, or_else (if secure then 5684 else 5683) port, path, or_else [] query, secure)"
proof -
  let ?tail = "host_text h @ port_text port @ path_query path query"
  let ?s = "(if secure then ''s'' else []) @ ''://'' @ ?tail"
  let ?u = "if secure then zero_uri\<lparr>u_secure := True, u_port := of_nat COAPS_DEFAULT_PORT\<rparr> else zero_uri"
  have 1: "eat ISEQUAL_CI COAP_DEFAULT_SCHEME (''coap'' @ ?s) = ([], ?s)"
    unfolding COAP_DEFAULT_SCHEME_def by (rule eat_append) (simp add: ISEQUAL_CI_def)
  have 2: "eat (=) ''://'' (''://'' @ ?tail) = ([], ?tail)" by (rule eat_append) simp
  have "artik_coap_split_uri (Some (''coap'' @ ?s)) = split_host (''coap'' @ ?s) ?tail ?u"
    using 1 2 by (simp add: artik_coap_split_uri_def Let_def)
  moreover have "no_path ?u" by (simp add: zero_uri_def no_path_def)
  moreover have "unat (u_port ?u) = (if secure then 5684 else 5683)" "u_secure ?u = secure"
    by (simp_all add: zero_uri_def COAP_DEFAULT_PORT_def COAPS_DEFAULT_PORT_def)
  ultimately show ?thesis
    using split_host_print [OF assms(2) _ assms(3,1), of ?u "''coap'' @ ?s" query]
    by (simp only: print_uri_def)
qed

lemma artik_coap_split_uri_print_witness:
  "\<exists>u. artik_coap_split_uri (Some (print_uri True (Bracketed ''fe80::1'') None ''a/b'' (Some ''x=1''))) = Some (0, u) \<and>
    parts u = (host_chars (Bracketed ''fe80::1''), or_else (if True then 5684 else 5683) None, ''a/b'',
      or_else [] (Some ''x=1''), True)"
  by (rule artik_coap_split_uri_print) simp_all

text \<open>
  A URI with a query but no path is rejected, although the query is well formed: after the
  host the pointer that is tested for the question mark still points to the host.
\<close>

theorem artik_coap_split_uri_query_without_path:
  assumes "h \<noteq> []" and "hd h \<noteq> CHR ''[''" and "\<forall>c \<in> set h. c \<notin> {CHR '':'', CHR ''/'', CHR ''?''}"
  shows "map_option fst (artik_coap_split_uri (Some (''coap://'' @ h @ ''?'' @ query))) = Some (-1)"
proof -
  let ?tail = "h @ ''?'' @ query"
  have 1: "eat ISEQUAL_CI COAP_DEFAULT_SCHEME (''coap'' @ ''://'' @ ?tail) = ([], ''://'' @ ?tail)"
    unfolding COAP_DEFAULT_SCHEME_def by (rule eat_append) (simp add: ISEQUAL_CI_def)
  have 2: "eat (=) ''://'' (''://'' @ ?tail) = ([], ?tail)" by (rule eat_append) simp
  have 3: "dropWhile (\<lambda>c. c \<noteq> CHR '':'' \<and> c \<noteq> CHR ''/'' \<and> c \<noteq> CHR ''?'') ?tail = ''?'' @ query"
    by (rule dropWhile_append_stop) (use assms(3) in auto)
  show ?thesis
    using 1 2 3 assms
    by (simp add: artik_coap_split_uri_def split_host_def split_port_def split_path_query_def Let_def
        hd_append)
qed

lemma artik_coap_split_uri_query_without_path_witness:
  "map_option fst (artik_coap_split_uri (Some (''coap://'' @ ''host'' @ ''?'' @ ''a=1''))) = Some (-1)"
  by (rule artik_coap_split_uri_query_without_path) simp_all


lemma fold_hash_concat: "fold coap_hash_impl segs k = coap_hash_impl (concat segs) k"
  by (induction segs arbitrary: k) (auto simp: coap_hash_impl_def)

text \<open>
  A request is dispatched to the resource registered last whose path has the same segments;
  but the key hashes the segments without their borders, so a request for any other path with the
  same characters in its segments reaches that resource, too.
\<close>

theorem coap_resource_key_ignores_borders:
  assumes "concat (coap_split_path_impl [] q) = concat (coap_split_path_impl [] p)"
  shows "artik_coap_get_resource_from_key (artik_coap_add_resource (artik_coap_resource_init p) rs)
      (artik_coap_hash_request_uri (Some (coap_split_path_impl [] q))) = Some (artik_coap_resource_init p)"
  using assms
  by (simp add: artik_coap_get_resource_from_key_def artik_coap_add_resource_def artik_coap_resource_init_def
      artik_coap_hash_request_uri_def artik_coap_hash_path_def fold_hash_concat)

lemma coap_resource_key_ignores_borders_witness:
  "artik_coap_get_resource_from_key (artik_coap_add_resource (artik_coap_resource_init ''ab/c'') [])
      (artik_coap_hash_request_uri (Some (coap_split_path_impl [] ''a/bc''))) =
    Some (artik_coap_resource_init ''ab/c'') \<and>
   coap_split_path_impl [] ''a/bc'' = [''a'', ''bc'']"
  using coap_resource_key_ignores_borders [of "''a/bc''" "''ab/c''" "[]"] by (simp add: dots_def)

end
