(* ===== verification/Coap_Link.thy ===== *)
theory Coap_Link
  imports Coap_Uri "HOL-Library.Monad_Syntax"
begin

text \<open>
  The link format of CoAP resources: the attributes of a resource, the query filter and the printing
  of links of \<^verbatim>\<open>coap/tizenrt/coap_resource.c\<close>.  A text is printed block by block: each call prints the
  whole text, skips \<open>offset\<close> characters of it and stops storing at the end of the buffer, but goes
  on counting.
\<close>

section \<open>Attributes\<close>

text \<open>A value can be missing (\<^verbatim>\<open>NULL\<close>).\<close>

record coap_attr_t =
  at_name :: string
  at_value :: "string option"

record coap_link_t = coap_resource_t +
  r_attrs :: "coap_attr_t list"
  r_observable :: bool

text \<open>\<open>memory\<close> says whether the allocation succeeds; a missing name is refused.\<close>

definition artik_coap_add_attr ::
  "bool \<Rightarrow> string option \<Rightarrow> string option \<Rightarrow> coap_link_t \<Rightarrow> coap_attr_t option \<times> coap_link_t" where
  "artik_coap_add_attr memory name val r =
     (case name of
        None \<Rightarrow> (None, r)
      | Some n \<Rightarrow>
          if memory then
            (let attr = \<lparr>at_name = n, at_value = val\<rparr> in (Some attr, r\<lparr>r_attrs := attr # r_attrs r\<rparr>))
          else (None, r))"

definition artik_coap_find_attr :: "coap_link_t \<Rightarrow> string \<Rightarrow> coap_attr_t option" where
  "artik_coap_find_attr r name = find (\<lambda>a. at_name a = name) (r_attrs r)"

section \<open>Matching\<close>

text \<open>
  \<^verbatim>\<open>memcmp\<close> of the pattern against the characters at a token; \<^term>\<open>None\<close> is a read behind the text.
\<close>

definition compare_at :: "string \<Rightarrow> string \<Rightarrow> bool option" where
  "compare_at text pattern =
     (if length text < length pattern then None else Some (take (length pattern) text = pattern))"

function match_tokens :: "string \<Rightarrow> string \<Rightarrow> bool \<Rightarrow> bool option" where
  "match_tokens text pattern match_prefix =
     (if text = [] then Some False
      else
        let token_length = length (takeWhile (\<lambda>c. c \<noteq> CHR '' '') text);
            rest = drop (Suc token_length) text
        in if match_prefix \<or> length pattern = token_length
           then case compare_at text pattern of
                  None \<Rightarrow> None
                | Some True \<Rightarrow> Some True
                | Some False \<Rightarrow> match_tokens rest pattern match_prefix
           else match_tokens rest pattern match_prefix)"
  by pat_completeness auto
termination by (relation "measure (\<lambda>(text, _, _). length text)") auto

declare match_tokens.simps [simp del]

definition match :: "string \<Rightarrow> string \<Rightarrow> bool \<Rightarrow> bool \<Rightarrow> bool option" where
  "match text pattern match_prefix match_substring =
     (if length text < length pattern then Some False
      else if match_substring then match_tokens text pattern match_prefix
      else Some ((match_prefix \<or> length pattern = length text) \<and> take (length pattern) text = pattern))"

text \<open>
  The filter of a query: the name of the attribute, the pattern, and whether it is a prefix.  The
  byte behind the option's data is not a slash.
\<close>

record link_query =
  lq_param :: string
  lq_pattern :: string
  lq_uri :: bool
  lq_prefix :: bool
  lq_substring :: bool

definition parse_query :: "string \<Rightarrow> link_query" where
  "parse_query data =
     (let param = takeWhile (\<lambda>c. c \<noteq> CHR ''='') data
      in if length param < length data then
           let uri = (param = ''href'');
               substring = (param \<in> {''rt'', ''if'', ''rel''});
               pattern = drop (Suc (length param)) data;
               pattern = (if pattern \<noteq> [] \<and> hd pattern = CHR ''/'' \<and> uri then tl pattern else pattern);
               prefix = (pattern \<noteq> [] \<and> last pattern = CHR ''*'')
           in \<lparr>lq_param = param, lq_pattern = (if prefix then butlast pattern else pattern), lq_uri = uri,
               lq_prefix = prefix, lq_substring = substring\<rparr>
         else \<lparr>lq_param = param, lq_pattern = [], lq_uri = False, lq_prefix = False, lq_substring = False\<rparr>)"

text \<open>A quoted value; one with a single quote only gets a length that wraps.\<close>

definition unquoted :: "string \<Rightarrow> string option" where
  "unquoted v =
     (if v \<noteq> [] \<and> hd v = CHR 0x22 then if length v < 2 then None else Some (take (length v - 2) (tl v))
      else Some v)"

text \<open>Whether a resource is printed.\<close>

definition selected :: "link_query option \<Rightarrow> coap_link_t \<Rightarrow> bool option" where
  "selected query r =
     (case query of
        None \<Rightarrow> Some True
      | Some q \<Rightarrow>
          if lq_param q = [] then Some True
          else if lq_uri q then match (r_uri r) (lq_pattern q) (lq_prefix q) (lq_substring q)
          else (case artik_coap_find_attr r (lq_param q) of
                  None \<Rightarrow> Some False
                | Some attr \<Rightarrow>
                    (case at_value attr of
                       None \<Rightarrow> None
                     | Some v \<Rightarrow>
                         (case unquoted v of
                            None \<Rightarrow> None
                          | Some v \<Rightarrow> match v (lq_pattern q) (lq_prefix q) (lq_substring q)))))"

section \<open>Printing\<close>

text \<open>The characters stored, the room left, the characters still to skip, and the count.\<close>

record printer =
  pr_out :: string
  pr_room :: nat
  pr_offset :: nat
  pr_len :: nat

definition PRINT_WITH_OFFSET :: "char \<Rightarrow> printer \<Rightarrow> printer" where
  "PRINT_WITH_OFFSET c p =
     (if pr_offset p = 0 then p\<lparr>pr_out := pr_out p @ [c], pr_room := pr_room p - 1\<rparr>
      else p\<lparr>pr_offset := pr_offset p - 1\<rparr>)"

definition PRINT_COND_WITH_OFFSET :: "char \<Rightarrow> printer \<Rightarrow> printer" where
  "PRINT_COND_WITH_OFFSET c p =
     (let p = (if 0 < pr_room p then PRINT_WITH_OFFSET c p else p) in p\<lparr>pr_len := pr_len p + 1\<rparr>)"

definition COPY_COND_WITH_OFFSET :: "string \<Rightarrow> printer \<Rightarrow> printer" where
  "COPY_COND_WITH_OFFSET s p = fold PRINT_COND_WITH_OFFSET s p"

definition COAP_PRINT_STATUS_MASK :: u32 where "COAP_PRINT_STATUS_MASK = 0xF0000000"
definition COAP_PRINT_STATUS_ERROR :: u32 where "COAP_PRINT_STATUS_ERROR = 0x80000000"
definition COAP_PRINT_STATUS_TRUNC :: u32 where "COAP_PRINT_STATUS_TRUNC = 0x40000000"
definition COAP_PRINT_STATUS_MAX :: nat where "COAP_PRINT_STATUS_MAX = unat (NOT COAP_PRINT_STATUS_MASK)"

definition COAP_PRINT_OUTPUT_LENGTH :: "u32 \<Rightarrow> nat" where
  "COAP_PRINT_OUTPUT_LENGTH v = unat (v AND NOT COAP_PRINT_STATUS_MASK)"

text \<open>The status of a printed text that began with \<open>old_offset\<close> characters to skip.\<close>

definition print_status :: "nat \<Rightarrow> printer \<Rightarrow> u32" where
  "print_status old_offset p =
     (let output_length = length (pr_out p)
      in if COAP_PRINT_STATUS_MAX < output_length then COAP_PRINT_STATUS_ERROR
         else if output_length + old_offset - pr_offset p < pr_len p
         then of_nat output_length OR COAP_PRINT_STATUS_TRUNC
         else of_nat output_length)"

definition print_attr :: "coap_attr_t \<Rightarrow> printer \<Rightarrow> printer" where
  "print_attr attr p =
     (let p = COPY_COND_WITH_OFFSET (at_name attr) (PRINT_COND_WITH_OFFSET (CHR '';'') p)
      in case at_value attr of
           None \<Rightarrow> p
         | Some v \<Rightarrow> COPY_COND_WITH_OFFSET v (PRINT_COND_WITH_OFFSET (CHR ''='') p))"

definition artik_coap_print_link :: "coap_link_t \<Rightarrow> nat \<Rightarrow> nat \<Rightarrow> u32 \<times> printer" where
  "artik_coap_print_link r len offset =
     (let p = \<lparr>pr_out = [], pr_room = len, pr_offset = offset, pr_len = 0\<rparr>;
          p = PRINT_COND_WITH_OFFSET (CHR ''/'') (PRINT_COND_WITH_OFFSET (CHR ''<'') p);
          p = PRINT_COND_WITH_OFFSET (CHR ''>'') (COPY_COND_WITH_OFFSET (r_uri r) p);
          p = fold print_attr (r_attrs r) p;
          p = (if r_observable r then COPY_COND_WITH_OFFSET '';obs'' p else p)
      in (print_status offset p, p))"

text \<open>
  The loop over the resources; \<open>subsequent\<close> says that one has been printed.  An error of a link
  ends it.
\<close>

fun print_links :: "link_query option \<Rightarrow> coap_link_t list \<Rightarrow> bool \<Rightarrow> printer \<Rightarrow> printer option" where
  "print_links query [] subsequent p = Some p"
| "print_links query (r # rs) subsequent p =
     (case selected query r of
        None \<Rightarrow> None
      | Some False \<Rightarrow> print_links query rs subsequent p
      | Some True \<Rightarrow>
          (let p = (if subsequent then PRINT_COND_WITH_OFFSET (CHR '','') p else p);
               (result, l) = artik_coap_print_link r (pr_room p) (pr_offset p)
           in if result AND COAP_PRINT_STATUS_ERROR \<noteq> 0 then Some (p\<lparr>pr_offset := pr_offset l\<rparr>)
              else print_links query rs True
                     (p\<lparr>pr_out := pr_out p @ take (COAP_PRINT_OUTPUT_LENGTH result) (pr_out l),
                        pr_room := pr_room p - COAP_PRINT_OUTPUT_LENGTH result,
                        pr_offset := pr_offset l, pr_len := pr_len p + pr_len l\<rparr>)))"

definition coap_print_wellknown ::
  "coap_link_t list \<Rightarrow> nat \<Rightarrow> nat \<Rightarrow> string option \<Rightarrow> (u32 \<times> printer) option" where
  "coap_print_wellknown resources buflen offset query_filter =
     (case print_links (map_option parse_query query_filter) resources False
             \<lparr>pr_out = [], pr_room = buflen, pr_offset = offset, pr_len = 0\<rparr> of
        None \<Rightarrow> None
      | Some p \<Rightarrow> Some (print_status offset p, p))"

section \<open>The response to /.well-known/core\<close>

text \<open>The number of the highest bit set, from 1.\<close>

fun flsll :: "nat \<Rightarrow> nat" where
  "flsll m = (if m = 0 then 0 else if m = 1 then 1 else Suc (flsll (m div 2)))"

declare flsll.simps [simp del]

definition COAP_MAX_BLOCK_SZX :: int where "COAP_MAX_BLOCK_SZX = 6"

definition SZX_TO_BYTES :: "int \<Rightarrow> nat" where "SZX_TO_BYTES szx = 2 ^ nat (szx + 4)"

definition UINT_MAX :: nat where "UINT_MAX = 2 ^ 32 - 1"

definition get_wkc_len :: "coap_link_t list \<Rightarrow> string option \<Rightarrow> nat option" where
  "get_wkc_len resources query_filter =
     (case coap_print_wellknown resources 0 UINT_MAX query_filter of
        None \<Rightarrow> None
      | Some (result, p) \<Rightarrow> Some (if result AND COAP_PRINT_STATUS_ERROR \<noteq> 0 then 0 else pr_len p))"

text \<open>
  The loop that counts how often a block size is halved until it is 1; it does not end for 0.
\<close>

partial_function (option) count_halvings :: "u16 \<Rightarrow> nat \<Rightarrow> nat option" where
  "count_halvings bytes count =
     (if bytes = 1 then Some count else count_halvings (drop_bit 1 bytes) (Suc count))"

text \<open>
  The request and the response as far as the function reads and writes them; the block option of the
  request is what the parser of the library found: number and size in bytes.
\<close>

datatype wk_code = CONTENT_2_05 | BAD_REQUEST_4_00 | SERVICE_UNAVAILABLE_5_03

record wk_request =
  wq_con :: bool
  wq_mid :: u16
  wq_token :: "u8 list"
  wq_query :: "string option"
  wq_block2 :: "(u32 \<times> u16) option"

record wk_response =
  wr_ack :: bool
  wr_code :: wk_code
  wr_mid :: u16
  wr_token :: "u8 list"
  wr_link_format :: bool
  wr_block2 :: "(u32 \<times> bool \<times> nat) option"
  wr_payload :: "string option"

text \<open>
  The environment: the largest payload of the library (at least 20, so that \<^verbatim>\<open>avail\<close> holds a block),
  whether the two allocations succeed and whether the library takes a block option.
\<close>

record wk_env =
  rest_max_chunk_size :: nat
  wk_mem_response :: bool
  wk_mem_payload :: bool
  wk_set_block2 :: "u32 \<Rightarrow> bool \<Rightarrow> nat \<Rightarrow> bool"

text \<open>
  The block that is sent: its number, the flag for more and its size exponent.  \<^term>\<open>Inl\<close> leaves the
  function with a code.
\<close>

definition response_block :: "nat \<Rightarrow> nat \<Rightarrow> u32 \<Rightarrow> int \<Rightarrow> wk_code + (u32 \<times> bool \<times> int)" where
  "response_block chunk wkc_len num szx =
     (let start = unat (push_bit (nat (szx + 4)) num)
      in if wkc_len \<le> start then Inl SERVICE_UNAVAILABLE_5_03
         else
           let avail = chunk - 4; want = 2 ^ nat (szx + 4)
           in if want \<le> avail then Inr (num, want < wkc_len - start, szx)
              else if wkc_len - start \<le> avail then Inr (num, False, szx)
              else
                let newBlockSize = int (flsll avail) - 5
                in Inr (push_bit (nat (szx - newBlockSize)) num, True, newBlockSize))"

text \<open>The end of the function: the payload of \<open>len\<close> bytes is printed from the offset.\<close>

definition well_known_payload ::
  "wk_env \<Rightarrow> coap_link_t list \<Rightarrow> string option \<Rightarrow> nat \<Rightarrow> nat \<Rightarrow> wk_response \<Rightarrow> wk_response option option" where
  "well_known_payload env resources query_filter len offset resp =
     (if \<not> wk_mem_payload env then Some (Some (resp\<lparr>wr_code := SERVICE_UNAVAILABLE_5_03\<rparr>))
      else
        (case coap_print_wellknown resources len offset query_filter of
           None \<Rightarrow> None
         | Some (result, p) \<Rightarrow>
             (let resp = resp\<lparr>wr_payload := Some (pr_out p)\<rparr>
              in Some (Some (if result AND COAP_PRINT_STATUS_ERROR \<noteq> 0
                             then resp\<lparr>wr_code := SERVICE_UNAVAILABLE_5_03\<rparr> else resp)))))"

definition coap_wellknown_response ::
  "wk_env \<Rightarrow> coap_link_t list \<Rightarrow> wk_request \<Rightarrow> wk_response option option" where
  "coap_wellknown_response env resources request =
     (if \<not> wk_mem_response env then Some None
      else
        let resp = \<lparr>wr_ack = wq_con request, wr_code = CONTENT_2_05, wr_mid = wq_mid request,
                     wr_token = wq_token request, wr_link_format = False, wr_block2 = None,
                     wr_payload = None\<rparr>;
            query_filter = wq_query request;
            error = resp\<lparr>wr_code := SERVICE_UNAVAILABLE_5_03\<rparr>
        in
        do {
          wkc_len \<leftarrow> get_wkc_len resources query_filter;
          if wkc_len = 0 then Some (Some (resp\<lparr>wr_code := BAD_REQUEST_4_00\<rparr>))
          else if rest_max_chunk_size env < wkc_len then Some (Some error)
          else
            do {
              block \<leftarrow> (case wq_block2 request of
                          None \<Rightarrow> Some None
                        | Some (num, bytes) \<Rightarrow>
                            do {
                              count \<leftarrow> count_halvings bytes 0;
                              Some (Some (num, int count - 4, unat (push_bit count num)))
                            });
              case block of
                None \<Rightarrow> well_known_payload env resources query_filter wkc_len 0
                          (resp\<lparr>wr_link_format := True\<rparr>)
              | Some (num, szx, offset) \<Rightarrow>
                  if COAP_MAX_BLOCK_SZX < szx then Some (Some (resp\<lparr>wr_code := BAD_REQUEST_4_00\<rparr>))
                  else
                    (case response_block (rest_max_chunk_size env) wkc_len num szx of
                       Inl code \<Rightarrow> Some (Some (resp\<lparr>wr_code := code\<rparr>))
                     | Inr (num, further, szx) \<Rightarrow>
                         if \<not> wk_set_block2 env num further (SZX_TO_BYTES szx) then Some (Some error)
                         else
                           well_known_payload env resources query_filter
                             (min (wkc_len - unat (push_bit (nat (szx + 4)) num)) (SZX_TO_BYTES szx)) offset
                             (resp\<lparr>wr_block2 := Some (num, further, SZX_TO_BYTES szx),
                                   wr_link_format := True\<rparr>))
            }
        })"

text \<open>Whether a key is that of the path .well-known/core.\<close>

definition is_wkc :: "coap_key_t \<Rightarrow> bool" where
  "is_wkc k \<longleftrightarrow> k = snd (artik_coap_hash_path (Some ''.well-known/core'') (0, 0, 0, 0))"

section \<open>The text that is printed\<close>

definition attr_text :: "coap_attr_t \<Rightarrow> string" where
  "attr_text a = CHR '';'' # at_name a @ (case at_value a of None \<Rightarrow> [] | Some v \<Rightarrow> CHR ''='' # v)"

definition link_text :: "coap_link_t \<Rightarrow> string" where
  "link_text r =
     ''</'' @ r_uri r @ ''>'' @ concat (map attr_text (r_attrs r)) @ (if r_observable r then '';obs'' else [])"

fun links_text :: "coap_link_t list \<Rightarrow> bool \<Rightarrow> string" where
  "links_text [] subsequent = []"
| "links_text (r # rs) subsequent = (if subsequent then '','' else []) @ link_text r @ links_text rs True"

definition wellknown_text :: "link_query option \<Rightarrow> coap_link_t list \<Rightarrow> string" where
  "wellknown_text query rs = links_text (filter (\<lambda>r. selected query r = Some True) rs) False"

lemma copy_simps [simp]:
  "COPY_COND_WITH_OFFSET [] p = p"
  "COPY_COND_WITH_OFFSET (c # s) p = COPY_COND_WITH_OFFSET s (PRINT_COND_WITH_OFFSET c p)"
  by (simp_all add: COPY_COND_WITH_OFFSET_def)

lemma copy_append: "COPY_COND_WITH_OFFSET (s @ t) p = COPY_COND_WITH_OFFSET t (COPY_COND_WITH_OFFSET s p)"
  by (simp add: COPY_COND_WITH_OFFSET_def)

text \<open>A text printed on a printer: the part behind the offset that fits is stored, and all is counted.\<close>

lemma copy_eq:
  "COPY_COND_WITH_OFFSET s p =
     p\<lparr>pr_out := pr_out p @ take (pr_room p) (drop (pr_offset p) s),
       pr_room := pr_room p - (length s - pr_offset p),
       pr_offset := (if pr_room p = 0 then pr_offset p else pr_offset p - length s),
       pr_len := pr_len p + length s\<rparr>"
proof (induction s arbitrary: p)
  case (Cons c s)
  show ?case
    by (cases "pr_room p"; cases "pr_offset p")
      (simp_all add: Cons PRINT_COND_WITH_OFFSET_def PRINT_WITH_OFFSET_def)
qed simp

lemma print_attr_copy: "print_attr a p = COPY_COND_WITH_OFFSET (attr_text a) p"
  by (simp add: print_attr_def attr_text_def copy_append Let_def split: option.split)

lemma print_attrs_copy: "fold print_attr as p = COPY_COND_WITH_OFFSET (concat (map attr_text as)) p"
  by (induction as arbitrary: p) (simp_all add: copy_append print_attr_copy)

definition fresh_printer :: "nat \<Rightarrow> nat \<Rightarrow> printer" where
  "fresh_printer len offset = \<lparr>pr_out = [], pr_room = len, pr_offset = offset, pr_len = 0\<rparr>"

lemma fresh_printer_simps [simp]:
  "pr_out (fresh_printer len offset) = []" "pr_room (fresh_printer len offset) = len"
  "pr_offset (fresh_printer len offset) = offset" "pr_len (fresh_printer len offset) = 0"
  by (simp_all add: fresh_printer_def)

lemma artik_coap_print_link_eq:
  "artik_coap_print_link r len offset =
     (let p = COPY_COND_WITH_OFFSET (link_text r) (fresh_printer len offset) in (print_status offset p, p))"
  by (simp add: artik_coap_print_link_def link_text_def copy_append print_attrs_copy Let_def fresh_printer_def)

lemma max_status: "COAP_PRINT_STATUS_MAX = 2 ^ 28 - 1"
  by (simp add: COAP_PRINT_STATUS_MAX_def COAP_PRINT_STATUS_MASK_def)

lemma below_mask:
  assumes "n < 2 ^ 28"
  shows "(of_nat n :: u32) AND 0x0FFFFFFF = of_nat n"
proof -
  have "(of_nat n :: u32) AND mask 28 = of_nat n"
    using assms by (simp add: take_bit_eq_mask [symmetric] take_bit_of_nat take_bit_nat_eq_self)
  then show ?thesis by (simp add: mask_eq_exp_minus_1)
qed

lemma status_bits:
  assumes "n < 2 ^ 28"
  shows "(of_nat n :: u32) AND COAP_PRINT_STATUS_ERROR = 0"
    "(of_nat n OR COAP_PRINT_STATUS_TRUNC) AND COAP_PRINT_STATUS_ERROR = 0"
    "COAP_PRINT_OUTPUT_LENGTH (of_nat n) = n"
    "COAP_PRINT_OUTPUT_LENGTH (of_nat n OR COAP_PRINT_STATUS_TRUNC) = n"
proof -
  let ?w = "of_nat n :: u32"
  have low: "?w AND 0x0FFFFFFF = ?w" by (rule below_mask [OF assms])
  have "?w AND 0x80000000 = (?w AND 0x0FFFFFFF) AND 0x80000000" by (simp only: low)
  also have "\<dots> = 0" by (simp add: and.assoc)
  finally have high: "?w AND 0x80000000 = 0" .
  show "?w AND COAP_PRINT_STATUS_ERROR = 0" by (simp add: COAP_PRINT_STATUS_ERROR_def high)
  show "(?w OR COAP_PRINT_STATUS_TRUNC) AND COAP_PRINT_STATUS_ERROR = 0"
    by (simp add: COAP_PRINT_STATUS_ERROR_def COAP_PRINT_STATUS_TRUNC_def bit.conj_disj_distrib2 high)
  have unat: "unat ?w = n" using assms by (simp add: unsigned_of_nat take_bit_nat_eq_self)
  have neg: "NOT COAP_PRINT_STATUS_MASK = 0x0FFFFFFF" by (simp add: COAP_PRINT_STATUS_MASK_def)
  show "COAP_PRINT_OUTPUT_LENGTH ?w = n"
    by (simp only: COAP_PRINT_OUTPUT_LENGTH_def neg low unat)
  show "COAP_PRINT_OUTPUT_LENGTH (?w OR COAP_PRINT_STATUS_TRUNC) = n"
    by (simp add: COAP_PRINT_OUTPUT_LENGTH_def neg COAP_PRINT_STATUS_TRUNC_def
        bit.conj_disj_distrib2 low unat)
qed

lemma trunc_bits:
  assumes "n < 2 ^ 28"
  shows "(of_nat n :: u32) AND COAP_PRINT_STATUS_TRUNC = 0"
    "(of_nat n OR COAP_PRINT_STATUS_TRUNC) AND COAP_PRINT_STATUS_TRUNC \<noteq> 0"
    "COAP_PRINT_STATUS_TRUNC \<noteq> 0"
proof -
  let ?w = "of_nat n :: u32"
  have "?w AND 0x40000000 = (?w AND 0x0FFFFFFF) AND 0x40000000" by (simp only: below_mask [OF assms])
  also have "\<dots> = 0" by (simp add: and.assoc)
  finally show low: "?w AND COAP_PRINT_STATUS_TRUNC = 0" by (simp add: COAP_PRINT_STATUS_TRUNC_def)
  show "COAP_PRINT_STATUS_TRUNC \<noteq> 0" by (simp add: COAP_PRINT_STATUS_TRUNC_def)
  show "(?w OR COAP_PRINT_STATUS_TRUNC) AND COAP_PRINT_STATUS_TRUNC \<noteq> 0"
    using low by (simp add: bit.conj_disj_distrib2 COAP_PRINT_STATUS_TRUNC_def)
qed

lemma print_status_facts:
  assumes "length (pr_out p) < 2 ^ 28"
  shows "print_status off p AND COAP_PRINT_STATUS_ERROR = 0"
    "COAP_PRINT_OUTPUT_LENGTH (print_status off p) = length (pr_out p)"
  using assms by (simp_all add: print_status_def max_status status_bits Let_def)

text \<open>One link that is selected, and all of them as one text.\<close>

lemma print_links_step:
  assumes "selected query r = Some True" "pr_room p < 2 ^ 28"
  shows "print_links query (r # rs) subsequent p =
    print_links query rs True (COPY_COND_WITH_OFFSET ((if subsequent then '','' else []) @ link_text r) p)"
proof -
  define p1 where "p1 = (if subsequent then PRINT_COND_WITH_OFFSET (CHR '','') p else p)"
  define l where "l = COPY_COND_WITH_OFFSET (link_text r) (fresh_printer (pr_room p1) (pr_offset p1))"
  have p1: "p1 = COPY_COND_WITH_OFFSET (if subsequent then '','' else []) p" by (simp add: p1_def)
  have room: "pr_room p1 < 2 ^ 28" using assms(2) by (simp add: p1 copy_eq)
  have out: "length (pr_out l) < 2 ^ 28" using room by (simp add: l_def copy_eq)
  have step: "p1\<lparr>pr_out := pr_out p1 @ pr_out l, pr_room := pr_room p1 - length (pr_out l),
       pr_offset := pr_offset l, pr_len := pr_len p1 + pr_len l\<rparr> = COPY_COND_WITH_OFFSET (link_text r) p1"
    by (simp add: l_def copy_eq)
  have "print_links query (r # rs) subsequent p =
      print_links query rs True (COPY_COND_WITH_OFFSET (link_text r) p1)"
    by (simp add: assms(1) artik_coap_print_link_eq l_def [symmetric] print_status_facts [OF out]
        p1_def [symmetric] step [symmetric] Let_def split del: if_split)
  then show ?thesis by (simp add: copy_append p1)
qed

lemma copy_room: "pr_room p < n \<Longrightarrow> pr_room (COPY_COND_WITH_OFFSET s p) < n"
  by (simp add: copy_eq)

lemma print_links_copy:
  assumes "\<forall>r \<in> set rs. selected query r \<noteq> None" "pr_room p < 2 ^ 28"
  shows "print_links query rs subsequent p =
    Some (COPY_COND_WITH_OFFSET (links_text (filter (\<lambda>r. selected query r = Some True) rs) subsequent) p)"
  using assms
proof (induction rs arbitrary: subsequent p)
  case (Cons r rs)
  then consider "selected query r = Some False" | "selected query r = Some True"
    by (cases "selected query r") auto
  then show ?case
  proof cases
    case 2
    show ?thesis
      using Cons.prems by (simp add: 2 print_links_step Cons.IH copy_room copy_append del: print_links.simps)
  qed (use Cons in simp)
qed simp

lemma print_links_fault:
  assumes "r \<in> set rs" "selected query r = None" "pr_room p < 2 ^ 28"
  shows "print_links query rs subsequent p = None"
  using assms
proof (induction rs arbitrary: subsequent p)
  case (Cons r' rs)
  consider "selected query r' = None" | "selected query r' = Some False" | "selected query r' = Some True"
    by (cases "selected query r'") auto
  then show ?case
  proof cases
    case 3
    then have "r \<in> set rs" using Cons.prems by auto
    then show ?thesis
      using Cons.prems by (simp add: 3 print_links_step Cons.IH copy_room del: print_links.simps)
  qed (use Cons in auto)
qed simp

lemma coap_print_wellknown_eq:
  assumes "\<forall>r \<in> set rs. selected (map_option parse_query query) r \<noteq> None" "buflen < 2 ^ 28"
  shows "coap_print_wellknown rs buflen offset query =
    (let p = COPY_COND_WITH_OFFSET (wellknown_text (map_option parse_query query) rs)
               (fresh_printer buflen offset)
     in Some (print_status offset p, p))"
proof -
  have "print_links (map_option parse_query query) rs False (fresh_printer buflen offset) =
      Some (COPY_COND_WITH_OFFSET (wellknown_text (map_option parse_query query) rs)
               (fresh_printer buflen offset))"
    using assms by (simp add: print_links_copy wellknown_text_def)
  then show ?thesis by (simp add: coap_print_wellknown_def fresh_printer_def Let_def)
qed

section \<open>Properties\<close>

text \<open>
  C20. Printing /.well-known/core stores exactly the part of the link text that begins at the offset
  and fits into the buffer, reports the length of the whole text, and sets the truncation flag when
  text is left behind the buffer.
\<close>

theorem coap_print_wellknown_slice:
  assumes "\<forall>r \<in> set rs. selected (map_option parse_query query) r \<noteq> None"
    and "0 < buflen" "buflen < 2 ^ 28"
  shows "\<exists>result p. coap_print_wellknown rs buflen offset query = Some (result, p)
    \<and> pr_out p = take buflen (drop offset (wellknown_text (map_option parse_query query) rs))
    \<and> pr_len p = length (wellknown_text (map_option parse_query query) rs)
    \<and> COAP_PRINT_OUTPUT_LENGTH result = length (pr_out p)
    \<and> result AND COAP_PRINT_STATUS_ERROR = 0
    \<and> (result AND COAP_PRINT_STATUS_TRUNC \<noteq> 0) =
        (offset + buflen < length (wellknown_text (map_option parse_query query) rs))"
proof -
  define t where "t = wellknown_text (map_option parse_query query) rs"
  define p where "p = COPY_COND_WITH_OFFSET t (fresh_printer buflen offset)"
  have out: "length (pr_out p) < 2 ^ 28" using assms(3) by (simp add: p_def copy_eq)
  have trunc: "(print_status offset p AND COAP_PRINT_STATUS_TRUNC \<noteq> 0) = (offset + buflen < length t)"
  proof -
    have "(print_status offset p AND COAP_PRINT_STATUS_TRUNC \<noteq> 0) =
        (length (pr_out p) + offset - pr_offset p < pr_len p)"
      using out by (simp add: print_status_def max_status trunc_bits Let_def)
    also have "\<dots> = (offset + buflen < length t)"
      using assms(2) by (auto simp: p_def copy_eq)
    finally show ?thesis .
  qed
  have "coap_print_wellknown rs buflen offset query = Some (print_status offset p, p)"
    using assms by (simp add: coap_print_wellknown_eq p_def t_def Let_def)
  moreover have "pr_out p = take buflen (drop offset t)" "pr_len p = length t"
    by (simp_all add: p_def copy_eq)
  ultimately show ?thesis
    using print_status_facts [OF out] trunc unfolding t_def by blast
qed

text \<open>Resources used in the witnesses: a lamp that can be observed and a sensor of a type.\<close>

definition ex_links :: "coap_link_t list" where
  "ex_links =
    [\<lparr>r_key = (0, 0, 0, 0), r_uri = ''lamp'', r_attrs = [], r_observable = True\<rparr>,
     \<lparr>r_key = (0, 0, 0, 1), r_uri = ''s/1'',
       r_attrs = [\<lparr>at_name = ''rt'', at_value = Some [CHR 0x22, CHR ''a'', CHR '' '', CHR ''b'', CHR 0x22]\<rparr>],
       r_observable = False\<rparr>]"

theorem coap_print_wellknown_slice_witness:
  "\<exists>result p. coap_print_wellknown ex_links 16 4 (Some ''rt=b'') = Some (result, p)
    \<and> pr_out p = take 16 (drop 4 (''</s/1>;rt='' @ [CHR 0x22, CHR ''a'', CHR '' '', CHR ''b'', CHR 0x22]))
    \<and> result AND COAP_PRINT_STATUS_TRUNC = 0"
proof -
  have printed: "wellknown_text (map_option parse_query (Some ''rt=b'')) ex_links =
      ''</s/1>;rt='' @ [CHR 0x22, CHR ''a'', CHR '' '', CHR ''b'', CHR 0x22]"
    by code_simp
  have "\<forall>r \<in> set ex_links. selected (map_option parse_query (Some ''rt=b'')) r \<noteq> None"
    by code_simp
  from coap_print_wellknown_slice [OF this, of 16 4] show ?thesis
    unfolding printed by auto
qed

text \<open>Words of a text, separated by spaces.\<close>

definition is_word :: "string \<Rightarrow> string \<Rightarrow> bool" where
  "is_word w text \<longleftrightarrow> CHR '' '' \<notin> set w \<and>
     (\<exists>pre post. text = pre @ w @ post \<and> (pre = [] \<or> last pre = CHR '' '') \<and> (post = [] \<or> hd post = CHR '' ''))"

lemma is_word_single:
  assumes "CHR '' '' \<notin> set tok"
  shows "is_word w tok \<longleftrightarrow> w = tok"
proof
  assume "is_word w tok"
  then obtain pre post where "tok = pre @ w @ post" "pre = [] \<or> last pre = CHR '' ''"
      "post = [] \<or> hd post = CHR '' ''"
    by (auto simp: is_word_def)
  moreover from this assms have "pre = []" by (metis UnCI last_in_set set_append)
  moreover from calculation assms have "post = []" by (metis UnCI hd_in_set set_append)
  ultimately show "w = tok" by simp
next
  assume "w = tok"
  then show "is_word w tok"
    using assms unfolding is_word_def by (intro conjI exI [of _ "[]"]) auto
qed

lemma is_word_Cons:
  assumes "CHR '' '' \<notin> set tok" "w \<noteq> []"
  shows "is_word w (tok @ CHR '' '' # rest) \<longleftrightarrow> w = tok \<or> is_word w rest"
proof
  assume "is_word w (tok @ CHR '' '' # rest)"
  then obtain pre post where split: "tok @ CHR '' '' # rest = pre @ w @ post"
      and pre: "pre = [] \<or> last pre = CHR '' ''" and post: "post = [] \<or> hd post = CHR '' ''"
      and w: "CHR '' '' \<notin> set w"
    by (auto simp: is_word_def)
  show "w = tok \<or> is_word w rest"
  proof (cases "length pre \<le> length tok")
    case True
    then have "pre = take (length pre) tok" using split by (metis append_eq_conv_conj take_append take_all_iff
      append_take_drop_id diff_is_0_eq take0 append_Nil2)
    then have "pre = []" using pre assms(1) by (metis in_set_takeD last_in_set)
    then have "tok @ CHR '' '' # rest = w @ post" using split by simp
    then have "w = tok"
      using assms(1) w post by (fastforce simp: append_eq_append_conv2 Cons_eq_append_conv hd_append
          dest: hd_in_set split: if_splits)
    then show ?thesis ..
  next
    case False
    then obtain us where "pre = tok @ CHR '' '' # us" "rest = us @ w @ post"
      using split by (auto simp: append_eq_append_conv2 Cons_eq_append_conv)
    moreover from this pre have "us = [] \<or> last us = CHR '' ''" by (auto split: if_splits)
    ultimately show ?thesis using post w unfolding is_word_def by blast
  qed
next
  assume "w = tok \<or> is_word w rest"
  then show "is_word w (tok @ CHR '' '' # rest)"
  proof
    assume "w = tok"
    then show ?thesis using assms(1) unfolding is_word_def
      by (intro conjI exI [of _ "[]"] exI [of _ "CHR '' '' # rest"]) auto
  next
    assume "is_word w rest"
    then obtain pre post where "rest = pre @ w @ post" "pre = [] \<or> last pre = CHR '' ''"
        "post = [] \<or> hd post = CHR '' ''" "CHR '' '' \<notin> set w"
      by (auto simp: is_word_def)
    then show ?thesis
      unfolding is_word_def by (intro conjI exI [of _ "tok @ CHR '' '' # pre"] exI [of _ post]) auto
  qed
qed

lemma match_tokens_words:
  assumes "pattern \<noteq> []"
  shows "match_tokens val pattern False = Some (is_word pattern val)"
proof (induction "length val" arbitrary: val rule: less_induct)
  case less
  show ?case
  proof (cases "val = []")
    case False
    define tok where "tok = takeWhile (\<lambda>c. c \<noteq> CHR '' '') val"
    have no_space: "CHR '' '' \<notin> set tok" unfolding tok_def by (auto dest: set_takeWhileD)
    have here: "compare_at val pattern = Some (pattern = tok)" if "length pattern = length tok"
      using that takeWhile_eq_take [of "\<lambda>c. c \<noteq> CHR '' ''" val]
      by (auto simp: compare_at_def tok_def length_takeWhile_le linorder_not_less)
    have unfold: "match_tokens val pattern False =
        (if length pattern = length tok \<and> pattern = tok then Some True
         else match_tokens (drop (Suc (length tok)) val) pattern False)"
      using False here
      by (subst match_tokens.simps, cases "pattern = tok") (simp_all add: tok_def [symmetric] Let_def)
    have step: "match_tokens val pattern False =
        Some (pattern = tok \<or> is_word pattern (drop (Suc (length tok)) val))"
      using less [of "drop (Suc (length tok)) val"] False by (auto simp: unfold)
    show ?thesis
    proof (cases "dropWhile (\<lambda>c. c \<noteq> CHR '' '') val")
      case Nil
      then have "val = tok" by (metis append_Nil2 takeWhile_dropWhile_id tok_def)
      then show ?thesis
        using step no_space assms is_word_single [of tok pattern] by (simp add: is_word_def)
    next
      case (Cons c rest)
      then have "c = CHR '' ''" by (metis (mono_tags, lifting) dropWhile_eq_Cons_conv)
      then have "val = tok @ CHR '' '' # rest"
        by (metis Cons takeWhile_dropWhile_id tok_def)
      then show ?thesis using step is_word_Cons [OF no_space assms, of rest] by simp
    qed
  qed (use assms in \<open>simp add: match_tokens.simps is_word_def\<close>)
qed

text \<open>What a text has from the beginning of one of its words on.\<close>

definition from_word :: "string \<Rightarrow> string \<Rightarrow> bool" where
  "from_word text post \<longleftrightarrow> post \<noteq> [] \<and> (\<exists>pre. text = pre @ post \<and> (pre = [] \<or> last pre = CHR '' ''))"

lemma from_word_single:
  assumes "CHR '' '' \<notin> set tok" "tok \<noteq> []"
  shows "from_word tok post \<longleftrightarrow> post = tok"
proof
  assume "from_word tok post"
  then obtain pre where "tok = pre @ post" "pre = [] \<or> last pre = CHR '' ''" by (auto simp: from_word_def)
  with assms(1) show "post = tok" by (metis UnCI append_Nil last_in_set set_append)
qed (use assms(2) in \<open>auto simp: from_word_def\<close>)

lemma from_word_Cons:
  assumes "CHR '' '' \<notin> set tok"
  shows "from_word (tok @ CHR '' '' # rest) post \<longleftrightarrow> post = tok @ CHR '' '' # rest \<or> from_word rest post"
proof
  assume "from_word (tok @ CHR '' '' # rest) post"
  then obtain pre where split: "tok @ CHR '' '' # rest = pre @ post" and pre: "pre = [] \<or> last pre = CHR '' ''" and "post \<noteq> []"
    by (auto simp: from_word_def)
  show "post = tok @ CHR '' '' # rest \<or> from_word rest post"
  proof (cases "length pre \<le> length tok")
    case True
    then have "pre = take (length pre) tok" using split by (metis append_eq_conv_conj take_append take_all_iff
      append_take_drop_id diff_is_0_eq take0 append_Nil2)
    then have "pre = []" using pre assms by (metis in_set_takeD last_in_set)
    with split show ?thesis by simp
  next
    case False
    then obtain us where us: "pre = tok @ CHR '' '' # us" "rest = us @ post"
      using split by (auto simp: append_eq_append_conv2 Cons_eq_append_conv)
    with pre have "us = [] \<or> last us = CHR '' ''" by (auto split: if_splits)
    with us \<open>post \<noteq> []\<close> show ?thesis by (auto simp: from_word_def)
  qed
next
  assume "post = tok @ CHR '' '' # rest \<or> from_word rest post"
  then show "from_word (tok @ CHR '' '' # rest) post"
  proof
    assume "from_word rest post"
    then obtain pre where "rest = pre @ post" "pre = [] \<or> last pre = CHR '' ''" "post \<noteq> []" by (auto simp: from_word_def)
    then show ?thesis unfolding from_word_def by (intro conjI exI [of _ "tok @ CHR '' '' # pre"]) auto
  qed (auto simp: from_word_def)
qed

lemma from_word_shorter: "from_word text post \<Longrightarrow> length post \<le> length text"
  by (auto simp: from_word_def)

lemma match_tokens_prefix:
  "match_tokens val pattern True =
    (if \<exists>post. from_word val post \<and> take (length pattern) post = pattern then Some True
     else if \<exists>post. from_word val post \<and> length post < length pattern then None else Some False)"
proof (induction "length val" arbitrary: val rule: less_induct)
  case less
  show ?case
  proof (cases "val = []")
    case True
    then show ?thesis by (simp add: match_tokens.simps from_word_def)
  next
    case False
    define tok where "tok = takeWhile (\<lambda>c. c \<noteq> CHR '' '') val"
    define rest where "rest = drop (Suc (length tok)) val"
    have no_space: "CHR '' '' \<notin> set tok" unfolding tok_def by (auto dest: set_takeWhileD)
    have words: "from_word val post \<longleftrightarrow> post = val \<or> from_word rest post" for post
    proof (cases "dropWhile (\<lambda>c. c \<noteq> CHR '' '') val")
      case Nil
      then have "val = tok" by (metis append_Nil2 takeWhile_dropWhile_id tok_def)
      with False no_space from_word_single show ?thesis by (simp add: rest_def from_word_def [of "[]"])
    next
      case (Cons c cs)
      then have "c = CHR '' ''" by (metis (mono_tags, lifting) dropWhile_eq_Cons_conv)
      then have val: "val = tok @ CHR '' '' # cs" by (metis Cons takeWhile_dropWhile_id tok_def)
      moreover have "rest = cs" unfolding rest_def by (subst val) simp
      ultimately show ?thesis using from_word_Cons [OF no_space, of cs post] by simp
    qed
    have step: "match_tokens val pattern True =
        (if length val < length pattern then None
         else if take (length pattern) val = pattern then Some True else match_tokens rest pattern True)"
      using False by (subst match_tokens.simps) (simp add: compare_at_def tok_def rest_def Let_def)
    have "length rest < length val" using False by (simp add: rest_def)
    note ih = less [OF this]
    have short: "length post < length pattern" if "length val < length pattern" "from_word val post" for post
      using from_word_shorter [OF that(2)] that(1) by simp
    show ?thesis
    proof (cases "length val < length pattern")
      case True
      have "\<not> (\<exists>post. from_word val post \<and> take (length pattern) post = pattern)"
        using short [OF True] by (metis length_take linorder_not_le min.absorb1 min.cobounded1)
      with True step words show ?thesis by auto
    next
      case long: False
      show ?thesis
      proof (cases "take (length pattern) val = pattern")
        case True
        with step words long show ?thesis by auto
      next
        case no: False
        have e: "(\<exists>post. from_word val post \<and> take (length pattern) post = pattern) \<longleftrightarrow>
            (\<exists>post. from_word rest post \<and> take (length pattern) post = pattern)"
          "(\<exists>post. from_word val post \<and> length post < length pattern) \<longleftrightarrow>
            (\<exists>post. from_word rest post \<and> length post < length pattern)"
          using words no long by auto
        from step no long have "match_tokens val pattern True = match_tokens rest pattern True" by simp
        then show ?thesis unfolding ih e .
      qed
    qed
  qed
qed

text \<open>
  C37. A query on a list of words (rt, if, rel) with a pattern that is not empty.  A pattern without an
  asterisk selects a value exactly when it is one of the words, and no byte behind the value is read.
  A prefix pattern that is no longer than the value selects it when the text from the beginning of
  some word on begins with the pattern; if there is no such word and the text from the beginning of
  some word on is shorter than the pattern, bytes behind the value are read; otherwise the value is
  not selected.
\<close>

theorem match_substring_words:
  assumes "pattern \<noteq> []"
  shows "match text pattern False True = Some (is_word pattern text) \<and>
    match text pattern True True =
      (if length text < length pattern then Some False
       else if \<exists>post. from_word text post \<and> take (length pattern) post = pattern then Some True
       else if \<exists>post. from_word text post \<and> length post < length pattern then None else Some False)"
proof
  show "match text pattern False True = Some (is_word pattern text)"
  proof (cases "length text < length pattern")
    case True
    then have "\<not> is_word pattern text" by (auto simp: is_word_def)
    then show ?thesis using True by (simp add: match_def)
  qed (simp add: match_def match_tokens_words [OF assms])
qed (simp add: match_def match_tokens_prefix)

theorem match_substring_words_witness:
  "match ''core.s temp'' ''temp'' False True = Some (is_word ''temp'' ''core.s temp'') \<and>
    match ''temp x'' ''xy'' True True =
      (if \<exists>post. from_word ''temp x'' post \<and> take 2 post = ''xy'' then Some True
       else if \<exists>post. from_word ''temp x'' post \<and> length post < 2 then None else Some False)"
  using match_substring_words [of "''temp''" "''core.s temp''"] match_substring_words [of "''xy''" "''temp x''"]
  by (simp add: numeral_2_eq_2)

text \<open>
  A prefix query on a list of words compares the pattern with a last word that is shorter: bytes
  behind the value are read.
\<close>

theorem match_prefix_overread:
  assumes "CHR '' '' \<notin> set w" "CHR '' '' \<notin> set v" "v \<noteq> []"
    and "length v < length pattern" "length pattern \<le> length w" "take (length pattern) w \<noteq> pattern"
  shows "match (w @ '' '' @ v) pattern True True = None"
proof -
  have tok: "takeWhile (\<lambda>c. c \<noteq> CHR '' '') (w @ CHR '' '' # v) = w" 
    using assms(1) by (subst takeWhile_append2) auto
  have last: "match_tokens v pattern True = None"
    using assms(3,4) by (subst match_tokens.simps) (simp add: compare_at_def Let_def)
  have "match_tokens (w @ CHR '' '' # v) pattern True = None"
    using assms by (subst match_tokens.simps) (simp add: tok compare_at_def Let_def last)
  then show ?thesis using assms by (simp add: match_def)
qed

theorem match_prefix_overread_witness:
  "match ''temp x'' ''xy'' True True = None"
  using match_prefix_overread [of "''temp''" "''x''" "''xy''"] by simp

section \<open>Blocks of the response\<close>

lemma get_wkc_len_eq:
  assumes "\<forall>r \<in> set rs. selected (map_option parse_query query) r \<noteq> None"
  shows "get_wkc_len rs query = Some (length (wellknown_text (map_option parse_query query) rs))"
  using assms
  by (simp add: get_wkc_len_def coap_print_wellknown_eq Let_def print_status_facts copy_eq)

lemma count_halvings_power:
  "k < 16 \<Longrightarrow> count_halvings (2 ^ k) c = Some (c + k)"
proof (induction k arbitrary: c)
  case (Suc k)
  have "(2 ^ Suc k :: u16) \<noteq> 1"
    by (metis even_power even_numeral odd_one zero_less_Suc)
  moreover have "drop_bit 1 (2 ^ Suc k :: u16) = 2 ^ k"
    using Suc.prems by (simp add: drop_bit_exp_eq del: power_Suc)
  ultimately show ?case using Suc by (subst count_halvings.simps) simp
qed (simp add: count_halvings.simps)

lemma flsll_bounds:
  assumes "0 < m"
  shows "0 < flsll m \<and> 2 ^ (flsll m - 1) \<le> m \<and> m < 2 ^ flsll m"
  using assms
proof (induction m rule: flsll.induct)
  case (1 m)
  show ?case
  proof (cases "m = 1")
    case False
    with 1 have half: "0 < flsll (m div 2)" "2 ^ (flsll (m div 2) - 1) \<le> m div 2" "m div 2 < 2 ^ flsll (m div 2)"
      by auto
    have fl: "flsll m = Suc (flsll (m div 2))" using False 1 by (subst flsll.simps) simp
    obtain j where j: "flsll (m div 2) = Suc j" using half(1) by (cases "flsll (m div 2)") auto
    show ?thesis using half(2,3) unfolding fl j by auto
  qed (simp add: flsll.simps)
qed

lemma unat_push_bit:
  fixes w :: u32
  assumes "unat w * 2 ^ m < 2 ^ 32"
  shows "unat (push_bit m w) = unat w * 2 ^ m"
  using assms by (simp only: unsigned_push_bit_eq) (simp add: push_bit_eq_mult take_bit_nat_eq_self)

lemma response_block_ok:
  assumes start: "unat num * 2 ^ (k + 4) < wkc_len" and len: "wkc_len < 2 ^ 28" and chunk: "20 \<le> chunk"
  shows "\<exists>n k'. response_block chunk wkc_len num (int k) =
      Inr (n, unat n * 2 ^ (k' + 4) + 2 ^ (k' + 4) < wkc_len, int k')
    \<and> k' \<le> k \<and> unat n * 2 ^ (k' + 4) = unat num * 2 ^ (k + 4)"
proof -
  let ?avail = "chunk - 4"
  have nat: "nat (int k + 4) = k + 4" by simp
  have unat: "unat (push_bit (k + 4) num) = unat num * 2 ^ (k + 4)"
    using start len by (intro unat_push_bit) simp
  note block = response_block_def Let_def nat unat
  consider (fits) "2 ^ (k + 4) \<le> ?avail" | (last) "?avail < 2 ^ (k + 4)" "wkc_len - unat num * 2 ^ (k + 4) \<le> ?avail"
    | (smaller) "?avail < 2 ^ (k + 4)" "?avail < wkc_len - unat num * 2 ^ (k + 4)"
    by linarith
  then show ?thesis
  proof cases
    case fits
    then show ?thesis
      using start by (intro exI [of _ num] exI [of _ k]) (auto simp: block)
  next
    case last
    then show ?thesis
      using start by (intro exI [of _ num] exI [of _ k]) (auto simp: block)
  next
    case smaller
    define j where "j = flsll ?avail"
    have j: "2 ^ (j - 1) \<le> ?avail" "?avail < 2 ^ j" using flsll_bounds [of ?avail] chunk by (auto simp: j_def)
    have "(2 :: nat) ^ 4 < 2 ^ j" using j(2) chunk by simp
    then have "4 < j" by (rule power_less_imp_less_exp [rotated]) simp
    then obtain k' where k': "j = k' + 5" using that [of "j - 5"] by simp
    have "j - 1 < k + 4"
      using le_less_trans [OF j(1) smaller(1)] by (rule power_less_imp_less_exp [rotated]) simp
    then have le: "k' < k" by (simp add: k')
    have pos: "unat num * 2 ^ (k - k') * 2 ^ (k' + 4) = unat num * 2 ^ (k + 4)"
      using le by (simp add: power_add [symmetric] mult.assoc)
    have "unat num * 2 ^ (k - k') \<le> unat num * 2 ^ (k + 4)"
      by (intro mult_left_mono power_increasing) auto
    then have "unat num * 2 ^ (k - k') < 2 ^ 28" using start len by (meson le_less_trans less_trans)
    then have "unat num * 2 ^ (k - k') < 2 ^ 32" by (rule less_trans) simp
    then have n: "unat (push_bit (k - k') num) = unat num * 2 ^ (k - k')"
      by (rule unat_push_bit)
    have "2 ^ (k' + 4) < wkc_len - unat num * 2 ^ (k + 4)"
      using le_less_trans [OF j(1) smaller(2)] by (simp add: k' add.commute)
    then have behind: "unat num * 2 ^ (k + 4) + 2 ^ (k' + 4) < wkc_len" using start by linarith
    define n' where "n' = push_bit (k - k') num"
    have "response_block chunk wkc_len num (int k) = Inr (n', True, int k')"
      using start smaller le by (simp add: block j_def [symmetric] k' n'_def nat_diff_distrib')
    moreover have pos': "unat n' * 2 ^ (k' + 4) = unat num * 2 ^ (k + 4)"
      using pos n by (simp only: n'_def)
    ultimately show ?thesis
      using le behind by (intro exI [of _ n'] exI [of _ k']) (simp only: pos', simp)
  qed
qed

text \<open>An environment without failures, and one in which a client can ask for all blocks.\<close>

definition wk_able :: "wk_env \<Rightarrow> bool" where
  "wk_able env \<longleftrightarrow> wk_mem_response env \<and> wk_mem_payload env \<and> wk_set_block2 env = (\<lambda>_ _ _. True) \<and>
     20 \<le> rest_max_chunk_size env \<and> rest_max_chunk_size env < 2 ^ 28"

lemma well_known_payload_ok:
  assumes "\<forall>r \<in> set rs. selected (map_option parse_query query) r \<noteq> None"
    and "wk_mem_payload env" "len < 2 ^ 28"
  shows "well_known_payload env rs query len offset resp =
    Some (Some (resp\<lparr>wr_payload :=
      Some (take len (drop offset (wellknown_text (map_option parse_query query) rs)))\<rparr>))"
proof -
  let ?p = "COPY_COND_WITH_OFFSET (wellknown_text (map_option parse_query query) rs) (fresh_printer len offset)"
  have out: "pr_out ?p = take len (drop offset (wellknown_text (map_option parse_query query) rs))"
    by (simp add: copy_eq)
  then have "length (pr_out ?p) < 2 ^ 28" using assms(3) by simp
  then show ?thesis
    using assms by (simp add: well_known_payload_def coap_print_wellknown_eq print_status_facts Let_def out)
qed

text \<open>
  The response to a request for a block has the bytes at its position: its block has the size asked
  for or a smaller power of two, starts at the same byte, and its flag for more is set exactly when
  text follows.
\<close>

lemma response_at_block:
  assumes decided: "\<forall>r \<in> set rs. selected (map_option parse_query (wq_query request)) r \<noteq> None"
    and able: "wk_able env"
    and t_def: "t = wellknown_text (map_option parse_query (wq_query request)) rs"
    and length: "length t \<le> rest_max_chunk_size env"
    and block: "wq_block2 request = Some (num, 2 ^ (k + 4))" "k \<le> 6"
    and start: "unat num * 2 ^ (k + 4) < length t"
  obtains resp n k' where "coap_wellknown_response env rs request = Some (Some resp)"
    "wr_code resp = CONTENT_2_05" "k' \<le> k" "unat n * 2 ^ (k' + 4) = unat num * 2 ^ (k + 4)"
    "wr_block2 resp = Some (n, unat n * 2 ^ (k' + 4) + 2 ^ (k' + 4) < length t, 2 ^ (k' + 4))"
    "wr_payload resp = Some (take (2 ^ (k' + 4)) (drop (unat n * 2 ^ (k' + 4)) t))"
proof -
  have t: "length t \<le> rest_max_chunk_size env" "t \<noteq> []" "length t < 2 ^ 28"
    using length start able by (auto simp: wk_able_def)
  obtain n k' where r: "response_block (rest_max_chunk_size env) (length t) num (int k) =
        Inr (n, unat n * 2 ^ (k' + 4) + 2 ^ (k' + 4) < length t, int k')"
      and k': "k' \<le> k" and pos: "unat n * 2 ^ (k' + 4) = unat num * 2 ^ (k + 4)"
    using response_block_ok [of num k "length t" "rest_max_chunk_size env"] start t able
    by (auto simp: wk_able_def)
  have count: "count_halvings (2 ^ (k + 4)) 0 = Some (k + 4)"
    using count_halvings_power [of "k + 4" 0] block(2) by simp
  have bound: "unat num * 2 ^ (k + 4) < 2 ^ 32" using start t by simp
  have shift: "unat (push_bit (k + 4) num) = unat num * 2 ^ (k + 4)"
    "unat (push_bit (k' + 4) n) = unat num * 2 ^ (k + 4)"
    using unat_push_bit [of num "k + 4"] unat_push_bit [of n "k' + 4"] bound pos by simp_all
  have bytes: "SZX_TO_BYTES (int k') = 2 ^ (k' + 4)" "nat (int k' + 4) = k' + 4"
    by (simp_all add: SZX_TO_BYTES_def)
  have payload: "well_known_payload env rs (wq_query request) (min (length t - unat num * 2 ^ (k + 4)) m)
        (unat num * 2 ^ (k + 4)) resp =
      Some (Some (resp\<lparr>wr_payload := Some (take m (drop (unat num * 2 ^ (k + 4)) t))\<rparr>))" for m resp
  proof -
    have "min (length t - unat num * 2 ^ (k + 4)) m < 2 ^ 28" using t by linarith
    moreover have "take (min (length t - p) m) (drop p t) = take m (drop p t)" for p by (simp add: min_def)
    ultimately show ?thesis
      using well_known_payload_ok [OF decided] able by (simp add: wk_able_def t_def [symmetric])
  qed
  have "coap_wellknown_response env rs request = Some (Some
      \<lparr>wr_ack = wq_con request, wr_code = CONTENT_2_05, wr_mid = wq_mid request, wr_token = wq_token request,
       wr_link_format = True, wr_block2 = Some (n, unat n * 2 ^ (k' + 4) + 2 ^ (k' + 4) < length t, 2 ^ (k' + 4)),
       wr_payload = Some (take (2 ^ (k' + 4)) (drop (unat num * 2 ^ (k + 4)) t))\<rparr>)"
    using able t block
    by (simp add: coap_wellknown_response_def wk_able_def get_wkc_len_eq [OF decided] t_def [symmetric]
        count r shift bytes COAP_MAX_BLOCK_SZX_def payload Let_def
        del: power_Suc)
  then show ?thesis using that k' pos by simp
qed

text \<open>The resources of the witnesses, printed.\<close>

lemma ex_links_text:
  "wellknown_text None ex_links =
     ''</lamp>;obs,</s/1>;rt='' @ [CHR 0x22, CHR ''a'', CHR '' '', CHR ''b'', CHR 0x22]"
  by code_simp

lemma ex_links_decided: "\<forall>r \<in> set ex_links. selected None r \<noteq> None"
  by (simp add: selected_def)

definition ex_env :: wk_env where
  "ex_env = \<lparr>rest_max_chunk_size = 64, wk_mem_response = True, wk_mem_payload = True,
             wk_set_block2 = (\<lambda>_ _ _. True)\<rparr>"

lemma ex_env_able: "wk_able ex_env" by (simp add: wk_able_def ex_env_def)

definition ex_request :: "(u32 \<times> u16) option \<Rightarrow> wk_request" where
  "ex_request block = \<lparr>wq_con = True, wq_mid = 7, wq_token = [], wq_query = None, wq_block2 = block\<rparr>"

text \<open>A client that asks for one block after the other, at most \<open>fuel\<close> of them, and joins them.\<close>

fun fetch_blocks ::
  "wk_env \<Rightarrow> coap_link_t list \<Rightarrow> wk_request \<Rightarrow> nat \<Rightarrow> u32 \<Rightarrow> nat \<Rightarrow> string option" where
  "fetch_blocks env rs request 0 num bytes = None"
| "fetch_blocks env rs request (Suc fuel) num bytes =
     (case coap_wellknown_response env rs (request\<lparr>wq_block2 := Some (num, of_nat bytes)\<rparr>) of
        Some (Some resp) \<Rightarrow>
          (case (wr_code resp, wr_payload resp, wr_block2 resp) of
             (CONTENT_2_05, Some s, Some (n, further, b)) \<Rightarrow>
               if further then map_option ((@) s) (fetch_blocks env rs request fuel (n + 1) b) else Some s
           | _ \<Rightarrow> None)
      | _ \<Rightarrow> None)"

lemma take_drop_next: "take b (drop a xs) @ drop (a + b) xs = drop a xs"
  by (metis append_take_drop_id drop_drop add.commute)

lemma fetch_blocks_rest:
  assumes decided: "\<forall>r \<in> set rs. selected (map_option parse_query (wq_query request)) r \<noteq> None"
    and able: "wk_able env"
    and t: "t = wellknown_text (map_option parse_query (wq_query request)) rs" "length t \<le> rest_max_chunk_size env"
    and k: "k \<le> 6" and start: "unat num * 2 ^ (k + 4) < length t"
    and fuel: "length t - unat num * 2 ^ (k + 4) \<le> fuel"
  shows "fetch_blocks env rs request fuel num (2 ^ (k + 4)) = Some (drop (unat num * 2 ^ (k + 4)) t)"
  using k start fuel
proof (induction fuel arbitrary: num k)
  case (Suc fuel)
  let ?req = "request\<lparr>wq_block2 := Some (num, 2 ^ (k + 4))\<rparr>"
  from Suc.prems decided able t obtain resp n k'
    where resp: "coap_wellknown_response env rs ?req = Some (Some resp)" "wr_code resp = CONTENT_2_05" "k' \<le> k"
      and pos: "unat n * 2 ^ (k' + 4) = unat num * 2 ^ (k + 4)"
      and block: "wr_block2 resp = Some (n, unat n * 2 ^ (k' + 4) + 2 ^ (k' + 4) < length t, 2 ^ (k' + 4))"
      and payload: "wr_payload resp = Some (take (2 ^ (k' + 4)) (drop (unat n * 2 ^ (k' + 4)) t))"
    by - (rule response_at_block [of rs ?req env t num k], auto)
  have bytes: "of_nat (2 ^ (k + 4)) = (2 ^ (k + 4) :: u16)" by simp
  show ?case
  proof (cases "unat n * 2 ^ (k' + 4) + 2 ^ (k' + 4) < length t")
    case True
    have "length t < 2 ^ 28" using able t(2) by (simp add: wk_able_def)
    moreover have "unat n \<le> unat n * 2 ^ (k' + 4)" "(0 :: nat) < 2 ^ (k' + 4)" by simp_all
    then have "Suc (unat n) < length t" using True by linarith
    ultimately have "Suc (unat n) < 2 ^ 32" by simp
    then have next_block: "unat (n + 1) * 2 ^ (k' + 4) = unat n * 2 ^ (k' + 4) + 2 ^ (k' + 4)"
      by (simp add: unat_word_ariths)
    have "fetch_blocks env rs request fuel (n + 1) (2 ^ (k' + 4)) = Some (drop (unat (n + 1) * 2 ^ (k' + 4)) t)"
    proof (rule Suc.IH)
      show "k' \<le> 6" using resp(3) Suc.prems(1) by simp
      show "unat (n + 1) * 2 ^ (k' + 4) < length t" using True by (simp only: next_block)
      have "(0 :: nat) < 2 ^ (k' + 4)" by simp
      then show "length t - unat (n + 1) * 2 ^ (k' + 4) \<le> fuel"
        using Suc.prems(3) unfolding next_block pos by linarith
    qed
    then have "fetch_blocks env rs request (Suc fuel) num (2 ^ (k + 4)) =
        Some (take (2 ^ (k' + 4)) (drop (unat n * 2 ^ (k' + 4)) t) @
          drop (unat n * 2 ^ (k' + 4) + 2 ^ (k' + 4)) t)"
      using True by (simp add: bytes resp block payload next_block del: power_Suc)
    then show ?thesis unfolding take_drop_next pos .
  next
    case False
    then show ?thesis
      by (simp add: bytes resp block payload pos [symmetric] del: power_Suc)
  qed
qed simp

text \<open>A text that is longer than the largest payload is refused, whatever block is asked for.\<close>

lemma coap_wellknown_too_long:
  assumes "\<forall>r \<in> set rs. selected (map_option parse_query (wq_query request)) r \<noteq> None" and "wk_able env"
    and "rest_max_chunk_size env < length (wellknown_text (map_option parse_query (wq_query request)) rs)"
  shows "\<exists>resp. coap_wellknown_response env rs request = Some (Some resp) \<and>
    wr_code resp = SERVICE_UNAVAILABLE_5_03 \<and> wr_payload resp = None"
  using assms get_wkc_len_eq [OF assms(1)]
  by (auto simp: coap_wellknown_response_def wk_able_def Let_def)

text \<open>
  C15. Blockwise transfer of the answer to a query of /.well-known/core that no resource makes fault
  (every resource is selected or not), when memory is there and the library takes block options, for a
  REST_MAX_CHUNK_SIZE of at least 20.  If the link text of the selected resources is not empty and
  fits one payload of that size, a client that asks for its blocks from the first one on, with a
  block size of 16 to 1024, gets the whole text after finitely many requests, whatever smaller block
  size the server chooses.  If it is longer, which is what blocks are for, every request for it is
  answered with 5.03 and no payload, with a block option or without, and such a client never gets
  anything.
\<close>

theorem coap_wellknown_blockwise:
  assumes "\<forall>r \<in> set rs. selected (map_option parse_query (wq_query request)) r \<noteq> None"
    and "wk_able env" "k \<le> 6"
  defines "text \<equiv> wellknown_text (map_option parse_query (wq_query request)) rs"
  assumes "text \<noteq> []"
  shows "(length text \<le> rest_max_chunk_size env \<longrightarrow> fetch_blocks env rs request (length text) 0 (2 ^ (k + 4)) = Some text) \<and>
    (rest_max_chunk_size env < length text \<longrightarrow>
      (\<forall>block. \<exists>resp. coap_wellknown_response env rs (request\<lparr>wq_block2 := block\<rparr>) = Some (Some resp) \<and>
         wr_code resp = SERVICE_UNAVAILABLE_5_03 \<and> wr_payload resp = None) \<and>
      (\<forall>fuel num bytes. fetch_blocks env rs request fuel num bytes = None))"
proof (intro conjI impI)
  assume "length text \<le> rest_max_chunk_size env"
  with fetch_blocks_rest [OF assms(1,2) refl _ assms(3), of 0] assms(5)
  show "fetch_blocks env rs request (length text) 0 (2 ^ (k + 4)) = Some text" by (simp add: text_def)
next
  assume long: "rest_max_chunk_size env < length text"
  show all: "\<forall>block. \<exists>resp. coap_wellknown_response env rs (request\<lparr>wq_block2 := block\<rparr>) = Some (Some resp) \<and>
      wr_code resp = SERVICE_UNAVAILABLE_5_03 \<and> wr_payload resp = None"
    using coap_wellknown_too_long [OF _ assms(2), of rs "request\<lparr>wq_block2 := _\<rparr>"] assms(1) long by (simp add: text_def)
  show "\<forall>fuel num bytes. fetch_blocks env rs request fuel num bytes = None"
  proof (intro allI)
    fix fuel num bytes
    from all obtain resp where "coap_wellknown_response env rs (request\<lparr>wq_block2 := Some (num, of_nat bytes)\<rparr>) = Some (Some resp)"
      "wr_code resp = SERVICE_UNAVAILABLE_5_03" by blast
    then show "fetch_blocks env rs request fuel num bytes = None" by (cases fuel) simp_all
  qed
qed

theorem coap_wellknown_blockwise_witness:
  "fetch_blocks ex_env ex_links (ex_request None) (length (wellknown_text None ex_links)) 0 (2 ^ (1 + 4)) =
      Some (wellknown_text None ex_links) \<and>
    fetch_blocks (ex_env\<lparr>rest_max_chunk_size := 20\<rparr>) ex_links (ex_request None) 9 0 16 = None"
proof -
  have q: "wq_query (ex_request None) = None" by (simp add: ex_request_def)
  have "wk_able (ex_env\<lparr>rest_max_chunk_size := 20\<rparr>)" using ex_env_able by (simp add: wk_able_def)
  with q show ?thesis
    using coap_wellknown_blockwise [of ex_links "ex_request None" ex_env 1] ex_links_decided ex_env_able
      coap_wellknown_blockwise [of ex_links "ex_request None" "ex_env\<lparr>rest_max_chunk_size := 20\<rparr>" 1]
    by (simp add: ex_links_text ex_env_def)
qed

text \<open>
  C38. An attribute without a value that a query names is read through the null pointer: the request
  for /.well-known/core that carries the query brings the server down.
\<close>

theorem coap_wellknown_query_null_value:
  assumes "r \<in> set rs" "artik_coap_find_attr r name = Some attr" "at_value attr = None"
    and "name \<noteq> []" "name \<noteq> ''href''" "CHR ''='' \<notin> set name"
    and "wk_mem_response env" "wq_query request = Some (name @ ''='' @ pattern)"
  shows "coap_wellknown_response env rs request = None"
proof -
  have "takeWhile (\<lambda>c. c \<noteq> CHR ''='') (name @ CHR ''='' # pattern) = name"
    using assms(6) by (subst takeWhile_append2) auto
  then have "lq_param (parse_query (name @ ''='' @ pattern)) = name"
    "\<not> lq_uri (parse_query (name @ ''='' @ pattern))"
    using assms(5) by (simp_all add: parse_query_def Let_def)
  then have "selected (Some (parse_query (name @ ''='' @ pattern))) r = None"
    using assms(2-4) by (simp add: selected_def)
  then have "coap_print_wellknown rs 0 UINT_MAX (wq_query request) = None"
    using assms(1,8) by (simp add: coap_print_wellknown_def print_links_fault)
  then show ?thesis
    using assms(7) by (simp add: coap_wellknown_response_def get_wkc_len_def Let_def)
qed

theorem coap_wellknown_query_null_value_witness:
  "coap_wellknown_response ex_env
     [snd (artik_coap_add_attr True (Some ''obs'') None (hd ex_links))]
     (ex_request None\<lparr>wq_query := Some (''obs'' @ ''='' @ ''1'')\<rparr>) = None"
  by (rule coap_wellknown_query_null_value
      [of "snd (artik_coap_add_attr True (Some ''obs'') None (hd ex_links))" _ "''obs''"
        "\<lparr>at_name = ''obs'', at_value = None\<rparr>"])
    (simp_all add: artik_coap_add_attr_def artik_coap_find_attr_def ex_env_def ex_request_def Let_def)

end
