(* ===== verification/Coap_Server.thy ===== *)
theory Coap_Server
  imports Coap_References Coap_Link
begin

text \<open>
  The server side of the CoAP engine: received messages, requests to resources, responses and
  notifications, in \<^verbatim>\<open>coap.c\<close> and \<^verbatim>\<open>coap_resource.c\<close>.  The observers of a resource are in the context of
  \<^theory_text>\<open>Coap_Session\<close>, at the position the resource has in the list of resources.  The theory shows that
  a received message and a round of notifications keep the reference counts of \<^theory_text>\<open>Coap_References\<close>,
  what the responses look like, that confirmable notifications keep coming, and that registering an
  observer a second time frees its query twice.
\<close>

section \<open>Data\<close>

text \<open>The options of a request that the engine reads.\<close>

record request_options =
  rq_uri_path :: "string list option"
  rq_uri_query :: "string list"
  rq_observe :: "u32 option"
  rq_block2 :: "(u32 \<times> u16) option"

text \<open>
  A handler belongs to the application (\<^verbatim>\<open>tizenrt_coap.c\<close> wraps its callbacks).  It gets the session, the
  request (none when an observer is notified), the token and the pointer to the query, and fills in
  the response.
\<close>

type_synonym coap_method_handler_t =
  "addr \<Rightarrow> (coap_packet_t \<times> request_options) option \<Rightarrow> u8 list \<Rightarrow> addr \<Rightarrow> coap_packet_t \<Rightarrow> coap_packet_t"

record coap_server_resource = coap_link_t +
  r_dirty :: bool
  r_partiallydirty :: bool
  r_notify_con :: bool
  r_handler :: "coap_method_handler_t option list"

text \<open>
  What the engine uses of the message library er-coap-13, which is not in the repository: its parser,
  the length of a header and the text of an option that is repeated.
\<close>

record coap_library =
  lb_parse :: "u8 list \<Rightarrow> bool option \<times> coap_packet_t \<times> request_options"
  lb_header_len :: nat
  lb_multi_option_as_string :: "string list \<Rightarrow> string option"
  lb_wellknown :: wk_env

definition COAP_RESPONSE_CODE :: "nat \<Rightarrow> u8" where
  "COAP_RESPONSE_CODE n = push_bit 5 (of_nat (n div 100)) OR of_nat (n mod 100)"

definition COAP_RESPONSE_CLASS :: "u8 \<Rightarrow> u8" where
  "COAP_RESPONSE_CLASS c = drop_bit 5 c AND 0xFF"

definition COAP_MESSAGE_IS_REQUEST :: "coap_packet_t \<Rightarrow> bool" where
  "COAP_MESSAGE_IS_REQUEST p \<longleftrightarrow> pk_code p \<noteq> 0 \<and> pk_code p < 32"

definition COAP_MESSAGE_IS_RESPONSE :: "coap_packet_t \<Rightarrow> bool" where
  "COAP_MESSAGE_IS_RESPONSE p \<longleftrightarrow> 64 \<le> pk_code p"

definition COAP_GET :: u8 where "COAP_GET = 1"
definition COAP_OBSERVE_CANCEL :: u32 where "COAP_OBSERVE_CANCEL = 1"
definition COAP_OBS_MAX_NON :: nat where "COAP_OBS_MAX_NON = 5"
definition COAP_DEFAULT_VERSION :: u8 where "COAP_DEFAULT_VERSION = 1"

definition wk_code_byte :: "wk_code \<Rightarrow> u8" where
  "wk_code_byte c =
     (case c of
        CONTENT_2_05 \<Rightarrow> COAP_RESPONSE_CODE 205
      | BAD_REQUEST_4_00 \<Rightarrow> COAP_RESPONSE_CODE 400
      | SERVICE_UNAVAILABLE_5_03 \<Rightarrow> COAP_RESPONSE_CODE 503)"

section \<open>Error responses\<close>

definition tizenrt_coap_error :: "(u8 \<times> string) list" where
  "tizenrt_coap_error =
     [(COAP_RESPONSE_CODE 201, ''Created''),
      (COAP_RESPONSE_CODE 202, ''Deleted''),
      (COAP_RESPONSE_CODE 203, ''Valid''),
      (COAP_RESPONSE_CODE 204, ''Changed''),
      (COAP_RESPONSE_CODE 205, ''Content''),
      (COAP_RESPONSE_CODE 231, ''Continue''),
      (COAP_RESPONSE_CODE 400, ''Bad Request''),
      (COAP_RESPONSE_CODE 401, ''Unauthorized''),
      (COAP_RESPONSE_CODE 402, ''Bad Option''),
      (COAP_RESPONSE_CODE 403, ''Forbidden''),
      (COAP_RESPONSE_CODE 404, ''Not Found''),
      (COAP_RESPONSE_CODE 405, ''Method Not Allowed''),
      (COAP_RESPONSE_CODE 406, ''Not Acceptable''),
      (COAP_RESPONSE_CODE 408, ''Request Entity Incomplete''),
      (COAP_RESPONSE_CODE 412, ''Precondition Failed''),
      (COAP_RESPONSE_CODE 413, ''Request Entity Too Large''),
      (COAP_RESPONSE_CODE 415, ''Unsupported Content-Format''),
      (COAP_RESPONSE_CODE 500, ''Internal Server Error''),
      (COAP_RESPONSE_CODE 501, ''Not Implemented''),
      (COAP_RESPONSE_CODE 502, ''Bad Gateway''),
      (COAP_RESPONSE_CODE 503, ''Service Unavailable''),
      (COAP_RESPONSE_CODE 504, ''Gateway Timeout''),
      (COAP_RESPONSE_CODE 505, ''Proxying Not Supported'')]"

definition artik_coap_response_phrase :: "u8 \<Rightarrow> string option" where
  "artik_coap_response_phrase code = map_of tizenrt_coap_error code"

text \<open>Responses to a confirmable message are acknowledgements.\<close>

definition reply_type :: "coap_packet_t \<Rightarrow> coap_msg_type" where
  "reply_type request = (if pk_type request = COAP_TYPE_CON then COAP_TYPE_ACK else COAP_TYPE_NON)"

text \<open>The packet and its payload; tokens have at most eight bytes.\<close>

definition artik_coap_new_error_response ::
  "coap_packet_t \<Rightarrow> u8 \<Rightarrow> coap_context_t \<Rightarrow> (coap_packet_t \<times> string option) option \<times> coap_context_t" where
  "artik_coap_new_error_response request code s =
     (let (m, s) = ext_call ''malloc'' [] s
      in if m = 0 then (None, s)
         else (Some (\<lparr>pk_type = reply_type request, pk_code = code, pk_mid = pk_mid request, pk_token = pk_token request\<rparr>,
                     artik_coap_response_phrase code), s))"

section \<open>Resources\<close>

definition server_resource_init :: "string \<Rightarrow> bool \<Rightarrow> coap_server_resource" where
  "server_resource_init uri notify_con =
     coap_resource_t.extend (artik_coap_resource_init uri)
       \<lparr>r_attrs = [], r_observable = False, r_dirty = False, r_partiallydirty = False,
        r_notify_con = notify_con, r_handler = replicate 7 None\<rparr>"

text \<open>A method outside the table is written to what lies beside it.\<close>

definition coap_register_handler ::
  "nat \<Rightarrow> coap_method_handler_t option \<Rightarrow> coap_server_resource \<Rightarrow> coap_server_resource option" where
  "coap_register_handler method handler r =
     (if 1 \<le> method \<and> method - 1 < length (r_handler r)
      then Some (r\<lparr>r_handler := (r_handler r)[method - 1 := handler]\<rparr>) else None)"

text \<open>The resource of a key, by its position.\<close>

definition find_resource :: "coap_server_resource list \<Rightarrow> coap_key_t \<Rightarrow> nat option" where
  "find_resource rs k = find (\<lambda>i. r_key (rs ! i) = k) [0..<length rs]"

definition request_key :: "request_options \<Rightarrow> coap_key_t" where
  "request_key opts = artik_coap_hash_request_uri (rq_uri_path opts)"

text \<open>The handler of the method, when there is a slot for it.\<close>

definition method_handler :: "coap_server_resource \<Rightarrow> coap_packet_t \<Rightarrow> coap_method_handler_t option" where
  "method_handler r packet =
     (if 1 \<le> pk_code packet \<and> unat (pk_code packet) - 1 < length (r_handler r)
      then r_handler r ! (unat (pk_code packet) - 1) else None)"

section \<open>Requests\<close>

definition wk_request_of :: "coap_packet_t \<Rightarrow> request_options \<Rightarrow> wk_request" where
  "wk_request_of packet opts =
     \<lparr>wq_con = (pk_type packet = COAP_TYPE_CON), wq_mid = pk_mid packet, wq_token = pk_token packet,
      wq_query = (case rq_uri_query opts of [] \<Rightarrow> None | q # _ \<Rightarrow> Some q), wq_block2 = rq_block2 opts\<rparr>"

definition wk_packet :: "wk_response \<Rightarrow> coap_packet_t" where
  "wk_packet r =
     \<lparr>pk_type = (if wr_ack r then COAP_TYPE_ACK else COAP_TYPE_NON), pk_code = wk_code_byte (wr_code r),
      pk_mid = wr_mid r, pk_token = wr_token r\<rparr>"

definition wellknown_response ::
  "coap_library \<Rightarrow> coap_server_resource list \<Rightarrow> coap_packet_t \<Rightarrow> request_options \<Rightarrow> coap_packet_t option option" where
  "wellknown_response lib rs packet opts =
     map_option (map_option wk_packet)
       (coap_wellknown_response (lb_wellknown lib) (map coap_link_t.truncate rs) (wk_request_of packet opts))"

text \<open>
  The response when no resource has the key, and when the resource has no handler for the method.
\<close>

definition unknown_resource_response ::
  "coap_library \<Rightarrow> coap_server_resource list \<Rightarrow> coap_packet_t \<Rightarrow> request_options \<Rightarrow> coap_context_t \<Rightarrow>
    (coap_packet_t option \<times> coap_context_t) option" where
  "unknown_resource_response lib rs packet opts s =
     (if is_wkc (request_key opts) then
        (if pk_code packet = COAP_GET then
           map_option (\<lambda>response. (response, s)) (wellknown_response lib rs packet opts)
         else let (r, s) = artik_coap_new_error_response packet (COAP_RESPONSE_CODE 405) s in Some (map_option fst r, s))
      else let (r, s) = artik_coap_new_error_response packet (COAP_RESPONSE_CODE 404) s in Some (map_option fst r, s))"

definition missing_method_response ::
  "coap_library \<Rightarrow> coap_server_resource list \<Rightarrow> coap_packet_t \<Rightarrow> request_options \<Rightarrow> coap_context_t \<Rightarrow>
    (coap_packet_t option \<times> coap_context_t) option" where
  "missing_method_response lib rs packet opts s =
     (if pk_code packet = COAP_GET \<and> is_wkc (request_key opts)
      then map_option (\<lambda>response. (response, s)) (wellknown_response lib rs packet opts)
      else let (r, s) = artik_coap_new_error_response packet (COAP_RESPONSE_CODE 405) s in Some (map_option fst r, s))"

text \<open>
  The Observe option of a request: zero in its last bit registers the sender, with the query, and one
  removes it.  The result says whether the query still belongs to the request.
\<close>

definition observe_request ::
  "nat \<Rightarrow> coap_server_resource \<Rightarrow> addr \<Rightarrow> u8 list \<Rightarrow> request_options \<Rightarrow> addr \<Rightarrow> coap_context_t \<Rightarrow>
    (bool \<times> coap_context_t) option" where
  "observe_request i r a token opts query s =
     (if \<not> r_observable r then Some (True, s)
      else case rq_observe opts of
        None \<Rightarrow> Some (True, s)
      | Some action \<Rightarrow>
          if action AND COAP_OBSERVE_CANCEL = 0 then do {
            (sub, s) \<leftarrow> artik_coap_add_observer i a token query s;
            Some (False, case sub of None \<Rightarrow> s | Some _ \<Rightarrow> artik_coap_touch_observer a token s)
          }
          else do {
            (k, s) \<leftarrow> artik_coap_delete_observer i a token s;
            Some (True, s)
          })"

text \<open>A new block for the query, and its text.\<close>

definition new_query :: "coap_context_t \<Rightarrow> addr \<times> coap_context_t" where
  "new_query s = (c_next s, s\<lparr>c_next := c_next s + 1, c_queries := (c_queries s)(c_next s \<mapsto> [])\<rparr>)"

text \<open>
  The call of a handler: it ends early when memory is short, and with a token of more than eight
  bytes.  The result has the response and the query that is freed after the response has been sent.
\<close>

definition handled_response ::
  "coap_method_handler_t \<Rightarrow> nat \<Rightarrow> coap_server_resource \<Rightarrow> addr \<Rightarrow> coap_packet_t \<Rightarrow> request_options \<Rightarrow> addr \<Rightarrow>
    coap_context_t \<Rightarrow> ((coap_packet_t \<times> addr) option \<times> coap_context_t) option" where
  "handled_response h i r a packet opts query s =
     do {
       let response = \<lparr>pk_type = reply_type packet, pk_code = 0, pk_mid = pk_mid packet, pk_token = pk_token packet\<rparr>;
       (owns_query, s) \<leftarrow> observe_request i r a (pk_token packet) opts query s;
       let response = h a (Some (packet, opts)) (pk_token packet) query response;
       s \<leftarrow> (if owns_query then free_query query s else Some s);
       s \<leftarrow> (if rq_observe opts \<noteq> None \<and> 2 < COAP_RESPONSE_CLASS (pk_code response)
             then map_option snd (artik_coap_delete_observer i a (pk_token packet) s) else Some s);
       let response = (if pk_type response = COAP_TYPE_ACK \<and> pk_code response = 0
                       then response\<lparr>pk_token := []\<rparr> else response);
       Some (Some (response, if owns_query then 0 else query), s)
     }"

text \<open>The blocks for the query and the response; no query is no memory.\<close>

definition prepare_query ::
  "coap_library \<Rightarrow> request_options \<Rightarrow> coap_context_t \<Rightarrow> (addr option \<times> coap_context_t) option" where
  "prepare_query lib opts s =
     (let uri_query = lb_multi_option_as_string lib (rq_uri_query opts); (m, s) = ext_call ''malloc'' [] s
      in if m = 0 then Some (None, s)
         else
           let (query, s) = new_query s;
               (d, s) = (if uri_query = None then (1, s) else ext_call ''strdup'' [] s)
           in if d = 0 then do { s \<leftarrow> free_query query s; Some (None, s) }
              else
                let s = (case uri_query of None \<Rightarrow> s | Some text \<Rightarrow> s\<lparr>c_queries := (c_queries s)(query \<mapsto> text)\<rparr>);
                    (m, s) = ext_call ''malloc'' [] s
                in if m = 0 then do { s \<leftarrow> free_query query s; Some (None, s) } else Some (Some query, s))"

definition custom_response ::
  "coap_library \<Rightarrow> coap_method_handler_t \<Rightarrow> nat \<Rightarrow> coap_server_resource \<Rightarrow> addr \<Rightarrow> coap_packet_t \<Rightarrow> request_options \<Rightarrow>
    coap_context_t \<Rightarrow> ((coap_packet_t \<times> addr) option \<times> coap_context_t) option" where
  "custom_response lib h i r a packet opts s =
     do {
       (query, s) \<leftarrow> prepare_query lib opts s;
       (case query of
          None \<Rightarrow> Some (None, s)
        | Some query \<Rightarrow>
            if length (pk_token packet) \<le> 8 then handled_response h i r a packet opts query s else Some (None, s))
     }"

definition send_response :: "addr \<Rightarrow> coap_packet_t option \<Rightarrow> coap_context_t \<Rightarrow> coap_context_t option" where
  "send_response a response s =
     (case response of None \<Rightarrow> Some s | Some p \<Rightarrow> map_option snd (artik_coap_send a p s))"

definition artik_handle_request ::
  "coap_library \<Rightarrow> coap_server_resource list \<Rightarrow> request_options \<Rightarrow> coap_queue_t \<Rightarrow> coap_context_t \<Rightarrow>
    coap_context_t option" where
  "artik_handle_request lib rs opts node s =
     (let packet = q_packet node
      in case find_resource rs (request_key opts) of
        None \<Rightarrow> do {
          (response, s) \<leftarrow> unknown_resource_response lib rs packet opts s;
          send_response (q_session node) response s
        }
      | Some i \<Rightarrow>
          (case method_handler (rs ! i) packet of
             None \<Rightarrow> do {
               (response, s) \<leftarrow> missing_method_response lib rs packet opts s;
               send_response (q_session node) response s
             }
           | Some h \<Rightarrow> do {
               (result, s) \<leftarrow> custom_response lib h i (rs ! i) (q_session node) packet opts s;
               (case result of
                  None \<Rightarrow> Some s
                | Some (response, query) \<Rightarrow> do {
                    s \<leftarrow> (if pk_type response \<noteq> COAP_TYPE_NON \<or> 64 \<le> pk_code response
                          then send_response (q_session node) (Some response) s else Some s);
                    free_query query s
                  })
             }))"

section \<open>Responses and dispatch\<close>

definition artik_coap_send_ack :: "addr \<Rightarrow> coap_packet_t \<Rightarrow> coap_context_t \<Rightarrow> (int \<times> coap_context_t) option" where
  "artik_coap_send_ack a request s =
     (if pk_type request = COAP_TYPE_CON then
        (let (m, s) = ext_call ''malloc'' [] s
         in if m = 0 then Some (-1, s)
            else artik_coap_send a \<lparr>pk_type = COAP_TYPE_ACK, pk_code = 0, pk_mid = pk_mid request, pk_token = []\<rparr> s)
      else Some (-1, s))"

text \<open>The message is written to without a test of the allocation.\<close>

definition artik_coap_send_message_type ::
  "addr \<Rightarrow> coap_packet_t \<Rightarrow> coap_msg_type \<Rightarrow> coap_context_t \<Rightarrow> (int \<times> coap_context_t) option" where
  "artik_coap_send_message_type a request type s =
     (let (m, s) = ext_call ''malloc'' [] s
      in if m = 0 then None
         else artik_coap_send a \<lparr>pk_type = type, pk_code = 0, pk_mid = pk_mid request, pk_token = []\<rparr> s)"

text \<open>The handler of responses belongs to the application.\<close>

definition handle_response :: "coap_queue_t \<Rightarrow> coap_context_t \<Rightarrow> coap_context_t option" where
  "handle_response rcvd s =
     do {
       (r, s) \<leftarrow> artik_coap_send_ack (q_session rcvd) (q_packet rcvd) s;
       s \<leftarrow> cancel_messages (q_session rcvd) (pk_token (q_packet rcvd)) s;
       Some (if c_response_handler s
             then snd (ext_call ''response_handler'' [int (q_session rcvd), q_id rcvd] s) else s)
     }"

definition dispatch_code ::
  "coap_library \<Rightarrow> coap_server_resource list \<Rightarrow> request_options \<Rightarrow> coap_queue_t \<Rightarrow> coap_context_t \<Rightarrow>
    coap_context_t option" where
  "dispatch_code lib rs opts rcvd s =
     (if COAP_MESSAGE_IS_REQUEST (q_packet rcvd) then artik_handle_request lib rs opts rcvd s
      else if COAP_MESSAGE_IS_RESPONSE (q_packet rcvd) then handle_response rcvd s
      else do {
        x \<leftarrow> c_sess s (q_session rcvd);
        (if coap_is_mcast (ss_local x) then Some s
         else map_option snd (artik_coap_send_message_type (q_session rcvd) (q_packet rcvd) COAP_TYPE_RST s))
      })"

definition dispatch_cleanup :: "coap_queue_t option \<Rightarrow> coap_queue_t \<Rightarrow> coap_context_t \<Rightarrow> coap_context_t option" where
  "dispatch_cleanup sent rcvd s = do { s \<leftarrow> artik_coap_delete_node sent s; artik_coap_delete_node (Some rcvd) s }"

text \<open>A successful answer to a notification that was sent resets the failures of the observer.\<close>

definition touch_sent :: "coap_queue_t option \<Rightarrow> coap_packet_t \<Rightarrow> coap_context_t \<Rightarrow> coap_context_t" where
  "touch_sent sent packet s =
     (case sent of
        None \<Rightarrow> s
      | Some q \<Rightarrow>
          if COAP_RESPONSE_CLASS (pk_code packet) = 2
          then artik_coap_touch_observer (q_session q) (pk_token (q_packet q)) s else s)"

definition artik_coap_dispatch ::
  "coap_library \<Rightarrow> coap_server_resource list \<Rightarrow> request_options \<Rightarrow> coap_queue_t \<Rightarrow> bool \<Rightarrow> coap_context_t \<Rightarrow>
    coap_context_t option" where
  "artik_coap_dispatch lib rs opts rcvd unknown_option s =
     (case pk_type (q_packet rcvd) of
        COAP_TYPE_ACK \<Rightarrow>
          if pk_code (q_packet rcvd) = 0 then dispatch_empty_ack rcvd s
          else do {
            let (sent, s) = take_sent (q_session rcvd) (q_id rcvd) s;
            s \<leftarrow> dispatch_code lib rs opts rcvd (touch_sent sent (q_packet rcvd) s);
            dispatch_cleanup sent rcvd s
          }
      | COAP_TYPE_RST \<Rightarrow> dispatch_rst rcvd s
      | COAP_TYPE_NON \<Rightarrow>
          if unknown_option then dispatch_cleanup None rcvd s
          else do { s \<leftarrow> dispatch_code lib rs opts rcvd s; dispatch_cleanup None rcvd s }
      | COAP_TYPE_CON \<Rightarrow>
          if unknown_option then do {
            let (response, s) = artik_coap_new_error_response (q_packet rcvd) (COAP_RESPONSE_CODE 402) s;
            s \<leftarrow> send_response (q_session rcvd) (map_option fst response) s;
            dispatch_cleanup None rcvd s
          }
          else do { s \<leftarrow> dispatch_code lib rs opts rcvd s; dispatch_cleanup None rcvd s })"

text \<open>
  A received datagram.  The parser reports success, an unknown critical option (\<^term>\<open>Some True\<close>) or a
  malformed message.  The node of a malformed message has no session yet.
\<close>

definition coap_handle_message ::
  "coap_library \<Rightarrow> coap_server_resource list \<Rightarrow> addr \<Rightarrow> u8 list \<Rightarrow> coap_context_t \<Rightarrow> (int \<times> coap_context_t) option" where
  "coap_handle_message lib rs a msg s =
     (if length msg < lb_header_len lib \<or> drop_bit 6 (hd msg) AND 3 \<noteq> COAP_DEFAULT_VERSION then Some (-1, s)
      else
        let (m, s) = ext_call ''malloc'' [] s
        in if m = 0 then Some (-1, s)
           else
             let (m, s) = ext_call ''malloc'' [] s
             in if m = 0 then Some (-2, s)
                else
                  case lb_parse lib msg of
                    (None, _) \<Rightarrow> Some (-2, s)
                  | (Some unknown_option, packet, opts) \<Rightarrow> do {
                      let (now, s) = coap_ticks s;
                      s \<leftarrow> coap_session_reference a s;
                      s \<leftarrow> artik_coap_dispatch lib rs opts
                             ((artik_coap_new_node packet)\<lparr>q_t := now, q_session := a\<rparr>) unknown_option s;
                      Some (0, s)
                    })"

section \<open>Notifications\<close>

text \<open>
  \<^verbatim>\<open>coap_resource_set_dirty\<close> with a query marks the observers whose query it is; the comparison reads
  their queries.  The result of the loop: found, marked, and the observers.
\<close>

fun mark_observers ::
  "(addr \<Rightarrow> string option) \<Rightarrow> string \<Rightarrow> bool \<Rightarrow> coap_subscription_t list \<Rightarrow>
    (bool \<times> bool \<times> coap_subscription_t list) option" where
  "mark_observers queries query dirty [] = Some (False, False, [])"
| "mark_observers queries query dirty (obs # subs) =
     do {
       same \<leftarrow> (if sub_query obs = 0 then Some False else map_option (\<lambda>t. t = query) (queries (sub_query obs)));
       (found, marked, subs) \<leftarrow> mark_observers queries query dirty subs;
       let mark = (same \<and> \<not> dirty \<and> \<not> sub_dirty obs);
       Some (same \<or> found, mark \<or> marked, (if mark then obs\<lparr>sub_dirty := True\<rparr> else obs) # subs)
     }"

definition coap_resource_set_dirty ::
  "nat \<Rightarrow> string option \<Rightarrow> coap_server_resource \<Rightarrow> coap_context_t \<Rightarrow>
    (int \<times> coap_server_resource \<times> coap_context_t) option" where
  "coap_resource_set_dirty i query r s =
     (if \<not> r_observable r then Some (0, r, s)
      else case query of
        None \<Rightarrow> Some (1, r\<lparr>r_dirty := True\<rparr>, s)
      | Some q \<Rightarrow> do {
          (found, marked, subs) \<leftarrow> mark_observers (c_queries s) q (r_dirty r) (c_subscribers s ! i);
          Some (if found then 1 else 0, if marked then r\<lparr>r_partiallydirty := True\<rparr> else r, put_subs i subs s)
        })"

definition coap_new_message_id :: "addr \<Rightarrow> coap_context_t \<Rightarrow> (u16 \<times> coap_context_t) option" where
  "coap_new_message_id a s =
     do {
       x \<leftarrow> c_sess s a;
       let mid = ss_tx_mid x + 1;
       Some (ntohs mid, put_sess a (x\<lparr>ss_tx_mid := mid\<rparr>) s)
     }"

text \<open>
  A notification is confirmable when the resource asks for it, and otherwise after every five that
  are not.  The count has four bits.
\<close>

definition notification_type :: "bool \<Rightarrow> coap_subscription_t \<Rightarrow> coap_msg_type" where
  "notification_type notify_con obs =
     (if \<not> notify_con \<and> sub_non_cnt obs < COAP_OBS_MAX_NON then COAP_TYPE_NON else COAP_TYPE_CON)"

definition count_notification :: "coap_msg_type \<Rightarrow> coap_subscription_t \<Rightarrow> coap_subscription_t" where
  "count_notification type obs =
     obs\<lparr>sub_non_cnt := (if type = COAP_TYPE_CON then 0 else (sub_non_cnt obs + 1) mod 16)\<rparr>"

definition put_sub :: "nat \<Rightarrow> nat \<Rightarrow> coap_subscription_t \<Rightarrow> coap_context_t \<Rightarrow> coap_context_t" where
  "put_sub i j obs s = put_subs i ((c_subscribers s ! i)[j := obs]) s"

text \<open>One observer is notified; the result says whether the resource stays partially dirty.\<close>

definition notify_observer ::
  "coap_method_handler_t \<Rightarrow> bool \<Rightarrow> nat \<Rightarrow> nat \<Rightarrow> coap_context_t \<Rightarrow> (bool \<times> coap_context_t) option" where
  "notify_observer h notify_con i j s =
     do {
       let obs = c_subscribers s ! i ! j;
       (mid, s) \<leftarrow> coap_new_message_id (sub_session obs) s;
       let response = h (sub_session obs) None (sub_token obs) (sub_query obs)
         \<lparr>pk_type = notification_type notify_con obs, pk_code = 0, pk_mid = mid, pk_token = sub_token obs\<rparr>;
       let obs = count_notification (pk_type response) (obs\<lparr>sub_dirty := False\<rparr>);
       (tid, s) \<leftarrow> artik_coap_send (sub_session obs) response (put_sub i j obs s);
       Some (tid = -1, if tid = -1 then put_sub i j (obs\<lparr>sub_dirty := True\<rparr>) s else s)
     }"

text \<open>
  The loop over the observers; \<open>js\<close> are the positions left.  It stops when there is no memory for a
  message.  The result: whether it got to the end, and whether the resource stays partially dirty.
\<close>

fun notify_from ::
  "coap_method_handler_t option \<Rightarrow> bool \<Rightarrow> bool \<Rightarrow> nat \<Rightarrow> nat list \<Rightarrow> bool \<Rightarrow> coap_context_t \<Rightarrow>
    (bool \<times> bool \<times> coap_context_t) option" where
  "notify_from h notify_con dirty i [] partial s = Some (True, partial, s)"
| "notify_from h notify_con dirty i (j # js) partial s =
     (let obs = c_subscribers s ! i ! j
      in if \<not> dirty \<and> \<not> sub_dirty obs then notify_from h notify_con dirty i js partial s
         else
           let (m, s) = ext_call ''malloc'' [] s
           in if m = 0 then Some (False, True, put_sub i j (obs\<lparr>sub_dirty := True\<rparr>) s)
              else
                (case h of
                   None \<Rightarrow> None
                 | Some f \<Rightarrow> do {
                     (failed, s) \<leftarrow> notify_observer f notify_con i j s;
                     notify_from h notify_con dirty i js (partial \<or> failed) s
                   }))"

definition coap_notify_observers ::
  "nat \<Rightarrow> coap_server_resource \<Rightarrow> coap_context_t \<Rightarrow> (coap_server_resource \<times> coap_context_t) option" where
  "coap_notify_observers i r s =
     (if r_observable r \<and> (r_dirty r \<or> r_partiallydirty r) then do {
        (complete, partial, s) \<leftarrow> notify_from (r_handler r ! 0) (r_notify_con r) (r_dirty r) i
          [0..<length (c_subscribers s ! i)] False s;
        Some (if complete then (r\<lparr>r_partiallydirty := partial, r_dirty := False\<rparr>, s\<lparr>c_observe := c_observe s + 1\<rparr>)
              else (r\<lparr>r_partiallydirty := partial\<rparr>, s))
      }
      else Some (r\<lparr>r_dirty := False\<rparr>, s))"

fun check_notify_from ::
  "nat \<Rightarrow> coap_server_resource list \<Rightarrow> coap_context_t \<Rightarrow> (coap_server_resource list \<times> coap_context_t) option" where
  "check_notify_from i [] s = Some ([], s)"
| "check_notify_from i (r # rs) s =
     do {
       (r, s) \<leftarrow> coap_notify_observers i r s;
       (rs, s) \<leftarrow> check_notify_from (Suc i) rs s;
       Some (r # rs, s)
     }"

definition artik_coap_check_notify ::
  "coap_server_resource list \<Rightarrow> coap_context_t \<Rightarrow> (coap_server_resource list \<times> coap_context_t) option" where
  "artik_coap_check_notify rs s = check_notify_from 0 rs s"


section \<open>What the engine leaves alone\<close>

text \<open>Sessions come and go without a change of the queries, of the allocator and of the oracle.\<close>

definition blocks :: "coap_context_t \<Rightarrow> (addr \<Rightarrow> string option) \<times> addr \<times> (nat \<Rightarrow> int)" where
  "blocks s = (c_queries s, c_next s, result (c_world s))"

lemma blocks_ext: "ext_call f args s = (r, s') \<Longrightarrow> blocks s' = blocks s"
  by (auto simp: blocks_def ext_call_def ext_def call_def Let_def)

lemma blocks_simps [simp]:
  "blocks (put_sess a x s) = blocks s" "blocks (put_subs i subs s) = blocks s"
  "blocks (s\<lparr>c_nacks := l\<rparr>) = blocks s" "blocks (s\<lparr>c_sendqueue := q\<rparr>) = blocks s"
  "blocks (s\<lparr>c_basetime := b\<rparr>) = blocks s" "blocks (s\<lparr>c_sess := z\<rparr>) = blocks s"
  "blocks (s\<lparr>c_subscribers := z'\<rparr>) = blocks s" "blocks (snd (ext_call f args s)) = blocks s"
  using blocks_ext [of f args s "fst (ext_call f args s)" "snd (ext_call f args s)"]
  by (simp_all add: blocks_def put_sess_def put_subs_def)

lemma blocks_nack [simp]: "blocks (nack a r q s) = blocks s"
  by (simp add: nack_def)

lemma blocks_fold_nack [simp]: "blocks (fold (nack a r) qs s) = blocks s"
  by (induction qs arbitrary: s) simp_all

lemma blocks_unlink: "unlink_session a x s = Some s' \<Longrightarrow> blocks s' = blocks s"
  by (auto simp: unlink_session_def blocks_def split: if_splits option.splits)

lemma blocks_free: "coap_session_free a s = Some s' \<Longrightarrow> blocks s' = blocks s"
  by (auto simp: coap_session_free_def Let_def split: if_splits option.splits dest!: blocks_unlink)

lemma blocks_release: "coap_session_release a s = Some s' \<Longrightarrow> blocks s' = blocks s"
  by (auto simp: coap_session_release_def Let_def split: if_splits option.splits dest!: blocks_free)

lemma blocks_reference: "coap_session_reference a s = Some s' \<Longrightarrow> blocks s' = blocks s"
  by (auto simp: coap_session_reference_def split: option.splits)

lemma blocks_ticks: "coap_ticks s = (t, s') \<Longrightarrow> blocks s' = blocks s"
  by (auto simp: coap_ticks_def Let_def split: prod.splits dest: blocks_ext)

lemma blocks_prng: "prng_byte s = (t, s') \<Longrightarrow> blocks s' = blocks s"
  by (auto simp: prng_byte_def split: prod.splits dest: blocks_ext)

lemmas blocks_calls = blocks_ext blocks_ticks blocks_prng

lemma blocks_queue_at [simp]: "blocks (queue_at now t node s) = blocks s"
  by (simp add: queue_at_def Let_def)

lemma blocks_wait_ack: "coap_wait_ack a node s = Some (r, s') \<Longrightarrow> blocks s' = blocks s"
  by (auto simp: coap_wait_ack_def split: Option.bind_splits prod.splits dest!: blocks_reference blocks_ticks)

lemma blocks_delay: "coap_session_delay_packet a packet None s = Some (r, s') \<Longrightarrow> blocks s' = blocks s"
  by (auto simp: coap_session_delay_packet_def Let_def split: Option.bind_splits prod.splits if_splits
      dest!: blocks_calls)

lemma blocks_dtls_send: "coap_dtls_send a n s = Some (r, s') \<Longrightarrow> blocks s' = blocks s"
  by (auto simp: coap_dtls_send_def Let_def split: Option.bind_splits prod.splits if_splits
      dest!: blocks_calls blocks_free)

lemma blocks_session_send: "coap_session_send a n s = Some (r, s') \<Longrightarrow> blocks s' = blocks s"
  by (auto simp: coap_session_send_def Let_def split: Option.bind_splits prod.splits if_splits dest!: blocks_calls)

lemma blocks_send_packet: "coap_send_packet a packet None s = Some (r, s') \<Longrightarrow> blocks s' = blocks s"
  by (auto simp: coap_send_packet_def Let_def split: Option.bind_splits prod.splits if_splits
      dest!: blocks_calls blocks_delay blocks_dtls_send blocks_session_send)

lemma blocks_send: "artik_coap_send a packet s = Some (r, s') \<Longrightarrow> blocks s' = blocks s"
  by (auto simp: artik_coap_send_def Let_def split: Option.bind_splits prod.splits if_splits
      dest!: blocks_calls blocks_send_packet blocks_wait_ack)


lemma blocksD:
  "blocks s' = blocks s \<Longrightarrow> c_queries s' = c_queries s \<and> c_next s' = c_next s \<and> result (c_world s') = result (c_world s)"
  by (simp add: blocks_def)

text \<open>Memory is there as long as one likes.\<close>

definition memory :: "coap_context_t \<Rightarrow> bool" where
  "memory s \<longleftrightarrow> (\<forall>n. result (c_world s) n \<noteq> 0)"

lemma memory_blocks: "blocks s' = blocks s \<Longrightarrow> memory s' = memory s"
  by (simp add: memory_def blocks_def)

lemma memory_ext: "memory s \<Longrightarrow> ext_call f args s = (r, s') \<Longrightarrow> r \<noteq> 0"
  by (auto simp: memory_def ext_call_def ext_def call_def Let_def)

section \<open>Requests keep the counts\<close>

lemma held_put_subs:
  "i < length (c_subscribers s) \<Longrightarrow>
    held (put_subs i subs s) b + s_count (c_subscribers s ! i) b = held s b + s_count subs b"
  using sub_count_update [of i "c_subscribers s" subs b] by (simp add: held_def put_subs_def)

lemma held_frames [simp]:
  "held (s\<lparr>c_queries := q\<rparr>) = held s" "held (s\<lparr>c_next := n\<rparr>) = held s" "held (s\<lparr>c_world := w\<rparr>) = held s"
  "held (s\<lparr>c_observe := k\<rparr>) = held s"
  by (simp_all add: held_def fun_eq_iff)

lemma shape_frames [simp]:
  "keeps_shape s (s'\<lparr>c_queries := q\<rparr>) = keeps_shape s s'" "keeps_shape s (s'\<lparr>c_next := n\<rparr>) = keeps_shape s s'"
  "keeps_shape s (s'\<lparr>c_observe := k\<rparr>) = keeps_shape s s'"
  "keeps_shape (s\<lparr>c_queries := q\<rparr>) s' = keeps_shape s s'" "keeps_shape (s\<lparr>c_next := n\<rparr>) s' = keeps_shape s s'"
  by (simp_all add: keeps_shape_def)

lemma coap_inv_observe [simp]: "coap_inv app (s\<lparr>c_observe := k\<rparr>) = coap_inv app s"
  by (rule coap_inv_cong) simp_all

lemma sub_count_map_first:
  "(\<And>sub. sub_session (f sub) = sub_session sub) \<Longrightarrow> sub_count (map (map_first P f) rs) b = sub_count rs b"
proof (induction rs)
  case (Cons x rs)
  with s_count_map_first [of f P x b] show ?case by (simp add: sub_count_def s_count_def)
qed simp

lemma held_touch [simp]: "held (artik_coap_touch_observer a token s) = held s"
  by (simp add: artik_coap_touch_observer_def held_def sub_count_map_first fun_eq_iff)

lemma touch_frames [simp]:
  "coap_inv app (artik_coap_touch_observer a token s) = coap_inv app s"
  "keeps_shape s (artik_coap_touch_observer a token s') = keeps_shape s s'"
  "blocks (artik_coap_touch_observer a token s) = blocks s"
  "c_sess (artik_coap_touch_observer a token s) = c_sess s"
proof -
  let ?f = "map_first (observes a (Some token)) (\<lambda>sub. sub\<lparr>sub_fail_cnt := 0\<rparr>)"
  have "coap_inv app (s\<lparr>c_subscribers := map ?f (c_subscribers s)\<rparr>)" if "coap_inv app s"
    by (rule coap_inv_subs [OF that]) (simp add: sub_count_map_first)
  moreover have "coap_inv app s" if "coap_inv app (s\<lparr>c_subscribers := map ?f (c_subscribers s)\<rparr>)"
    by (rule coap_inv_held [OF that]) (simp_all add: sub_count_map_first held_def)
  ultimately show "coap_inv app (artik_coap_touch_observer a token s) = coap_inv app s"
    by (auto simp: artik_coap_touch_observer_def)
qed (simp_all add: artik_coap_touch_observer_def keeps_shape_def)

text \<open>A new observer, with memory for it.\<close>

lemma add_observer_new:
  fixes query :: addr and a :: addr and token :: "u8 list"
  assumes inv: "coap_inv app s" and i: "i < length (c_subscribers s)" and app: "0 < app a"
    and small: "held s a + app a < 255" and memory: "memory s"
    and new: "artik_coap_find_observer (c_subscribers s ! i) a (Some token) = None"
  defines "sub \<equiv> \<lparr>sub_session = a, sub_fail_cnt = 0, sub_token = take 8 token, sub_non_cnt = 0, sub_dirty = False, sub_query = query\<rparr>"
  shows "\<exists>s'. artik_coap_add_observer i a token query s = Some (Some sub, s') \<and> coap_inv app s' \<and> keeps_shape s s' \<and>
    blocks s' = blocks s \<and> held s' a = Suc (held s a) \<and> c_subscribers s' = (c_subscribers s)[i := sub # c_subscribers s ! i]"
proof -
  obtain m w where m: "ext_call ''malloc'' [] s = (m, s\<lparr>c_world := w\<rparr>)" by (rule ext_callE)
  with memory have m0: "m \<noteq> 0" by (rule memory_ext)
  have b: "blocks (s\<lparr>c_world := w\<rparr>) = blocks s" using blocks_ext [OF m] .
  from inv app obtain x where x: "c_sess s a = Some x" using coap_inv_alive by fastforce
  let ?t = "put_sess a (x\<lparr>ss_ref := ss_ref x + 1\<rparr>) (s\<lparr>c_world := w\<rparr>)"
  have t: "coap_session_reference a (s\<lparr>c_world := w\<rparr>) = Some ?t" "coap_inv (take_ref a app) ?t"
    using coap_session_reference_ok [of app "s\<lparr>c_world := w\<rparr>" a x] inv x small by simp_all
  have "coap_inv app (put_subs i (sub # c_subscribers s ! i) ?t)"
    by (rule put_subs_inv [OF t(2)]) (use i in \<open>auto simp: take_ref_def sub_def\<close>)
  moreover have "held (put_subs i (sub # c_subscribers s ! i) ?t) a = Suc (held s a)"
    using held_put_subs [of i ?t "sub # c_subscribers s ! i" a] i by (simp add: sub_def)
  moreover have "artik_coap_add_observer i a token query s = Some (Some sub, put_subs i (sub # c_subscribers s ! i) ?t)"
    using m m0 new t(1) by (simp add: artik_coap_add_observer_def Let_def sub_def)
  moreover have "c_subscribers (put_subs i (sub # c_subscribers s ! i) ?t) = (c_subscribers s)[i := sub # c_subscribers s ! i]"
    by (simp add: put_subs_def)
  ultimately show ?thesis using b by simp
qed

lemma delete_observer_kept:
  assumes inv: "coap_inv app s" and i: "i < length (c_subscribers s)"
  shows "\<exists>k s'. artik_coap_delete_observer i a token s = Some (k, s') \<and> coap_inv app s' \<and> keeps_shape s s' \<and>
    blocks s' = blocks s \<and> held s' b \<le> held s b"
proof (cases "artik_coap_find_observer (c_subscribers s ! i) a (Some token)")
  case None
  with inv show ?thesis by (simp add: artik_coap_delete_observer_def)
next
  case (Some sub)
  let ?subs = "drop_first (observes a (Some token)) (c_subscribers s ! i)"
  have f: "find (observes a (Some token)) (c_subscribers s ! i) = Some sub"
    using Some by (simp add: artik_coap_find_observer_def)
  have c: "s_count ?subs b + of_bool (a = b) = s_count (c_subscribers s ! i) b" for b
    using s_count_drop_first [OF f, of b] find_observes [OF f] by simp
  from unsubscribe_ok [OF inv i c] obtain s' where s': "coap_session_release a (put_subs i ?subs s) = Some s'"
    "coap_inv app s'" "keeps (put_subs i ?subs s) s'" by blast
  have "held s' b \<le> held s b"
    using keepsD [OF s'(3)] held_put_subs [OF i, of ?subs b] c [of b] by simp
  with Some s' blocks_release [OF s'(1)] keeps_put_subs [OF s'(3)] show ?thesis
    by (simp add: artik_coap_delete_observer_def)
qed


text \<open>A state that keeps the counts, with room for one more reference to \<open>a\<close>.\<close>

definition kept :: "(addr \<Rightarrow> nat) \<Rightarrow> addr \<Rightarrow> coap_context_t \<Rightarrow> coap_context_t \<Rightarrow> bool" where
  "kept app a s s' \<longleftrightarrow> coap_inv app s' \<and> keeps_shape s s' \<and> held s' a + app a < 255"

lemma kept_simps [simp]:
  "kept app a s (s'\<lparr>c_queries := q\<rparr>) = kept app a s s'" "kept app a (s\<lparr>c_queries := q\<rparr>) s' = kept app a s s'"
  "kept app a (s\<lparr>c_next := n\<rparr>) s' = kept app a s s'" "kept app a s (s'\<lparr>c_world := w\<rparr>) = kept app a s s'"
  "kept app a (s\<lparr>c_world := w\<rparr>) s' = kept app a s s'"
  by (simp_all add: kept_def)

text \<open>Whether the request registers its sender.\<close>

definition registers :: "coap_server_resource \<Rightarrow> request_options \<Rightarrow> bool" where
  "registers r opts \<longleftrightarrow>
     r_observable r \<and> (case rq_observe opts of None \<Rightarrow> False | Some action \<Rightarrow> action AND COAP_OBSERVE_CANCEL = 0)"

definition may_register :: "nat \<Rightarrow> addr \<Rightarrow> u8 list \<Rightarrow> coap_context_t \<Rightarrow> bool" where
  "may_register i a token s \<longleftrightarrow>
     artik_coap_find_observer (c_subscribers s ! i) a (Some token) = None \<and> memory s"

lemma observe_request_ok:
  assumes inv: "coap_inv app s" and i: "i < length (c_subscribers s)" and app: "0 < app a"
    and small: "held s a + app a < 254" and may: "registers r opts \<longrightarrow> may_register i a token s"
  shows "\<exists>s'. observe_request i r a token opts query s = Some (\<not> registers r opts, s') \<and> kept app a s s' \<and> blocks s' = blocks s"
proof (cases "registers r opts")
  case True
  with may add_observer_new [OF inv i app, of token query] small show ?thesis
    by (auto simp: registers_def may_register_def observe_request_def kept_def split: option.splits)
next
  case False
  have stay: "kept app a s s" using inv small by (simp add: kept_def)
  show ?thesis
  proof (cases "r_observable r \<and> rq_observe opts \<noteq> None")
    case True
    with False obtain action where action: "rq_observe opts = Some action" "action AND COAP_OBSERVE_CANCEL \<noteq> 0"
      by (auto simp: registers_def)
    from delete_observer_kept [OF inv i, of a token a] small True action False show ?thesis
      by (fastforce simp: observe_request_def kept_def)
  next
    case False': False
    with False stay show ?thesis by (auto simp: observe_request_def split: option.splits)
  qed
qed

lemma free_query_kept:
  "c_queries s query \<noteq> None \<Longrightarrow> \<exists>q. free_query query s = Some (s\<lparr>c_queries := q\<rparr>)"
  using free_query_ok by blast

lemma handled_response_ok:
  assumes inv: "coap_inv app s" and i: "i < length (c_subscribers s)" and app: "0 < app a"
    and small: "held s a + app a < 254" and may: "registers r opts \<longrightarrow> may_register i a (pk_token packet) s"
    and query: "c_queries s query \<noteq> None"
  shows "\<exists>response q s'. handled_response h i r a packet opts query s = Some (Some (response, q), s') \<and> kept app a s s' \<and>
    (q = 0 \<or> c_queries s' q \<noteq> None)"
proof -
  let ?token = "pk_token packet"
  let ?response = "h a (Some (packet, opts)) ?token query
    \<lparr>pk_type = reply_type packet, pk_code = 0, pk_mid = pk_mid packet, pk_token = ?token\<rparr>"
  from observe_request_ok [OF inv i app small may, of query] obtain s1 where s1:
    "observe_request i r a ?token opts query s = Some (\<not> registers r opts, s1)" "kept app a s s1" "blocks s1 = blocks s"
    by blast
  have q1: "c_queries s1 query \<noteq> None" using query blocksD [OF s1(3)] by simp
  obtain s2 where s2: "(if \<not> registers r opts then free_query query s1 else Some s1) = Some s2" "kept app a s s2"
    "registers r opts \<Longrightarrow> c_queries s2 query \<noteq> None"
    using free_query_kept [OF q1] s1(2) q1 by (cases "registers r opts") auto
  have inv2: "coap_inv app s2" "i < length (c_subscribers s2)" using s2(2) i by (simp_all add: kept_def keeps_shape_def)
  obtain s3 where s3: "(if rq_observe opts \<noteq> None \<and> 2 < COAP_RESPONSE_CLASS (pk_code ?response)
      then map_option snd (artik_coap_delete_observer i a ?token s2) else Some s2) = Some s3" "kept app a s s3"
    "c_queries s3 = c_queries s2"
  proof (cases "rq_observe opts \<noteq> None \<and> 2 < COAP_RESPONSE_CLASS (pk_code ?response)")
    case True
    from delete_observer_kept [OF inv2, of a ?token a] obtain k t where t:
      "artik_coap_delete_observer i a ?token s2 = Some (k, t)" "coap_inv app t" "keeps_shape s2 t" "blocks t = blocks s2"
      "held t a \<le> held s2 a" by blast
    then have "kept app a s t" using s2(2) by (auto simp: kept_def intro: keeps_shape_trans)
    with True t(1) blocksD [OF t(4)] show ?thesis by (intro that [of t]) simp_all
  qed (use s2(2) in \<open>auto intro: that\<close>)
  show ?thesis
    using s1(1) s2 s3 by (simp add: handled_response_def Let_def)
qed

lemma slot_ok_next: "slot_ok n eps k a x \<Longrightarrow> k \<le> k' \<Longrightarrow> slot_ok n eps k' a x"
  by (cases x) auto

lemma coap_inv_blocks:
  assumes "coap_inv app s" "c_next s \<le> n"
  shows "coap_inv app (s\<lparr>c_next := n, c_queries := q, c_world := w\<rparr>)"
  using assms slot_ok_next [of _ "c_endpoints s" "c_next s" _ _ n] by (simp add: coap_inv_def links_ok_def)

text \<open>Only blocks are allocated and freed; the query that is handed out is live.\<close>

definition new_blocks :: "coap_context_t \<Rightarrow> addr option \<Rightarrow> coap_context_t \<Rightarrow> bool" where
  "new_blocks s res s' \<longleftrightarrow>
     s' = s\<lparr>c_next := c_next s', c_queries := c_queries s', c_world := c_world s'\<rparr> \<and>
     c_next s \<le> c_next s' \<and> result (c_world s') = result (c_world s) \<and>
     (res = None \<or> res = Some (c_next s) \<and> c_queries s' (c_next s) \<noteq> None \<and> c_next s' = c_next s + 1) \<and>
     (\<forall>a < c_next s. c_queries s' a = c_queries s a)"

lemma prepare_query_ok: "\<exists>res s'. prepare_query lib opts s = Some (res, s') \<and> new_blocks s res s'"
proof -
  let ?text = "lb_multi_option_as_string lib (rq_uri_query opts)"
  show ?thesis
    by (cases ?text)
      (auto simp: prepare_query_def new_query_def ext_call_def ext_def call_def Let_def free_query_def new_blocks_def
        intro!: coap_context_t.equality)
qed

lemma new_blocks_subs:
  assumes "new_blocks s res s'"
  shows "c_subscribers s' = c_subscribers s"
proof -
  have "s' = s\<lparr>c_next := c_next s', c_queries := c_queries s', c_world := c_world s'\<rparr>"
    using assms by (simp add: new_blocks_def)
  from arg_cong [OF this, of c_subscribers] show ?thesis by simp
qed

lemma prepare_query_memory: "memory s \<Longrightarrow> \<exists>s'. prepare_query lib opts s = Some (Some (c_next s), s')"
  by (cases "lb_multi_option_as_string lib (rq_uri_query opts)")
    (auto simp: prepare_query_def new_query_def ext_call_def ext_def call_def Let_def memory_def)

lemma new_blocks_inv:
  assumes "coap_inv app s" "new_blocks s res s'"
  shows "coap_inv app s'" "held s' = held s" "keeps_shape s s'" "c_subscribers s' = c_subscribers s"
    "memory s' = memory s"
proof -
  obtain n q w where s': "s' = s\<lparr>c_next := n, c_queries := q, c_world := w\<rparr>" "c_next s \<le> n" "result w = result (c_world s)"
    using assms(2) unfolding new_blocks_def by metis
  from coap_inv_blocks [OF assms(1) s'(2)] s' show "coap_inv app s'" "held s' = held s" "keeps_shape s s'"
    "c_subscribers s' = c_subscribers s" "memory s' = memory s"
    by (simp_all add: memory_def)
qed

lemma custom_response_ok:
  assumes inv: "coap_inv app s" and i: "i < length (c_subscribers s)" and app: "0 < app a"
    and small: "held s a + app a < 254"
    and may: "length (pk_token packet) \<le> 8 \<and> registers r opts \<longrightarrow> may_register i a (pk_token packet) s"
  shows "\<exists>result s'. custom_response lib h i r a packet opts s = Some (result, s') \<and> kept app a s s' \<and>
    (\<forall>response q. result = Some (response, q) \<longrightarrow> q = 0 \<or> c_queries s' q \<noteq> None)"
proof -
  from prepare_query_ok obtain res s1 where s1: "prepare_query lib opts s = Some (res, s1)" "new_blocks s res s1"
    by blast
  note f = new_blocks_inv [OF inv s1(2)]
  have kept1: "kept app a s s1" using f small by (simp add: kept_def)
  show ?thesis
  proof (cases "res \<noteq> None \<and> length (pk_token packet) \<le> 8")
    case True
    then obtain query where query: "res = Some query" "c_queries s1 query \<noteq> None"
      using s1(2) by (auto simp: new_blocks_def)
    have "registers r opts \<longrightarrow> may_register i a (pk_token packet) s1"
      using may True f(4,5) by (simp add: may_register_def)
    from handled_response_ok [OF f(1) _ app _ this query(2), of h] i small f(2,4)
    obtain response q s' where h: "handled_response h i r a packet opts query s1 = Some (Some (response, q), s')"
      "kept app a s1 s'" "q = 0 \<or> c_queries s' q \<noteq> None" by auto
    from h(2) f(3) have "kept app a s s'" by (auto simp: kept_def intro: keeps_shape_trans)
    with True s1(1) query(1) h(1,3) show ?thesis by (simp add: custom_response_def)
  next
    case False
    with s1(1) kept1 show ?thesis by (cases res) (simp_all add: custom_response_def)
  qed
qed


lemma send_response_ok:
  assumes inv: "coap_inv app s" and app: "0 < app a" and small: "held s a + app a < 255"
  shows "\<exists>s'. send_response a response s = Some s' \<and> coap_inv app s' \<and> keeps_shape s s' \<and> blocks s' = blocks s"
proof (cases response)
  case None
  with inv show ?thesis by (simp add: send_response_def)
next
  case (Some p)
  from artik_coap_send_ok [OF inv, of a p] app small obtain r s' where s': "artik_coap_send a p s = Some (r, s')"
    "coap_inv app s'" "keeps_subs s s'" by auto
  with Some blocks_send [OF s'(1)] keeps_shapeI(2) [OF s'(3)] show ?thesis by (simp add: send_response_def)
qed

lemma error_response_calls:
  "\<exists>r w. artik_coap_new_error_response packet code s = (r, s\<lparr>c_world := w\<rparr>)"
proof -
  obtain m w where "ext_call ''malloc'' [] s = (m, s\<lparr>c_world := w\<rparr>)" by (rule ext_callE)
  then have "snd (artik_coap_new_error_response packet code s) = s\<lparr>c_world := w\<rparr>"
    by (simp add: artik_coap_new_error_response_def)
  then show ?thesis by (metis prod.collapse)
qed

text \<open>
  What a request has to meet: it is not a second registration of an observer, a first one has the
  memory it needs, and the list of resources can be printed when it is asked for.
\<close>

definition wellknown_ok :: "coap_library \<Rightarrow> coap_server_resource list \<Rightarrow> request_options \<Rightarrow> coap_packet_t \<Rightarrow> bool" where
  "wellknown_ok lib rs opts packet \<longleftrightarrow>
     (pk_code packet = COAP_GET \<and> is_wkc (request_key opts) \<longrightarrow> wellknown_response lib rs packet opts \<noteq> None)"

definition request_ok ::
  "coap_library \<Rightarrow> coap_server_resource list \<Rightarrow> request_options \<Rightarrow> addr \<Rightarrow> coap_packet_t \<Rightarrow> coap_context_t \<Rightarrow> bool" where
  "request_ok lib rs opts a packet s \<longleftrightarrow>
     length rs = length (c_subscribers s) \<and>
     (case find_resource rs (request_key opts) of
        None \<Rightarrow> wellknown_ok lib rs opts packet
      | Some i \<Rightarrow>
          if method_handler (rs ! i) packet = None then wellknown_ok lib rs opts packet
          else length (pk_token packet) \<le> 8 \<and> registers (rs ! i) opts \<longrightarrow> may_register i a (pk_token packet) s)"

lemma default_responses_ok:
  assumes "wellknown_ok lib rs opts packet"
  shows "\<exists>r w. unknown_resource_response lib rs packet opts s = Some (r, s\<lparr>c_world := w\<rparr>)"
    and "\<exists>r w. missing_method_response lib rs packet opts s = Some (r, s\<lparr>c_world := w\<rparr>)"
proof -
  obtain r w where r: "artik_coap_new_error_response packet (COAP_RESPONSE_CODE 405) s = (r, s\<lparr>c_world := w\<rparr>)"
    using error_response_calls by blast
  obtain r' w' where r': "artik_coap_new_error_response packet (COAP_RESPONSE_CODE 404) s = (r', s\<lparr>c_world := w'\<rparr>)"
    using error_response_calls by blast
  show "\<exists>r w. unknown_resource_response lib rs packet opts s = Some (r, s\<lparr>c_world := w\<rparr>)"
  proof (cases "pk_code packet = COAP_GET \<and> is_wkc (request_key opts)")
    case True
    with assms obtain y where "wellknown_response lib rs packet opts = Some y" by (auto simp: wellknown_ok_def)
    with True have "unknown_resource_response lib rs packet opts s = Some (y, s\<lparr>c_world := c_world s\<rparr>)"
      by (simp add: unknown_resource_response_def)
    then show ?thesis by blast
  next
    case False
    let ?wkc = "is_wkc (request_key opts)"
    from False r r' have "unknown_resource_response lib rs packet opts s =
        Some (map_option fst (if ?wkc then r else r'), s\<lparr>c_world := if ?wkc then w else w'\<rparr>)"
      by (cases ?wkc) (simp_all add: unknown_resource_response_def)
    then show ?thesis by blast
  qed
  show "\<exists>r w. missing_method_response lib rs packet opts s = Some (r, s\<lparr>c_world := w\<rparr>)"
  proof (cases "pk_code packet = COAP_GET \<and> is_wkc (request_key opts)")
    case True
    with assms obtain y where "wellknown_response lib rs packet opts = Some y" by (auto simp: wellknown_ok_def)
    with True have "missing_method_response lib rs packet opts s = Some (y, s\<lparr>c_world := c_world s\<rparr>)"
      by (simp add: missing_method_response_def)
    then show ?thesis by blast
  next
    case False
    with r have "missing_method_response lib rs packet opts s = Some (map_option fst r, s\<lparr>c_world := w\<rparr>)"
      by (simp only: missing_method_response_def if_False Let_def split_conv prod.case)
    then show ?thesis by blast
  qed
qed

lemma find_resource_bound: "find_resource rs k = Some i \<Longrightarrow> i < length rs \<and> r_key (rs ! i) = k"
  by (auto simp: find_resource_def find_Some_iff)

lemma artik_handle_request_ok:
  assumes inv: "coap_inv app s" and app: "0 < app (q_session node)"
    and small: "held s (q_session node) + app (q_session node) < 254"
    and ok: "request_ok lib rs opts (q_session node) (q_packet node) s"
  shows "\<exists>s'. artik_handle_request lib rs opts node s = Some s' \<and> coap_inv app s' \<and> keeps_shape s s'"
proof -
  let ?a = "q_session node" and ?p = "q_packet node"
  have small': "held (s\<lparr>c_world := w\<rparr>) ?a + app ?a < 255" for w using small by simp
  have send: "\<exists>t. send_response ?a r (s\<lparr>c_world := w\<rparr>) = Some t \<and> coap_inv app t \<and> keeps_shape s t" for r w
    using send_response_ok [of app "s\<lparr>c_world := w\<rparr>" ?a r] inv app small' by auto
  show ?thesis
  proof (cases "find_resource rs (request_key opts)")
    case None
    with ok have "wellknown_ok lib rs opts ?p" by (simp add: request_ok_def)
    from default_responses_ok(1) [OF this, of s] obtain r w where
      "unknown_resource_response lib rs ?p opts s = Some (r, s\<lparr>c_world := w\<rparr>)" by blast
    with None send [of r w] show ?thesis by (auto simp: artik_handle_request_def)
  next
    case (Some i)
    show ?thesis
    proof (cases "method_handler (rs ! i) ?p")
      case None
      with ok Some have "wellknown_ok lib rs opts ?p" by (simp add: request_ok_def)
      from default_responses_ok(2) [OF this, of s] obtain r w where
        "missing_method_response lib rs ?p opts s = Some (r, s\<lparr>c_world := w\<rparr>)" by blast
      with None Some send [of r w] show ?thesis by (auto simp: artik_handle_request_def)
    next
      case h: (Some h)
      from ok Some h have may: "i < length (c_subscribers s)"
        "length (pk_token ?p) \<le> 8 \<and> registers (rs ! i) opts \<longrightarrow> may_register i ?a (pk_token ?p) s"
        using find_resource_bound [OF Some] by (auto simp: request_ok_def)
      from custom_response_ok [where lib = lib and h = h, OF inv may(1) app small may(2)] obtain result s1 where s1:
        "custom_response lib h i (rs ! i) ?a ?p opts s = Some (result, s1)" "kept app ?a s s1"
        "\<forall>response q. result = Some (response, q) \<longrightarrow> q = 0 \<or> c_queries s1 q \<noteq> None" by blast
      show ?thesis
      proof (cases result)
        case None
        with Some h s1 show ?thesis by (simp add: artik_handle_request_def kept_def)
      next
        case res: (Some response_query)
        obtain response q where rq: "response_query = (response, q)" by fastforce
        have k: "coap_inv app s1" "held s1 ?a + app ?a < 255" "keeps_shape s s1" using s1(2) by (simp_all add: kept_def)
        from send_response_ok [where response = "Some response", OF k(1) app k(2)] obtain s2 where s2:
          "send_response ?a (Some response) s1 = Some s2" "coap_inv app s2" "keeps_shape s1 s2" "blocks s2 = blocks s1"
          by blast
        obtain s3 where s3: "(if pk_type response \<noteq> COAP_TYPE_NON \<or> 64 \<le> pk_code response
            then send_response ?a (Some response) s1 else Some s1) = Some s3" "coap_inv app s3" "keeps_shape s s3"
          "c_queries s3 = c_queries s1"
          using s2 k blocksD [OF s2(4)] keeps_shape_trans
          by (cases "pk_type response \<noteq> COAP_TYPE_NON \<or> 64 \<le> pk_code response") auto
        from free_query_ok [of q s3] s1(3) res rq s3(4) obtain q' where
          "free_query q s3 = Some (s3\<lparr>c_queries := q'\<rparr>)" by auto
        with Some h s1(1) res rq s3 show ?thesis by (simp add: artik_handle_request_def)
      qed
    qed
  qed
qed


section \<open>Received messages keep the counts\<close>

lemma send_ack_ok:
  assumes inv: "coap_inv app s" and app: "0 < app a" and small: "held s a + app a < 255"
  shows "\<exists>r s'. artik_coap_send_ack a packet s = Some (r, s') \<and> coap_inv app s' \<and> keeps_shape s s'"
proof -
  obtain m w where m: "ext_call ''malloc'' [] s = (m, s\<lparr>c_world := w\<rparr>)" by (rule ext_callE)
  from artik_coap_send_ok [of app "s\<lparr>c_world := w\<rparr>" a] inv app small
  obtain r s' where "artik_coap_send a \<lparr>pk_type = COAP_TYPE_ACK, pk_code = 0, pk_mid = pk_mid packet, pk_token = []\<rparr>
      (s\<lparr>c_world := w\<rparr>) = Some (r, s')" "coap_inv app s'" "keeps_subs (s\<lparr>c_world := w\<rparr>) s'" by fastforce
  moreover from this(3) have "keeps_shape s s'" by (simp add: keeps_subs_def keeps_shape_def)
  ultimately show ?thesis using m inv by (simp add: artik_coap_send_ack_def)
qed

lemma send_message_type_ok:
  assumes inv: "coap_inv app s" and app: "0 < app a" and small: "held s a + app a < 255" and memory: "memory s"
  shows "\<exists>r s'. artik_coap_send_message_type a packet type s = Some (r, s') \<and> coap_inv app s' \<and> keeps_shape s s'"
proof -
  obtain m w where m: "ext_call ''malloc'' [] s = (m, s\<lparr>c_world := w\<rparr>)" by (rule ext_callE)
  with memory have "m \<noteq> 0" by (rule memory_ext)
  from artik_coap_send_ok [of app "s\<lparr>c_world := w\<rparr>" a] inv app small
  obtain r s' where "artik_coap_send a \<lparr>pk_type = type, pk_code = 0, pk_mid = pk_mid packet, pk_token = []\<rparr>
      (s\<lparr>c_world := w\<rparr>) = Some (r, s')" "coap_inv app s'" "keeps_subs (s\<lparr>c_world := w\<rparr>) s'" by fastforce
  moreover from this(3) have "keeps_shape s s'" by (simp add: keeps_subs_def keeps_shape_def)
  ultimately show ?thesis using m \<open>m \<noteq> 0\<close> by (simp add: artik_coap_send_message_type_def)
qed

lemma handle_response_ok:
  assumes inv: "coap_inv app s" and app: "0 < app (q_session rcvd)"
    and small: "held s (q_session rcvd) + app (q_session rcvd) < 255"
  shows "\<exists>s'. handle_response rcvd s = Some s' \<and> coap_inv app s' \<and> keeps_shape s s'"
proof -
  from send_ack_ok [OF inv app small] obtain r s1 where s1:
    "artik_coap_send_ack (q_session rcvd) (q_packet rcvd) s = Some (r, s1)" "coap_inv app s1" "keeps_shape s s1" by blast
  have "0 < held s1 (q_session rcvd) + app (q_session rcvd)" using app by simp
  with s1(2) have "q_session rcvd \<noteq> 0" by (rule coap_inv_referenced)
  from cancel_messages_ok [OF s1(2) this] obtain s2 where s2:
    "cancel_messages (q_session rcvd) (pk_token (q_packet rcvd)) s1 = Some s2" "coap_inv app s2" "keeps_subs s1 s2" by blast
  have shape: "keeps_shape s s2" using s1(3) keeps_shapeI(2) [OF s2(3)] keeps_shape_trans by blast
  obtain m w where "ext_call ''response_handler'' [int (q_session rcvd), q_id rcvd] s2 = (m, s2\<lparr>c_world := w\<rparr>)"
    by (rule ext_callE)
  with s1(1) s2(1,2) shape show ?thesis by (simp add: handle_response_def)
qed

text \<open>What a message has to meet when it is dispatched by its code.\<close>

definition dispatched :: "coap_packet_t \<Rightarrow> bool \<Rightarrow> bool" where
  "dispatched packet unknown_option \<longleftrightarrow>
     (case pk_type packet of
        COAP_TYPE_ACK \<Rightarrow> pk_code packet \<noteq> 0
      | COAP_TYPE_RST \<Rightarrow> False
      | _ \<Rightarrow> \<not> unknown_option)"

definition message_ok ::
  "coap_library \<Rightarrow> coap_server_resource list \<Rightarrow> request_options \<Rightarrow> addr \<Rightarrow> coap_packet_t \<Rightarrow> bool \<Rightarrow> coap_context_t \<Rightarrow> bool" where
  "message_ok lib rs opts a packet unknown_option s \<longleftrightarrow>
     (dispatched packet unknown_option \<longrightarrow>
       (if COAP_MESSAGE_IS_REQUEST packet then request_ok lib rs opts a packet s
        else COAP_MESSAGE_IS_RESPONSE packet \<or> memory s))"

lemma dispatch_code_ok:
  assumes inv: "coap_inv app s" and app: "0 < app (q_session rcvd)"
    and small: "held s (q_session rcvd) + app (q_session rcvd) < 254"
    and ok: "message_ok lib rs opts (q_session rcvd) (q_packet rcvd) unknown s" "dispatched (q_packet rcvd) unknown"
  shows "\<exists>s'. dispatch_code lib rs opts rcvd s = Some s' \<and> coap_inv app s' \<and> keeps_shape s s'"
proof -
  let ?a = "q_session rcvd" and ?p = "q_packet rcvd"
  from inv app obtain x where x: "c_sess s ?a = Some x" using coap_inv_alive by fastforce
  consider "COAP_MESSAGE_IS_REQUEST ?p" | "\<not> COAP_MESSAGE_IS_REQUEST ?p" "COAP_MESSAGE_IS_RESPONSE ?p"
    | "\<not> COAP_MESSAGE_IS_REQUEST ?p" "\<not> COAP_MESSAGE_IS_RESPONSE ?p" "memory s"
    using ok by (auto simp: message_ok_def split: if_splits)
  then show ?thesis
  proof cases
    case 1
    with artik_handle_request_ok [OF inv app small] ok show ?thesis by (simp add: dispatch_code_def message_ok_def)
  next
    case 2
    with handle_response_ok [OF inv app] small show ?thesis by (simp add: dispatch_code_def)
  next
    case 3
    with send_message_type_ok [OF inv app _ 3(3), of "q_packet rcvd" COAP_TYPE_RST] small x inv show ?thesis
      by (auto simp: dispatch_code_def)
  qed
qed

lemma dispatch_cleanup_ok:
  assumes "coap_inv (\<lambda>b. take_ref (q_session rcvd) app b + opt_count sent b) s"
  shows "\<exists>s'. dispatch_cleanup sent rcvd s = Some s' \<and> coap_inv app s' \<and> keeps_shape s s'"
proof -
  from delete_node_ok [OF assms] obtain s1 where s1:
    "artik_coap_delete_node sent s = Some s1" "coap_inv (take_ref (q_session rcvd) app) s1" "keeps s s1" by auto
  from delete_node_ok [OF s1(2) [unfolded take_ref_opt]] obtain s2 where s2:
    "artik_coap_delete_node (Some rcvd) s1 = Some s2" "coap_inv app s2" "keeps s1 s2" by auto
  have "keeps_shape s s2" using keeps_shapeI(1) [OF s1(3)] keeps_shapeI(1) [OF s2(3)] keeps_shape_trans by blast
  with s1 s2 show ?thesis by (simp add: dispatch_cleanup_def)
qed

lemma take_sent_frames:
  assumes "take_sent a i s = (sent, s')"
  shows "held s' b + opt_count sent b = held s b" "c_subscribers s' = c_subscribers s" "blocks s' = blocks s"
proof -
  from assms obtain queue where "artik_coap_remove_from_queue (c_sendqueue s) a i = (sent, queue)"
      "s' = s\<lparr>c_sendqueue := queue\<rparr>"
    by (auto simp: take_sent_def split: prod.splits)
  with q_count_remove [of "c_sendqueue s" a i sent queue b]
  show "held s' b + opt_count sent b = held s b" "c_subscribers s' = c_subscribers s" "blocks s' = blocks s"
    by (simp_all add: held_def)
qed

lemma find_map_first:
  "(\<And>x. P (f x) = P x) \<Longrightarrow> (find P (map_first Q f xs) = None) = (find P xs = None)"
  by (induction xs) auto

lemma touch_sent_frames [simp]:
  "coap_inv app (touch_sent sent packet s) = coap_inv app s"
  "keeps_shape s (touch_sent sent packet s') = keeps_shape s s'"
  "held (touch_sent sent packet s) = held s"
  "blocks (touch_sent sent packet s) = blocks s"
  by (simp_all add: touch_sent_def split: option.split)

lemma find_observer_touch:
  assumes "i < length (c_subscribers s)"
  shows "(artik_coap_find_observer (c_subscribers (touch_sent sent packet s) ! i) a t = None) =
    (artik_coap_find_observer (c_subscribers s ! i) a t = None)"
  using assms find_map_first [of "observes a t" "\<lambda>sub. sub\<lparr>sub_fail_cnt := 0\<rparr>"]
  by (simp add: touch_sent_def artik_coap_touch_observer_def artik_coap_find_observer_def observes_def split: option.split)

lemma message_ok_touch:
  assumes "message_ok lib rs opts a packet unknown s" "c_subscribers s' = c_subscribers s" "blocks s' = blocks s"
  shows "message_ok lib rs opts a packet unknown (touch_sent sent packet s')"
proof -
  have m: "memory (touch_sent sent packet s') = memory s" using assms(3) by (intro memory_blocks) simp
  have l: "length (c_subscribers (touch_sent sent packet s')) = length (c_subscribers s)"
    by (simp add: touch_sent_def artik_coap_touch_observer_def assms(2) split: option.split)
  have "request_ok lib rs opts a packet (touch_sent sent packet s')" if "request_ok lib rs opts a packet s"
    using that find_observer_touch [of _ s' sent packet a] m l assms(2) find_resource_bound [of rs "request_key opts"]
    by (auto simp: request_ok_def may_register_def split: option.splits)
  with assms(1) m show ?thesis by (auto simp: message_ok_def)
qed

lemma artik_coap_dispatch_ok:
  assumes inv: "coap_inv (take_ref (q_session rcvd) app) s"
    and small: "held s (q_session rcvd) + app (q_session rcvd) < 253"
    and ok: "message_ok lib rs opts (q_session rcvd) (q_packet rcvd) unknown s"
  shows "\<exists>s'. artik_coap_dispatch lib rs opts rcvd unknown s = Some s' \<and> coap_inv app s' \<and> keeps_shape s s'"
proof -
  let ?a = "q_session rcvd" and ?p = "q_packet rcvd" and ?app = "take_ref (q_session rcvd) app"
  have app: "0 < ?app ?a" and room: "held s ?a + ?app ?a < 254" using small by (simp_all add: take_ref_def)
  have plain: "\<exists>s'. do { s \<leftarrow> dispatch_code lib rs opts rcvd s; dispatch_cleanup None rcvd s } = Some s' \<and>
      coap_inv app s' \<and> keeps_shape s s'" if "dispatched ?p unknown"
  proof -
    from dispatch_code_ok [OF inv app room ok that] obtain s1 where s1: "dispatch_code lib rs opts rcvd s = Some s1"
      "coap_inv ?app s1" "keeps_shape s s1" by blast
    with dispatch_cleanup_ok [of rcvd app None s1] show ?thesis by (auto intro: keeps_shape_trans)
  qed
  show ?thesis
  proof (cases "pk_type ?p")
    case COAP_TYPE_ACK
    show ?thesis
    proof (cases "pk_code ?p = 0")
      case True
      with COAP_TYPE_ACK dispatch_empty_ack_ok [OF inv] show ?thesis by (simp add: artik_coap_dispatch_def)
    next
      case False
      obtain sent s1 where t: "take_sent ?a (q_id rcvd) s = (sent, s1)" by fastforce
      note f = take_sent_frames [OF t]
      let ?s1 = "touch_sent sent ?p s1" and ?app1 = "\<lambda>b. ?app b + opt_count sent b"
      have d: "dispatched ?p unknown" using COAP_TYPE_ACK False by (simp add: dispatched_def)
      have inv1: "coap_inv ?app1 ?s1" and app1: "0 < ?app1 ?a" and room1: "held ?s1 ?a + ?app1 ?a < 254"
        using take_sent_ok [OF inv t] app room f(1) [of ?a] by simp_all
      have sh: "keeps_shape s ?s1" using take_sent_ok [OF inv t] by simp
      from dispatch_code_ok [OF inv1 app1 room1 message_ok_touch [OF ok f(2,3)] d] obtain s2 where s2:
        "dispatch_code lib rs opts rcvd ?s1 = Some s2" "coap_inv ?app1 s2" "keeps_shape ?s1 s2" by blast
      from dispatch_cleanup_ok [OF s2(2)] obtain s3 where s3: "dispatch_cleanup sent rcvd s2 = Some s3" "coap_inv app s3"
        "keeps_shape s2 s3" by blast
      have "keeps_shape s s3" using sh s2(3) s3(3) keeps_shape_trans by blast
      with COAP_TYPE_ACK False t s2(1) s3 show ?thesis by (simp add: artik_coap_dispatch_def)
    qed
  next
    case COAP_TYPE_RST
    with dispatch_rst_ok [OF inv] show ?thesis by (simp add: artik_coap_dispatch_def)
  next
    case COAP_TYPE_NON
    with plain dispatch_cleanup_ok [of rcvd app None s] inv show ?thesis
      by (cases unknown) (simp_all add: artik_coap_dispatch_def dispatched_def)
  next
    case COAP_TYPE_CON
    obtain r w where r: "artik_coap_new_error_response ?p (COAP_RESPONSE_CODE 402) s = (r, s\<lparr>c_world := w\<rparr>)"
      using error_response_calls by blast
    have "\<exists>s'. send_response ?a (map_option fst r) (s\<lparr>c_world := w\<rparr>) = Some s' \<and> coap_inv ?app s' \<and>
        keeps_shape (s\<lparr>c_world := w\<rparr>) s' \<and> blocks s' = blocks (s\<lparr>c_world := w\<rparr>)"
      by (rule send_response_ok) (use inv app room in simp_all)
    then obtain s1 where s1: "send_response ?a (map_option fst r) (s\<lparr>c_world := w\<rparr>) = Some s1" "coap_inv ?app s1"
      "keeps_shape s s1" by auto
    with dispatch_cleanup_ok [of rcvd app None s1] obtain s2 where
      "dispatch_cleanup None rcvd s1 = Some s2" "coap_inv app s2" "keeps_shape s s2" by (auto intro: keeps_shape_trans)
    with COAP_TYPE_CON r s1(1) plain show ?thesis
      by (cases unknown) (simp_all add: artik_coap_dispatch_def dispatched_def)
  qed
qed


lemma message_ok_same:
  "message_ok lib rs opts a packet unknown s \<Longrightarrow> c_subscribers s' = c_subscribers s \<Longrightarrow> blocks s' = blocks s \<Longrightarrow>
    message_ok lib rs opts a packet unknown s'"
  using message_ok_touch [of lib rs opts a packet unknown s s' None] by (simp add: touch_sent_def)

definition received_ok ::
  "coap_library \<Rightarrow> coap_server_resource list \<Rightarrow> addr \<Rightarrow> u8 list \<Rightarrow> coap_context_t \<Rightarrow> bool" where
  "received_ok lib rs a msg s \<longleftrightarrow>
     (case lb_parse lib msg of
        (None, _) \<Rightarrow> True
      | (Some unknown_option, packet, opts) \<Rightarrow> message_ok lib rs opts a packet unknown_option s)"

lemma coap_handle_message_ok:
  assumes inv: "coap_inv app s" and alive: "c_sess s a \<noteq> None" and small: "held s a + app a < 253"
    and ok: "received_ok lib rs a msg s"
  shows "\<exists>r s'. coap_handle_message lib rs a msg s = Some (r, s') \<and> coap_inv app s' \<and> keeps_shape s s'"
proof -
  obtain m w where m: "ext_call ''malloc'' [] s = (m, s\<lparr>c_world := w\<rparr>)" by (rule ext_callE)
  obtain m1 w1 where m1: "ext_call ''malloc'' [] (s\<lparr>c_world := w\<rparr>) = (m1, s\<lparr>c_world := w\<rparr>\<lparr>c_world := w1\<rparr>)"
    by (rule ext_callE)
  obtain now w2 where t: "coap_ticks (s\<lparr>c_world := w1\<rparr>) = (now, s\<lparr>c_world := w1\<rparr>\<lparr>c_world := w2\<rparr>)" by (rule coap_ticksE)
  have b: "blocks (s\<lparr>c_world := w2\<rparr>) = blocks s"
    using blocks_ext [OF m] blocks_ext [OF m1] blocks_ticks [OF t] by simp
  show ?thesis
  proof (cases "(length msg < lb_header_len lib \<or> drop_bit 6 (hd msg) AND 3 \<noteq> COAP_DEFAULT_VERSION) \<or> m = 0 \<or> m1 = 0 \<or>
      fst (lb_parse lib msg) = None")
    case True
    with m m1 inv show ?thesis by (auto simp: coap_handle_message_def Let_def split: prod.splits)
  next
    case False
    then obtain unknown packet opts where p: "lb_parse lib msg = (Some unknown, packet, opts)"
      by (metis not_None_eq prod.collapse)
    from alive obtain x where x: "c_sess s a = Some x" by auto
    let ?s = "put_sess a (x\<lparr>ss_ref := ss_ref x + 1\<rparr>) (s\<lparr>c_world := w2\<rparr>)"
    let ?n = "(artik_coap_new_node packet)\<lparr>q_t := now, q_session := a\<rparr>"
    have r: "coap_session_reference a (s\<lparr>c_world := w2\<rparr>) = Some ?s" "coap_inv (take_ref a app) ?s"
      using coap_session_reference_ok [of app "s\<lparr>c_world := w2\<rparr>" a x] inv x small by simp_all
    have n: "q_session ?n = a" "q_packet ?n = packet" by (simp_all add: artik_coap_new_node_def)
    have "message_ok lib rs opts a packet unknown ?s"
      by (rule message_ok_same [where s = s]) (use ok p b in \<open>simp_all add: received_ok_def\<close>)
    with artik_coap_dispatch_ok [of ?n app ?s lib rs opts unknown] r(2) small n
    obtain s' where s': "artik_coap_dispatch lib rs opts ?n unknown ?s = Some s'" "coap_inv app s'" "keeps_shape ?s s'"
      by auto
    with False m m1 t p r(1) show ?thesis by (auto simp: coap_handle_message_def Let_def)
  qed
qed

section \<open>Notifications keep the counts\<close>

lemma held_wait_ack_all:
  assumes "coap_wait_ack a node s = Some (r, s')"
  shows "held s' b = held s b + of_bool (a = b)"
proof -
  have h: "held (queue_at now t (n\<lparr>q_session := a\<rparr>) (s0\<lparr>c_world := w\<rparr>)) b = held s0 b + of_bool (a = b)" for now t n s0 w
    by (simp add: queue_at_def Let_def held_def)
  from assms obtain s0 now where "coap_session_reference a s = Some s0" "\<exists>w. coap_ticks s0 = (now, s0\<lparr>c_world := w\<rparr>) \<and>
      s' = queue_at now (q_timeout node) (node\<lparr>q_session := a\<rparr>) (s0\<lparr>c_world := w\<rparr>)"
    using coap_ticksE by (auto simp: coap_wait_ack_def split: Option.bind_splits prod.splits) (metis prod.inject)
  moreover from this(1) have "held s0 b = held s b"
    by (auto simp: coap_session_reference_def split: option.splits)
  ultimately show ?thesis using h by auto
qed

lemma held_ext: "ext_call f args s = (r, s') \<Longrightarrow> held s' = held s"
  by (auto simp: ext_call_def split: prod.splits)

lemma held_prng: "prng_byte s = (t, s') \<Longrightarrow> held s' = held s"
  by (auto simp: prng_byte_def split: prod.splits dest: held_ext)

lemma held_send:
  assumes inv: "coap_inv app s" and ref: "0 < held s a + app a" and send: "artik_coap_send a packet s = Some (r, s')"
  shows "held s' b \<le> held s b + of_bool (a = b)"
proof -
  from coap_send_packet_ok [OF inv ref, of None packet] obtain n s1 where s1:
    "coap_send_packet a packet None s = Some (n, s1)" "keeps s s1" by auto
  have "held s1 = held s" using keepsD [OF s1(2)] .
  with send s1(1) show ?thesis
    by (auto simp: artik_coap_send_def Let_def split: prod.splits if_splits 
        dest!: held_ext held_prng held_wait_ack_all [where b = b])
qed


text \<open>Who observes which resource.\<close>

definition watchers :: "coap_context_t \<Rightarrow> addr list list" where
  "watchers s = map (map sub_session) (c_subscribers s)"

lemma s_count_watchers: "s_count subs b = count_list (map sub_session subs) b"
  by (induction subs) auto

lemma watchers_row:
  "watchers s' = watchers s \<Longrightarrow> i < length (c_subscribers s) \<Longrightarrow>
    map sub_session (c_subscribers s' ! i) = map sub_session (c_subscribers s ! i) \<and>
    length (c_subscribers s' ! i) = length (c_subscribers s ! i) \<and> length (c_subscribers s') = length (c_subscribers s)"
  by (metis length_map nth_map watchers_def)

lemma watchers_subs: "c_subscribers s' = c_subscribers s \<Longrightarrow> watchers s' = watchers s"
  by (simp add: watchers_def)

lemma put_sub_frames:
  assumes "i < length (c_subscribers s)" "j < length (c_subscribers s ! i)"
    and "sub_session obs = sub_session (c_subscribers s ! i ! j)"
  shows "watchers (put_sub i j obs s) = watchers s" "held (put_sub i j obs s) = held s"
    "coap_inv app s \<Longrightarrow> coap_inv app (put_sub i j obs s)" "keeps_shape s (put_sub i j obs s)"
proof -
  let ?subs = "(c_subscribers s ! i)[j := obs]"
  have m: "map sub_session ?subs = map sub_session (c_subscribers s ! i)"
    using assms(2,3) by (simp add: map_update list_update_same_conv)
  have c: "s_count ?subs b = s_count (c_subscribers s ! i) b" for b
    by (simp only: s_count_watchers m)
  show "watchers (put_sub i j obs s) = watchers s"
    using assms(1) m by (simp add: watchers_def put_sub_def put_subs_def map_update list_update_same_conv)
  show "held (put_sub i j obs s) = held s"
    using held_put_subs [OF assms(1), of ?subs] c by (simp add: put_sub_def fun_eq_iff)
  show "coap_inv app (put_sub i j obs s)" if "coap_inv app s"
    unfolding put_sub_def by (rule put_subs_inv [OF that assms(1)]) (simp add: c)
  show "keeps_shape s (put_sub i j obs s)" by (simp add: put_sub_def)
qed

text \<open>What a notification of an observer of \<open>a\<close> changes.\<close>

definition notified :: "(addr \<Rightarrow> nat) \<Rightarrow> (addr \<Rightarrow> nat) \<Rightarrow> coap_context_t \<Rightarrow> coap_context_t \<Rightarrow> bool" where
  "notified app k s s' \<longleftrightarrow>
     coap_inv app s' \<and> keeps_shape s s' \<and> watchers s' = watchers s \<and> (\<forall>b. held s' b \<le> held s b + k b)"

lemma notified_trans:
  assumes "notified app k s s'" "notified app k' s' s''"
  shows "notified app (\<lambda>b. k b + k' b) s s''"
proof -
  have "held s'' b \<le> held s b + (k b + k' b)" for b
  proof -
    have "held s' b \<le> held s b + k b" "held s'' b \<le> held s' b + k' b" using assms by (simp_all add: notified_def)
    then show ?thesis by linarith
  qed
  with assms show ?thesis by (auto simp: notified_def intro: keeps_shape_trans)
qed

lemma notified_mono:
  assumes "notified app k s s'" "\<And>b. k b \<le> k' b"
  shows "notified app k' s s'"
proof -
  have "held s' b \<le> held s b + k' b" for b
  proof -
    have "held s' b \<le> held s b + k b" using assms(1) by (simp add: notified_def)
    with assms(2) [of b] show ?thesis by linarith
  qed
  with assms(1) show ?thesis by (simp add: notified_def)
qed

lemma notified_put_sub:
  assumes "notified app k s s'" "i < length (c_subscribers s)" "j < length (c_subscribers s ! i)"
    and "sub_session obs = sub_session (c_subscribers s ! i ! j)"
  shows "notified app k s (put_sub i j obs s')"
proof -
  note r = watchers_row [of s' s i]
  have w: "watchers s' = watchers s" using assms(1) by (simp add: notified_def)
  have "sub_session obs = sub_session (c_subscribers s' ! i ! j)"
    using r [OF w assms(2)] assms(3,4) by (metis nth_map)
  with put_sub_frames [of i s' j obs] r [OF w assms(2)] assms w show ?thesis
    by (auto simp: notified_def put_sub_def intro: keeps_shape_trans)
qed

lemma count_notification_session [simp]: "sub_session (count_notification type obs) = sub_session obs"
  by (simp add: count_notification_def)

text \<open>The counts of the observers of a resource; a handler that leaves the type of a message alone.\<close>

definition non_counts :: "nat \<Rightarrow> coap_context_t \<Rightarrow> nat list" where
  "non_counts i s = map sub_non_cnt (c_subscribers s ! i)"

definition keeps_type :: "coap_method_handler_t \<Rightarrow> bool" where
  "keeps_type h \<longleftrightarrow> (\<forall>a token query p. pk_type (h a None token query p) = pk_type p)"

definition next_count :: "bool \<Rightarrow> nat \<Rightarrow> nat" where
  "next_count notify_con n = (if \<not> notify_con \<and> n < COAP_OBS_MAX_NON then n + 1 else 0)"

lemma count_notification_next:
  "sub_non_cnt (count_notification (notification_type notify_con obs) (obs\<lparr>sub_dirty := d\<rparr>)) = next_count notify_con (sub_non_cnt obs)"
  by (simp add: count_notification_def notification_type_def next_count_def COAP_OBS_MAX_NON_def)

lemma notify_observer_ok:
  assumes inv: "coap_inv app s" and i: "i < length (c_subscribers s)" and j: "j < length (c_subscribers s ! i)"
  defines "a \<equiv> sub_session (c_subscribers s ! i ! j)"
  assumes small: "held s a + app a < 255"
  shows "\<exists>failed s'. notify_observer h notify_con i j s = Some (failed, s') \<and> notified app (\<lambda>b. of_bool (a = b)) s s' \<and>
    blocks s' = blocks s \<and>
    (keeps_type h \<longrightarrow> non_counts i s' = (non_counts i s)[j := next_count notify_con (non_counts i s ! j)])"
proof -
  have "0 < s_count (c_subscribers s ! i) a"
    using nth_mem [OF j] by (auto simp: s_count_def a_def filter_empty_conv)
  then have ref: "0 < held s a + app a"
    using sub_count_update [OF i, of "[]" a] by (simp add: held_def)
  from inv ref obtain x where x: "c_sess s a = Some x" by (rule coap_inv_referenced)
  let ?mid = "ss_tx_mid x + 1"
  let ?s1 = "put_sess a (x\<lparr>ss_tx_mid := ?mid\<rparr>) s"
  have inv1: "coap_inv app ?s1"
    by (rule coap_inv_put [OF inv x]) (use coap_inv_Some [OF inv x] in \<open>simp_all add: sess_ok_def\<close>)
  let ?obs = "c_subscribers s ! i ! j"
  let ?r = "h a None (sub_token ?obs) (sub_query ?obs)
    \<lparr>pk_type = notification_type notify_con ?obs, pk_code = 0, pk_mid = ntohs ?mid, pk_token = sub_token ?obs\<rparr>"
  let ?obs1 = "count_notification (pk_type ?r) (?obs\<lparr>sub_dirty := False\<rparr>)"
  have o1: "sub_session ?obs1 = sub_session ?obs" by (simp add: count_notification_def)
  let ?s2 = "put_sub i j ?obs1 ?s1"
  have f: "watchers ?s2 = watchers s" "held ?s2 = held s" "coap_inv app ?s2" "keeps_shape s ?s2"
    using put_sub_frames [of i ?s1 j ?obs1] i j o1 inv1 by (simp_all add: watchers_def)
  have small2: "held ?s2 a + app a < 255" and ref2: "0 < held ?s2 a + app a" using f(2) small ref by simp_all
  from artik_coap_send_ok [OF f(3) ref2 small2] obtain tid s3 where s3:
    "artik_coap_send a ?r ?s2 = Some (tid, s3)" "coap_inv app s3" "keeps_subs ?s2 s3" by blast
  have n3: "notified app (\<lambda>b. of_bool (a = b)) s s3"
    using s3(2) keeps_shape_trans [OF f(4) keeps_shapeI(2) [OF s3(3)]] f(1,2) s3(3)
      held_send [OF f(3) ref2 s3(1)] watchers_subs [of s3 ?s2]
    by (simp add: notified_def keeps_subs_def)
  have eval: "notify_observer h notify_con i j s =
      Some (tid = -1, if tid = -1 then put_sub i j (?obs1\<lparr>sub_dirty := True\<rparr>) s3 else s3)"
    using x s3(1) by (simp add: notify_observer_def coap_new_message_id_def Let_def a_def)
  have c3: "c_subscribers s3 = (c_subscribers s)[i := (c_subscribers s ! i)[j := ?obs1]]"
    using s3(3) by (simp add: keeps_subs_def put_sub_def put_subs_def)
  have "sub_non_cnt ?obs1 = next_count notify_con (non_counts i s ! j)" if "keeps_type h"
  proof -
    have t: "pk_type ?r = notification_type notify_con ?obs" using that by (simp add: keeps_type_def)
    show ?thesis unfolding t using j by (simp add: count_notification_next non_counts_def)
  qed
  then have counts: "non_counts i (if tid = -1 then put_sub i j (?obs1\<lparr>sub_dirty := True\<rparr>) s3 else s3) =
      (non_counts i s)[j := next_count notify_con (non_counts i s ! j)]" if "keeps_type h"
    using that c3 i j by (simp add: non_counts_def put_sub_def put_subs_def map_update)
  have "blocks ?s2 = blocks s" by (simp add: put_sub_def)
  with blocks_send [OF s3(1)] have b3: "blocks s3 = blocks s" by simp
  have "notified app (\<lambda>b. of_bool (a = b)) s (if tid = -1 then put_sub i j (?obs1\<lparr>sub_dirty := True\<rparr>) s3 else s3)"
    using notified_put_sub [OF n3 i j, of "?obs1\<lparr>sub_dirty := True\<rparr>"] o1 n3 by simp
  moreover have "blocks (if tid = -1 then put_sub i j (?obs1\<lparr>sub_dirty := True\<rparr>) s3 else s3) = blocks s"
    using b3 by (simp add: put_sub_def)
  ultimately show ?thesis using eval counts by blast
qed

text \<open>How many of the observers at positions \<open>js\<close> have a session.\<close>

definition pending :: "addr list \<Rightarrow> nat list \<Rightarrow> addr \<Rightarrow> nat" where
  "pending row js b = length (filter (\<lambda>j. row ! j = b) js)"

lemma pending_simps [simp]: "pending row [] b = 0" "pending row (j # js) = (\<lambda>b. of_bool (row ! j = b) + pending row js b)"
  by (simp_all add: pending_def fun_eq_iff)

lemma pending_all: "pending row [0..<length row] b = count_list row b"
proof -
  have "pending row [0..<length row] b = length (filter (\<lambda>x. x = b) (map ((!) row) [0..<length row]))"
    by (simp add: pending_def filter_map comp_def)
  also have "\<dots> = length (filter (\<lambda>x. x = b) row)" by (simp only: map_nth)
  also have "\<dots> = count_list row b" by (induction row) auto
  finally show ?thesis .
qed

lemma notify_from_ok:
  assumes "coap_inv app s" "i < length (c_subscribers s)" "\<forall>j \<in> set js. j < length (c_subscribers s ! i)"
    and "js \<noteq> [] \<longrightarrow> h \<noteq> None"
    and "\<And>b. 0 < pending (watchers s ! i) js b \<Longrightarrow> held s b + app b + pending (watchers s ! i) js b < 256"
  shows "\<exists>complete partial' s'. notify_from h notify_con dirty i js partial s = Some (complete, partial', s') \<and>
    notified app (pending (watchers s ! i) js) s s'"
  using assms
proof (induction js arbitrary: s partial)
  case Nil
  then show ?case by (auto simp: notified_def)
next
  case (Cons j js)
  let ?obs = "c_subscribers s ! i ! j" and ?row = "watchers s ! i"
  have row: "?row ! j = sub_session ?obs" using Cons.prems(2,3) by (simp add: watchers_def)
  from Cons.prems(4) obtain f where f: "h = Some f" by auto
  have later: "held s b + app b + pending ?row js b < 256" if "0 < pending ?row js b" for b
    using Cons.prems(5) [of b] that by simp
  show ?case
  proof (cases "\<not> dirty \<and> \<not> sub_dirty ?obs")
    case True
    from Cons.IH [where partial = partial, OF Cons.prems(1,2) _ _ later] Cons.prems(3) f obtain d p s' where
      "notify_from h notify_con dirty i js partial s = Some (d, p, s')" "notified app (pending ?row js) s s'" by auto
    moreover from this(2) have "notified app (pending ?row (j # js)) s s'" by (rule notified_mono) simp
    ultimately show ?thesis using True by (simp add: Let_def)
  next
    case False
    obtain m w where m: "ext_call ''malloc'' [] s = (m, s\<lparr>c_world := w\<rparr>)" by (rule ext_callE)
    let ?s = "s\<lparr>c_world := w\<rparr>"
    have n0: "notified app (\<lambda>_. 0) s ?s" using Cons.prems(1) by (simp add: notified_def watchers_def)
    show ?thesis
    proof (cases "m = 0")
      case True
      have "notified app (\<lambda>_. 0) s (put_sub i j (?obs\<lparr>sub_dirty := True\<rparr>) ?s)"
        by (rule notified_put_sub [OF n0]) (use Cons.prems(2,3) in simp_all)
      then have "notified app (pending ?row (j # js)) s (put_sub i j (?obs\<lparr>sub_dirty := True\<rparr>) ?s)"
        by (rule notified_mono) simp
      with False m True show ?thesis by (auto simp: Let_def)
    next
      case m0: False
      have small: "held ?s (sub_session ?obs) + app (sub_session ?obs) < 255"
        using Cons.prems(5) [of "sub_session ?obs"] row by simp
      from notify_observer_ok [of app ?s i j f notify_con] Cons.prems(1,2,3) small obtain failed s1 where s1:
        "notify_observer f notify_con i j ?s = Some (failed, s1)" "notified app (\<lambda>b. of_bool (sub_session ?obs = b)) ?s s1"
        by auto
      from notified_trans [OF n0 s1(2)] have n1: "notified app (\<lambda>b. of_bool (sub_session ?obs = b)) s s1" by simp
      then have w1: "watchers s1 = watchers s" by (simp add: notified_def)
      note r = watchers_row [OF w1 Cons.prems(2)]
      have later1: "held s1 b + app b + pending (watchers s1 ! i) js b < 256" if "0 < pending (watchers s1 ! i) js b" for b
      proof -
        have "held s1 b \<le> held s b + of_bool (sub_session ?obs = b)" using n1 by (simp add: notified_def)
        with Cons.prems(5) [of b] that row w1 show ?thesis by simp
      qed
      from Cons.IH [where partial = "partial \<or> failed", OF _ _ _ _ later1] n1 r Cons.prems(2,3) f obtain d p s2 where s2:
        "notify_from h notify_con dirty i js (partial \<or> failed) s1 = Some (d, p, s2)"
        "notified app (pending (watchers s1 ! i) js) s1 s2" by (auto simp: notified_def)
      from notified_trans [OF n1 s2(2)] row w1 have "notified app (pending ?row (j # js)) s s2" by simp
      with False m m0 f s1(1) s2(1) show ?thesis by (auto simp: Let_def)
    qed
  qed
qed


text \<open>An observable resource that is observed needs a handler of GET.\<close>

definition notifiable :: "coap_server_resource \<Rightarrow> bool" where
  "notifiable r \<longleftrightarrow> r_observable r \<longrightarrow> r_handler r ! 0 \<noteq> None"

lemma notified_observe [simp]: "notified app k s (s'\<lparr>c_observe := n\<rparr>) = notified app k s s'"
  by (simp add: notified_def watchers_def)

lemma pending_row:
  assumes "i < length (c_subscribers s)"
  shows "pending (watchers s ! i) [0..<length (c_subscribers s ! i)] b = count_list (watchers s ! i) b"
proof -
  have "length (c_subscribers s ! i) = length (watchers s ! i)" using assms by (simp add: watchers_def)
  then show ?thesis by (simp only: pending_all)
qed

lemma coap_notify_observers_ok:
  assumes inv: "coap_inv app s" and i: "i < length (c_subscribers s)" and r: "notifiable r"
    and small: "\<And>b. 0 < count_list (watchers s ! i) b \<Longrightarrow> held s b + app b + count_list (watchers s ! i) b < 256"
  shows "\<exists>r' s'. coap_notify_observers i r s = Some (r', s') \<and> notified app (count_list (watchers s ! i)) s s'"
proof (cases "r_observable r \<and> (r_dirty r \<or> r_partiallydirty r)")
  case True
  let ?js = "[0..<length (c_subscribers s ! i)]"
  have p: "pending (watchers s ! i) ?js = count_list (watchers s ! i)" using pending_row [OF i] by (rule ext)
  have "\<exists>complete partial' s'. notify_from (r_handler r ! 0) (r_notify_con r) (r_dirty r) i ?js False s =
      Some (complete, partial', s') \<and> notified app (pending (watchers s ! i) ?js) s s'"
    by (rule notify_from_ok [OF inv i]) (use r True small in \<open>simp_all add: p notifiable_def\<close>)
  with p obtain complete partial' s' where "notify_from (r_handler r ! 0) (r_notify_con r) (r_dirty r) i ?js False s =
      Some (complete, partial', s')" "notified app (count_list (watchers s ! i)) s s'" by auto
  with True show ?thesis by (cases complete) (simp_all add: coap_notify_observers_def)
next
  case False
  then have "coap_notify_observers i r s = Some (r\<lparr>r_dirty := False\<rparr>, s)"
    by (simp only: coap_notify_observers_def if_False)
  with inv show ?thesis by (simp add: notified_def)
qed

lemma check_notify_from_ok:
  "coap_inv app s \<Longrightarrow> i + length rs = length (c_subscribers s) \<Longrightarrow> \<forall>r \<in> set rs. notifiable r \<Longrightarrow>
    (\<And>b. 0 < count_list (concat (drop i (watchers s))) b \<Longrightarrow>
      held s b + app b + count_list (concat (drop i (watchers s))) b < 256) \<Longrightarrow>
    \<exists>rs' s'. check_notify_from i rs s = Some (rs', s') \<and> length rs' = length rs \<and>
      notified app (count_list (concat (drop i (watchers s)))) s s'"
proof (induction rs arbitrary: i s)
  case Nil
  then show ?case by (simp add: notified_def)
next
  case (Cons r rs)
  from Cons.prems(2) have i: "i < length (c_subscribers s)" by simp
  let ?row = "watchers s ! i" and ?rest = "concat (drop (Suc i) (watchers s))"
  have split: "concat (drop i (watchers s)) = ?row @ ?rest"
    using i by (simp add: watchers_def flip: Cons_nth_drop_Suc)
  have "held s b + app b + count_list ?row b < 256" if "0 < count_list ?row b" for b
    using Cons.prems(4) [of b] that by (simp add: split)
  from coap_notify_observers_ok [OF Cons.prems(1) i _ this, of r] Cons.prems(3) obtain r' s1 where s1:
    "coap_notify_observers i r s = Some (r', s1)" "notified app (count_list ?row) s s1" by auto
  from s1(2) have w1: "watchers s1 = watchers s" "coap_inv app s1" and h1: "\<And>b. held s1 b \<le> held s b + count_list ?row b"
    by (simp_all add: notified_def)
  have l1: "length (c_subscribers s1) = length (c_subscribers s)" using watchers_row [OF w1(1) i] by simp
  have "held s1 b + app b + count_list ?rest b < 256" if "0 < count_list ?rest b" for b
    using Cons.prems(4) [of b] that h1 [of b] by (simp add: split)
  with Cons.IH [OF w1(2), of "Suc i"] Cons.prems(2,3) w1(1) l1 obtain rs' s2 where s2:
    "check_notify_from (Suc i) rs s1 = Some (rs', s2)" "length rs' = length rs" "notified app (count_list ?rest) s1 s2"
    by auto
  have "count_list (concat (drop i (watchers s))) = (\<lambda>b. count_list ?row b + count_list ?rest b)"
    by (simp add: split fun_eq_iff)
  with notified_trans [OF s1(2) s2(3)] have "notified app (count_list (concat (drop i (watchers s)))) s s2" by simp
  with s1(1) s2(1,2) show ?case by simp
qed

lemma sub_count_watchers: "sub_count rs b = count_list (concat (map (map sub_session) rs)) b"
proof (induction rs)
  case (Cons subs rs)
  have "sub_count (subs # rs) b = s_count subs b + sub_count rs b" by (simp add: sub_count_def s_count_def)
  with Cons show ?case by (simp add: s_count_watchers)
qed (simp add: sub_count_def)

lemma artik_coap_check_notify_ok:
  assumes "coap_inv app s" "length rs = length (c_subscribers s)" "\<forall>r \<in> set rs. notifiable r"
    and "\<And>b. 0 < sub_count (c_subscribers s) b \<Longrightarrow> held s b + app b + sub_count (c_subscribers s) b < 256"
  shows "\<exists>rs' s'. artik_coap_check_notify rs s = Some (rs', s') \<and> length rs' = length rs \<and> coap_inv app s' \<and> keeps_shape s s'"
proof -
  have c: "count_list (concat (watchers s)) = sub_count (c_subscribers s)"
    by (simp add: watchers_def sub_count_watchers fun_eq_iff)
  from check_notify_from_ok [OF assms(1), of 0 rs] assms(2,3,4) obtain rs' s' where
    "check_notify_from 0 rs s = Some (rs', s')" "length rs' = length rs"
    "notified app (sub_count (c_subscribers s)) s s'"
    by (auto simp: c)
  then show ?thesis by (auto simp: artik_coap_check_notify_def notified_def)
qed


section \<open>Registering an observer\<close>

text \<open>
  After a registration the observer points to a query that has been freed: \<^verbatim>\<open>artik_handle_request\<close> frees
  the query at its end although it has given it away.
\<close>

definition stale :: "nat \<Rightarrow> addr \<Rightarrow> u8 list \<Rightarrow> coap_context_t \<Rightarrow> bool" where
  "stale i a token s \<longleftrightarrow>
     i < length (c_subscribers s) \<and>
     (case artik_coap_find_observer (c_subscribers s ! i) a (Some token) of
        None \<Rightarrow> False
      | Some sub \<Rightarrow> sub_query sub \<noteq> 0 \<and> sub_query sub < c_next s \<and> c_queries s (sub_query sub) = None)"

lemma stale_same: "stale i a token s \<Longrightarrow> c_subscribers s' = c_subscribers s \<Longrightarrow> blocks s' = blocks s \<Longrightarrow> stale i a token s'"
  by (auto simp: stale_def dest!: blocksD split: option.splits)

lemma stale_alive:
  assumes "coap_inv app s" "stale i a token s"
  obtains x where "c_sess s a = Some x"
proof -
  from assms(2) obtain sub where sub: "i < length (c_subscribers s)"
    "find (observes a (Some token)) (c_subscribers s ! i) = Some sub"
    by (auto simp: stale_def artik_coap_find_observer_def split: option.splits)
  from sub(2) have "sub \<in> set (c_subscribers s ! i)" by (auto simp: find_Some_iff)
  moreover have "sub_session sub = a" using sub(2) by (rule find_observes)
  ultimately have "0 < s_count (c_subscribers s ! i) a" by (auto simp: s_count_def filter_empty_conv)
  then have "0 < held s a + app a" using sub_count_update [OF sub(1), of "[]" a] by (simp add: held_def)
  from coap_inv_alive [OF assms(1) this] that show ?thesis by blast
qed

text \<open>A request that registers and whose handler does not refuse it.\<close>

definition accepted :: "coap_method_handler_t \<Rightarrow> coap_packet_t \<Rightarrow> request_options \<Rightarrow> bool" where
  "accepted h packet opts \<longleftrightarrow>
     (\<forall>a token query response. COAP_RESPONSE_CLASS (pk_code (h a (Some (packet, opts)) token query response)) \<le> 2)"

definition registration ::
  "coap_library \<Rightarrow> coap_server_resource list \<Rightarrow> nat \<Rightarrow> u8 list \<Rightarrow> coap_packet_t \<Rightarrow> request_options \<Rightarrow> bool" where
  "registration lib rs i token packet opts \<longleftrightarrow>
     COAP_MESSAGE_IS_REQUEST packet \<and> find_resource rs (request_key opts) = Some i \<and>
     (\<exists>h. method_handler (rs ! i) packet = Some h \<and> accepted h packet opts) \<and>
     pk_token packet = token \<and> length token \<le> 8 \<and> registers (rs ! i) opts"

lemma handled_registration:
  assumes inv: "coap_inv app s" and i: "i < length (c_subscribers s)" and app: "0 < app a"
    and small: "held s a + app a < 254" and reg: "registers r opts" and may: "may_register i a (pk_token packet) s"
    and token: "length (pk_token packet) \<le> 8" and h: "accepted h packet opts"
  shows "\<exists>response s' sub. handled_response h i r a packet opts query s = Some (Some (response, query), s') \<and>
    kept app a s s' \<and> blocks s' = blocks s \<and>
    artik_coap_find_observer (c_subscribers s' ! i) a (Some (pk_token packet)) = Some sub \<and> sub_query sub = query"
proof -
  let ?token = "pk_token packet"
  let ?sub = "\<lparr>sub_session = a, sub_fail_cnt = 0, sub_token = take 8 ?token, sub_non_cnt = 0, sub_dirty = False, sub_query = query\<rparr>"
  from add_observer_new [OF inv i app _ _, of ?token query] may small obtain s1 where s1:
    "artik_coap_add_observer i a ?token query s = Some (Some ?sub, s1)" "coap_inv app s1" "keeps_shape s s1"
    "blocks s1 = blocks s" "held s1 a = Suc (held s a)"
    "c_subscribers s1 = (c_subscribers s)[i := ?sub # c_subscribers s ! i]"
    by (auto simp: may_register_def)
  let ?s = "artik_coap_touch_observer a ?token s1"
  have obs: "observe_request i r a ?token opts query s = Some (False, ?s)"
    using s1(1) reg by (auto simp: observe_request_def registers_def split: option.splits)
  have find: "artik_coap_find_observer (c_subscribers ?s ! i) a (Some ?token) = Some ?sub"
    using s1(6) i token
    by (simp add: artik_coap_touch_observer_def artik_coap_find_observer_def observes_def token_match_def)
  have "\<not> 2 < COAP_RESPONSE_CLASS (pk_code (h a (Some (packet, opts)) ?token query p))" for p
    using h by (simp add: accepted_def linorder_not_less)
  with obs obtain response where "handled_response h i r a packet opts query s = Some (Some (response, query), ?s)"
    by (simp add: handled_response_def Let_def)
  moreover have "kept app a s ?s" using s1 small by (simp add: kept_def)
  ultimately show ?thesis using find s1(4)
    by (intro exI [of _ response] exI [of _ ?s] exI [of _ ?sub]) simp
qed

lemma handle_request_registration:
  assumes inv: "coap_inv app s" and app: "0 < app a" and small: "held s a + app a < 254"
    and rs: "length rs = length (c_subscribers s)" and memory: "memory s" and a: "q_session node = a"
    and reg: "registration lib rs i token (q_packet node) opts"
    and new: "artik_coap_find_observer (c_subscribers s ! i) a (Some token) = None"
  shows "\<exists>s'. artik_handle_request lib rs opts node s = Some s' \<and> coap_inv app s' \<and> stale i a token s' \<and> memory s'"
proof -
  let ?p = "q_packet node"
  from reg obtain h where h: "find_resource rs (request_key opts) = Some i" "method_handler (rs ! i) ?p = Some h"
    "accepted h ?p opts" "pk_token ?p = token" "length token \<le> 8" "registers (rs ! i) opts"
    by (auto simp: registration_def)
  have i: "i < length (c_subscribers s)" using find_resource_bound [OF h(1)] rs by simp
  from prepare_query_ok obtain res s1 where s1: "prepare_query lib opts s = Some (res, s1)" "new_blocks s res s1"
    by blast
  have res: "res = Some (c_next s)" using prepare_query_memory [OF memory, of lib opts] s1(1) by auto
  note f = new_blocks_inv [OF inv s1(2)]
  have query: "c_queries s1 (c_next s) \<noteq> None" "c_next s1 = c_next s + 1" "c_next s \<noteq> 0"
    using s1(2) res inv by (auto simp: new_blocks_def coap_inv_def)
  have "may_register i a (pk_token ?p) s1" using new memory f(4,5) h(4) by (simp add: may_register_def)
  from handled_registration [OF f(1) _ app _ h(6) this _ h(3), of "c_next s"] i small f(2,4) h(4,5)
  obtain response s2 sub where s2: "handled_response h i (rs ! i) a ?p opts (c_next s) s1 = Some (Some (response, c_next s), s2)"
    "kept app a s1 s2" "blocks s2 = blocks s1"
    "artik_coap_find_observer (c_subscribers s2 ! i) a (Some token) = Some sub" "sub_query sub = c_next s"
    by auto
  have k: "coap_inv app s2" "held s2 a + app a < 255" using s2(2) by (simp_all add: kept_def)
  obtain s3 where s3: "(if pk_type response \<noteq> COAP_TYPE_NON \<or> 64 \<le> pk_code response
      then send_response a (Some response) s2 else Some s2) = Some s3" "coap_inv app s3" "blocks s3 = blocks s2"
    "c_subscribers s3 = c_subscribers s2"
  proof (cases "pk_type response \<noteq> COAP_TYPE_NON \<or> 64 \<le> pk_code response")
    case True
    from artik_coap_send_ok [OF k(1), of a response] app k(2) obtain r t where
      "artik_coap_send a response s2 = Some (r, t)" "coap_inv app t" "keeps_subs s2 t" by auto
    with True blocks_send [OF this(1)] that [of t] show ?thesis by (simp add: send_response_def keeps_subs_def)
  qed (use k in \<open>auto intro: that\<close>)
  have live: "c_queries s3 (c_next s) \<noteq> None" "c_next s3 = c_next s + 1" "memory s3"
    using blocksD [OF s3(3)] blocksD [OF s2(3)] query f(5) memory memory_blocks [OF s3(3)] memory_blocks [OF s2(3)]
    by simp_all
  let ?t = "s3\<lparr>c_queries := (c_queries s3)(c_next s := None)\<rparr>"
  have "free_query (c_next s) s3 = Some ?t" using live(1) query(3) by (auto simp: free_query_def)
  then have "artik_handle_request lib rs opts node s = Some ?t"
    using h(1,2,4,5) s1(1) res s2(1) s3(1) a
    by (cases "pk_type response \<noteq> COAP_TYPE_NON \<or> 64 \<le> pk_code response")
      (simp_all add: artik_handle_request_def custom_response_def)
  moreover have "i < length (c_subscribers s2)" using s2(2) i f(4) by (simp add: kept_def keeps_shape_def)
  then have "stale i a token ?t" using s2(4,5) s3(4) live(2) query(3) by (simp add: stale_def)
  moreover have "memory ?t" using live(3) by (simp add: memory_def)
  ultimately show ?thesis using s3(2) by simp
qed

lemma release_kept:
  assumes "coap_inv (take_ref a app) s"
  shows "\<exists>s'. coap_session_release a s = Some s' \<and> coap_inv app s' \<and> c_subscribers s' = c_subscribers s \<and> blocks s' = blocks s"
  using coap_session_release_ok [OF assms, of a] blocks_release [of a s]
  by (auto simp: take_ref_def drop_ref_def keeps_def)

text \<open>The datagram of a confirmable registration, and what it does.\<close>

definition registration_message ::
  "coap_library \<Rightarrow> coap_server_resource list \<Rightarrow> nat \<Rightarrow> u8 list \<Rightarrow> u8 list \<Rightarrow> bool" where
  "registration_message lib rs i token msg \<longleftrightarrow>
     lb_header_len lib \<le> length msg \<and> drop_bit 6 (hd msg) AND 3 = COAP_DEFAULT_VERSION \<and>
     (case lb_parse lib msg of
        (Some False, packet, opts) \<Rightarrow> pk_type packet = COAP_TYPE_CON \<and> registration lib rs i token packet opts
      | _ \<Rightarrow> False)"

lemma handle_message_calls:
  assumes "memory s" "registration_message lib rs i token msg" "c_sess s a = Some x"
  shows "\<exists>packet opts now w. pk_type packet = COAP_TYPE_CON \<and> registration lib rs i token packet opts \<and>
    blocks (s\<lparr>c_world := w\<rparr>) = blocks s \<and>
    coap_handle_message lib rs a msg s =
      map_option (Pair 0) (artik_coap_dispatch lib rs opts ((artik_coap_new_node packet)\<lparr>q_t := now, q_session := a\<rparr>) False
        (put_sess a (x\<lparr>ss_ref := ss_ref x + 1\<rparr>) (s\<lparr>c_world := w\<rparr>)))"
proof -
  from assms(2) obtain packet opts where p: "lb_parse lib msg = (Some False, packet, opts)" "pk_type packet = COAP_TYPE_CON"
    "registration lib rs i token packet opts"
    by (auto simp: registration_message_def split: prod.splits option.splits bool.splits)
  obtain m w where m: "ext_call ''malloc'' [] s = (m, s\<lparr>c_world := w\<rparr>)" by (rule ext_callE)
  obtain m1 w1 where m1: "ext_call ''malloc'' [] (s\<lparr>c_world := w\<rparr>) = (m1, s\<lparr>c_world := w\<rparr>\<lparr>c_world := w1\<rparr>)"
    by (rule ext_callE)
  obtain now w2 where t: "coap_ticks (s\<lparr>c_world := w1\<rparr>) = (now, s\<lparr>c_world := w1\<rparr>\<lparr>c_world := w2\<rparr>)" by (rule coap_ticksE)
  have m0: "m \<noteq> 0" "m1 \<noteq> 0"
    using memory_ext [OF _ m] memory_ext [OF _ m1] assms(1) memory_blocks [OF blocks_ext [OF m]] by simp_all
  have b: "blocks (s\<lparr>c_world := w2\<rparr>) = blocks s"
    using blocks_ext [OF m] blocks_ext [OF m1] blocks_ticks [OF t] by simp
  let ?d = "artik_coap_dispatch lib rs opts ((artik_coap_new_node packet)\<lparr>q_t := now, q_session := a\<rparr>) False
    (put_sess a (x\<lparr>ss_ref := ss_ref x + 1\<rparr>) (s\<lparr>c_world := w2\<rparr>))"
  have "coap_handle_message lib rs a msg s = map_option (Pair 0) ?d"
    using assms(2,3) p(1) m m1 m0 t
    by (cases ?d) (simp_all add: coap_handle_message_def registration_message_def coap_session_reference_def)
  with p b show ?thesis by blast
qed

lemma first_registration:
  assumes inv: "coap_inv app s" and x: "c_sess s a = Some x" and small: "held s a + app a < 253" and memory: "memory s"
    and rs: "length rs = length (c_subscribers s)" and msg: "registration_message lib rs i token msg"
    and new: "artik_coap_find_observer (c_subscribers s ! i) a (Some token) = None"
  shows "\<exists>s'. coap_handle_message lib rs a msg s = Some (0, s') \<and> coap_inv app s' \<and> stale i a token s' \<and> memory s'"
proof -
  from handle_message_calls [OF memory msg x] obtain packet opts now w where p: "pk_type packet = COAP_TYPE_CON"
    "registration lib rs i token packet opts" "blocks (s\<lparr>c_world := w\<rparr>) = blocks s"
    "coap_handle_message lib rs a msg s =
      map_option (Pair 0) (artik_coap_dispatch lib rs opts ((artik_coap_new_node packet)\<lparr>q_t := now, q_session := a\<rparr>) False
        (put_sess a (x\<lparr>ss_ref := ss_ref x + 1\<rparr>) (s\<lparr>c_world := w\<rparr>)))" by blast
  let ?n = "(artik_coap_new_node packet)\<lparr>q_t := now, q_session := a\<rparr>" and ?s = "put_sess a (x\<lparr>ss_ref := ss_ref x + 1\<rparr>) (s\<lparr>c_world := w\<rparr>)"
  have n: "q_session ?n = a" "q_packet ?n = packet" by (simp_all add: artik_coap_new_node_def)
  have inv1: "coap_inv (take_ref a app) ?s" using coap_session_reference_ok [of app "s\<lparr>c_world := w\<rparr>" a x] inv x small by simp
  have m1: "memory ?s" using memory memory_blocks [of ?s s] p(3) by simp
  from handle_request_registration [where node = ?n and rs = rs and i = i and token = token and lib = lib and opts = opts,
      OF inv1 _ _ _ m1 n(1)] n(2) p(2) rs new small
  obtain s1 where s1: "artik_handle_request lib rs opts ?n ?s = Some s1" "coap_inv (take_ref a app) s1" "stale i a token s1" "memory s1"
    by (auto simp: take_ref_def)
  from release_kept [OF s1(2)] obtain s2 where s2: "coap_session_release a s1 = Some s2" "coap_inv app s2"
    "c_subscribers s2 = c_subscribers s1" "blocks s2 = blocks s1" by blast
  have "artik_coap_dispatch lib rs opts ?n False ?s = Some s2"
    using p(1,2) n s1(1) s2(1)
    by (simp add: artik_coap_dispatch_def dispatch_code_def registration_def dispatch_cleanup_def artik_coap_delete_node_def)
  with p(4) s2(2) stale_same [OF s1(3) s2(3,4)] memory_blocks [OF s2(4)] s1(4) show ?thesis by simp
qed

lemma second_registration:
  assumes inv: "coap_inv app s" and memory: "memory s" and msg: "registration_message lib rs i token msg"
    and stale: "stale i a token s"
  shows "coap_handle_message lib rs a msg s = None"
proof -
  from inv stale obtain x where x: "c_sess s a = Some x" by (rule stale_alive)
  from handle_message_calls [OF memory msg x] obtain packet opts now w where p: "pk_type packet = COAP_TYPE_CON"
    "registration lib rs i token packet opts" "blocks (s\<lparr>c_world := w\<rparr>) = blocks s"
    "coap_handle_message lib rs a msg s =
      map_option (Pair 0) (artik_coap_dispatch lib rs opts ((artik_coap_new_node packet)\<lparr>q_t := now, q_session := a\<rparr>) False
        (put_sess a (x\<lparr>ss_ref := ss_ref x + 1\<rparr>) (s\<lparr>c_world := w\<rparr>)))" by blast
  let ?n = "(artik_coap_new_node packet)\<lparr>q_t := now, q_session := a\<rparr>" and ?s = "put_sess a (x\<lparr>ss_ref := ss_ref x + 1\<rparr>) (s\<lparr>c_world := w\<rparr>)"
  have n: "q_session ?n = a" "q_packet ?n = packet" by (simp_all add: artik_coap_new_node_def)
  from p(2) obtain h where h: "find_resource rs (request_key opts) = Some i" "method_handler (rs ! i) packet = Some h"
    "pk_token packet = token" "length token \<le> 8" "registers (rs ! i) opts" "COAP_MESSAGE_IS_REQUEST packet"
    by (auto simp: registration_def)
  have m1: "memory ?s" using memory memory_blocks [of ?s s] p(3) by simp
  from prepare_query_memory [OF m1, of lib opts] obtain s1 where s1: "prepare_query lib opts ?s = Some (Some (c_next ?s), s1)"
    by blast
  have nb: "new_blocks ?s (Some (c_next ?s)) s1" using prepare_query_ok [of lib opts ?s] s1 by auto
  then have c1: "c_subscribers s1 = c_subscribers s"
    by (rule new_blocks_subs [THEN trans]) simp
  from stale obtain sub where sub: "artik_coap_find_observer (c_subscribers s ! i) a (Some token) = Some sub"
    "sub_query sub \<noteq> 0" "sub_query sub < c_next s" "c_queries s (sub_query sub) = None"
    by (auto simp: stale_def split: option.splits)
  have "c_queries s1 (sub_query sub) = None"
    using nb sub(3,4) blocksD [OF p(3)] by (simp add: new_blocks_def put_sess_def)
  then have "artik_coap_add_observer i a token (c_next ?s) s1 = None"
    using sub(1,2) c1 by (simp add: artik_coap_add_observer_def free_query_def)
  then have "observe_request i (rs ! i) a token opts (c_next ?s) s1 = None"
    using h(5) by (auto simp: observe_request_def registers_def split: option.splits)
  then have "artik_handle_request lib rs opts ?n ?s = None"
    using h n s1 by (simp add: artik_handle_request_def custom_response_def handled_response_def Let_def)
  with p(1,4) h(6) n show ?thesis by (simp add: artik_coap_dispatch_def dispatch_code_def)
qed


section \<open>Rounds of notifications\<close>

lemma notify_from_counts:
  assumes "coap_inv app s" "i < length (c_subscribers s)" "\<forall>j \<in> set js. j < length (c_subscribers s ! i)" "distinct js"
    and "keeps_type f" "memory s"
    and "\<And>b. 0 < pending (watchers s ! i) js b \<Longrightarrow> held s b + app b + pending (watchers s ! i) js b < 256"
  shows "\<exists>partial' s'. notify_from (Some f) notify_con True i js partial s = Some (True, partial', s') \<and>
    notified app (pending (watchers s ! i) js) s s' \<and> memory s' \<and>
    (\<forall>j < length (c_subscribers s ! i).
       non_counts i s' ! j = (if j \<in> set js then next_count notify_con (non_counts i s ! j) else non_counts i s ! j))"
  using assms
proof (induction js arbitrary: s partial)
  case Nil
  then show ?case by (simp add: notified_def)
next
  case (Cons j js)
  let ?obs = "c_subscribers s ! i ! j" and ?row = "watchers s ! i"
  have row: "?row ! j = sub_session ?obs" using Cons.prems(2,3) by (simp add: watchers_def)
  obtain m w where m: "ext_call ''malloc'' [] s = (m, s\<lparr>c_world := w\<rparr>)" by (rule ext_callE)
  let ?s = "s\<lparr>c_world := w\<rparr>"
  have m0: "m \<noteq> 0" using Cons.prems(6) m by (rule memory_ext)
  have mem: "memory ?s" using Cons.prems(6) memory_blocks [OF blocks_ext [OF m]] by simp
  have n0: "notified app (\<lambda>_. 0) s ?s" using Cons.prems(1) by (simp add: notified_def watchers_def)
  have small: "held ?s (sub_session ?obs) + app (sub_session ?obs) < 255"
    using Cons.prems(7) [of "sub_session ?obs"] row by simp
  from notify_observer_ok [of app ?s i j f notify_con] Cons.prems(1,2,3,5) small obtain failed s1 where s1:
    "notify_observer f notify_con i j ?s = Some (failed, s1)" "notified app (\<lambda>b. of_bool (sub_session ?obs = b)) ?s s1"
    "blocks s1 = blocks ?s" "non_counts i s1 = (non_counts i s)[j := next_count notify_con (non_counts i s ! j)]"
    by (auto simp: non_counts_def)
  from notified_trans [OF n0 s1(2)] have n1: "notified app (\<lambda>b. of_bool (sub_session ?obs = b)) s s1" by simp
  then have w1: "watchers s1 = watchers s" by (simp add: notified_def)
  note r = watchers_row [OF w1 Cons.prems(2)]
  have later1: "held s1 b + app b + pending (watchers s1 ! i) js b < 256" if "0 < pending (watchers s1 ! i) js b" for b
  proof -
    have "held s1 b \<le> held s b + of_bool (sub_session ?obs = b)" using n1 by (simp add: notified_def)
    with Cons.prems(7) [of b] that row w1 show ?thesis by simp
  qed
  have mem1: "memory s1" using memory_blocks [OF s1(3)] mem by simp
  from Cons.IH [where partial = "partial \<or> failed", OF _ _ _ _ Cons.prems(5) mem1 later1] n1 r Cons.prems(2,3,4)
  obtain p s2 where s2:
    "notify_from (Some f) notify_con True i js (partial \<or> failed) s1 = Some (True, p, s2)"
    "notified app (pending (watchers s1 ! i) js) s1 s2" "memory s2"
    "\<forall>j < length (c_subscribers s ! i).
       non_counts i s2 ! j = (if j \<in> set js then next_count notify_con (non_counts i s1 ! j) else non_counts i s1 ! j)"
    by (auto simp: notified_def)
  from notified_trans [OF n1 s2(2)] row w1 have n2: "notified app (pending ?row (j # js)) s s2" by simp
  have "\<forall>k < length (c_subscribers s ! i). non_counts i s2 ! k =
      (if k \<in> set (j # js) then next_count notify_con (non_counts i s ! k) else non_counts i s ! k)"
  proof (intro allI impI)
    fix k
    assume k: "k < length (c_subscribers s ! i)"
    moreover have "length (non_counts i s) = length (c_subscribers s ! i)" by (simp add: non_counts_def)
    ultimately have "non_counts i s1 ! k = (if k = j then next_count notify_con (non_counts i s ! j) else non_counts i s ! k)"
      using s1(4) by (simp add: nth_list_update)
    with s2(4) k Cons.prems(4) show "non_counts i s2 ! k =
        (if k \<in> set (j # js) then next_count notify_con (non_counts i s ! k) else non_counts i s ! k)" by auto
  qed
  with m m0 s1(1) s2(1,3) n2 show ?case by (auto simp: Let_def)
qed

text \<open>Rounds in which the resource has changed and its observers are told.\<close>

definition notify_round :: "nat \<Rightarrow> coap_server_resource \<Rightarrow> coap_context_t \<Rightarrow> (coap_server_resource \<times> coap_context_t) option" where
  "notify_round i r s = do { (n, r, s) \<leftarrow> coap_resource_set_dirty i None r s; coap_notify_observers i r s }"

fun notify_rounds :: "nat \<Rightarrow> nat \<Rightarrow> coap_server_resource \<Rightarrow> coap_context_t \<Rightarrow> (coap_server_resource \<times> coap_context_t) option" where
  "notify_rounds 0 i r s = Some (r, s)"
| "notify_rounds (Suc k) i r s = do { (r, s) \<leftarrow> notify_rounds k i r s; notify_round i r s }"

lemma notify_round_ok:
  assumes "coap_inv app s" "i < length (c_subscribers s)" "memory s" "r_observable r" "r_handler r ! 0 = Some f" "keeps_type f"
    and "\<And>b. 0 < count_list (watchers s ! i) b \<Longrightarrow> held s b + app b + count_list (watchers s ! i) b < 256"
  shows "\<exists>r' s'. notify_round i r s = Some (r', s') \<and> notified app (count_list (watchers s ! i)) s s' \<and> memory s' \<and>
    r_observable r' \<and> r_handler r' = r_handler r \<and> r_notify_con r' = r_notify_con r \<and>
    (\<forall>j < length (c_subscribers s ! i). non_counts i s' ! j = next_count (r_notify_con r) (non_counts i s ! j))"
proof -
  let ?js = "[0..<length (c_subscribers s ! i)]"
  have p: "pending (watchers s ! i) ?js = count_list (watchers s ! i)" using pending_row [OF assms(2)] by (rule ext)
  have "\<exists>partial' s'. notify_from (Some f) (r_notify_con r) True i ?js False s = Some (True, partial', s') \<and>
    notified app (pending (watchers s ! i) ?js) s s' \<and> memory s' \<and>
    (\<forall>j < length (c_subscribers s ! i). non_counts i s' ! j =
      (if j \<in> set ?js then next_count (r_notify_con r) (non_counts i s ! j) else non_counts i s ! j))"
    by (rule notify_from_counts) (use assms in \<open>simp_all add: p\<close>)
  then obtain partial' s' where s': "notify_from (Some f) (r_notify_con r) True i ?js False s = Some (True, partial', s')"
    "notified app (count_list (watchers s ! i)) s s'" "memory s'"
    "\<forall>j < length (c_subscribers s ! i). non_counts i s' ! j = next_count (r_notify_con r) (non_counts i s ! j)"
    by (auto simp: p)
  have "memory (s'\<lparr>c_observe := c_observe s' + 1\<rparr>)" "non_counts i (s'\<lparr>c_observe := c_observe s' + 1\<rparr>) = non_counts i s'"
    using s'(3) by (simp_all add: memory_def non_counts_def)
  with s' assms(4,5) show ?thesis
    by (simp add: notify_round_def coap_resource_set_dirty_def coap_notify_observers_def)
qed

lemma notify_rounds_ok:
  assumes "coap_inv app s" "i < length (c_subscribers s)" "memory s" "r_observable r" "r_handler r ! 0 = Some f" "keeps_type f"
    and "\<And>b. 0 < count_list (watchers s ! i) b \<Longrightarrow> held s b + app b + k * count_list (watchers s ! i) b < 256"
  shows "\<exists>r' s'. notify_rounds k i r s = Some (r', s') \<and> notified app (\<lambda>b. k * count_list (watchers s ! i) b) s s' \<and>
    memory s' \<and> r_observable r' \<and> r_handler r' = r_handler r \<and> r_notify_con r' = r_notify_con r \<and>
    (\<forall>j < length (c_subscribers s ! i). non_counts i s' ! j = (next_count (r_notify_con r) ^^ k) (non_counts i s ! j))"
  using assms(7)
proof (induction k)
  case 0
  with assms show ?case by (simp add: notified_def)
next
  case (Suc k)
  have "held s b + app b + k * count_list (watchers s ! i) b < 256" if "0 < count_list (watchers s ! i) b" for b
    using Suc.prems [OF that] by simp
  from Suc.IH [OF this] obtain r1 s1 where s1: "notify_rounds k i r s = Some (r1, s1)"
    "notified app (\<lambda>b. k * count_list (watchers s ! i) b) s s1" "memory s1" "r_observable r1" "r_handler r1 = r_handler r"
    "r_notify_con r1 = r_notify_con r"
    "\<forall>j < length (c_subscribers s ! i). non_counts i s1 ! j = (next_count (r_notify_con r) ^^ k) (non_counts i s ! j)"
    by blast
  have w1: "watchers s1 = watchers s" "coap_inv app s1" "\<And>b. held s1 b \<le> held s b + k * count_list (watchers s ! i) b"
    using s1(2) by (simp_all add: notified_def)
  note row = watchers_row [OF w1(1) assms(2)]
  have "held s1 b + app b + count_list (watchers s1 ! i) b < 256" if "0 < count_list (watchers s1 ! i) b" for b
    using Suc.prems [of b] that w1(1) w1(3) [of b] by simp
  from notify_round_ok [OF w1(2) _ s1(3,4) _ assms(6) this] row assms(2,5) s1(5) obtain r2 s2 where s2:
    "notify_round i r1 s1 = Some (r2, s2)" "notified app (count_list (watchers s1 ! i)) s1 s2" "memory s2" "r_observable r2"
    "r_handler r2 = r_handler r1" "r_notify_con r2 = r_notify_con r1"
    "\<forall>j < length (c_subscribers s1 ! i). non_counts i s2 ! j = next_count (r_notify_con r1) (non_counts i s1 ! j)"
    by auto
  have "notified app (\<lambda>b. Suc k * count_list (watchers s ! i) b) s s2"
    using notified_trans [OF s1(2) s2(2)] w1(1) by (simp add: add.commute)
  moreover have "\<forall>j < length (c_subscribers s ! i). non_counts i s2 ! j = (next_count (r_notify_con r) ^^ Suc k) (non_counts i s ! j)"
    using s1(6,7) s2(7) row by simp
  ultimately show ?case using s1(1,5,6) s2(1,3,4,5,6) by simp
qed

lemma next_count_reaches:
  assumes "\<not> notify_con" "n < COAP_OBS_MAX_NON" "k \<le> COAP_OBS_MAX_NON - n"
  shows "(next_count notify_con ^^ k) n = n + k"
  using assms(3)
proof (induction k)
  case (Suc k)
  with assms show ?case by (simp add: next_count_def)
qed simp


end
