(* ===== verification/Coap_Messages.thy ===== *)
theory Coap_Messages
  imports Coap_Server
begin

text \<open>
  The messages of the CoAP engine: what \<^verbatim>\<open>coap_send_packet\<close> gives to the serialiser, in order.  A
  message that is sent adds one entry; everything else that the engine does to sessions, queries and
  observers adds none.  A received request is answered by one entry at most, and a round of
  notifications adds one for every observer.
\<close>

section \<open>The messages so far\<close>

fun message_of :: "syscall \<times> int \<Rightarrow> int list list" where
  "message_of (Ext f args, r) = (if f = ''coap_serialize_message'' then [args] else [])"
| "message_of _ = []"

definition messages :: "coap_context_t \<Rightarrow> int list list" where
  "messages s = concat (map message_of (trace (c_world s)))"

text \<open>What sessions leave alone: the messages and the observers.\<close>

definition seen :: "coap_context_t \<Rightarrow> int list list \<times> coap_subscription_t list list" where
  "seen s = (messages s, c_subscribers s)"

lemma seenD: "seen s' = seen s \<Longrightarrow> messages s' = messages s \<and> c_subscribers s' = c_subscribers s"
  by (simp add: seen_def)

lemma messages_simps [simp]:
  "messages (put_sess a x s) = messages s" "messages (put_subs i subs s) = messages s"
  "messages (put_sub i j obs s) = messages s" "messages (s\<lparr>c_subscribers := z\<rparr>) = messages s"
  "messages (s\<lparr>c_queries := q\<rparr>) = messages s" "messages (s\<lparr>c_next := n\<rparr>) = messages s"
  "messages (s\<lparr>c_observe := k\<rparr>) = messages s" "messages (artik_coap_touch_observer a token s) = messages s"
  by (simp_all add: messages_def put_sess_def put_subs_def put_sub_def artik_coap_touch_observer_def)

lemma seen_simps [simp]:
  "seen (put_sess a x s) = seen s" "seen (s\<lparr>c_nacks := l\<rparr>) = seen s" "seen (s\<lparr>c_sendqueue := q\<rparr>) = seen s"
  "seen (s\<lparr>c_basetime := b\<rparr>) = seen s" "seen (s\<lparr>c_sess := z\<rparr>) = seen s"
  by (simp_all add: seen_def messages_def put_sess_def)

lemma ext_call_seen:
  "ext_call f args s = (r, s') \<Longrightarrow>
    seen s' = (messages s @ (if f = ''coap_serialize_message'' then [args] else []), c_subscribers s)"
  by (auto simp: seen_def messages_def ext_call_def ext_def call_def Let_def)

lemma serialised_seen:
  "ext_call ''coap_serialize_message'' args s = (r, s') \<Longrightarrow> seen s' = (messages s @ [args], c_subscribers s)"
  using ext_call_seen [of "''coap_serialize_message''" args s r s'] by simp

lemma call_seen: "ext_call f args s = (r, s') \<Longrightarrow> f \<noteq> ''coap_serialize_message'' \<Longrightarrow> seen s' = seen s"
  using ext_call_seen [of f args s r s'] by (simp add: seen_def)

lemma snd_call_seen: "f \<noteq> ''coap_serialize_message'' \<Longrightarrow> seen (snd (ext_call f args s)) = seen s"
  using call_seen [of f args s "fst (ext_call f args s)" "snd (ext_call f args s)"] by simp

lemma ticks_seen: "coap_ticks s = (t, s') \<Longrightarrow> seen s' = seen s"
  by (auto simp: coap_ticks_def Let_def split: prod.splits dest!: call_seen)

lemma prng_seen: "prng_byte s = (t, s') \<Longrightarrow> seen s' = seen s"
  by (auto simp: prng_byte_def split: prod.splits dest!: call_seen)

lemma nack_seen [simp]: "seen (nack a r q s) = seen s"
  by (simp add: nack_def)

lemma fold_nack_seen [simp]: "seen (fold (nack a r) qs s) = seen s"
  by (induction qs arbitrary: s) simp_all

section \<open>Sessions\<close>

lemma unlink_seen: "unlink_session a x s = Some s' \<Longrightarrow> seen s' = seen s"
  by (auto simp: unlink_session_def seen_def messages_def split: if_splits option.splits)

lemma free_seen: "coap_session_free a s = Some s' \<Longrightarrow> seen s' = seen s"
  by (auto simp: coap_session_free_def Let_def snd_call_seen split: if_splits option.splits dest!: unlink_seen)

lemma release_seen: "coap_session_release a s = Some s' \<Longrightarrow> seen s' = seen s"
  by (auto simp: coap_session_release_def Let_def split: if_splits option.splits dest!: free_seen)

lemma reference_seen: "coap_session_reference a s = Some s' \<Longrightarrow> seen s' = seen s"
  by (auto simp: coap_session_reference_def split: option.splits)

lemma delete_node_seen: "artik_coap_delete_node node s = Some s' \<Longrightarrow> seen s' = seen s"
  by (auto simp: artik_coap_delete_node_def split: option.splits dest!: release_seen)

lemma cleanup_seen: "dispatch_cleanup sent rcvd s = Some s' \<Longrightarrow> seen s' = seen s"
  by (auto simp: dispatch_cleanup_def split: Option.bind_splits dest!: delete_node_seen)

lemma queue_at_seen [simp]: "seen (queue_at now t node s) = seen s"
  by (simp add: queue_at_def Let_def)

lemma wait_ack_seen: "coap_wait_ack a node s = Some (r, s') \<Longrightarrow> seen s' = seen s"
  by (auto simp: coap_wait_ack_def split: Option.bind_splits prod.splits dest!: reference_seen ticks_seen)

lemma delay_seen: "coap_session_delay_packet a packet None s = Some (r, s') \<Longrightarrow> seen s' = seen s"
  by (auto simp: coap_session_delay_packet_def Let_def split: Option.bind_splits prod.splits if_splits
      dest!: call_seen prng_seen)

lemma dtls_send_seen: "coap_dtls_send a n s = Some (r, s') \<Longrightarrow> seen s' = seen s"
  by (auto simp: coap_dtls_send_def Let_def split: Option.bind_splits prod.splits if_splits
      dest!: call_seen free_seen)

lemma session_send_seen: "coap_session_send a n s = Some (r, s') \<Longrightarrow> seen s' = seen s"
  by (auto simp: coap_session_send_def Let_def split: Option.bind_splits prod.splits if_splits
      dest!: call_seen ticks_seen)

text \<open>Sending a message gives it to the serialiser, once.\<close>

lemma send_packet_seen:
  assumes "coap_send_packet a packet None s = Some (r, s')"
  shows "seen s' = (messages s @ [message a packet], c_subscribers s)"
proof -
  obtain n t where t: "ext_call ''coap_serialize_message'' (message a packet) s = (n, t)" by fastforce
  have "seen s' = seen t"
    using assms t
    by (auto simp: coap_send_packet_def Let_def split: Option.bind_splits prod.splits if_splits
        dest!: call_seen delay_seen dtls_send_seen session_send_seen)
  with serialised_seen [OF t] show ?thesis by simp
qed

lemma send_seen:
  assumes "artik_coap_send a packet s = Some (r, s')"
  shows "seen s' = (messages s @ [message a packet], c_subscribers s)"
proof -
  from assms obtain b t where t: "coap_send_packet a packet None s = Some (b, t)"
    by (auto simp: artik_coap_send_def split: Option.bind_splits)
  with assms have "seen s' = seen t"
    by (auto simp: artik_coap_send_def Let_def split: prod.splits if_splits dest!: call_seen prng_seen wait_ack_seen)
  with send_packet_seen [OF t] show ?thesis by simp
qed

lemma send_response_messages:
  "send_response a response s = Some s' \<Longrightarrow>
    messages s' = messages s @ (case response of None \<Rightarrow> [] | Some p \<Rightarrow> [message a p])"
  by (auto simp: send_response_def seen_def split: option.splits dest!: send_seen)

section \<open>Responses answer their requests\<close>

definition answers :: "coap_packet_t \<Rightarrow> coap_packet_t \<Rightarrow> bool" where
  "answers request response \<longleftrightarrow>
     pk_type response = reply_type request \<and> pk_mid response = pk_mid request \<and>
     (pk_token response = pk_token request \<or>
       pk_type response = COAP_TYPE_ACK \<and> pk_code response = 0 \<and> pk_token response = [])"

text \<open>A handler that fills in a code and leaves the header alone.\<close>

definition keeps_header :: "coap_method_handler_t \<Rightarrow> bool" where
  "keeps_header h \<longleftrightarrow>
     (\<forall>a request token query p.
        pk_type (h a request token query p) = pk_type p \<and> pk_mid (h a request token query p) = pk_mid p \<and>
        pk_token (h a request token query p) = pk_token p)"

lemma keeps_headerD:
  "keeps_header h \<Longrightarrow> pk_type (h a request token query p) = pk_type p \<and> pk_mid (h a request token query p) = pk_mid p \<and>
    pk_token (h a request token query p) = pk_token p"
  by (simp add: keeps_header_def)

text \<open>A request for the list of resources, which has its own response.\<close>

definition asks_list :: "coap_server_resource list \<Rightarrow> request_options \<Rightarrow> coap_packet_t \<Rightarrow> bool" where
  "asks_list rs opts packet \<longleftrightarrow>
     pk_code packet = COAP_GET \<and> is_wkc (request_key opts) \<and>
     (case find_resource rs (request_key opts) of None \<Rightarrow> True | Some i \<Rightarrow> method_handler (rs ! i) packet = None)"

text \<open>The code of the error response to a request, if it gets one.\<close>

definition refusal ::
  "coap_server_resource list \<Rightarrow> request_options \<Rightarrow> coap_packet_t \<Rightarrow> bool \<Rightarrow> u8 option" where
  "refusal rs opts packet unknown_option =
     (if unknown_option then Some (COAP_RESPONSE_CODE 402)
      else if asks_list rs opts packet then None
      else case find_resource rs (request_key opts) of
        None \<Rightarrow> Some (COAP_RESPONSE_CODE (if is_wkc (request_key opts) then 405 else 404))
      | Some i \<Rightarrow> if method_handler (rs ! i) packet = None then Some (COAP_RESPONSE_CODE 405) else None)"

lemma error_response_memory:
  assumes "memory s"
  shows "\<exists>r w. artik_coap_new_error_response packet code s = (Some (r, artik_coap_response_phrase code), s\<lparr>c_world := w\<rparr>) \<and>
    answers packet r \<and> pk_code r = code \<and> messages (s\<lparr>c_world := w\<rparr>) = messages s"
proof -
  obtain m w where m: "ext_call ''malloc'' [] s = (m, s\<lparr>c_world := w\<rparr>)" by (rule ext_callE)
  have "m \<noteq> 0" using assms m by (rule memory_ext)
  moreover have "messages (s\<lparr>c_world := w\<rparr>) = messages s" using call_seen [OF m] by (simp add: seen_def)
  ultimately show ?thesis using m
    by (intro exI [of _ "\<lparr>pk_type = reply_type packet, pk_code = code, pk_mid = pk_mid packet, pk_token = pk_token packet\<rparr>"] exI [of _ w])
      (simp add: artik_coap_new_error_response_def answers_def)
qed

lemma well_known_payload_header:
  "well_known_payload env rs q len offset resp = Some (Some r) \<Longrightarrow>
    wr_ack r = wr_ack resp \<and> wr_mid r = wr_mid resp \<and> wr_token r = wr_token resp"
  by (auto simp: well_known_payload_def Let_def split: if_splits option.splits)

lemma coap_wellknown_response_header:
  "coap_wellknown_response env rs request = Some (Some r) \<Longrightarrow>
    wr_ack r = wq_con request \<and> wr_mid r = wq_mid request \<and> wr_token r = wq_token request"
  by (auto simp: coap_wellknown_response_def Let_def split: if_splits option.splits Option.bind_splits sum.splits prod.splits
      dest!: well_known_payload_header)

lemma wellknown_response_answers: "wellknown_response lib rs packet opts = Some (Some r) \<Longrightarrow> answers packet r"
  by (auto simp: wellknown_response_def answers_def wk_packet_def wk_request_of_def reply_type_def
      dest!: coap_wellknown_response_header)

text \<open>One entry, and which one.\<close>

definition answered :: "addr \<Rightarrow> coap_packet_t \<Rightarrow> u8 option \<Rightarrow> coap_context_t \<Rightarrow> coap_context_t \<Rightarrow> bool" where
  "answered a packet code s s' \<longleftrightarrow>
     (\<exists>p. answers packet p \<and> messages s' = messages s @ [message a p] \<and> (\<forall>c. code = Some c \<longrightarrow> pk_code p = c))"

lemma answered_same:
  "messages s' = messages s \<Longrightarrow> answered a packet code s' t = answered a packet code s t"
  "messages t' = messages t \<Longrightarrow> answered a packet code s t' = answered a packet code s t"
  by (simp_all add: answered_def)

lemma error_answered:
  assumes "memory s"
    and "send_response a (map_option fst (fst (artik_coap_new_error_response packet code s)))
      (snd (artik_coap_new_error_response packet code s)) = Some s'"
  shows "answered a packet (Some code) s s'"
proof -
  from error_response_memory [OF assms(1), of packet code] obtain r w where r:
    "artik_coap_new_error_response packet code s = (Some (r, artik_coap_response_phrase code), s\<lparr>c_world := w\<rparr>)"
    "answers packet r" "pk_code r = code" "messages (s\<lparr>c_world := w\<rparr>) = messages s" by blast
  from send_response_messages [OF assms(2)] r show ?thesis by (auto simp: answered_def)
qed

lemma list_answered:
  assumes "wellknown_response lib rs packet opts = Some r" and "send_response a r s = Some s'"
  shows "messages s' = messages s \<or> answered a packet None s s'"
  using send_response_messages [OF assms(2)] wellknown_response_answers [of lib rs packet opts] assms(1)
  by (auto simp: answered_def split: option.splits)

text \<open>Handling a request adds nothing before the response is sent.\<close>

lemma free_query_messages: "free_query q s = Some s' \<Longrightarrow> messages s' = messages s"
  by (auto simp: free_query_def split: if_splits option.splits)

lemma add_observer_messages: "artik_coap_add_observer i a token query s = Some (sub, s') \<Longrightarrow> messages s' = messages s"
  by (auto simp: artik_coap_add_observer_def Let_def split: option.splits prod.splits if_splits Option.bind_splits
      dest!: free_query_messages call_seen [THEN seenD [THEN conjunct1]] reference_seen [THEN seenD])

lemma delete_observer_messages: "artik_coap_delete_observer i a token s = Some (k, s') \<Longrightarrow> messages s' = messages s"
  by (auto simp: artik_coap_delete_observer_def split: option.splits Option.bind_splits dest!: release_seen [THEN seenD])

lemma observe_request_messages: "observe_request i r a token opts query s = Some (b, s') \<Longrightarrow> messages s' = messages s"
  by (auto simp: observe_request_def split: if_splits option.splits Option.bind_splits
      dest!: add_observer_messages delete_observer_messages)

lemma prepare_query_messages: "prepare_query lib opts s = Some (res, s') \<Longrightarrow> messages s' = messages s"
  by (auto simp: prepare_query_def new_query_def Let_def split: if_splits option.splits Option.bind_splits prod.splits
      dest!: free_query_messages call_seen [THEN seenD [THEN conjunct1]])

lemma handled_response_messages:
  assumes "handled_response h i r a packet opts query s = Some (outcome, s')" and "keeps_header h"
  shows "messages s' = messages s \<and> (\<exists>response q. outcome = Some (response, q) \<and> answers packet response)"
proof -
  let ?response = "h a (Some (packet, opts)) (pk_token packet) query
    \<lparr>pk_type = reply_type packet, pk_code = 0, pk_mid = pk_mid packet, pk_token = pk_token packet\<rparr>"
  have "answers packet ?response" "answers packet (?response\<lparr>pk_token := []\<rparr>)"
    if "pk_type ?response = COAP_TYPE_ACK \<and> pk_code ?response = 0"
    using that keeps_headerD [OF assms(2)] by (auto simp: answers_def)
  moreover have "answers packet ?response" using keeps_headerD [OF assms(2)] by (auto simp: answers_def)
  ultimately show ?thesis using assms(1)
    by (auto simp: handled_response_def Let_def split: Option.bind_splits if_splits prod.splits
        dest!: observe_request_messages free_query_messages delete_observer_messages)
qed

lemma custom_response_messages:
  assumes "custom_response lib h i r a packet opts s = Some (outcome, s')" and "keeps_header h"
  shows "messages s' = messages s"
    and "\<And>response q. outcome = Some (response, q) \<Longrightarrow> answers packet response"
    and "memory s \<Longrightarrow> length (pk_token packet) \<le> 8 \<Longrightarrow> outcome \<noteq> None"
proof -
  from assms(1) obtain query s1 where s1: "prepare_query lib opts s = Some (query, s1)"
    by (auto simp: custom_response_def split: Option.bind_splits)
  note m1 = prepare_query_messages [OF s1]
  have out: "outcome = None \<or> (\<exists>response q. outcome = Some (response, q) \<and> answers packet response)" "messages s' = messages s"
    using assms s1 m1
    by (auto simp: custom_response_def split: option.splits if_splits dest!: handled_response_messages)
  then show "messages s' = messages s" "\<And>response q. outcome = Some (response, q) \<Longrightarrow> answers packet response" by auto
  assume "memory s" "length (pk_token packet) \<le> 8"
  with prepare_query_memory [of s lib opts] s1 have "query = Some (c_next s)" by auto
  with s1 assms \<open>length (pk_token packet) \<le> 8\<close> show "outcome \<noteq> None"
    by (auto simp: custom_response_def dest: handled_response_messages)
qed

section \<open>Requests\<close>

definition header_handlers :: "coap_server_resource list \<Rightarrow> bool" where
  "header_handlers rs \<longleftrightarrow> (\<forall>r \<in> set rs. \<forall>h \<in> set (r_handler r). \<forall>f. h = Some f \<longrightarrow> keeps_header f)"

lemma header_handler:
  assumes "header_handlers rs" "find_resource rs k = Some i" "method_handler (rs ! i) packet = Some h"
  shows "keeps_header h"
proof -
  have "rs ! i \<in> set rs" using find_resource_bound [OF assms(2)] by simp
  moreover have "Some h \<in> set (r_handler (rs ! i))"
    using assms(3) by (metis method_handler_def nth_mem option.distinct(1))
  ultimately show ?thesis using assms(1) by (auto simp: header_handlers_def)
qed

lemma unknown_resource_answered:
  assumes "unknown_resource_response lib rs packet opts s = Some (r, t)" and "send_response a r t = Some s'"
    and "memory s" and "find_resource rs (request_key opts) = None"
  shows "if asks_list rs opts packet then messages s' = messages s \<or> answered a packet None s s'
    else answered a packet (refusal rs opts packet False) s s'"
proof (cases "asks_list rs opts packet")
  case True
  with assms(1) have "wellknown_response lib rs packet opts = Some r" "t = s"
    by (auto simp: unknown_resource_response_def asks_list_def)
  with list_answered assms(2) True show ?thesis by auto
next
  case False
  let ?code = "COAP_RESPONSE_CODE (if is_wkc (request_key opts) then 405 else 404)"
  from False assms(1,4) have "r = map_option fst (fst (artik_coap_new_error_response packet ?code s))"
    "t = snd (artik_coap_new_error_response packet ?code s)"
    by (auto simp: unknown_resource_response_def asks_list_def split: prod.splits)
  with error_answered [OF assms(3), of a packet ?code s'] assms(2,4) False show ?thesis by (simp add: refusal_def)
qed

lemma missing_method_answered:
  assumes "missing_method_response lib rs packet opts s = Some (r, t)" and "send_response a r t = Some s'"
    and "memory s" and "find_resource rs (request_key opts) = Some i" and "method_handler (rs ! i) packet = None"
  shows "if asks_list rs opts packet then messages s' = messages s \<or> answered a packet None s s'
    else answered a packet (refusal rs opts packet False) s s'"
proof (cases "asks_list rs opts packet")
  case True
  with assms(1) have "wellknown_response lib rs packet opts = Some r" "t = s"
    by (auto simp: missing_method_response_def asks_list_def)
  with list_answered assms(2) True show ?thesis by auto
next
  case False
  with assms(1,4,5) have "r = map_option fst (fst (artik_coap_new_error_response packet (COAP_RESPONSE_CODE 405) s))"
    "t = snd (artik_coap_new_error_response packet (COAP_RESPONSE_CODE 405) s)"
    by (auto simp: missing_method_response_def asks_list_def split: prod.splits if_splits)
  with error_answered [OF assms(3), of a packet "COAP_RESPONSE_CODE 405" s'] assms(2,4,5) False show ?thesis
    by (simp add: refusal_def)
qed

text \<open>What handling a request sends.\<close>

definition request_answered ::
  "coap_server_resource list \<Rightarrow> request_options \<Rightarrow> addr \<Rightarrow> coap_packet_t \<Rightarrow> coap_context_t \<Rightarrow> coap_context_t \<Rightarrow> bool" where
  "request_answered rs opts a packet s s' \<longleftrightarrow>
     (if asks_list rs opts packet \<or> pk_type packet \<noteq> COAP_TYPE_CON \<and> refusal rs opts packet False = None
      then messages s' = messages s \<or> answered a packet None s s'
      else answered a packet (refusal rs opts packet False) s s')"

lemma custom_answered:
  assumes "custom_response lib h i r a packet opts s = Some (outcome, t)" and "keeps_header h"
    and "memory s" and "length (pk_token packet) \<le> 8"
    and "(case outcome of None \<Rightarrow> Some t
      | Some (response, query) \<Rightarrow> do {
          t \<leftarrow> (if pk_type response \<noteq> COAP_TYPE_NON \<or> 64 \<le> pk_code response
                then send_response a (Some response) t else Some t);
          free_query query t
        }) = Some s'"
  shows "if pk_type packet = COAP_TYPE_CON then answered a packet None s s'
    else messages s' = messages s \<or> answered a packet None s s'"
proof -
  note c = custom_response_messages [OF assms(1,2)]
  from c(3) [OF assms(3,4)] obtain response query where o: "outcome = Some (response, query)" by auto
  then have ans: "answers packet response" by (rule c(2))
  have "answered a packet None s s' \<or>
      \<not> (pk_type response \<noteq> COAP_TYPE_NON \<or> 64 \<le> pk_code response) \<and> messages s' = messages s"
    using assms(5) o ans c(1)
    by (auto simp: answered_def split: if_splits Option.bind_splits dest!: free_query_messages send_response_messages)
  with ans show ?thesis by (auto simp: answers_def reply_type_def)
qed

lemma artik_handle_request_answered:
  assumes "artik_handle_request lib rs opts node s = Some s'" and "memory s" and "header_handlers rs"
    and "length (pk_token (q_packet node)) \<le> 8"
  shows "request_answered rs opts (q_session node) (q_packet node) s s'"
proof (cases "find_resource rs (request_key opts)")
  case None
  with assms(1) obtain r t where r: "unknown_resource_response lib rs (q_packet node) opts s = Some (r, t)"
    "send_response (q_session node) r t = Some s'"
    by (auto simp: artik_handle_request_def Let_def split: Option.bind_splits)
  from unknown_resource_answered [OF r assms(2) None] None show ?thesis
    by (auto simp: request_answered_def refusal_def)
next
  case (Some i)
  show ?thesis
  proof (cases "method_handler (rs ! i) (q_packet node)")
    case None
    with Some assms(1) obtain r t where r: "missing_method_response lib rs (q_packet node) opts s = Some (r, t)"
      "send_response (q_session node) r t = Some s'"
      by (auto simp: artik_handle_request_def Let_def split: Option.bind_splits)
    from missing_method_answered [OF r assms(2) Some None] Some None show ?thesis
      by (auto simp: request_answered_def refusal_def)
  next
    case h: (Some h)
    with Some have no: "\<not> asks_list rs opts (q_packet node)" "refusal rs opts (q_packet node) False = None"
      by (simp_all add: asks_list_def refusal_def)
    from Some h assms(1) obtain outcome t where
      c: "custom_response lib h i (rs ! i) (q_session node) (q_packet node) opts s = Some (outcome, t)"
      "(case outcome of None \<Rightarrow> Some t
        | Some (response, query) \<Rightarrow> do {
            t \<leftarrow> (if pk_type response \<noteq> COAP_TYPE_NON \<or> 64 \<le> pk_code response
                  then send_response (q_session node) (Some response) t else Some t);
            free_query query t
          }) = Some s'"
      by (auto simp: artik_handle_request_def Let_def split: Option.bind_splits)
    from custom_answered [OF c(1) header_handler [OF assms(3) Some h] assms(2,4) c(2)] no show ?thesis
      by (simp add: request_answered_def split: if_splits)
  qed
qed

lemma answered_cleanup:
  assumes "dispatch_cleanup sent rcvd t = Some s'"
  shows "messages s' = messages t" "answered a packet code s s' = answered a packet code s t"
    "request_answered rs opts a packet s s' = request_answered rs opts a packet s t"
proof -
  show m: "messages s' = messages t" using seenD [OF cleanup_seen [OF assms]] by simp
  show "answered a packet code s s' = answered a packet code s t" for code by (rule answered_same(2) [OF m])
  with m show "request_answered rs opts a packet s s' = request_answered rs opts a packet s t"
    by (simp add: request_answered_def)
qed

lemma dispatch_answered:
  assumes "artik_coap_dispatch lib rs opts rcvd unknown_option s = Some s'" and "memory s" and "header_handlers rs"
    and "length (pk_token (q_packet rcvd)) \<le> 8" and "COAP_MESSAGE_IS_REQUEST (q_packet rcvd)"
    and "pk_type (q_packet rcvd) \<in> {COAP_TYPE_CON, COAP_TYPE_NON}"
  shows "if unknown_option
    then if pk_type (q_packet rcvd) = COAP_TYPE_CON
      then answered (q_session rcvd) (q_packet rcvd) (Some (COAP_RESPONSE_CODE 402)) s s'
      else messages s' = messages s
    else request_answered rs opts (q_session rcvd) (q_packet rcvd) s s'"
proof (cases unknown_option)
  case False
  with assms(1,6) obtain t where t: "dispatch_code lib rs opts rcvd s = Some t" "dispatch_cleanup None rcvd t = Some s'"
    by (auto simp: artik_coap_dispatch_def split: Option.bind_splits)
  then have "artik_handle_request lib rs opts rcvd s = Some t" using assms(5) by (simp add: dispatch_code_def)
  from artik_handle_request_answered [OF this assms(2-4)] answered_cleanup(3) [OF t(2)] False show ?thesis by simp
next
  case True
  show ?thesis
  proof (cases "pk_type (q_packet rcvd) = COAP_TYPE_CON")
    case con: True
    let ?e = "artik_coap_new_error_response (q_packet rcvd) (COAP_RESPONSE_CODE 402) s"
    from assms(1) True con obtain t where t: "send_response (q_session rcvd) (map_option fst (fst ?e)) (snd ?e) = Some t"
      "dispatch_cleanup None rcvd t = Some s'"
      by (auto simp: artik_coap_dispatch_def Let_def split: Option.bind_splits prod.splits)
    from error_answered [OF assms(2) t(1)] answered_cleanup(2) [OF t(2)] True con show ?thesis by simp
  next
    case False
    with assms(1,6) True have "dispatch_cleanup None rcvd s = Some s'" by (auto simp: artik_coap_dispatch_def)
    from answered_cleanup(1) [OF this] True False show ?thesis by simp
  qed
qed

section \<open>Notifications\<close>

text \<open>Whom the observers stand for: the sessions and tokens of the observers of a resource.\<close>

definition observer_ids :: "nat \<Rightarrow> coap_context_t \<Rightarrow> (addr \<times> u8 list) list" where
  "observer_ids i s = map (\<lambda>obs. (sub_session obs, sub_token obs)) (c_subscribers s ! i)"

lemma observer_ids_put_sub:
  "j < length (c_subscribers s ! i) \<Longrightarrow> sub_session obs = sub_session (c_subscribers s ! i ! j) \<Longrightarrow>
    sub_token obs = sub_token (c_subscribers s ! i ! j) \<Longrightarrow> i < length (c_subscribers s) \<Longrightarrow>
    observer_ids i (put_sub i j obs s) = observer_ids i s"
  by (simp add: observer_ids_def put_sub_def put_subs_def map_update list_update_same_conv)

lemma notify_observer_messages:
  assumes "notify_observer h notify_con i j s = Some (failed, s')" and "keeps_header h"
    and "i < length (c_subscribers s)" and "j < length (c_subscribers s ! i)"
  defines "obs \<equiv> c_subscribers s ! i ! j"
  shows "\<exists>p obs'. messages s' = messages s @ [message (sub_session obs) p] \<and>
    pk_type p = notification_type notify_con obs \<and> pk_token p = sub_token obs \<and>
    c_subscribers s' = (c_subscribers s)[i := (c_subscribers s ! i)[j := obs']] \<and>
    sub_session obs' = sub_session obs \<and> sub_token obs' = sub_token obs \<and> blocks s' = blocks s"
proof -
  from assms(1) obtain mid t where t: "coap_new_message_id (sub_session obs) s = Some (mid, t)"
    by (auto simp: notify_observer_def obs_def Let_def split: Option.bind_splits)
  then have ft: "messages t = messages s" "c_subscribers t = c_subscribers s" "blocks t = blocks s"
    by (auto simp: coap_new_message_id_def Let_def put_sess_def messages_def blocks_def split: Option.bind_splits)
  let ?p = "h (sub_session obs) None (sub_token obs) (sub_query obs)
    \<lparr>pk_type = notification_type notify_con obs, pk_code = 0, pk_mid = mid, pk_token = sub_token obs\<rparr>"
  let ?obs = "count_notification (pk_type ?p) (obs\<lparr>sub_dirty := False\<rparr>)"
  from assms(1) t obtain tid u where u: "artik_coap_send (sub_session obs) ?p (put_sub i j ?obs t) = Some (tid, u)"
    "s' = (if tid = -1 then put_sub i j (?obs\<lparr>sub_dirty := True\<rparr>) u else u)"
    by (auto simp: notify_observer_def obs_def Let_def split: Option.bind_splits)
  let ?obs' = "if tid = -1 then ?obs\<lparr>sub_dirty := True\<rparr> else ?obs"
  have fu: "messages u = messages s @ [message (sub_session obs) ?p]"
    "c_subscribers u = (c_subscribers s)[i := (c_subscribers s ! i)[j := ?obs]]"
    using seen_def [of u] send_seen [OF u(1)] ft(1,2) by (simp_all add: put_sub_def put_subs_def)
  moreover have "blocks u = blocks s" using blocks_send [OF u(1)] ft(3) by (simp add: put_sub_def)
  ultimately have "messages s' = messages s @ [message (sub_session obs) ?p]"
    "c_subscribers s' = (c_subscribers s)[i := (c_subscribers s ! i)[j := ?obs']]" "blocks s' = blocks s"
    using u(2) assms(3) by (simp_all add: put_sub_def put_subs_def)
  moreover have "sub_session ?obs' = sub_session obs" "sub_token ?obs' = sub_token obs"
    by (simp_all add: count_notification_def)
  moreover have "pk_type ?p = notification_type notify_con obs" "pk_token ?p = sub_token obs"
    using keeps_headerD [OF assms(2)] by simp_all
  ultimately show ?thesis by blast
qed

text \<open>A pass over the observers of a resource that has changed: one message for each of them.\<close>

definition notified_in :: "(int list) list \<Rightarrow> bool \<Rightarrow> coap_subscription_t \<Rightarrow> bool" where
  "notified_in new notify_con obs \<longleftrightarrow>
     (\<exists>p. message (sub_session obs) p \<in> set new \<and> pk_type p = notification_type notify_con obs \<and> pk_token p = sub_token obs)"

lemma notify_from_messages:
  assumes "notify_from (Some h) notify_con True i js partial s = Some (complete, partial', s')" and "keeps_header h"
    and "memory s" and "i < length (c_subscribers s)" and "\<forall>j \<in> set js. j < length (c_subscribers s ! i)" and "distinct js"
  shows "\<exists>new. messages s' = messages s @ new \<and> length new = length js \<and> observer_ids i s' = observer_ids i s \<and>
    length (c_subscribers s') = length (c_subscribers s) \<and> memory s' \<and>
    (\<forall>j \<in> set js. notified_in new notify_con (c_subscribers s ! i ! j))"
  using assms
proof (induction js arbitrary: s partial)
  case Nil
  then show ?case by simp
next
  case (Cons j js)
  obtain m w where m: "ext_call ''malloc'' [] s = (m, s\<lparr>c_world := w\<rparr>)" by (rule ext_callE)
  let ?s = "s\<lparr>c_world := w\<rparr>" and ?obs = "c_subscribers s ! i ! j"
  have m0: "m \<noteq> 0" using Cons.prems(3) m by (rule memory_ext)
  have mem: "memory ?s" using Cons.prems(3) memory_blocks [OF blocks_ext [OF m]] by simp
  have ms: "messages ?s = messages s" using call_seen [OF m] by (simp add: seen_def)
  from Cons.prems(1) m m0 obtain failed t where t: "notify_observer h notify_con i j ?s = Some (failed, t)"
    "notify_from (Some h) notify_con True i js (partial \<or> failed) t = Some (complete, partial', s')"
    by (auto simp: Let_def split: Option.bind_splits)
  from notify_observer_messages [OF t(1) Cons.prems(2)] Cons.prems(4,5) ms obtain p obs' where o:
    "messages t = messages s @ [message (sub_session ?obs) p]" "pk_type p = notification_type notify_con ?obs"
    "pk_token p = sub_token ?obs" "c_subscribers t = (c_subscribers s)[i := (c_subscribers s ! i)[j := obs']]"
    "sub_session obs' = sub_session ?obs" "sub_token obs' = sub_token ?obs" "blocks t = blocks ?s"
    by (auto simp: seen_def)
  have len: "i < length (c_subscribers t)" "length (c_subscribers t) = length (c_subscribers s)" "c_subscribers t ! i = (c_subscribers s ! i)[j := obs']"
    using o(4) Cons.prems(4) by simp_all
  have ids: "observer_ids i t = observer_ids i s"
    using len(3) o(5,6) Cons.prems(5) by (simp add: observer_ids_def map_update list_update_same_conv)
  from Cons.IH [OF t(2) Cons.prems(2)] memory_blocks [OF o(7)] mem len Cons.prems(5,6) obtain new where new:
    "messages s' = messages t @ new" "length new = length js" "observer_ids i s' = observer_ids i t"
    "length (c_subscribers s') = length (c_subscribers t)" "memory s'"
    "\<forall>k \<in> set js. notified_in new notify_con (c_subscribers t ! i ! k)" by auto
  have "notified_in (message (sub_session ?obs) p # new) notify_con (c_subscribers s ! i ! k)" if "k \<in> set (j # js)" for k
  proof (cases "k = j")
    case True
    with o(2,3) show ?thesis by (auto simp: notified_in_def)
  next
    case False
    with that new(6) len(3) have "notified_in new notify_con (c_subscribers s ! i ! k)" by auto
    then show ?thesis by (auto simp: notified_in_def)
  qed
  with new(1-5) o(1) ids len(2) show ?case by (intro exI [of _ "message (sub_session ?obs) p # new"]) simp
qed

lemma notify_round_messages:
  assumes "notify_round i r s = Some (r', s')" and "r_observable r" and "r_handler r ! 0 = Some h" and "keeps_header h"
    and "memory s" and "i < length (c_subscribers s)"
  shows "\<exists>new. messages s' = messages s @ new \<and> length new = length (c_subscribers s ! i) \<and>
    observer_ids i s' = observer_ids i s \<and> i < length (c_subscribers s') \<and> memory s' \<and>
    r_observable r' \<and> r_handler r' = r_handler r \<and> r_notify_con r' = r_notify_con r \<and>
    (\<forall>j < length (c_subscribers s ! i). notified_in new (r_notify_con r) (c_subscribers s ! i ! j))"
proof -
  from assms(1,2,3) obtain complete partial t where t:
    "notify_from (Some h) (r_notify_con r) True i [0..<length (c_subscribers s ! i)] False s = Some (complete, partial, t)"
    "s' = t\<lparr>c_observe := c_observe s'\<rparr>" "r_observable r'" "r_handler r' = r_handler r" "r_notify_con r' = r_notify_con r"
    by (auto simp: notify_round_def coap_resource_set_dirty_def coap_notify_observers_def split: Option.bind_splits if_splits)
  have f: "messages s' = messages t" "observer_ids i s' = observer_ids i t" "c_subscribers s' = c_subscribers t"
    "memory s' = memory t"
    by (subst t(2), simp add: observer_ids_def memory_def)+
  from notify_from_messages [OF t(1) assms(4-6)] f t(3-5) assms(6) show ?thesis by auto
qed

lemma notify_rounds_messages:
  assumes "notify_rounds k i r s = Some (r', s')" and "r_observable r" and "r_handler r ! 0 = Some h" and "keeps_header h"
    and "memory s" and "i < length (c_subscribers s)"
  shows "observer_ids i s' = observer_ids i s \<and> i < length (c_subscribers s') \<and> memory s' \<and>
    r_observable r' \<and> r_handler r' = r_handler r \<and> r_notify_con r' = r_notify_con r"
  using assms(1)
proof (induction k arbitrary: r' s')
  case 0
  with assms show ?case by simp
next
  case (Suc k)
  then obtain r1 s1 where r1: "notify_rounds k i r s = Some (r1, s1)" "notify_round i r1 s1 = Some (r', s')"
    by (auto split: Option.bind_splits)
  with Suc.IH have "observer_ids i s1 = observer_ids i s" "i < length (c_subscribers s1)" "memory s1" "r_observable r1"
    "r_handler r1 = r_handler r" "r_notify_con r1 = r_notify_con r" by simp_all
  with notify_round_messages [OF r1(2) _ _ assms(4)] assms(3) show ?case by auto
qed

lemma observer_idsD:
  assumes "observer_ids i s' = observer_ids i s" "j < length (c_subscribers s ! i)"
  shows "j < length (c_subscribers s' ! i)" "sub_session (c_subscribers s' ! i ! j) = sub_session (c_subscribers s ! i ! j)"
    "sub_token (c_subscribers s' ! i ! j) = sub_token (c_subscribers s ! i ! j)"
proof -
  show len: "j < length (c_subscribers s' ! i)"
    using arg_cong [OF assms(1), of length] assms(2) by (simp add: observer_ids_def)
  show "sub_session (c_subscribers s' ! i ! j) = sub_session (c_subscribers s ! i ! j)"
    "sub_token (c_subscribers s' ! i ! j) = sub_token (c_subscribers s ! i ! j)"
    using arg_cong [OF assms(1), of "\<lambda>xs. xs ! j"] len assms(2) by (simp_all add: observer_ids_def)
qed

end
