(* ===== verification/Coap_Runs.thy ===== *)
theory Coap_Runs
  imports Coap_Messages
begin

text \<open>
  Runs of the CoAP engine, from a fresh context: creating and looking up sessions, sending, received
  messages of every kind, observers and their notifications, retransmission, and the changes of state
  of a session.
\<close>

section \<open>Steps\<close>

datatype session_op =
    Client "coap_address_t \<times> coap_address_t" "coap_address_t option" coap_address_t coap_protocol_t
  | Lookup addr coap_address_t coap_address_t u32
  | Take addr
  | Drop addr
  | Send addr coap_packet_t
  | Receive coap_library "coap_server_resource list" addr "u8 list"
  | Notify "coap_server_resource list"
  | Observe nat addr "u8 list"
  | Unobserve nat addr "u8 list"
  | Retransmit
  | Connected addr
  | Disconnected addr coap_nack_reason_t
  | Reset addr

text \<open>The list of resources belongs to the application, which marks them as dirty: each step gets it.\<close>

fun session_step :: "session_op \<Rightarrow> coap_context_t \<Rightarrow> coap_context_t option" where
  "session_step (Client names local_if server proto) s =
     map_option snd (coap_new_client_session names local_if server proto s)"
| "session_step (Lookup e dst src now) s = map_option snd (coap_endpoint_get_session e dst src now s)"
| "session_step (Take a) s = coap_session_reference a s"
| "session_step (Drop a) s = coap_session_release a s"
| "session_step (Send a packet) s = map_option snd (artik_coap_send a packet s)"
| "session_step (Receive lib rs a msg) s = map_option snd (coap_handle_message lib rs a msg s)"
| "session_step (Notify rs) s = map_option snd (artik_coap_check_notify rs s)"
| "session_step (Observe r a token) s = map_option snd (artik_coap_add_observer r a token 0 s)"
| "session_step (Unobserve r a token) s = map_option snd (artik_coap_delete_observer r a token s)"
| "session_step Retransmit s = map_option snd (write_round s)"
| "session_step (Connected a) s = coap_session_connected a s"
| "session_step (Disconnected a reason) s = coap_session_disconnected a reason s"
| "session_step (Reset a) s = coap_session_reset a s"

text \<open>The references the application owns afterwards.\<close>

fun app_step :: "session_op \<Rightarrow> coap_context_t \<Rightarrow> (addr \<Rightarrow> nat) \<Rightarrow> addr \<Rightarrow> nat" where
  "app_step (Client names local_if server proto) s app =
     (case coap_new_client_session names local_if server proto s of
        Some (a, _) \<Rightarrow> if a = 0 then app else take_ref a app
      | None \<Rightarrow> app)"
| "app_step (Take a) s app = take_ref a app"
| "app_step (Drop a) s app = drop_ref a app"
| "app_step Retransmit s app = (case c_sendqueue s of [] \<Rightarrow> app | node # _ \<Rightarrow> after_retransmit node app)"
| "app_step _ s app = app"

text \<open>
  When a step is taken: on a live session with room for \<open>n\<close> more references in its eight-bit
  count, and only by an application that owns the reference it uses or gives up.  Retransmission
  is asked of a message whose session is not in the middle of a handshake, and giving up a
  confirmable message of an application that still owns a reference.  A received message is not a
  second registration of an observer (\<open>received_ok\<close>), the query of an observer that registers again
  is live or missing (\<open>query_ok\<close>), and a resource that is observed has a handler of GET.
\<close>

definition room :: "nat \<Rightarrow> addr \<Rightarrow> (addr \<Rightarrow> nat) \<Rightarrow> coap_context_t \<Rightarrow> bool" where
  "room n a app s \<longleftrightarrow> c_sess s a \<noteq> None \<and> held s a + app a + n < 256"

definition delayed :: "coap_context_t \<Rightarrow> addr \<Rightarrow> nat" where
  "delayed s a = (case c_sess s a of None \<Rightarrow> 0 | Some x \<Rightarrow> length (ss_sendqueue x))"

fun may_step :: "session_op \<Rightarrow> (addr \<Rightarrow> nat) \<Rightarrow> coap_context_t \<Rightarrow> bool" where
  "may_step (Client names local_if server proto) app s \<longleftrightarrow> True"
| "may_step (Lookup e dst src now) app s \<longleftrightarrow> c_endpoints s e \<noteq> None"
| "may_step (Take a) app s \<longleftrightarrow> room 1 a app s"
| "may_step (Drop a) app s \<longleftrightarrow> 0 < app a"
| "may_step (Send a packet) app s \<longleftrightarrow> 0 < app a \<and> room 1 a app s"
| "may_step (Receive lib rs a msg) app s \<longleftrightarrow> room 3 a app s \<and> received_ok lib rs a msg s"
| "may_step (Notify rs) app s \<longleftrightarrow>
     length rs = length (c_subscribers s) \<and> list_all notifiable rs \<and>
     (\<forall>sub \<in> set (concat (c_subscribers s)).
        room (sub_count (c_subscribers s) (sub_session sub)) (sub_session sub) app s)"
| "may_step (Observe r a token) app s \<longleftrightarrow>
     r < length (c_subscribers s) \<and> room 1 a app s \<and> query_ok r a token 0 s"
| "may_step (Unobserve r a token) app s \<longleftrightarrow> r < length (c_subscribers s)"
| "may_step Retransmit app s \<longleftrightarrow> (case c_sendqueue s of [] \<Rightarrow> False | node # _ \<Rightarrow> retransmit_ok node app s)"
| "may_step (Connected a) app s \<longleftrightarrow> 0 < app a \<and> room (delayed s a) a app s"
| "may_step (Disconnected a reason) app s \<longleftrightarrow> 0 < app a \<and> room (delayed s a) a app s"
| "may_step (Reset a) app s \<longleftrightarrow> 0 < app a"

definition fresh_context :: "coap_context_t \<Rightarrow> bool" where
  "fresh_context s \<longleftrightarrow>
     c_sess s = Map.empty \<and> c_sendqueue s = [] \<and> (\<forall>subs \<in> set (c_subscribers s). subs = []) \<and> c_sessions s = [] \<and>
     (\<forall>e ep. c_endpoints s e = Some ep \<longrightarrow> e \<noteq> 0 \<and> ep_sessions ep = []) \<and> c_nack_handler s \<and> 0 < c_next s"

inductive coap_reachable :: "(addr \<Rightarrow> nat) \<Rightarrow> coap_context_t \<Rightarrow> bool" where
  fresh: "fresh_context s \<Longrightarrow> coap_reachable (\<lambda>_. 0) s"
| step: "coap_reachable app s \<Longrightarrow> may_step x app s \<Longrightarrow> session_step x s = Some s' \<Longrightarrow>
    coap_reachable (app_step x s app) s'"

lemma sub_count_empty: "\<forall>subs \<in> set rs. subs = [] \<Longrightarrow> sub_count rs a = 0"
  by (induction rs) (auto simp: sub_count_def)

lemma fresh_context_inv: "fresh_context s \<Longrightarrow> coap_inv (\<lambda>_. 0) s"
  by (simp add: fresh_context_def coap_inv_def links_ok_def held_def sub_count_empty)

lemma received_ok:
  assumes inv: "coap_inv app s" and room: "room 1 a app s"
  shows "\<exists>s'. coap_session_reference a s = Some s' \<and> coap_inv (take_ref a app) s'"
proof -
  from room obtain x where "c_sess s a = Some x" "held s a + app a < 255" by (auto simp: room_def)
  with coap_session_reference_ok [OF inv] show ?thesis by blast
qed

text \<open>One step keeps the invariant.\<close>

lemma session_step_ok:
  assumes inv: "coap_inv app s" and may: "may_step x app s"
  shows "\<exists>s'. session_step x s = Some s' \<and> coap_inv (app_step x s app) s'"
proof (cases x)
  case (Client names local_if server proto)
  from coap_new_client_session_ok [OF inv, of names local_if server proto] Client show ?thesis by auto
next
  case (Lookup e dst src now)
  with may obtain ep where "c_endpoints s e = Some ep" by auto
  from coap_endpoint_get_session_ok [OF inv this, of dst src now] Lookup show ?thesis by auto
next
  case (Take a)
  with received_ok [OF inv] may show ?thesis by simp
next
  case (Drop a)
  with coap_session_release_ok [OF inv, of a] may show ?thesis by auto
next
  case (Send a packet)
  with artik_coap_send_ok [OF inv, of a packet] may show ?thesis by (auto simp: room_def)
next
  case (Receive lib rs a msg)
  with may have "c_sess s a \<noteq> None" "held s a + app a < 253" "received_ok lib rs a msg s" by (simp_all add: room_def)
  from coap_handle_message_ok [OF inv this] Receive show ?thesis by auto
next
  case (Notify rs)
  have "held s b + app b + sub_count (c_subscribers s) b < 256" if pos: "0 < sub_count (c_subscribers s) b" for b
  proof -
    from pos have "filter (\<lambda>sub. sub_session sub = b) (concat (c_subscribers s)) \<noteq> []"
      unfolding sub_count_def by (rule length_greater_0_conv [THEN iffD1])
    then obtain sub where sub: "sub \<in> set (concat (c_subscribers s))" "sub_session sub = b"
      unfolding filter_empty_conv by blast
    from may Notify have "\<forall>sub \<in> set (concat (c_subscribers s)).
        room (sub_count (c_subscribers s) (sub_session sub)) (sub_session sub) app s" by (simp only: may_step.simps) blast
    from bspec [OF this sub(1)] sub(2) show ?thesis by (simp add: room_def)
  qed
  from artik_coap_check_notify_ok [OF inv _ _ this, of rs] may Notify show ?thesis by (auto simp: list_all_iff)
next
  case (Observe r a token)
  with artik_coap_add_observer_ok [OF inv, of r a token 0] may show ?thesis
    by (auto simp: room_def simp del: not_None_eq)
next
  case (Unobserve r a token)
  with artik_coap_delete_observer_ok [OF inv, of r a token] may show ?thesis by auto
next
  case Retransmit
  with may obtain node queue where "c_sendqueue s = node # queue" "retransmit_ok node app s"
    by (auto split: list.splits)
  with write_round_ok [OF inv] Retransmit show ?thesis by fastforce
next
  case (Connected a)
  with may obtain y where "c_sess s a = Some y" "held s a + app a + length (ss_sendqueue y) < 256" "0 < app a"
    by (auto simp: room_def delayed_def)
  with coap_session_connected_ok [OF inv, of a y] Connected show ?thesis by auto
next
  case (Disconnected a reason)
  with may obtain y where "c_sess s a = Some y" "held s a + app a + length (ss_sendqueue y) < 256" "0 < app a"
    by (auto simp: room_def delayed_def)
  with coap_session_disconnected_ok [OF inv, of a y reason] Disconnected show ?thesis by auto
next
  case (Reset a)
  with coap_session_reset_ok [OF inv, of a] may show ?thesis by auto
qed

lemma coap_reachable_inv: "coap_reachable app s \<Longrightarrow> coap_inv app s"
proof (induction rule: coap_reachable.induct)
  case (fresh s)
  then show ?case by (rule fresh_context_inv)
next
  case (step app s x s')
  from session_step_ok [OF step.IH step.hyps(2)] step.hyps(3) show ?case by auto
qed

text \<open>
  C1. Reference counts in the runs of allowed steps.  The runs start from a fresh context, and every
  step satisfies \<open>may_step\<close>: a session that a step takes references to is live and has room for them
  below 256, its eight-bit limit; the application owns the reference it uses or gives up; a message
  is sent again only outside a handshake, and is given up only while the application owns a reference
  too; there is a handler of nacks, and one of GET for what is observed; a received message is not the
  second registration of an observer, the query an observer gives up is live, a first registration
  and a reset that is sent have memory, the list of resources can be printed when it is asked for,
  and the resources and the endpoint that a step names exist.  In these runs the count of each live session is the number of
  its holders: queued messages, observers and references of the application; nothing refers to a
  freed session; and every further allowed step is free of invalid accesses.  The conditions are
  needed: C2 and C28 show what the code does outside two of them, and the theorem
  \<open>coap_reference_count_wraps\<close> what it does outside the limit of the count.
\<close>

theorem coap_reachable_references:
  assumes "coap_reachable app s"
  shows "(\<forall>a. case c_sess s a of
             None \<Rightarrow> q_count (c_sendqueue s) a + sub_count (c_subscribers s) a + app a = 0
           | Some x \<Rightarrow> unat (ss_ref x) = q_count (c_sendqueue s) a + sub_count (c_subscribers s) a + app a) \<and>
    (\<forall>x. may_step x app s \<longrightarrow> session_step x s \<noteq> None)"
proof (intro conjI allI impI)
  note inv = coap_reachable_inv [OF assms]
  show "case c_sess s a of
      None \<Rightarrow> q_count (c_sendqueue s) a + sub_count (c_subscribers s) a + app a = 0
    | Some x \<Rightarrow> unat (ss_ref x) = q_count (c_sendqueue s) a + sub_count (c_subscribers s) a + app a" for a
    using coap_inv_slot [OF inv, of a] by (cases "c_sess s a") (auto simp: held_def sess_ok_def)
  show "session_step x s \<noteq> None" if "may_step x app s" for x
    using session_step_ok [OF inv that] by auto
qed

text \<open>A concrete context: one UDP endpoint at address 4 and one resource.\<close>

definition ex_world :: "int \<Rightarrow> world" where
  "ex_world r = \<lparr>result = (\<lambda>_. r), rdata = (\<lambda>_. []), out_int = (\<lambda>_. 0), module_addr = (\<lambda>_. 0), errno = 0, trace = []\<rparr>"

definition ex_context :: "coap_context_t" where
  "ex_context = \<lparr>c_subscribers = [[]], c_sendqueue = [], c_basetime = 0,
     c_endpoints = [4 \<mapsto> \<lparr>ep_proto = COAP_UDP, ep_sessions = []\<rparr>], c_sessions = [], c_nack_handler = True,
     c_max_idle = 1, c_session_timeout = 0, c_clock_offset = 0, c_next = 8, c_sess = Map.empty, c_nacks = [], 
     c_queries = Map.empty, c_observe = 0, c_response_handler = True, c_world = ex_world 1\<rparr>"

definition ex_address :: "u8 \<Rightarrow> coap_address_t" where
  "ex_address b = \<lparr>ad_size = 16, ad_family = AF_INET, ad_port = 5683, ad_bytes = [10, 0, 0, b]\<rparr>"

lemma ex_context_fresh: "fresh_context ex_context"
  by (simp add: fresh_context_def ex_context_def)

text \<open>After a lookup, session 8 is there and idle.\<close>

definition ex_looked_up :: "coap_context_t" where
  "ex_looked_up = the (session_step (Lookup 4 (ex_address 1) (ex_address 2) 5) ex_context)"

lemma ex_looked_up_reachable: "coap_reachable (\<lambda>_. 0) ex_looked_up"
proof -
  have "may_step (Lookup 4 (ex_address 1) (ex_address 2) 5) (\<lambda>_. 0) ex_context" by (simp add: ex_context_def)
  moreover from session_step_ok [OF fresh_context_inv [OF ex_context_fresh] this]
  have "session_step (Lookup 4 (ex_address 1) (ex_address 2) 5) ex_context = Some ex_looked_up"
    by (auto simp: ex_looked_up_def)
  ultimately show ?thesis using coap_reachable.step [OF coap_reachable.fresh [OF ex_context_fresh]] by fastforce
qed

lemma ex_looked_up_session: "\<exists>x. c_sess ex_looked_up 8 = Some x \<and> ss_ref x = 0"
  by (simp add: ex_looked_up_def ex_context_def coap_endpoint_get_session_def new_server_session_def
      coap_make_session_def ext_call_def ext_def call_def ex_world_def link_session_def put_sess_def Let_def)

lemma ex_looked_up_lists: "c_sendqueue ex_looked_up = [] \<and> c_subscribers ex_looked_up = [[]]"
  by (simp add: ex_looked_up_def ex_context_def coap_endpoint_get_session_def new_server_session_def
      coap_make_session_def ext_call_def ext_def call_def ex_world_def link_session_def put_sess_def Let_def)

lemma coap_reachable_references_witness:
  "unat (ss_ref (the (c_sess ex_looked_up 8))) =
     q_count (c_sendqueue ex_looked_up) 8 + sub_count (c_subscribers ex_looked_up) 8 + (\<lambda>_. 0) (8 :: addr) \<and>
   session_step (Take 8) ex_looked_up \<noteq> None"
proof -
  have may: "may_step (Take 8) (\<lambda>_. 0) ex_looked_up"
    using ex_looked_up_session ex_looked_up_lists by (auto simp: room_def held_def sub_count_def)
  from coap_reachable_references [OF ex_looked_up_reachable] have
    "case c_sess ex_looked_up 8 of
        None \<Rightarrow> q_count (c_sendqueue ex_looked_up) 8 + sub_count (c_subscribers ex_looked_up) 8 + 0 = 0
      | Some x \<Rightarrow> unat (ss_ref x) = q_count (c_sendqueue ex_looked_up) 8 + sub_count (c_subscribers ex_looked_up) 8 + 0"
    "session_step (Take 8) ex_looked_up \<noteq> None"
    using may by blast+
  with ex_looked_up_session show ?thesis by auto
qed

section \<open>The loop of retransmissions ends\<close>

text \<open>How often a message can still come up.\<close>

definition budget_of :: "coap_queue_t \<Rightarrow> nat" where
  "budget_of q = (if exhausted q then 1 else 5 - unat (q_retransmit_cnt q))"

definition budget :: "coap_queue_t list \<Rightarrow> nat" where
  "budget queue = sum_list (map budget_of queue)"

lemma budget_simps [simp]:
  "budget [] = 0" "budget (q # qs) = budget_of q + budget qs" "budget_of (q\<lparr>q_t := t\<rparr>) = budget_of q"
  by (simp_all add: budget_def budget_of_def exhausted_def)

lemma budget_insert_after: "budget (insert_after p qs node) = budget_of node + budget (p # qs)"
  by (induction p qs node rule: insert_after.induct) (simp_all add: Let_def)

lemma budget_insert [simp]: "budget (artik_coap_insert_node queue node) = budget_of node + budget queue"
  by (simp add: artik_coap_insert_node_def budget_insert_after split: list.split)

lemma budget_add_head [simp]: "budget (add_head d qs) = budget qs"
  by (simp add: add_head_def split: list.split)

lemma budget_remove_after: "remove_after a i qs = (r, qs') \<Longrightarrow> budget qs' \<le> budget qs"
  by (induction qs arbitrary: qs') (auto split: if_splits prod.splits)

lemma budget_remove: "artik_coap_remove_from_queue queue a i = (r, queue') \<Longrightarrow> budget queue' \<le> budget queue"
  by (cases queue) (auto simp: artik_coap_remove_from_queue_def split: if_splits prod.splits dest: budget_remove_after)

lemma budget_filter: "budget (filter P qs) \<le> budget qs"
  by (induction qs) auto

lemma budget_dropWhile: "budget (dropWhile P qs) \<le> budget qs"
  by (induction qs) auto

lemma budget_cancel: "cancel_loops P queue = (del, rest) \<Longrightarrow> budget rest \<le> budget queue"
proof (cases "dropWhile P queue")
  case (Cons p qs)
  let ?P = "\<lambda>q. q_session q \<noteq> 0 \<and> P q"
  assume "cancel_loops P queue = (del, rest)"
  with Cons have "rest = p # filter (\<lambda>q. \<not> ?P q) qs"
    by (simp add: cancel_loops_def cancel_heads_eq cancel_behind_eq)
  with budget_filter [of "\<lambda>q. \<not> ?P q" qs] budget_dropWhile [of P queue] Cons show ?thesis by simp
qed (simp add: cancel_loops_def cancel_heads_eq)

text \<open>Releasing a session never touches the send queue.\<close>

lemma queue_frames [simp]:
  "c_sendqueue (snd (ext_call f args s)) = c_sendqueue s"
  "c_sendqueue (nack a r q s) = c_sendqueue s" "c_sendqueue (fold (nack a r) qs s) = c_sendqueue s"
proof -
  show "c_sendqueue (snd (ext_call f args s)) = c_sendqueue s"
    using ext_call_world [of f args s] by auto
  show "c_sendqueue (nack a r q s) = c_sendqueue s" using nack_log [of a r q s] by auto
  show "c_sendqueue (fold (nack a r) qs s) = c_sendqueue s" using fold_nack_log [of a r qs s] by auto
qed

lemma unlink_session_queue: "unlink_session a x s = Some s' \<Longrightarrow> c_sendqueue s' = c_sendqueue s"
  by (auto simp: unlink_session_def split: if_splits option.splits)

lemma coap_session_free_queue: "coap_session_free a s = Some s' \<Longrightarrow> c_sendqueue s' = c_sendqueue s"
  by (auto simp: coap_session_free_def Let_def split: if_splits option.splits dest!: unlink_session_queue)

lemma coap_session_release_queue: "coap_session_release a s = Some s' \<Longrightarrow> c_sendqueue s' = c_sendqueue s"
  by (auto simp: coap_session_release_def Let_def split: if_splits option.splits dest!: coap_session_free_queue)

lemma delete_nodes_queue: "delete_nodes qs s = Some s' \<Longrightarrow> c_sendqueue s' = c_sendqueue s"
  by (induction qs arbitrary: s)
    (auto simp: artik_coap_delete_node_def split: Option.bind_splits dest: coap_session_release_queue)

lemma cancel_messages_budget: "cancel_messages a token s = Some s' \<Longrightarrow> budget (c_sendqueue s') \<le> budget (c_sendqueue s)"
  by (auto simp: cancel_messages_def artik_coap_cancel_all_messages_def split: prod.splits
      dest!: delete_nodes_queue dest: budget_cancel)

lemma put_subs_queue [simp]: "c_sendqueue (put_subs r subs s) = c_sendqueue s"
  by (simp add: put_subs_def)

lemma remove_failed_budget:
  "coap_remove_failed_observers r a token s = Some s' \<Longrightarrow> budget (c_sendqueue s') \<le> budget (c_sendqueue s)"
  by (auto simp: coap_remove_failed_observers_def Let_def split: option.splits if_splits Option.bind_splits
      dest!: cancel_messages_budget coap_session_release_queue)

lemma failed_notify_budget:
  "failed_notify_from rs a token s = Some s' \<Longrightarrow> budget (c_sendqueue s') \<le> budget (c_sendqueue s)"
  by (induction rs arbitrary: s) (fastforce split: Option.bind_splits dest: remove_failed_budget)+

lemma ext_call_queue: "ext_call f args s = (r, s') \<Longrightarrow> c_sendqueue s' = c_sendqueue s"
  using queue_frames(1) [of f args s] by simp

lemma ticks_queue: "coap_ticks s = (t, s') \<Longrightarrow> c_sendqueue s' = c_sendqueue s"
  by (auto simp: coap_ticks_def split: prod.splits dest: ext_call_queue)

lemma prng_queue: "prng_byte s = (b, s') \<Longrightarrow> c_sendqueue s' = c_sendqueue s"
  by (auto simp: prng_byte_def split: prod.splits dest: ext_call_queue)

lemmas call_queue = ext_call_queue ticks_queue prng_queue

lemma coap_dtls_send_queue: "coap_dtls_send a n s = Some (r, s') \<Longrightarrow> c_sendqueue s' = c_sendqueue s"
  by (auto simp: coap_dtls_send_def split: prod.splits if_splits Option.bind_splits
      dest!: call_queue coap_session_free_queue)

lemma coap_session_send_queue: "coap_session_send a n s = Some (r, s') \<Longrightarrow> c_sendqueue s' = c_sendqueue s"
  by (auto simp: coap_session_send_def Let_def split: prod.splits if_splits Option.bind_splits dest!: call_queue)

lemma delay_packet_budget:
  "coap_session_delay_packet a packet node s = Some (r, s') \<Longrightarrow> budget (c_sendqueue s') \<le> budget (c_sendqueue s)"
  by (auto simp: coap_session_delay_packet_def Let_def split: option.splits prod.splits if_splits Option.bind_splits
      dest!: call_queue coap_session_release_queue budget_remove)

lemma send_packet_budget:
  "coap_send_packet a packet node s = Some (r, s') \<Longrightarrow> budget (c_sendqueue s') \<le> budget (c_sendqueue s)"
  by (auto simp: coap_send_packet_def split: prod.splits if_splits Option.bind_splits
      dest!: call_queue coap_dtls_send_queue coap_session_send_queue delay_packet_budget)

lemma queue_at_budget: "budget (c_sendqueue (queue_at now t node s)) = budget_of node + budget (c_sendqueue s)"
  by (simp add: queue_at_def Let_def)

lemma budget_again:
  assumes "\<not> exhausted node"
  shows "budget_of (node\<lparr>q_retransmit_cnt := q_retransmit_cnt node + 1\<rparr>) < budget_of node"
proof -
  have "unat (q_retransmit_cnt node) < 4"
    using assms by (simp add: exhausted_def COAP_DEFAULT_MAX_RETRANSMIT_def word_le_nat_alt)
  moreover from this have "unat (q_retransmit_cnt node + 1) = unat (q_retransmit_cnt node) + 1"
    by (simp add: unat_word_ariths)
  ultimately show ?thesis
    by (simp add: budget_of_def exhausted_def COAP_DEFAULT_MAX_RETRANSMIT_def word_le_nat_alt) arith
qed

lemma retransmit_budget:
  assumes "artik_coap_retransmit (Some node) s = Some (r, s')"
  shows "budget (c_sendqueue s') < budget_of node + budget (c_sendqueue s)"
proof (cases "exhausted node")
  case False
  let ?n = "node\<lparr>q_retransmit_cnt := q_retransmit_cnt node + 1\<rparr>"
  have c: "q_retransmit_cnt node < COAP_DEFAULT_MAX_RETRANSMIT" using False by (simp add: exhausted_def)
  obtain now w where t: "coap_ticks s = (now, s\<lparr>c_world := w\<rparr>)" by (rule coap_ticksE)
  let ?q = "queue_at now (push_bit (unat (q_retransmit_cnt ?n)) (q_timeout ?n)) ?n (s\<lparr>c_world := w\<rparr>)"
  from assms c t obtain b where "coap_send_packet (q_session node) (q_packet node) (Some ?n) ?q = Some (b, s')"
    by (auto simp: artik_coap_retransmit_def Let_def split: Option.bind_splits)
  from send_packet_budget [OF this] budget_again [OF False] show ?thesis by (simp add: queue_at_budget)
next
  case True
  then have c: "\<not> q_retransmit_cnt node < COAP_DEFAULT_MAX_RETRANSMIT" by (simp add: exhausted_def)
  have "0 < budget_of node" using True by (simp add: budget_of_def)
  moreover have "budget (c_sendqueue s') \<le> budget (c_sendqueue s)"
    using assms c
    by (auto simp: artik_coap_retransmit_def artik_coap_handle_failed_notify_def artik_coap_delete_node_def
        split: if_splits Option.bind_splits dest!: failed_notify_budget coap_session_release_queue)
  ultimately show ?thesis by simp
qed

lemma write_round_budget:
  assumes "write_round s = Some (r, s')" and "is_due now s"
  shows "budget (c_sendqueue s') < budget (c_sendqueue s)"
proof (cases "c_sendqueue s")
  case Nil
  with assms(2) show ?thesis by (simp add: is_due_def artik_coap_peek_next_def)
next
  case (Cons node queue)
  with assms(1) have "artik_coap_retransmit (Some node) (s\<lparr>c_sendqueue := add_head (q_t node) queue\<rparr>) = Some (r, s')"
    by (simp add: write_round_def artik_coap_pop_next_def)
  from retransmit_budget [OF this] Cons show ?thesis by simp
qed

lemma budget_zero: "budget qs = 0 \<Longrightarrow> qs = []"
proof (cases qs)
  case (Cons q qs')
  have "0 < budget_of q"
    by (simp add: budget_of_def exhausted_def COAP_DEFAULT_MAX_RETRANSMIT_def word_le_nat_alt)
  moreover assume "budget qs = 0"
  ultimately show ?thesis using Cons by simp
qed

lemma write_loop_fuel: "budget (c_sendqueue s) \<le> fuel \<Longrightarrow> write_loop fuel now s \<noteq> Inl ()"
proof (induction fuel arbitrary: s)
  case 0
  then have "\<not> is_due now s" using budget_zero [of "c_sendqueue s"] by (simp add: is_due_def artik_coap_peek_next_def)
  then show ?case by simp
next
  case (Suc fuel)
  show ?case
  proof (cases "is_due now s")
    case True
    show ?thesis
    proof (cases "write_round s")
      case (Some rs)
      then obtain r s' where r: "write_round s = Some (r, s')" by (cases rs) auto
      from write_round_budget [OF r True] Suc.prems have "budget (c_sendqueue s') \<le> fuel" by simp
      from Suc.IH [OF this] True r show ?thesis by simp
    qed (use True in simp)
  qed simp
qed

text \<open>
  C27. The loop of \<^verbatim>\<open>coap_write\<close> that sends what is due ends, whatever the queue, the clock and the
  sessions do: it takes at most one round for each attempt that the queued messages have left.
\<close>

theorem coap_write_loop_terminates: "write_loop (budget (c_sendqueue s)) now s \<noteq> Inl ()"
  by (rule write_loop_fuel) simp

section \<open>The life of a confirmable message\<close>

text \<open>The datagrams sent so far.\<close>

definition is_send :: "syscall \<times> int \<Rightarrow> bool" where
  "is_send c = (case fst c of Ext f _ \<Rightarrow> f = ''network_send'' | _ \<Rightarrow> False)"

definition sends :: "world \<Rightarrow> nat" where
  "sends w = length (filter is_send (trace w))"

lemma ext_call_sends:
  obtains r w where "ext_call f args s = (r, s\<lparr>c_world := w\<rparr>)"
    "sends w = sends (c_world s) + of_bool (f = ''network_send'')"
proof
  show "ext_call f args s = (fst (ext f args (c_world s)), s\<lparr>c_world := snd (ext f args (c_world s))\<rparr>)"
    by (simp add: ext_call_def split: prod.split)
  show "sends (snd (ext f args (c_world s))) = sends (c_world s) + of_bool (f = ''network_send'')"
    by (simp add: sends_def ext_def call_def Let_def is_send_def)
qed

lemma coap_ticks_sends:
  obtains t w where "coap_ticks s = (t, s\<lparr>c_world := w\<rparr>)" "sends w = sends (c_world s)"
proof -
  obtain r w where r: "ext_call ''gettimeofday'' [] s = (r, s\<lparr>c_world := w\<rparr>)"
    "sends w = sends (c_world s) + of_bool (''gettimeofday'' = ''network_send'')" by (rule ext_call_sends)
  with that show ?thesis by (simp add: coap_ticks_def)
qed

text \<open>A message waits for its acknowledgement alone, on a connected UDP session.\<close>

definition waiting :: "coap_queue_t \<Rightarrow> coap_context_t \<Rightarrow> bool" where
  "waiting node s \<longleftrightarrow>
     c_sendqueue s = [node] \<and> c_nack_handler s \<and> q_session node \<noteq> 0 \<and>
     pk_type (q_packet node) = COAP_TYPE_CON \<and> pk_code (q_packet node) < 64 \<and>
     (\<exists>x. c_sess s (q_session node) = Some x \<and> ss_state x = COAP_SESSION_STATE_ESTABLISHED \<and>
        ss_proto x = COAP_UDP \<and> ss_sock x \<and> ss_endpoint x = 0 \<and> ss_sendqueue x = [] \<and> 2 \<le> unat (ss_ref x))"

lemma code_class: "(c :: u8) < 64 \<Longrightarrow> \<not> 2 < drop_bit 5 c"
proof -
  assume "c < 64"
  then have "unat c < 64" by (simp add: word_less_nat_alt)
  then have "unat c div 32 \<le> 1" by linarith
  moreover have "unat (drop_bit 5 c) = unat c div 32"
    by (simp only: unat_drop_bit_eq) (simp add: drop_bit_eq_div)
  ultimately show ?thesis by (simp add: word_less_nat_alt)
qed

text \<open>The node after a retransmission.\<close>

definition sent_again :: "coap_queue_t \<Rightarrow> coap_queue_t" where
  "sent_again node =
     node\<lparr>q_t := push_bit (unat (q_retransmit_cnt node + 1)) (q_timeout node),
       q_retransmit_cnt := q_retransmit_cnt node + 1\<rparr>"

lemma round_again:
  assumes wait: "waiting node s" and again: "\<not> exhausted node"
  shows "\<exists>r s'. write_round s = Some (r, s') \<and> waiting (sent_again node) s' \<and>
    sends (c_world s') = sends (c_world s) + 1 \<and> c_nacks s' = c_nacks s \<and>
    messages s' = messages s @ [message (q_session node) (q_packet node)] \<and> c_basetime s' = fst (coap_ticks s)"
proof -
  let ?a = "q_session node" and ?p = "q_packet node"
  let ?n = "node\<lparr>q_retransmit_cnt := q_retransmit_cnt node + 1\<rparr>"
  from wait obtain x where q: "c_sendqueue s = [node]" "?a \<noteq> 0" "pk_code ?p < 64" "c_nack_handler s"
    "pk_type ?p = COAP_TYPE_CON" and x: "c_sess s ?a = Some x" "ss_state x = COAP_SESSION_STATE_ESTABLISHED"
    "ss_proto x = COAP_UDP" "ss_sock x" "ss_endpoint x = 0" "ss_sendqueue x = []" "2 \<le> unat (ss_ref x)"
    by (auto simp: waiting_def)
  let ?s0 = "s\<lparr>c_sendqueue := []\<rparr>"
  obtain now w where t: "coap_ticks ?s0 = (now, ?s0\<lparr>c_world := w\<rparr>)" "sends w = sends (c_world ?s0)"
    by (rule coap_ticks_sends)
  have now: "now = fst (coap_ticks s)"
    using arg_cong [OF t(1), of fst] by (auto simp: coap_ticks_def ext_call_def split: prod.splits)
  let ?s1 = "?s0\<lparr>c_world := w, c_basetime := now, c_sendqueue := [sent_again node]\<rparr>"
  have at: "queue_at now (push_bit (unat (q_retransmit_cnt ?n)) (q_timeout ?n)) ?n (?s0\<lparr>c_world := w\<rparr>) = ?s1"
    by (simp add: queue_at_def artik_coap_insert_node_def Let_def sent_again_def)
  obtain n w1 where n: "ext_call ''coap_serialize_message'' (message ?a ?p) ?s1 = (n, ?s1\<lparr>c_world := w1\<rparr>)"
    "sends w1 = sends (c_world ?s1) + of_bool (''coap_serialize_message'' = ''network_send'')"
    by (rule ext_call_sends)
  let ?s2 = "?s1\<lparr>c_world := w1\<rparr>"
  obtain b w2 where b: "ext_call ''network_send'' [int ?a, n] ?s2 = (b, ?s2\<lparr>c_world := w2\<rparr>)"
    "sends w2 = sends (c_world ?s2) + of_bool (''network_send'' = ''network_send'')"
    by (rule ext_call_sends)
  let ?s3 = "?s2\<lparr>c_world := w2\<rparr>"
  obtain t' w3 where t': "coap_ticks ?s3 = (t', ?s3\<lparr>c_world := w3\<rparr>)" "sends w3 = sends (c_world ?s3)"
    by (rule coap_ticks_sends)
  let ?s' = "if b = n then put_sess ?a (x\<lparr>ss_last_rx_tx := t'\<rparr>) (?s3\<lparr>c_world := w3\<rparr>) else ?s3"
  have send: "coap_send_packet ?a ?p (Some ?n) ?s1 = Some (b, ?s')"
    using x n b t' code_class [OF q(3)] by (simp add: coap_send_packet_def coap_session_send_def)
  have "q_retransmit_cnt node < COAP_DEFAULT_MAX_RETRANSMIT" using again by (simp add: exhausted_def)
  then obtain r where "write_round s = Some (r, ?s')"
    using q(1) t at send by (simp add: write_round_def artik_coap_pop_next_def add_head_def artik_coap_retransmit_def Let_def)
  moreover have "waiting (sent_again node) ?s'" using q x by (simp add: waiting_def put_sess_def sent_again_def)
  moreover have "sends (c_world ?s') = sends (c_world s) + 1" using t(2) n(2) b(2) t'(2) by (simp add: put_sess_def)
  moreover have "c_nacks ?s' = c_nacks s" "c_basetime ?s' = fst (coap_ticks s)" by (simp_all add: put_sess_def now)
  moreover have "messages ?s' = messages s @ [message ?a ?p]"
  proof -
    have "seen ?s1 = seen s" using ticks_seen [OF t(1)] by (simp add: seen_def messages_def)
    then have "seen ?s2 = (messages s @ [message ?a ?p], c_subscribers s)"
      using serialised_seen [OF n(1)] by (simp add: seen_def)
    moreover have "seen ?s3 = seen ?s2" using call_seen [OF b(1)] by simp
    moreover have "seen (?s3\<lparr>c_world := w3\<rparr>) = seen ?s3" by (rule ticks_seen [OF t'(1)])
    ultimately show ?thesis by (simp add: seen_def)
  qed
  ultimately show ?thesis by blast
qed

lemma release_plain:
  assumes x: "c_sess s a = Some x" "a \<noteq> 0" "0 < ss_ref x" "ss_proto x = COAP_UDP" "ss_endpoint x = 0" "ss_sendqueue x = []"
  shows "\<exists>s'. coap_session_release a s = Some s' \<and> c_sendqueue s' = c_sendqueue s \<and> c_nacks s' = c_nacks s \<and>
    c_nack_handler s' = c_nack_handler s \<and> sends (c_world s') = sends (c_world s) \<and>
    (1 < unat (ss_ref x) \<longrightarrow> c_sess s' a = Some (x\<lparr>ss_ref := ss_ref x - 1\<rparr>))"
proof -
  let ?x = "x\<lparr>ss_ref := ss_ref x - 1\<rparr>"
  let ?s = "put_sess a ?x s"
  have rel: "coap_session_release a s =
      (if ss_ref x - 1 = 0 \<and> ss_type x = COAP_SESSION_TYPE_CLIENT then coap_session_free a ?s else Some ?s)"
    using x by (simp add: coap_session_release_def Let_def)
  show ?thesis
  proof (cases "ss_ref x - 1 = 0 \<and> ss_type x = COAP_SESSION_TYPE_CLIENT")
    case False
    with rel show ?thesis by (intro exI [of _ ?s]) (auto simp: put_sess_def)
  next
    case True
    obtain r w where w: "ext_call ''close'' [int a] ?s = (r, ?s\<lparr>c_world := w\<rparr>)"
      "sends w = sends (c_world ?s) + of_bool (''close'' = ''network_send'')" by (rule ext_call_sends)
    from True have "ss_ref x = 1" by simp
    then have one: "\<not> 1 < unat (ss_ref x)" by simp
    have "\<exists>s'. coap_session_free a ?s = Some s' \<and> c_sendqueue s' = c_sendqueue s \<and> c_nacks s' = c_nacks s \<and>
        c_nack_handler s' = c_nack_handler s \<and> sends (c_world s') = sends (c_world s)"
      using x True w by (cases "ss_sock x"; cases "ss_context x")
        (auto simp: coap_session_free_def Let_def unlink_session_def put_sess_def)
    with rel True one show ?thesis by auto
  qed
qed

lemma round_exhausted:
  assumes wait: "waiting node s" and last: "exhausted node"
  shows "\<exists>s'. write_round s = Some (-1, s') \<and> c_sendqueue s' = [] \<and> sends (c_world s') = sends (c_world s) \<and>
    c_nacks s' = c_nacks s @ [(q_session node, COAP_NACK_TOO_MANY_RETRIES, q_id node)]"
proof -
  let ?a = "q_session node" and ?p = "q_packet node"
  from wait obtain x where q: "c_sendqueue s = [node]" "?a \<noteq> 0" "pk_code ?p < 64" "c_nack_handler s"
    "pk_type ?p = COAP_TYPE_CON" and x: "c_sess s ?a = Some x" "ss_proto x = COAP_UDP" "ss_endpoint x = 0"
    "ss_sendqueue x = []" "2 \<le> unat (ss_ref x)"
    by (auto simp: waiting_def)
  let ?l = "c_nacks s @ [(?a, COAP_NACK_TOO_MANY_RETRIES, q_id node)]"
  let ?s1 = "s\<lparr>c_sendqueue := [], c_nacks := ?l\<rparr>"
  have r1: "0 < ss_ref x" "1 < unat (ss_ref x)" using x(5) by (simp_all add: word_less_nat_alt)
  have u: "unat (ss_ref x - 1) = unat (ss_ref x) - 1"
    using r1 by (subst unat_sub) (simp_all add: word_le_nat_alt word_less_nat_alt)
  then have r2: "0 < ss_ref x - 1" using x(5) by (simp add: word_less_nat_alt)
  from release_plain [of ?s1 ?a x] q x r1 obtain s2 where s2: "coap_session_release ?a ?s1 = Some s2"
    "c_sendqueue s2 = []" "c_nacks s2 = ?l" "sends (c_world s2) = sends (c_world s)"
    "c_sess s2 ?a = Some (x\<lparr>ss_ref := ss_ref x - 1\<rparr>)" by auto
  from release_plain [OF s2(5)] q x r2 s2 obtain s3 where s3: "coap_session_release ?a s2 = Some s3"
    "c_sendqueue s3 = []" "c_nacks s3 = ?l" "sends (c_world s3) = sends (c_world s)" by auto
  have "\<not> q_retransmit_cnt node < COAP_DEFAULT_MAX_RETRANSMIT" "\<not> 64 \<le> pk_code ?p"
    using last q(3) by (simp_all add: exhausted_def)
  with q s2 s3 show ?thesis
    by (simp add: write_round_def artik_coap_pop_next_def add_head_def artik_coap_retransmit_def
        artik_coap_delete_node_def nack_def)
qed

fun rounds :: "nat \<Rightarrow> coap_context_t \<Rightarrow> coap_context_t option" where
  "rounds 0 s = Some s"
| "rounds (Suc n) s = do { s \<leftarrow> rounds n s; (r, s) \<leftarrow> write_round s; Some s }"

definition attempt :: "nat \<Rightarrow> coap_queue_t \<Rightarrow> coap_queue_t" where
  "attempt k node =
     (if k = 0 then node else node\<lparr>q_t := push_bit k (q_timeout node), q_retransmit_cnt := of_nat k\<rparr>)"

lemma sent_again_attempt:
  assumes "q_retransmit_cnt node = 0" and "k < 4"
  shows "sent_again (attempt k node) = attempt (Suc k) node"
proof -
  have "unat ((of_nat k :: u8) + 1) = Suc k" using assms(2) by (simp add: unat_word_ariths take_bit_nat_eq_self unat_of_nat)
  with assms(1) show ?thesis by (auto simp: sent_again_def attempt_def add.commute)
qed

lemma attempt_exhausted:
  assumes "q_retransmit_cnt node = 0" and "k \<le> 4"
  shows "exhausted (attempt k node) \<longleftrightarrow> k = 4"
  using assms by (auto simp: exhausted_def attempt_def COAP_DEFAULT_MAX_RETRANSMIT_def word_le_nat_alt unat_of_nat)

lemma rounds_waiting:
  assumes "waiting node s" and "q_retransmit_cnt node = 0"
  shows "k \<le> 4 \<Longrightarrow> \<exists>s'. rounds k s = Some s' \<and> waiting (attempt k node) s' \<and>
    sends (c_world s') = sends (c_world s) + k \<and> c_nacks s' = c_nacks s"
proof (induction k)
  case 0
  with assms show ?case by (simp add: attempt_def)
next
  case (Suc k)
  then obtain s1 where s1: "rounds k s = Some s1" "waiting (attempt k node) s1"
    "sends (c_world s1) = sends (c_world s) + k" "c_nacks s1 = c_nacks s" by auto
  have "\<not> exhausted (attempt k node)" using attempt_exhausted [OF assms(2), of k] Suc.prems by simp
  from round_again [OF s1(2) this] sent_again_attempt [OF assms(2), of k] Suc.prems s1 show ?case by auto
qed

lemma attempt_message: "q_session (attempt k node) = q_session node" "q_packet (attempt k node) = q_packet node"
  by (simp_all add: attempt_def)

text \<open>
  C9. The schedule of one confirmable message that is never acknowledged.  It waits alone in the send
  queue, with a request code, on an established UDP session of the client side that has a socket and
  that the application holds a reference to, and there is a nack handler (\<open>waiting\<close>).  The first four
  rounds of retransmission each hand the same message to the sender and send one datagram; round
  \<open>k + 1\<close> leaves the message in the queue, due again exactly when \<open>2 ^ (k + 1)\<close> times its first timeout
  (in 32 bits) has passed since the clock was read in that round.  The fifth round sends nothing, takes the message
  out of the queue and reports it to the nack handler, once.
\<close>

theorem coap_retransmission_schedule:
  assumes "waiting node s" and "q_retransmit_cnt node = 0"
  shows "(\<forall>k < 4. \<exists>s1 s2. rounds k s = Some s1 \<and> rounds (Suc k) s = Some s2 \<and>
      sends (c_world s2) = sends (c_world s) + Suc k \<and> c_nacks s2 = c_nacks s \<and>
      messages s2 = messages s1 @ [message (q_session node) (q_packet node)] \<and>
      c_sendqueue s2 = [node\<lparr>q_t := push_bit (Suc k) (q_timeout node), q_retransmit_cnt := of_nat (Suc k)\<rparr>] \<and>
      (\<forall>now. is_due now s2 \<longleftrightarrow>
         fst (coap_ticks s1) \<le> now \<and> push_bit (Suc k) (q_timeout node) \<le> now - fst (coap_ticks s1))) \<and>
    (\<exists>s'. rounds 5 s = Some s' \<and> sends (c_world s') = sends (c_world s) + 4 \<and> c_sendqueue s' = [] \<and>
      c_nacks s' = c_nacks s @ [(q_session node, COAP_NACK_TOO_MANY_RETRIES, q_id node)])"
proof (intro conjI allI impI)
  fix k :: nat
  assume k: "k < 4"
  with rounds_waiting [OF assms, of k] obtain s1 where s1: "rounds k s = Some s1" "waiting (attempt k node) s1"
    "sends (c_world s1) = sends (c_world s) + k" "c_nacks s1 = c_nacks s" by auto
  have "\<not> exhausted (attempt k node)" using attempt_exhausted [OF assms(2), of k] k by simp
  from round_again [OF s1(2) this] obtain r s2 where s2: "write_round s1 = Some (r, s2)"
    "waiting (attempt (Suc k) node) s2" "sends (c_world s2) = sends (c_world s1) + 1" "c_nacks s2 = c_nacks s1"
    "messages s2 = messages s1 @ [message (q_session node) (q_packet node)]" "c_basetime s2 = fst (coap_ticks s1)"
    by (auto simp: sent_again_attempt [OF assms(2) k] attempt_message)
  then have q: "c_sendqueue s2 = [node\<lparr>q_t := push_bit (Suc k) (q_timeout node), q_retransmit_cnt := of_nat (Suc k)\<rparr>]"
    by (simp add: waiting_def attempt_def)
  have "is_due now s2 \<longleftrightarrow> fst (coap_ticks s1) \<le> now \<and> push_bit (Suc k) (q_timeout node) \<le> now - fst (coap_ticks s1)" for now
    by (simp add: is_due_def q s2(6) artik_coap_peek_next_def)
  moreover have "rounds (Suc k) s = Some s2" using s1(1) s2(1) by simp
  moreover have "sends (c_world s2) = sends (c_world s) + Suc k" "c_nacks s2 = c_nacks s" using s1(3,4) s2(3,4) by simp_all
  ultimately show "\<exists>s1 s2. rounds k s = Some s1 \<and> rounds (Suc k) s = Some s2 \<and>
      sends (c_world s2) = sends (c_world s) + Suc k \<and> c_nacks s2 = c_nacks s \<and>
      messages s2 = messages s1 @ [message (q_session node) (q_packet node)] \<and>
      c_sendqueue s2 = [node\<lparr>q_t := push_bit (Suc k) (q_timeout node), q_retransmit_cnt := of_nat (Suc k)\<rparr>] \<and>
      (\<forall>now. is_due now s2 \<longleftrightarrow>
         fst (coap_ticks s1) \<le> now \<and> push_bit (Suc k) (q_timeout node) \<le> now - fst (coap_ticks s1))"
    using s1(1) s2(5) q by blast
next
  from rounds_waiting [OF assms, of 4] obtain s4 where s4: "rounds 4 s = Some s4" "waiting (attempt 4 node) s4"
    "sends (c_world s4) = sends (c_world s) + 4" "c_nacks s4 = c_nacks s" by auto
  have "exhausted (attempt 4 node)" using attempt_exhausted [OF assms(2), of 4] by simp
  from round_exhausted [OF s4(2) this] s4 show "\<exists>s'. rounds 5 s = Some s' \<and> sends (c_world s') = sends (c_world s) + 4 \<and>
      c_sendqueue s' = [] \<and> c_nacks s' = c_nacks s @ [(q_session node, COAP_NACK_TOO_MANY_RETRIES, q_id node)]"
    by (auto simp: attempt_def eval_nat_numeral)
qed

text \<open>A client session 8 with one message queued, held by the application and the message.\<close>

definition ex_client :: "u8 \<Rightarrow> coap_session_t" where
  "ex_client ref = \<lparr>ss_proto = COAP_UDP, ss_type = COAP_SESSION_TYPE_CLIENT, ss_state = COAP_SESSION_STATE_ESTABLISHED,
     ss_context = True, ss_endpoint = 0, ss_tls = False, ss_sendqueue = [], ss_last_rx_tx = 0, ss_ref = ref,
     ss_remote = ex_address 2, ss_local = ex_address 1, ss_sock = True, ss_newly_created = False, ss_tx_mid = 0\<rparr>"

definition ex_queued :: "coap_queue_t list \<Rightarrow> u8 \<Rightarrow> coap_context_t" where
  "ex_queued queue ref = ex_context\<lparr>c_sendqueue := queue, c_sessions := [8], c_sess := [8 \<mapsto> ex_client ref], c_next := 9\<rparr>"

lemma ex_queued_waiting: "waiting (ex_node 0 8 1) (ex_queued [ex_node 0 8 1] 2)"
  by (simp add: waiting_def ex_queued_def ex_node_def ex_packet_def ex_client_def ex_context_def)

lemma coap_retransmission_schedule_witness:
  "(\<exists>s1 s2. rounds 2 (ex_queued [ex_node 0 8 1] 2) = Some s1 \<and> rounds 3 (ex_queued [ex_node 0 8 1] 2) = Some s2 \<and>
      sends (c_world s2) = sends (c_world (ex_queued [ex_node 0 8 1] 2)) + 3 \<and>
      c_sendqueue s2 = [ex_node 0 8 1\<lparr>q_t := 16000, q_retransmit_cnt := 3\<rparr>] \<and>
      (is_due 16000 s2 \<longleftrightarrow> fst (coap_ticks s1) \<le> 16000 \<and> 16000 \<le> 16000 - fst (coap_ticks s1))) \<and>
    (\<exists>s'. rounds 5 (ex_queued [ex_node 0 8 1] 2) = Some s' \<and>
      sends (c_world s') = sends (c_world (ex_queued [ex_node 0 8 1] 2)) + 4 \<and> c_sendqueue s' = [] \<and>
      c_nacks s' = c_nacks (ex_queued [ex_node 0 8 1] 2) @ [(8, COAP_NACK_TOO_MANY_RETRIES, 1)])"
proof -
  have "q_retransmit_cnt (ex_node 0 8 1) = 0" by (simp add: ex_node_def)
  note schedule = coap_retransmission_schedule [OF ex_queued_waiting this]
  have t: "q_timeout (ex_node 0 8 1) = 2000" "q_session (ex_node 0 8 1) = 8" "q_id (ex_node 0 8 1) = 1"
    by (simp_all add: ex_node_def)
  have p: "push_bit 3 (2000 :: u32) = 16000" "Suc 2 = 3" by (simp_all add: push_bit_eq_mult)
  have e: "(of_nat 3 :: u8) = 3" by simp
  have l: "(2 :: nat) < 4" by simp
  from schedule [THEN conjunct1, THEN spec, THEN mp, OF l] schedule [THEN conjunct2] show ?thesis
    unfolding t p e by blast
qed

text \<open>Dropping the last reference of a client session frees it.\<close>

lemma freed_by_release:
  assumes "c_sess s a = Some x" "a \<noteq> 0" "ss_ref x = 0 \<or> ss_ref x = 1" "ss_type x = COAP_SESSION_TYPE_CLIENT"
    "ss_proto x = COAP_UDP" "ss_endpoint x = 0" "ss_sendqueue x = []"
  shows "\<exists>s'. coap_session_release a s = Some s' \<and> c_sess s' a = None"
  using assms by (auto simp: coap_session_release_def coap_session_free_def unlink_session_def Let_def)

text \<open>
  C28. Two confirmable messages of one client session that both run out of attempts make the engine
  read freed memory: giving up the first one drops its reference and the application's, giving up
  the second one drops its own as the application's, which frees the session, and releases it again.
\<close>

theorem coap_retransmit_two_exhausted:
  assumes "c_sendqueue s = [p, q]" and "q_session p = a" and "q_session q = a" and "a \<noteq> 0"
    and "\<forall>n \<in> {p, q}. exhausted n \<and> pk_type (q_packet n) = COAP_TYPE_CON \<and> pk_code (q_packet n) < 64"
    and "c_nack_handler s" and "c_sess s a = Some x" and "ss_ref x = 3" and "ss_type x = COAP_SESSION_TYPE_CLIENT"
    and "ss_proto x = COAP_UDP" and "ss_endpoint x = 0" and "ss_sendqueue x = []"
  shows "\<exists>s'. write_round s = Some (-1, s') \<and> write_round s' = None"
proof -
  let ?q = "q\<lparr>q_t := q_t q + q_t p\<rparr>"
  let ?l = "c_nacks s @ [(a, COAP_NACK_TOO_MANY_RETRIES, q_id p)]"
  have ex: "\<not> q_retransmit_cnt n < COAP_DEFAULT_MAX_RETRANSMIT" "\<not> 64 \<le> pk_code (q_packet n)"
    "pk_type (q_packet n) = COAP_TYPE_CON" if "n \<in> {p, q}" for n
    using assms(5) that by (auto simp: exhausted_def)
  let ?s1 = "put_sess a (x\<lparr>ss_ref := 1\<rparr>) (s\<lparr>c_sendqueue := [?q], c_nacks := ?l\<rparr>)"
  have one: "write_round s = Some (-1, ?s1)"
    using assms ex [of p]
    by (simp add: write_round_def artik_coap_pop_next_def add_head_def artik_coap_retransmit_def
        artik_coap_delete_node_def nack_def coap_session_release_def put_sess_def)
  let ?u = "?s1\<lparr>c_sendqueue := [], c_nacks := ?l @ [(a, COAP_NACK_TOO_MANY_RETRIES, q_id q)]\<rparr>"
  from freed_by_release [of ?u a "x\<lparr>ss_ref := 1\<rparr>"] assms
  obtain t where t: "coap_session_release a ?u = Some t" "c_sess t a = None" by (auto simp: put_sess_def)
  then have "coap_session_release a t = None" using assms(4) by (simp add: coap_session_release_def)
  with t assms ex [of q] have "write_round ?s1 = None"
    by (simp add: write_round_def artik_coap_pop_next_def add_head_def artik_coap_retransmit_def
        artik_coap_delete_node_def nack_def put_sess_def)
  with one show ?thesis by blast
qed

lemma coap_retransmit_two_exhausted_witness:
  "\<exists>s'. write_round (ex_queued [ex_node 0 8 1\<lparr>q_retransmit_cnt := 4\<rparr>, ex_node 0 8 2\<lparr>q_retransmit_cnt := 4\<rparr>] 3) =
      Some (-1, s') \<and> write_round s' = None"
  by (rule coap_retransmit_two_exhausted [where a = 8 and x = "ex_client 3"
        and p = "ex_node 0 8 1\<lparr>q_retransmit_cnt := 4\<rparr>" and q = "ex_node 0 8 2\<lparr>q_retransmit_cnt := 4\<rparr>"])
    (simp_all add: ex_queued_def ex_node_def ex_packet_def ex_client_def ex_context_def exhausted_def
        COAP_DEFAULT_MAX_RETRANSMIT_def)

text \<open>
  The count has eight bits: with 255 references to a client session, one more queued message
  wraps it to zero, and the next release, of a single reference, frees the session under all the
  others.
\<close>

theorem coap_reference_count_wraps:
  assumes "c_sess s a = Some x" and "a \<noteq> 0" and "ss_ref x = 255" and "ss_type x = COAP_SESSION_TYPE_CLIENT"
    and "ss_proto x = COAP_UDP" and "ss_endpoint x = 0" and "ss_sendqueue x = []"
  shows "\<exists>s1 s2 x1. coap_wait_ack a node s = Some (q_id node, s1) \<and> c_sess s1 a = Some x1 \<and> ss_ref x1 = 0 \<and>
    coap_session_release a s1 = Some s2 \<and> c_sess s2 a = None \<and> 0 < q_count (c_sendqueue s2) a"
proof -
  have zero: "ss_ref x + 1 = 0" using assms(3) by simp
  let ?s = "put_sess a (x\<lparr>ss_ref := 0\<rparr>) s"
  obtain now w where t: "coap_ticks ?s = (now, ?s\<lparr>c_world := w\<rparr>)" by (rule coap_ticksE)
  let ?s1 = "queue_at now (q_timeout node) (node\<lparr>q_session := a\<rparr>) (?s\<lparr>c_world := w\<rparr>)"
  have wait: "coap_wait_ack a node s = Some (q_id node, ?s1)"
    using t by (simp add: coap_wait_ack_def coap_session_reference_def assms(1) zero)
  have x1: "c_sess ?s1 a = Some (x\<lparr>ss_ref := 0\<rparr>)" by (simp add: queue_at_def Let_def)
  have "0 < q_count (c_sendqueue ?s1) a" by (simp add: queue_at_def Let_def)
  moreover from freed_by_release [OF x1] assms obtain s2 where s2: "coap_session_release a ?s1 = Some s2" "c_sess s2 a = None"
    by auto
  ultimately show ?thesis using wait x1 coap_session_release_queue [OF s2(1)] by fastforce
qed

lemma coap_reference_count_wraps_witness:
  "\<exists>s1 s2 x1. coap_wait_ack 8 (ex_node 0 0 1) (ex_queued [] 255) = Some (q_id (ex_node 0 0 1), s1) \<and>
    c_sess s1 8 = Some x1 \<and> ss_ref x1 = 0 \<and> coap_session_release 8 s1 = Some s2 \<and> c_sess s2 8 = None \<and>
    0 < q_count (c_sendqueue s2) 8"
  by (rule coap_reference_count_wraps [where x = "ex_client 255"]) (simp_all add: ex_queued_def ex_client_def)

section \<open>Endpoints\<close>

text \<open>
  C13. A lookup on an endpoint always ends well: it returns the session of the two addresses, or a
  new one, marked as used now; it frees a session only when the endpoint has its maximum of idle
  ones, and then the one that has been idle for longest; and it never raises the number of idle
  sessions above that maximum.
\<close>

theorem coap_endpoint_get_session_bounded:
  assumes "coap_reachable app s" and "c_endpoints s e = Some ep"
  shows "\<exists>a s'. coap_endpoint_get_session e dst src now s = Some (a, s') \<and>
    (a \<noteq> 0 \<longrightarrow>
       (\<exists>ep x. c_endpoints s' e = Some ep \<and> a \<in> set (ep_sessions ep) \<and> c_sess s' a = Some x \<and>
         ss_last_rx_tx x = now \<and> (ss_local x = dst \<or> coap_address_equals (ss_local x) dst) \<and>
         (ss_remote x = src \<or> coap_address_equals (ss_remote x) src))) \<and>
    (\<forall>b x. c_sess s b = Some x \<and> c_sess s' b = None \<longrightarrow>
       is_idle x \<and> c_max_idle s \<le> idle_count s e \<and>
       (\<forall>c y. c \<in> set (ep_sessions ep) \<and> c_sess s c = Some y \<and> is_idle y \<longrightarrow> ss_last_rx_tx x \<le> ss_last_rx_tx y)) \<and>
    (0 < c_max_idle s \<longrightarrow> idle_count s' e \<le> max (c_max_idle s) (idle_count s e))"
proof -
  from coap_endpoint_get_session_ok [OF coap_reachable_inv [OF assms(1)] assms(2), of dst src now]
  obtain a s' where g: "coap_endpoint_get_session e dst src now s = Some (a, s')" "lookup_ok e dst src now a s s'" by blast
  from g(2) assms(2) have "\<forall>b x. c_sess s b = Some x \<and> c_sess s' b = None \<longrightarrow>
      is_idle x \<and> c_max_idle s \<le> idle_count s e \<and>
      (\<forall>c y. c \<in> set (ep_sessions ep) \<and> c_sess s c = Some y \<and> is_idle y \<longrightarrow> ss_last_rx_tx x \<le> ss_last_rx_tx y)"
    by (auto simp: lookup_ok_def oldest_of_def)
  with g(1) g(2) [unfolded lookup_ok_def] show ?thesis
    by (intro exI [of _ a] exI [of _ s'] conjI) blast+
qed

lemma ex_looked_up_sessions: "c_endpoints ex_looked_up 4 = Some \<lparr>ep_proto = COAP_UDP, ep_sessions = [8]\<rparr>"
  by (simp add: ex_looked_up_def ex_context_def coap_endpoint_get_session_def new_server_session_def
      coap_make_session_def ext_call_def ext_def call_def ex_world_def link_session_def put_sess_def Let_def)

lemma coap_endpoint_get_session_bounded_witness:
  "\<exists>a s'. coap_endpoint_get_session 4 (ex_address 1) (ex_address 3) 9 ex_looked_up = Some (a, s') \<and>
    idle_count s' 4 \<le> 1"
proof -
  have "c_max_idle ex_looked_up = 1"
    by (simp add: ex_looked_up_def ex_context_def coap_endpoint_get_session_def new_server_session_def
        coap_make_session_def ext_call_def ext_def call_def ex_world_def link_session_def put_sess_def Let_def)
  moreover have "idle_count ex_looked_up 4 \<le> 1"
    using length_filter_le [of "idle_at (c_sess ex_looked_up)" "[8]"] by (simp add: idle_count_def ex_looked_up_sessions)
  ultimately show ?thesis
    using coap_endpoint_get_session_bounded [OF ex_looked_up_reachable ex_looked_up_sessions,
        of "ex_address 1" "ex_address 3" 9] by fastforce
qed

lemma free_sessions_cases:
  assumes "c_sess s 0 = None" "\<forall>a \<in> set as. \<forall>x. c_sess s a = Some x \<longrightarrow> ss_ref x \<noteq> 0"
    "\<forall>a \<in> set as. c_sess s a \<noteq> None"
  shows "free_sessions as s = Some s"
  using assms by (induction as) (auto simp: Let_def)

lemma free_sessions_None:
  "c_sess s 0 = None \<Longrightarrow> a \<in> set as \<Longrightarrow> c_sess s a = Some x \<Longrightarrow> ss_ref x = 0 \<Longrightarrow> free_sessions as s = None"
proof (induction as)
  case (Cons b as)
  show ?case
  proof (cases "c_sess s b")
    case (Some y)
    then have b0: "b \<noteq> 0" using Cons.prems(1) by (cases "b = 0") auto
    show ?thesis
    proof (cases "ss_ref y = 0")
      case True
      have "c_sess t b = None" if "coap_session_free b (put_sess b (y\<lparr>ss_endpoint := 0, ss_context := False\<rparr>) s) = Some t" for t
        using that b0 True by (auto simp: coap_session_free_def Let_def split: if_splits option.splits)
      with Some True show ?thesis
        by (cases "coap_session_free b (put_sess b (y\<lparr>ss_endpoint := 0, ss_context := False\<rparr>) s)") auto
    next
      case False
      with Cons Some have "b \<noteq> a" by auto
      with Cons Some False show ?thesis by auto
    qed
  qed simp
qed simp

text \<open>
  C40. \<^verbatim>\<open>coap_free_endpoint\<close> ends without touching freed memory only when every session of the endpoint
  is still referenced, and then frees none of them: the first session that nobody uses is freed,
  and its \<^verbatim>\<open>next\<close> field is read afterwards.
\<close>

theorem coap_free_endpoint_use_after_free:
  assumes "coap_reachable app s" and "e \<noteq> 0" and "c_endpoints s e = Some ep"
  shows "((\<exists>s'. coap_free_endpoint e s = Some s') \<longleftrightarrow>
      (\<forall>a \<in> set (ep_sessions ep). \<forall>x. c_sess s a = Some x \<longrightarrow> ss_ref x \<noteq> 0)) \<and>
    (\<forall>s'. coap_free_endpoint e s = Some s' \<longrightarrow> c_sess s' = c_sess s)"
proof -
  note inv = coap_reachable_inv [OF assms(1)]
  obtain w where w: "snd (ext_call ''close'' [int e] s) = s\<lparr>c_world := w\<rparr>"
    using ext_call_world [of "''close''" "[int e]" s] by auto
  have z: "c_sess (s\<lparr>c_world := w\<rparr>) 0 = None" using coap_inv_Some [OF inv, of 0] by (cases "c_sess s 0") auto
  have live: "\<forall>a \<in> set (ep_sessions ep). c_sess (s\<lparr>c_world := w\<rparr>) a \<noteq> None"
    using coap_inv_linked [OF inv assms(3)] by auto
  let ?used = "\<forall>a \<in> set (ep_sessions ep). \<forall>x. c_sess s a = Some x \<longrightarrow> ss_ref x \<noteq> 0"
  have yes: "coap_free_endpoint e s = Some (s\<lparr>c_world := w, c_endpoints := (c_endpoints s)(e := None)\<rparr>)" if ?used
    using free_sessions_cases [OF z _ live] assms(2,3) w that by (simp add: coap_free_endpoint_def)
  have no: "coap_free_endpoint e s = None" if "\<not> ?used"
  proof -
    from that obtain a x where "a \<in> set (ep_sessions ep)" "c_sess s a = Some x" "ss_ref x = 0" by blast
    with free_sessions_None [OF z, of a "ep_sessions ep" x] assms(2,3) w show ?thesis
      by (simp add: coap_free_endpoint_def)
  qed
  show ?thesis
  proof (cases ?used)
    case True
    from yes [OF this] True show ?thesis by simp
  next
    case False
    from no [OF this] False show ?thesis by simp
  qed
qed

lemma coap_free_endpoint_use_after_free_witness:
  "(\<exists>s'. coap_free_endpoint 4 ex_context = Some s') \<and> coap_free_endpoint 4 ex_looked_up = None"
proof -
  have "c_endpoints ex_context 4 = Some \<lparr>ep_proto = COAP_UDP, ep_sessions = []\<rparr>" by (simp add: ex_context_def)
  from coap_free_endpoint_use_after_free [OF coap_reachable.fresh [OF ex_context_fresh] _ this]
    coap_free_endpoint_use_after_free [OF ex_looked_up_reachable _ ex_looked_up_sessions] ex_looked_up_session
  show ?thesis by auto
qed

section \<open>Responses answer their requests\<close>

text \<open>
  C30. The response to a request, through the whole dispatch of a received message.  A request with a
  token of at most eight bytes is dispatched with the memory it needs and handlers that leave the
  header of the response alone.  The engine hands at most one message to the sender, to the session
  of the request: an acknowledgement for a confirmable request and a plain message otherwise, with
  the id of the request and its token (an empty acknowledgement has none).  A confirmable request
  gets one, other than for the list of resources.  Its code is 4.02 for an unknown critical option,
  4.04 for a resource that does not exist and 4.05 for a method without a handler; a request that is
  not confirmable and has an unknown option gets none.
\<close>

theorem coap_responses_answer:
  assumes "artik_coap_dispatch lib rs opts rcvd unknown_option s = Some s'" and "memory s" and "header_handlers rs"
    and "length (pk_token (q_packet rcvd)) \<le> 8" and "COAP_MESSAGE_IS_REQUEST (q_packet rcvd)"
    and "pk_type (q_packet rcvd) \<in> {COAP_TYPE_CON, COAP_TYPE_NON}"
  defines "sent \<equiv> \<lambda>p. answers (q_packet rcvd) p \<and> messages s' = messages s @ [message (q_session rcvd) p]"
  shows "(messages s' = messages s \<or> (\<exists>p. sent p)) \<and>
    (pk_type (q_packet rcvd) = COAP_TYPE_CON \<and> (unknown_option \<or> \<not> asks_list rs opts (q_packet rcvd)) \<longrightarrow> (\<exists>p. sent p)) \<and>
    (\<forall>code. refusal rs opts (q_packet rcvd) unknown_option = Some code \<and>
        (unknown_option \<longrightarrow> pk_type (q_packet rcvd) = COAP_TYPE_CON) \<longrightarrow> (\<exists>p. sent p \<and> pk_code p = code)) \<and>
    (unknown_option \<and> pk_type (q_packet rcvd) = COAP_TYPE_NON \<longrightarrow> messages s' = messages s)"
proof -
  let ?packet = "q_packet rcvd" and ?a = "q_session rcvd"
  have a: "(\<exists>p. sent p \<and> (\<forall>c. code = Some c \<longrightarrow> pk_code p = c)) = answered ?a ?packet code s s'" for code
    by (auto simp: answered_def sent_def)
  have s: "answered ?a ?packet code s s' \<Longrightarrow> \<exists>p. sent p" for code by (auto simp: answered_def sent_def)
  note d = dispatch_answered [OF assms(1-6)]
  show ?thesis
  proof (cases unknown_option)
    case True
    then have "refusal rs opts ?packet unknown_option = Some (COAP_RESPONSE_CODE 402)" by (simp add: refusal_def)
    with d True a [of "Some (COAP_RESPONSE_CODE 402)"] show ?thesis by (auto split: if_splits)
  next
    case False
    have no: "asks_list rs opts ?packet \<Longrightarrow> refusal rs opts ?packet False = None" by (simp add: refusal_def)
    with d False a [of "refusal rs opts ?packet False"] a [of None] s show ?thesis
      by (auto simp: request_answered_def split: if_splits)
  qed
qed

section \<open>The server\<close>

text \<open>
  An example: a library that takes every datagram for a request of GET /t that registers an observer,
  and one observable resource with a handler of GET.
\<close>

definition ex_lib :: coap_library where
  "ex_lib = \<lparr>lb_parse = (\<lambda>msg. (Some False, \<lparr>pk_type = COAP_TYPE_CON, pk_code = COAP_GET, pk_mid = 7, pk_token = [1]\<rparr>,
       \<lparr>rq_uri_path = Some [''t''], rq_uri_query = [], rq_observe = Some 0, rq_block2 = None\<rparr>)),
     lb_header_len = 4,
     lb_multi_option_as_string = (\<lambda>_. None), lb_wellknown = ex_env\<rparr>"

definition ex_get :: coap_method_handler_t where
  "ex_get a request token query response = response\<lparr>pk_code := COAP_RESPONSE_CODE 205\<rparr>"

definition ex_server_resource :: coap_server_resource where
  "ex_server_resource = (the (coap_register_handler 1 (Some ex_get) (server_resource_init ''t'' False)))\<lparr>r_observable := True\<rparr>"

lemma ex_server_resource_fields:
  "r_observable ex_server_resource" "r_handler ex_server_resource ! 0 = Some ex_get" "length (r_handler ex_server_resource) = 7"
  "\<not> r_notify_con ex_server_resource" "r_key ex_server_resource = snd (artik_coap_hash_path (Some ''t'') (0, 0, 0, 0))"
  by (simp_all add: ex_server_resource_def coap_register_handler_def server_resource_init_def artik_coap_resource_init_def
      coap_resource_t.defs)

lemma ex_path_key: "snd (artik_coap_hash_path (Some ''t'') (0, 0, 0, 0)) = artik_coap_hash_request_uri (Some [''t''])"
  by (simp add: artik_coap_hash_path_def artik_coap_hash_request_uri_def dots_def)

lemma ex_find: "find_resource [ex_server_resource] (request_key \<lparr>rq_uri_path = Some [''t''], rq_uri_query = q, rq_observe = b, rq_block2 = c\<rparr>) = Some 0"
  by (simp add: find_resource_def request_key_def ex_server_resource_fields ex_path_key)

lemma ex_get_facts: "keeps_type ex_get" "keeps_header ex_get" "accepted ex_get packet opts"
proof -
  have "COAP_RESPONSE_CLASS (COAP_RESPONSE_CODE 205) \<le> 2"
    by code_simp
  then show "accepted ex_get packet opts" by (simp add: accepted_def ex_get_def)
qed (simp_all add: keeps_type_def keeps_header_def ex_get_def)

lemma ex_registration: "registration_message ex_lib [ex_server_resource] 0 [1] [0x40, 1, 0, 7]"
proof -
  have "COAP_DEFAULT_VERSION = drop_bit 6 0x40 AND 3" by code_simp
  moreover have "method_handler ex_server_resource \<lparr>pk_type = COAP_TYPE_CON, pk_code = COAP_GET, pk_mid = 7, pk_token = [1]\<rparr> = Some ex_get"
    using ex_server_resource_fields(2,3) by (simp add: method_handler_def COAP_GET_def)
  ultimately show ?thesis
    by (simp add: registration_message_def registration_def ex_lib_def ex_find ex_get_facts registers_def
        ex_server_resource_fields COAP_GET_def COAP_OBSERVE_CANCEL_def COAP_MESSAGE_IS_REQUEST_def)
qed

lemma ex_looked_up_memory: "memory ex_looked_up"
  by (simp add: ex_looked_up_def ex_context_def coap_endpoint_get_session_def new_server_session_def memory_def
      coap_make_session_def ext_call_def ext_def call_def ex_world_def link_session_def put_sess_def Let_def)

text \<open>A request of another resource on session 8, which the node holds a reference to.\<close>

definition ex_get_u :: coap_packet_t where
  "ex_get_u = \<lparr>pk_type = COAP_TYPE_CON, pk_code = COAP_GET, pk_mid = 7, pk_token = [1]\<rparr>"

definition ex_options_u :: request_options where
  "ex_options_u = \<lparr>rq_uri_path = Some [''u''], rq_uri_query = [], rq_observe = None, rq_block2 = None\<rparr>"

lemma ex_find_u: "find_resource [ex_server_resource] (request_key ex_options_u) = None" "\<not> is_wkc (request_key ex_options_u)"
proof -
  have k: "artik_coap_hash_request_uri (Some [''t'']) \<noteq> artik_coap_hash_request_uri (Some [''u''])"
    "\<not> is_wkc (artik_coap_hash_request_uri (Some [''u'']))" by code_simp+
  then show "find_resource [ex_server_resource] (request_key ex_options_u) = None" "\<not> is_wkc (request_key ex_options_u)"
    by (simp_all add: find_resource_def request_key_def ex_server_resource_fields ex_path_key ex_options_u_def)
qed

definition ex_received_u :: coap_queue_t where
  "ex_received_u = (artik_coap_new_node ex_get_u)\<lparr>q_session := 8\<rparr>"

definition ex_held :: coap_context_t where
  "ex_held = the (coap_session_reference 8 ex_looked_up)"

lemma coap_responses_answer_witness:
  "\<exists>s' p. artik_coap_dispatch ex_lib [ex_server_resource] ex_options_u ex_received_u False ex_held = Some s' \<and>
    answers ex_get_u p \<and> messages s' = messages ex_held @ [message 8 p] \<and> pk_code p = COAP_RESPONSE_CODE 404"
proof -
  from ex_looked_up_session obtain x where x: "c_sess ex_looked_up 8 = Some x" "ss_ref x = 0" by blast
  note inv = coap_reachable_inv [OF ex_looked_up_reachable]
  have h: "held ex_looked_up 8 = 0" using ex_looked_up_lists by (simp add: held_def sub_count_def)
  from coap_session_reference_ok [OF inv x(1)] h have ref: "coap_session_reference 8 ex_looked_up = Some ex_held"
    "coap_inv (take_ref 8 (\<lambda>_. 0)) ex_held" by (simp_all add: ex_held_def)
  have f: "memory ex_held" using memory_blocks [OF blocks_reference [OF ref(1)]] ex_looked_up_memory by simp
  have n: "q_session ex_received_u = 8" "q_packet ex_received_u = ex_get_u" by (simp_all add: ex_received_u_def artik_coap_new_node_def)
  have req: "COAP_MESSAGE_IS_REQUEST ex_get_u" "pk_type ex_get_u = COAP_TYPE_CON" "length (pk_token ex_get_u) \<le> 8"
    by (simp_all add: ex_get_u_def COAP_MESSAGE_IS_REQUEST_def COAP_GET_def)
  have refuse: "refusal [ex_server_resource] ex_options_u ex_get_u False = Some (COAP_RESPONSE_CODE 404)"
    using ex_find_u by (simp add: refusal_def asks_list_def)
  have hh: "header_handlers [ex_server_resource]"
    using ex_get_facts(2) by (auto simp: header_handlers_def ex_server_resource_def coap_register_handler_def
        server_resource_init_def artik_coap_resource_init_def coap_resource_t.defs eval_nat_numeral)
  obtain s' where s': "artik_coap_dispatch ex_lib [ex_server_resource] ex_options_u ex_received_u False ex_held = Some s'"
  proof -
    have "ex_held = put_sess 8 (x\<lparr>ss_ref := ss_ref x + 1\<rparr>) ex_looked_up"
      using x by (simp add: ex_held_def coap_session_reference_def)
    from arg_cong [OF this, of "\<lambda>s. held s 8"] have "held ex_held 8 = held ex_looked_up 8" by simp
    with h have "held ex_held 8 = 0" by simp
    moreover have "length (c_subscribers ex_held) = 1"
      using seenD [OF reference_seen [OF ref(1)]] ex_looked_up_lists by simp
    then have "message_ok ex_lib [ex_server_resource] ex_options_u 8 ex_get_u False ex_held"
      using ex_find_u by (simp add: message_ok_def request_ok_def wellknown_ok_def f)
    ultimately show ?thesis
      using artik_coap_dispatch_ok [of ex_received_u "\<lambda>_. 0" ex_held ex_lib "[ex_server_resource]" ex_options_u False] ref(2) n that
      by auto
  qed
  have "pk_type (q_packet ex_received_u) \<in> {COAP_TYPE_CON, COAP_TYPE_NON}" using n req by simp
  from coap_responses_answer [OF s' f hh _ _ this] n req refuse show ?thesis using s' by auto
qed

text \<open>
  C2. A client that registers as an observer twice with one token makes the server free the query of
  the observer a second time: the first registration leaves the observer with a query that
  \<^verbatim>\<open>artik_handle_request\<close> has freed at its end, the second one frees what the observer points to.  This
  holds for every two registrations, whatever their ids and queries.
\<close>

theorem coap_reregistration_double_free:
  assumes "coap_reachable app s" and "room 3 a app s" and "memory s" and "length rs = length (c_subscribers s)"
    and "registration_message lib rs i token msg" and "registration_message lib rs i token msg'"
    and "artik_coap_find_observer (c_subscribers s ! i) a (Some token) = None"
  shows "\<exists>s'. coap_handle_message lib rs a msg s = Some (0, s') \<and> coap_handle_message lib rs a msg' s' = None"
proof -
  from assms(2) obtain x where x: "c_sess s a = Some x" "held s a + app a < 253" by (auto simp: room_def)
  from first_registration [OF coap_reachable_inv [OF assms(1)] x assms(3,4,5,7)] obtain s' where
    "coap_handle_message lib rs a msg s = Some (0, s')" "coap_inv app s'" "stale i a token s'" "memory s'" by blast
  with second_registration [OF _ _ assms(6)] show ?thesis by blast
qed

lemma coap_reregistration_double_free_witness:
  "\<exists>s'. coap_handle_message ex_lib [ex_server_resource] 8 [0x40, 1, 0, 7] ex_looked_up = Some (0, s') \<and>
    coap_handle_message ex_lib [ex_server_resource] 8 [0x40, 1, 0, 7] s' = None"
proof -
  have "room 3 8 (\<lambda>_. 0) ex_looked_up"
    using ex_looked_up_session ex_looked_up_lists by (auto simp: room_def held_def sub_count_def)
  from coap_reregistration_double_free [OF ex_looked_up_reachable this ex_looked_up_memory _ ex_registration ex_registration]
    ex_looked_up_lists show ?thesis by (simp add: artik_coap_find_observer_def)
qed

text \<open>
  C16. Confirmable notifications keep coming.  In a reachable context an observable resource, whose
  handler of GET leaves the header of the message alone, changes six times, and its observers are
  told each time; there is memory, and each session has room for six references more for each of its
  observers, which the confirmable messages take.  Then all rounds succeed, and for each observer
  there is one among them that hands a message for every observer of the resource to the sender,
  with a confirmable one to the session of the observer, with its token, among them.
\<close>

theorem coap_notifications_confirmable:
  assumes "coap_reachable app s" and "i < length (c_subscribers s)" and "j < length (c_subscribers s ! i)" and "memory s"
    and "r_observable r" and "r_handler r ! 0 = Some f" and "keeps_header f"
    and "\<forall>sub \<in> set (c_subscribers s ! i). room (6 * s_count (c_subscribers s ! i) (sub_session sub)) (sub_session sub) app s"
  shows "notify_rounds 6 i r s \<noteq> None \<and>
    (\<exists>k < 6. \<exists>r1 s1 r2 s2 new p. notify_rounds k i r s = Some (r1, s1) \<and> notify_rounds (Suc k) i r s = Some (r2, s2) \<and>
       messages s2 = messages s1 @ new \<and> length new = length (c_subscribers s ! i) \<and>
       message (sub_session (c_subscribers s ! i ! j)) p \<in> set new \<and> pk_type p = COAP_TYPE_CON \<and>
       pk_token p = sub_token (c_subscribers s ! i ! j))"
proof -
  note inv = coap_reachable_inv [OF assms(1)]
  have type: "keeps_type f" using assms(7) by (simp add: keeps_header_def keeps_type_def)
  let ?row = "c_subscribers s ! i" and ?n = "non_counts i s ! j"
  have c: "count_list (watchers s ! i) b = s_count ?row b" for b
    using assms(2) by (simp add: watchers_def s_count_watchers)
  have small: "held s b + app b + k * count_list (watchers s ! i) b < 256"
    if "0 < count_list (watchers s ! i) b" "k \<le> 6" for b k
  proof -
    from that(1) have "filter (\<lambda>sub. sub_session sub = b) ?row \<noteq> []" by (simp add: c s_count_def)
    then obtain sub where "sub \<in> set ?row" "sub_session sub = b" unfolding filter_empty_conv by blast
    with assms(8) have "held s b + app b + 6 * s_count ?row b < 256" by (auto simp: room_def)
    moreover have "k * s_count ?row b \<le> 6 * s_count ?row b" using that(2) by (rule mult_le_mono1)
    ultimately show ?thesis unfolding c by linarith
  qed
  have rounds: "\<exists>r' s'. notify_rounds k i r s = Some (r', s') \<and> r_notify_con r' = r_notify_con r \<and>
      sub_non_cnt (c_subscribers s' ! i ! j) = (next_count (r_notify_con r) ^^ k) ?n" if "k \<le> 6" for k
  proof -
    from notify_rounds_ok [OF inv assms(2,4,5,6) type small [OF _ that]] obtain r' s' where
      s': "notify_rounds k i r s = Some (r', s')" "watchers s' = watchers s" "r_notify_con r' = r_notify_con r"
        "non_counts i s' ! j = (next_count (r_notify_con r) ^^ k) ?n"
      using assms(3) by (auto simp: notified_def)
    have "j < length (c_subscribers s' ! i)" using watchers_row [OF s'(2) assms(2)] assms(3) by simp
    with s' show ?thesis by (simp add: non_counts_def)
  qed
  let ?k = "if r_notify_con r \<or> COAP_OBS_MAX_NON \<le> ?n then 0 else COAP_OBS_MAX_NON - ?n"
  have k: "?k < 6" by (simp add: COAP_OBS_MAX_NON_def) arith
  from rounds [of ?k] k obtain r1 s1 where s1: "notify_rounds ?k i r s = Some (r1, s1)" "r_notify_con r1 = r_notify_con r"
    "sub_non_cnt (c_subscribers s1 ! i ! j) = (next_count (r_notify_con r) ^^ ?k) ?n" by auto
  have "r_notify_con r \<or> COAP_OBS_MAX_NON \<le> (next_count (r_notify_con r) ^^ ?k) ?n"
    using next_count_reaches [of "r_notify_con r" ?n "COAP_OBS_MAX_NON - ?n"] by auto
  then have "r_notify_con r1 \<or> COAP_OBS_MAX_NON \<le> sub_non_cnt (c_subscribers s1 ! i ! j)" by (simp only: s1(2,3))
  then have con: "notification_type (r_notify_con r1) (c_subscribers s1 ! i ! j) = COAP_TYPE_CON"
    by (auto simp: notification_type_def)
  from rounds [of "Suc ?k"] k obtain r2 s2 where s2: "notify_rounds (Suc ?k) i r s = Some (r2, s2)" by auto
  with s1(1) have round: "notify_round i r1 s1 = Some (r2, s2)" by (simp only: notify_rounds.simps) simp
  note kept = notify_rounds_messages [OF s1(1) assms(5,6,7,4,2)]
  then have ids: "observer_ids i s1 = observer_ids i s" by blast
  note at = observer_idsD [OF ids assms(3)]
  have len: "length (c_subscribers s1 ! i) = length ?row"
    using arg_cong [OF ids, of length] by (simp add: observer_ids_def)
  from notify_round_messages [OF round _ _ assms(7)] kept assms(6) len obtain new where new:
    "messages s2 = messages s1 @ new" "length new = length ?row"
    "notified_in new (r_notify_con r1) (c_subscribers s1 ! i ! j)" using at(1) by auto
  from new(3) obtain p where p: "message (sub_session (?row ! j)) p \<in> set new" "pk_type p = COAP_TYPE_CON"
    "pk_token p = sub_token (?row ! j)" unfolding notified_in_def con at(2,3) by blast
  from rounds [of 6] have "notify_rounds 6 i r s \<noteq> None" by (auto simp del: notify_rounds.simps)
  with s1(1) s2 k new(1,2) p show ?thesis by blast
qed

text \<open>After one registration, session 8 observes resource 0.\<close>

definition ex_observed :: coap_context_t where
  "ex_observed = the (session_step (Observe 0 8 [1]) ex_looked_up)"

lemma ex_observed_step: "session_step (Observe 0 8 [1]) ex_looked_up = Some ex_observed"
  by (simp add: ex_observed_def ex_looked_up_def ex_context_def coap_endpoint_get_session_def new_server_session_def
      coap_make_session_def ext_call_def ext_def call_def ex_world_def link_session_def put_sess_def Let_def
      artik_coap_add_observer_def artik_coap_find_observer_def coap_session_reference_def)

lemma ex_observed_facts:
  "map (map sub_session) (c_subscribers ex_observed) = [[8]]" "c_sendqueue ex_observed = []" "memory ex_observed"
  "c_sess ex_observed 8 \<noteq> None"
  by (simp_all add: ex_observed_def ex_looked_up_def ex_context_def coap_endpoint_get_session_def new_server_session_def
      coap_make_session_def ext_call_def ext_def call_def ex_world_def link_session_def put_sess_def Let_def memory_def
      artik_coap_add_observer_def artik_coap_find_observer_def coap_session_reference_def put_subs_def)

lemma ex_observed_reachable: "coap_reachable (\<lambda>_. 0) ex_observed"
proof -
  have "may_step (Observe 0 8 [1]) (\<lambda>_. 0) ex_looked_up"
    using ex_looked_up_session ex_looked_up_lists
    by (auto simp: room_def held_def sub_count_def query_ok_def artik_coap_find_observer_def)
  from coap_reachable.step [OF ex_looked_up_reachable this ex_observed_step] show ?thesis by simp
qed

lemma coap_notifications_confirmable_witness:
  "\<exists>sub. c_subscribers ex_observed = [[sub]] \<and> sub_session sub = 8 \<and> notify_rounds 6 0 ex_server_resource ex_observed \<noteq> None \<and>
    (\<exists>k < 6. \<exists>r1 s1 r2 s2 new p. notify_rounds k 0 ex_server_resource ex_observed = Some (r1, s1) \<and>
       notify_rounds (Suc k) 0 ex_server_resource ex_observed = Some (r2, s2) \<and>
       messages s2 = messages s1 @ new \<and> length new = 1 \<and>
       message 8 p \<in> set new \<and> pk_type p = COAP_TYPE_CON \<and> pk_token p = sub_token sub)"
proof -
  obtain sub where sub: "c_subscribers ex_observed = [[sub]]" "sub_session sub = 8"
    using ex_observed_facts(1) by (auto simp: map_eq_Cons_conv)
  have "room 6 8 (\<lambda>_. 0) ex_observed"
    using ex_observed_facts(2,4) sub by (simp add: room_def held_def sub_count_def)
  with sub have "\<forall>sub \<in> set (c_subscribers ex_observed ! 0).
      room (6 * s_count (c_subscribers ex_observed ! 0) (sub_session sub)) (sub_session sub) (\<lambda>_. 0) ex_observed" by simp
  from coap_notifications_confirmable [OF ex_observed_reachable _ _ ex_observed_facts(3) ex_server_resource_fields(1,2)
      ex_get_facts(2) this, of 0] sub show ?thesis by (auto simp del: notify_rounds.simps)
qed

end
