(* ===== verification/Coap_Keys.thy ===== *)
theory Coap_Keys
  imports Prelude
begin

text \<open>
  The keys of a secure CoAP session: the parsers of \<^verbatim>\<open>coap/tizenrt/tizenrt_coap.c\<close> that take the point
  and the private number out of a DER encoded P-256 key pair.  A position in the data is a number; the
  code compares it with the end of the data only for equality, so a position behind the end is
  possible and reading there is a fault.  Bytes of an allocated key that are never written are
  \<^term>\<open>None\<close>.
\<close>

section \<open>Results\<close>

text \<open>
  \<open>Fault\<close> is an access outside of an object or of bytes that were never written, \<open>Reject\<close> the result
  \<^verbatim>\<open>false\<close>.
\<close>

datatype 'a der = Fault | Reject | Accept 'a

fun and_then :: "'a der \<Rightarrow> ('a \<Rightarrow> 'b der) \<Rightarrow> 'b der" where
  "and_then Fault f = Fault"
| "and_then Reject f = Reject"
| "and_then (Accept x) f = f x"

type_synonym key_bytes = "u8 option list"

section \<open>Tags and tables\<close>

abbreviation (input) INTEGER :: u8 where "INTEGER \<equiv> 0x02"
abbreviation (input) BIT_STRING :: u8 where "BIT_STRING \<equiv> 0x03"
abbreviation (input) OCTET_STRING :: u8 where "OCTET_STRING \<equiv> 0x04"
abbreviation (input) OBJ_IDENTIFIER :: u8 where "OBJ_IDENTIFIER \<equiv> 0x06"
abbreviation (input) SEQUENCE :: u8 where "SEQUENCE \<equiv> 0x30"
abbreviation (input) OPT_PARAMS :: u8 where "OPT_PARAMS \<equiv> 0xA0"
abbreviation (input) OPT_PUBKEY :: u8 where "OPT_PUBKEY \<equiv> 0xA1"

definition ec_public_key :: "u8 list" where
  "ec_public_key = [0x2A, 0x86, 0x48, 0xCE, 0x3D, 0x02, 0x01]"

definition prime_256v1 :: "u8 list" where
  "prime_256v1 = [0x2A, 0x86, 0x48, 0xCE, 0x3D, 0x03, 0x01, 0x07]"

section \<open>Steps of the parsers\<close>

text \<open>\<^verbatim>\<open>*p\<close>.\<close>

definition byte_at :: "u8 list \<Rightarrow> nat \<Rightarrow> u8 der" where
  "byte_at data p = (if p < length data then Accept (data ! p) else Fault)"

text \<open>\<^verbatim>\<open>if (*p == tag && p+n != end) p += n; else return false;\<close>\<close>

definition skip_tag :: "u8 \<Rightarrow> nat \<Rightarrow> u8 list \<Rightarrow> nat \<Rightarrow> nat der" where
  "skip_tag tag n data p =
     and_then (byte_at data p) (\<lambda>b. if b = tag \<and> p + n \<noteq> length data then Accept (p + n) else Reject)"

text \<open>\<^verbatim>\<open>if (p+1 != end) p++; else return false;\<close>\<close>

definition step :: "u8 list \<Rightarrow> nat \<Rightarrow> nat der" where
  "step data p = (if p + 1 \<noteq> length data then Accept (p + 1) else Reject)"

text \<open>
  The loop \<^verbatim>\<open>for (i = 0; i < length && p != end; i++, p++)\<close> that copies bytes: those copied, and the
  position behind them.
\<close>

fun copy_bytes :: "u8 list \<Rightarrow> nat \<Rightarrow> nat \<Rightarrow> (u8 list \<times> nat) der" where
  "copy_bytes data 0 p = Accept ([], p)"
| "copy_bytes data (Suc n) p =
     (if p = length data then Accept ([], p)
      else and_then (byte_at data p) (\<lambda>b.
             and_then (copy_bytes data n (p + 1)) (\<lambda>(bs, q). Accept (b # bs, q))))"

text \<open>\<^verbatim>\<open>memcmp\<close> with a table, over as many bytes as the buffer has.\<close>

definition same_as :: "u8 list \<Rightarrow> u8 list \<Rightarrow> bool der" where
  "same_as buf table = (if length table < length buf then Fault else Accept (buf = take (length buf) table))"

text \<open>An object identifier that is to be the one of the table; the position behind it.\<close>

definition object_identifier :: "u8 list \<Rightarrow> u8 list \<Rightarrow> nat \<Rightarrow> nat der" where
  "object_identifier table data p =
     and_then (skip_tag OBJ_IDENTIFIER 1 data p) (\<lambda>p.
     and_then (byte_at data p) (\<lambda>len.
     and_then (step data p) (\<lambda>p.
     and_then (copy_bytes data (unat len) p) (\<lambda>(buf, p).
       if p = length data then Reject
       else and_then (same_as buf table) (\<lambda>same. if same then Accept p else Reject)))))"

text \<open>
  The header of a bit string: its length, less the byte of unused bits where that is 0, and the
  position of the first byte that counts.
\<close>

definition bit_string :: "u8 list \<Rightarrow> nat \<Rightarrow> (int \<times> nat) der" where
  "bit_string data p =
     and_then (skip_tag BIT_STRING 1 data p) (\<lambda>p.
     and_then (byte_at data p) (\<lambda>len.
     and_then (step data p) (\<lambda>p.
     and_then (byte_at data p) (\<lambda>b.
       if b = 0 then and_then (step data p) (\<lambda>p. Accept (uint len - 1, p))
       else Accept (uint len, p)))))"

text \<open>
  Allocation of a key of \<open>len\<close> bytes (a negative length asks for the whole address space) and the
  loop that fills it: the key, \<^term>\<open>None\<close> for a null pointer, and the position behind it.
\<close>

definition take_key :: "bool \<Rightarrow> u8 list \<Rightarrow> int \<Rightarrow> nat \<Rightarrow> (key_bytes option \<times> nat) der" where
  "take_key memory data len p =
     (if memory \<and> 0 \<le> len then
        and_then (copy_bytes data (nat len) p) (\<lambda>(bs, q).
          Accept (Some (map Some bs @ replicate (nat len - length bs) None), q))
      else if 0 < len \<and> p \<noteq> length data then Fault
      else Accept (None, p))"

section \<open>The parsers\<close>

text \<open>\<open>memory\<close>: whether the allocation succeeds; it is not checked.\<close>

definition asn1_parse_pubkey :: "bool \<Rightarrow> u8 list \<Rightarrow> (key_bytes option \<times> int) der" where
  "asn1_parse_pubkey memory data =
     (if data = [] then Reject
      else
        and_then (skip_tag SEQUENCE 2 data 0) (\<lambda>p.
        and_then (skip_tag SEQUENCE 2 data p) (\<lambda>p.
        and_then (object_identifier ec_public_key data p) (\<lambda>p.
        and_then (object_identifier prime_256v1 data p) (\<lambda>p.
        and_then (bit_string data p) (\<lambda>(len, p).
        and_then (take_key memory data len p) (\<lambda>(key, p). Accept (key, len))))))))"

text \<open>
  The comparison of the public key inside the private key with the one of the certificate, over
  \<open>len\<close> bytes.
\<close>

definition same_key :: "u8 list \<Rightarrow> int \<Rightarrow> key_bytes \<Rightarrow> bool der" where
  "same_key buf len pub_key =
     (if len < 0 \<or> length buf < nat len \<or> length pub_key < nat len \<or> None \<in> set (take (nat len) pub_key)
      then Fault else Accept (map Some buf = take (nat len) pub_key))"

definition asn1_parse_key :: "bool \<Rightarrow> u8 list \<Rightarrow> key_bytes option \<Rightarrow> (key_bytes option \<times> int) der" where
  "asn1_parse_key memory data pub_key =
     and_then (byte_at data 0) (\<lambda>b.
     if b \<noteq> SEQUENCE then Reject
     else
       and_then (skip_tag INTEGER 2 data 2) (\<lambda>p.
       and_then (byte_at data p) (\<lambda>version.
       if version \<noteq> 1 then Reject
       else
         and_then (skip_tag OCTET_STRING 1 data (p + 1)) (\<lambda>p.
         and_then (byte_at data p) (\<lambda>len.
         and_then (step data p) (\<lambda>p.
         and_then (take_key memory data (uint len) p) (\<lambda>(key, p).
         if p = length data then Accept (key, uint len)
         else
           (case pub_key of
              None \<Rightarrow> Reject
            | Some pub_key \<Rightarrow>
                and_then (skip_tag OPT_PARAMS 2 data p) (\<lambda>p.
                and_then (object_identifier prime_256v1 data p) (\<lambda>p.
                and_then (skip_tag OPT_PUBKEY 2 data p) (\<lambda>p.
                and_then (bit_string data p) (\<lambda>(plen, p).
                and_then (copy_bytes data (nat plen) p) (\<lambda>(buf, p).
                and_then (same_key buf plen pub_key) (\<lambda>same.
                  if same then Accept (key, uint len) else Reject))))))))))))))"

text \<open>
  The coordinates of the point behind its first byte.  A single failing allocation is not noticed;
  when the first one fails, the second coordinate gets the bytes of the first.
\<close>

definition extract_pubkey_x_y ::
  "bool \<Rightarrow> bool \<Rightarrow> key_bytes option \<Rightarrow> int \<Rightarrow> int \<times> key_bytes option \<times> key_bytes option" where
  "extract_pubkey_x_y memory_x memory_y pub_key pub_key_length =
     (case pub_key of
        None \<Rightarrow> (-1, None, None)
      | Some pub_key \<Rightarrow>
          if pub_key_length = 0 \<or> (pub_key_length - 1) mod 2 \<noteq> 0 then (-2, None, None)
          else if \<not> memory_x \<and> \<not> memory_y then (-3, None, None)
          else
            let size_xy = nat ((pub_key_length - 1) div 2);
                behind = (if memory_x then 1 + size_xy else 1)
            in (0, if memory_x then Some (take size_xy (drop 1 pub_key)) else None,
                   if memory_y then Some (take size_xy (drop behind pub_key)) else None))"

text \<open>
  The keys of a session over DTLS with a certificate, as \<^verbatim>\<open>get_session\<close> collects them from the DER
  forms that the security module returns; \<open>Reject\<close> is no session.  The allocations are taken to succeed;
  the copies of the keys that the function makes for the session afterwards are not modelled.
\<close>

definition session_keys :: "u8 list \<Rightarrow> u8 list \<Rightarrow> (key_bytes option \<times> key_bytes option \<times> key_bytes option) der" where
  "session_keys pub_key_der priv_key_der =
     and_then (asn1_parse_pubkey True pub_key_der) (\<lambda>(ec_pub_key, ec_pub_key_length).
     and_then (asn1_parse_key True priv_key_der ec_pub_key) (\<lambda>(ec_priv_key, _).
       case extract_pubkey_x_y True True ec_pub_key ec_pub_key_length of
         (ret, x, y) \<Rightarrow> if ret < 0 then Reject else Accept (ec_priv_key, x, y)))"

section \<open>The standard encodings\<close>

text \<open>
  The subject public key info of RFC 5480 and the private key of RFC 5915 for P-256, with coordinates
  and number of 32 bytes.
\<close>

definition spki_header :: "u8 list" where
  "spki_header = [0x30, 0x59, 0x30, 0x13, 0x06, 0x07] @ ec_public_key @ [0x06, 0x08] @ prime_256v1 @
     [0x03, 0x42, 0x00]"

definition encode_pubkey :: "u8 list \<Rightarrow> u8 list \<Rightarrow> u8 list" where
  "encode_pubkey x y = spki_header @ 0x04 # x @ y"

definition encode_key :: "u8 list \<Rightarrow> u8 list \<Rightarrow> u8 list \<Rightarrow> u8 list" where
  "encode_key d x y = [0x30, 0x77, 0x02, 0x01, 0x01, 0x04, 0x20] @ d @ [0xA0, 0x0A, 0x06, 0x08] @ prime_256v1 @
     [0xA1, 0x44, 0x03, 0x42, 0x00] @ 0x04 # x @ y"

lemma length_spki_header [simp]: "length spki_header = 26"
  by (simp add: spki_header_def ec_public_key_def prime_256v1_def)

text \<open>Steps of the parsers at a position behind a prefix.\<close>

lemma byte_at_append [simp]: "byte_at (xs @ b # ys) (length xs) = Accept b"
  by (simp add: byte_at_def)

lemma copy_bytes_append:
  "copy_bytes (xs @ ys @ zs) (length ys) (length xs) = Accept (ys, length xs + length ys)"
proof (induction ys arbitrary: xs)
  case (Cons b ys)
  have "copy_bytes (xs @ b # ys @ zs) (length ys) (Suc (length xs)) = Accept (ys, Suc (length xs + length ys))"
    using Cons [of "xs @ [b]"] by simp
  then show ?case by (simp add: byte_at_def)
qed simp

lemma copy_bytes_short:
  "length ys \<le> n \<Longrightarrow> copy_bytes (xs @ ys) n (length xs) = Accept (ys, length xs + length ys)"
proof (induction ys arbitrary: xs n)
  case Nil
  then show ?case by (cases n) simp_all
next
  case (Cons b ys)
  then obtain m where n: "n = Suc m" "length ys \<le> m" by (cases n) auto
  have "copy_bytes (xs @ b # ys) m (Suc (length xs)) = Accept (ys, Suc (length xs + length ys))"
    using Cons.IH [of m "xs @ [b]"] n(2) by simp
  then show ?case by (simp add: n byte_at_def)
qed

lemma skip_tag_match:
  "data = xs @ tag # ys \<Longrightarrow> p = length xs \<Longrightarrow> q = p + n \<Longrightarrow> q \<noteq> length data \<Longrightarrow>
    skip_tag tag n data p = Accept q"
  by (simp add: skip_tag_def byte_at_def)

lemma object_identifier_match:
  assumes data: "data = xs @ OBJ_IDENTIFIER # of_nat (length t) # t @ ys" and "ys \<noteq> []" "length t < 256"
    and p: "p = length xs" "q = p + length t + 2"
  shows "object_identifier t data p = Accept q"
proof -
  have "skip_tag OBJ_IDENTIFIER 1 data (length xs) = Accept (length xs + 1)"
    using assms(2) by (intro skip_tag_match [of _ xs]) (simp_all add: data)
  moreover have "byte_at data (length xs + 1) = Accept (of_nat (length t))"
    by (simp add: data byte_at_def nth_append)
  moreover have "step data (length xs + 1) = Accept (length xs + 2)"
    using assms(2) by (simp add: data step_def)
  moreover have "unat (of_nat (length t) :: u8) = length t"
    using assms(3) by (simp add: unsigned_of_nat take_bit_nat_eq_self)
  moreover have "copy_bytes data (length t) (length xs + 2) = Accept (t, length xs + 2 + length t)"
    using copy_bytes_append [of "xs @ [OBJ_IDENTIFIER, of_nat (length t)]" t ys] by (simp add: data)
  moreover have "length xs + 2 + length t \<noteq> length data" using assms(2) by (simp add: data)
  ultimately show ?thesis by (simp add: object_identifier_def same_as_def p)
qed

lemma bit_string_match:
  assumes data: "data = xs @ BIT_STRING # len # 0 # ys" and "ys \<noteq> []"
    and p: "p = length xs" "q = p + 3" "l = uint len - 1"
  shows "bit_string data p = Accept (l, q)"
proof -
  have "skip_tag BIT_STRING 1 data (length xs) = Accept (length xs + 1)"
    using assms(2) by (intro skip_tag_match [of _ xs]) (simp_all add: data)
  then show ?thesis
    using assms(2) by (simp add: bit_string_def data byte_at_def nth_append step_def p)
qed

lemma take_key_rest:
  assumes "data = xs @ ys" "length ys \<le> nat len" "0 \<le> len" "p = length xs"
  shows "take_key True data len p =
    Accept (Some (map Some ys @ replicate (nat len - length ys) None), length data)"
  using assms copy_bytes_short [of ys "nat len" xs] by (simp add: take_key_def)

lemma take_key_all:
  assumes "data = xs @ ys @ zs" "length ys = nat len" "0 \<le> len" "p = length xs" "q = p + length ys"
  shows "take_key True data len p = Accept (Some (map Some ys), q)"
  using assms copy_bytes_append [of xs ys zs] by (simp add: take_key_def)

text \<open>The header of a public key, followed by up to 65 bytes.\<close>

lemma parse_spki:
  assumes "body \<noteq> []" "length body \<le> 65"
  shows "asn1_parse_pubkey True (spki_header @ body) =
    Accept (Some (map Some body @ replicate (65 - length body) None), 65)"
proof -
  define data where "data = spki_header @ body"
  note unfold = data_def spki_header_def ec_public_key_def prime_256v1_def
  have "skip_tag SEQUENCE 2 data 0 = Accept 2" "skip_tag SEQUENCE 2 data 2 = Accept 4"
    using assms(1) by (simp_all add: skip_tag_def byte_at_def unfold)
  moreover have "object_identifier ec_public_key data 4 = Accept 13"
    by (rule object_identifier_match [of data "[0x30, 0x59, 0x30, 0x13]" ec_public_key
        "[0x06, 0x08] @ prime_256v1 @ [0x03, 0x42, 0x00] @ body"]) (simp_all add: unfold)
  moreover have "object_identifier prime_256v1 data 13 = Accept 23"
    by (rule object_identifier_match [of data "[0x30, 0x59, 0x30, 0x13, 0x06, 0x07] @ ec_public_key" prime_256v1
        "[0x03, 0x42, 0x00] @ body"]) (simp_all add: unfold)
  moreover have "bit_string data 23 = Accept (65, 26)"
    by (rule bit_string_match
        [of data "[0x30, 0x59, 0x30, 0x13, 0x06, 0x07] @ ec_public_key @ [0x06, 0x08] @ prime_256v1" "0x42" body])
      (use assms(1) in \<open>simp_all add: unfold\<close>)
  moreover have "take_key True data 65 26 =
      Accept (Some (map Some body @ replicate (65 - length body) None), length data)"
    using take_key_rest [of data spki_header body 65 26] assms(2) by (simp add: unfold)
  moreover have "data \<noteq> []" by (simp add: unfold)
  ultimately show ?thesis by (simp add: asn1_parse_pubkey_def data_def [symmetric])
qed

text \<open>A private key, read beside the point of a public key.\<close>

lemma parse_sec1:
  assumes len: "length d = 32" "length x = 32" "length y = 32"
    and pub: "length pub = 65"
  shows "asn1_parse_key True (encode_key d x y) (Some (map Some pub)) =
    (if pub = 0x04 # x @ y then Accept (Some (map Some d), 32) else Reject)"
proof -
  define data where "data = encode_key d x y"
  let ?start = "[0x30, 0x77, 0x02, 0x01, 0x01, 0x04, 0x20] :: u8 list"
  let ?params = "[0xA0, 0x0A, 0x06, 0x08] @ prime_256v1"
  note unfold = data_def encode_key_def prime_256v1_def
  have total: "length data = 121" using len by (simp add: unfold)
  have "byte_at data 0 = Accept SEQUENCE" "skip_tag INTEGER 2 data 2 = Accept 4" "byte_at data 4 = Accept 1"
    "skip_tag OCTET_STRING 1 data 5 = Accept 6" "byte_at data 6 = Accept 0x20" "step data 6 = Accept 7"
    by (simp_all add: skip_tag_def byte_at_def step_def total) (simp_all add: unfold)
  moreover have "take_key True data 32 7 = Accept (Some (map Some d), 39)"
    using take_key_all [of data ?start d "?params @ [0xA1, 0x44, 0x03, 0x42, 0x00] @ 0x04 # x @ y" 32 7 39] len(1)
    by (simp add: unfold)
  moreover have "skip_tag OPT_PARAMS 2 data 39 = Accept 41"
    by (rule skip_tag_match [of _ "?start @ d" _ "tl ?params @ [0xA1, 0x44, 0x03, 0x42, 0x00] @ 0x04 # x @ y"])
      (use len in \<open>simp_all add: unfold\<close>)
  moreover have "object_identifier prime_256v1 data 41 = Accept 51"
    by (rule object_identifier_match [of _ "?start @ d @ [0xA0, 0x0A]" _ "[0xA1, 0x44, 0x03, 0x42, 0x00] @ 0x04 # x @ y"])
      (use len in \<open>simp_all add: unfold\<close>)
  moreover have "skip_tag OPT_PUBKEY 2 data 51 = Accept 53"
    by (rule skip_tag_match [of _ "?start @ d @ ?params" _ "[0x44, 0x03, 0x42, 0x00] @ 0x04 # x @ y"])
      (use len in \<open>simp_all add: unfold\<close>)
  moreover have "bit_string data 53 = Accept (65, 56)"
    by (rule bit_string_match [of _ "?start @ d @ ?params @ [0xA1, 0x44]" "0x42" "0x04 # x @ y"])
      (use len in \<open>simp_all add: unfold\<close>)
  moreover have "copy_bytes data 65 56 = Accept (0x04 # x @ y, 121)"
    using copy_bytes_append [of "?start @ d @ ?params @ [0xA1, 0x44, 0x03, 0x42, 0x00]" "0x04 # x @ y" "[]"] len
    by (simp add: unfold)
  moreover have "same_key (0x04 # x @ y) 65 (map Some pub) = Accept (0x04 # x @ y = pub)"
    using pub len by (auto simp: same_key_def inj_map_eq_map simp flip: list.map)
  ultimately show ?thesis
    by (auto simp: asn1_parse_key_def data_def [symmetric] total)
qed

section \<open>Properties\<close>

text \<open>
  C17. The keys of a P-256 pair in the standard encodings are extracted exactly: the private number and
  both coordinates, byte by byte.  A private key that belongs to another point is refused.  The
  allocations are taken to succeed.
\<close>

theorem session_keys_key_pair:
  assumes "length x = 32" "length y = 32" "length d = 32" "length x' = 32" "length y' = 32"
  shows "session_keys (encode_pubkey x y) (encode_key d x' y') =
    (if x' = x \<and> y' = y then Accept (Some (map Some d), Some (map Some x), Some (map Some y)) else Reject)"
proof -
  have "asn1_parse_pubkey True (encode_pubkey x y) = Accept (Some (map Some (0x04 # x @ y)), 65)"
    using parse_spki [of "0x04 # x @ y"] assms(1,2) by (simp add: encode_pubkey_def)
  moreover have "asn1_parse_key True (encode_key d x' y') (Some (map Some (0x04 # x @ y))) =
      (if x' = x \<and> y' = y then Accept (Some (map Some d), 32) else Reject)"
    using parse_sec1 [of d x' y' "0x04 # x @ y"] assms by auto
  moreover have "extract_pubkey_x_y True True (Some (map Some (0x04 # x @ y))) 65 =
      (0, Some (map Some x), Some (map Some y))"
    using assms(1,2) by (simp add: extract_pubkey_x_y_def)
  ultimately show ?thesis by (simp add: session_keys_def)
qed

theorem session_keys_key_pair_witness:
  "session_keys (encode_pubkey (replicate 32 1) (replicate 32 2)) (encode_key (replicate 32 3) (replicate 32 1) (replicate 32 2)) =
    Accept (Some (map Some (replicate 32 3)), Some (map Some (replicate 32 1)), Some (map Some (replicate 32 2)))"
  using session_keys_key_pair [of "replicate 32 1" "replicate 32 2" "replicate 32 3" "replicate 32 1" "replicate 32 2"]
  by simp

text \<open>
  C36. What becomes of every truncation of a public key: after one or three bytes the parser reads behind
  the data, inside the header it refuses it, but a key cut inside its point is accepted with the
  full length, its last bytes never written.
\<close>

theorem asn1_parse_pubkey_truncated:
  assumes "length x = 32" "length y = 32" "n < length (encode_pubkey x y)"
  shows "asn1_parse_pubkey True (take n (encode_pubkey x y)) =
    (if n = 1 \<or> n = 3 then Fault
     else if n \<le> 26 then Reject
     else Accept (Some (map Some (take (n - 26) (0x04 # x @ y)) @ replicate (91 - n) None), 65))"
proof (cases "n \<le> 26")
  case True
  have header: "\<forall>i \<in> set [0..<27]. asn1_parse_pubkey True (take i spki_header) =
      (if i = 1 \<or> i = 3 then Fault else Reject)"
    by code_simp
  have "take n (encode_pubkey x y) = take n spki_header"
    using True by (simp add: encode_pubkey_def)
  then show ?thesis using header True by auto
next
  case False
  define body where "body = take (n - 26) (0x04 # x @ y)"
  have "length (encode_pubkey x y) = 91"
    using assms by (simp add: encode_pubkey_def)
  then have body: "length body = n - 26" "body \<noteq> []" "length body \<le> 65"
    using assms False by (auto simp: body_def)
  have "take n (encode_pubkey x y) = spki_header @ body"
    using False by (simp add: encode_pubkey_def body_def)
  moreover have "65 - length body = 91 - n" using body False by simp
  ultimately show ?thesis
    using parse_spki [OF body(2,3)] False by (simp add: body_def)
qed

theorem asn1_parse_pubkey_truncated_witness:
  "asn1_parse_pubkey True (take 60 (encode_pubkey (replicate 32 1) (replicate 32 2))) =
    Accept (Some (map Some (take 34 (0x04 # replicate 32 1 @ replicate 32 2)) @ replicate 31 None), 65)"
proof -
  have "length (encode_pubkey (replicate 32 1) (replicate 32 2)) = 91"
    by (simp add: encode_pubkey_def)
  then show ?thesis
    using asn1_parse_pubkey_truncated [of "replicate 32 1" "replicate 32 2" 60] by simp
qed

text \<open>
  A failing allocation of the first coordinate is reported as success, and the second coordinate gets
  the bytes of the first.
\<close>

lemma extract_pubkey_swapped:
  assumes "length x = 32" "length y = 32"
  shows "extract_pubkey_x_y False True (Some (map Some (0x04 # x @ y))) 65 = (0, None, Some (map Some x))"
  using assms by (simp add: extract_pubkey_x_y_def)

end
