(* ===== verification/Coap_Options.thy ===== *)
theory Coap_Options
  imports Coap_Link
begin

text \<open>
  The options of a CoAP message in the interface layer (\<^verbatim>\<open>coap/tizenrt/tizenrt_coap.c\<close>): \<^verbatim>\<open>add_options\<close>
  hands the options of an application to the library, \<^verbatim>\<open>get_options\<close> makes options of what the
  library parsed.  The library (er-coap-13) is outside: what it is told is a list of calls, and what it
  answers are the fields of a record.  The machine stores integers with the lowest byte first.
\<close>

section \<open>Options\<close>

text \<open>The key 0 is that of an entry that was only cleared.\<close>

datatype artik_coap_option_key =
    OPTION_CLEARED | OPTION_IF_MATCH | OPTION_URI_HOST | OPTION_ETAG | OPTION_IF_NONE_MATCH | OPTION_OBSERVE
  | OPTION_URI_PORT | OPTION_LOCATION_PATH | OPTION_URI_PATH | OPTION_CONTENT_FORMAT | OPTION_MAXAGE
  | OPTION_URI_QUERY | OPTION_ACCEPT | OPTION_LOCATION_QUERY | OPTION_BLOCK2 | OPTION_PROXY_URI
  | OPTION_PROXY_SCHEME | OPTION_SIZE1

text \<open>The data, \<^term>\<open>None\<close> for a null pointer, and the length beside it.\<close>

record artik_coap_option =
  o_key :: artik_coap_option_key
  o_data :: "u8 list option"
  o_len :: nat

text \<open>The setters of the library with their arguments.\<close>

datatype header_call =
    Set_if_match "u8 list" | Set_uri_host "u8 list" | Set_etag "u8 list" | Set_proxy_uri "u8 list"
  | Set_proxy_scheme "u8 list" | Set_uri_port u16 | Set_accept u16 | Set_content_type u32
  | Set_max_age u32 | Set_size1 u32 | Set_observe u32 | Set_if_none_match | Set_block2 u32 u8 u16
  | Set_location_path "u8 list" | Set_uri_path "u8 list" | Set_location_query "u8 list"
  | Set_uri_query "u8 list"

section \<open>Integers\<close>

definition swap_bytes :: "u32 \<Rightarrow> nat \<Rightarrow> u32" where
  "swap_bytes val len =
     (if len = 1 \<or> len = 0 then val
      else if len = 2 then (drop_bit 8 val AND 0x00FF) OR (push_bit 8 val AND 0xFF00)
      else if len = 3 then (drop_bit 16 val AND 0x0000FF) OR (val AND 0x00FF00) OR (push_bit 16 val AND 0xFF0000)
      else (drop_bit 24 val AND 0x000000FF) OR (drop_bit 8 val AND 0x0000FF00) OR
           (push_bit 8 val AND 0x00FF0000) OR (push_bit 24 val AND 0xFF000000))"

text \<open>The bytes of an integer in memory, and the integer of up to four bytes copied over zero.\<close>

fun le_bytes :: "nat \<Rightarrow> u32 \<Rightarrow> u8 list" where
  "le_bytes 0 v = []"
| "le_bytes (Suc n) v = ucast v # le_bytes n (drop_bit 8 v)"

fun le_value :: "u8 list \<Rightarrow> u32" where
  "le_value [] = 0"
| "le_value (b # bs) = ucast b OR push_bit 8 (le_value bs)"

text \<open>\<^verbatim>\<open>memcpy\<close> of the data over an integer on the stack, and the swap; \<^term>\<open>None\<close> writes behind it.\<close>

definition option_integer :: "artik_coap_option \<Rightarrow> u32 option" where
  "option_integer opt =
     (case o_data opt of
        None \<Rightarrow> if o_len opt = 0 then Some 0 else None
      | Some data \<Rightarrow>
          if 4 < o_len opt \<or> length data < o_len opt then None
          else Some (swap_bytes (le_value (take (o_len opt) data)) (o_len opt)))"

record coap_block_t =
  b_num :: u32
  b_m :: u8
  b_szx :: u16

definition coap_convert_to_block :: "u32 \<Rightarrow> coap_block_t" where
  "coap_convert_to_block value =
     \<lparr>b_num = value div 16, b_m = ucast (value AND 0x08), b_szx = push_bit (unat (value AND 0x07) + 4) 1\<rparr>"

section \<open>Strings\<close>

text \<open>A buffer of the node: its capacity and the characters in it, without the final zero.\<close>

type_synonym buffer = "nat \<times> u8 list"

record option_strings =
  os_location_path :: "buffer option"
  os_uri_path :: "buffer option"
  os_location_query :: "buffer option"
  os_uri_query :: "buffer option"
  os_use_location_path :: bool
  os_use_uri_path :: bool
  os_use_location_query :: bool
  os_use_uri_query :: bool

text \<open>\<^verbatim>\<open>strncat\<close> of at most \<open>n\<close> characters; \<^term>\<open>None\<close> writes behind the buffer.\<close>

definition strncat :: "nat \<Rightarrow> u8 list \<Rightarrow> buffer \<Rightarrow> buffer option" where
  "strncat n s buf =
     (let t = takeWhile (\<lambda>b. b \<noteq> 0) (take n s)
      in if length (snd buf) + length t < fst buf then Some (fst buf, snd buf @ t) else None)"

text \<open>A separator and the data of an option behind the text of a buffer, if there is one.\<close>

definition append_part :: "u8 \<Rightarrow> artik_coap_option \<Rightarrow> buffer option \<Rightarrow> buffer option option" where
  "append_part sep opt buf =
     (case buf of
        None \<Rightarrow> Some None
      | Some b \<Rightarrow>
          do {
            b \<leftarrow> strncat 1 [sep] b;
            data \<leftarrow> (if o_len opt = 0 then Some [] else o_data opt);
            b \<leftarrow> strncat (o_len opt) data b;
            Some (Some b)
          })"

section \<open>From the application to the library\<close>

text \<open>\<open>has\<close> and \<open>total_len\<close> are what the first loop finds out about a key.\<close>

definition has :: "artik_coap_option_key \<Rightarrow> artik_coap_option list \<Rightarrow> bool" where
  "has key options \<longleftrightarrow> (\<exists>opt \<in> set options. o_key opt = key)"

definition total_len :: "artik_coap_option_key \<Rightarrow> artik_coap_option list \<Rightarrow> nat" where
  "total_len key options = (\<Sum>opt \<leftarrow> filter (\<lambda>opt. o_key opt = key) options. o_len opt + 1)"

text \<open>A cleared buffer of a key; \<open>memory\<close> says for which keys the allocation succeeds.\<close>

definition new_buffer ::
  "(artik_coap_option_key \<Rightarrow> bool) \<Rightarrow> artik_coap_option list \<Rightarrow> artik_coap_option_key \<Rightarrow> buffer option" where
  "new_buffer memory options key = (if memory key then Some (total_len key options + 1, []) else None)"

text \<open>
  The buffers made before the second loop, in the order of the code.  The flag says that all
  allocations have succeeded; otherwise the function returns.
\<close>

definition new_buffers ::
  "(artik_coap_option_key \<Rightarrow> bool) \<Rightarrow> artik_coap_option list \<Rightarrow> option_strings \<Rightarrow> bool \<times> option_strings" where
  "new_buffers memory options n =
     (let n1 = (if has OPTION_LOCATION_PATH options
                then n\<lparr>os_location_path := new_buffer memory options OPTION_LOCATION_PATH\<rparr> else n);
          n2 = (if has OPTION_URI_PATH options
                then n1\<lparr>os_uri_path := new_buffer memory options OPTION_URI_PATH\<rparr> else n1);
          n3 = (if has OPTION_LOCATION_QUERY options
                then n2\<lparr>os_location_query := new_buffer memory options OPTION_LOCATION_QUERY\<rparr> else n2);
          n4 = (if has OPTION_URI_QUERY options
                then n3\<lparr>os_uri_query := new_buffer memory options OPTION_URI_QUERY\<rparr> else n3)
      in if has OPTION_LOCATION_PATH options \<and> \<not> memory OPTION_LOCATION_PATH then (False, n1)
         else if has OPTION_URI_PATH options \<and> \<not> memory OPTION_URI_PATH then (False, n2)
         else if has OPTION_LOCATION_QUERY options \<and> \<not> memory OPTION_LOCATION_QUERY then (False, n3)
         else if has OPTION_URI_QUERY options \<and> \<not> memory OPTION_URI_QUERY then (False, n4)
         else (True, n4))"

text \<open>The state of the second loop: the calls so far, the buffers (if there is a node) and the two counts.\<close>

record adding =
  ad_calls :: "header_call list"
  ad_node :: "option_strings option"
  ad_location_query_index :: nat
  ad_uri_query_index :: nat

definition add_call :: "header_call \<Rightarrow> adding \<Rightarrow> adding" where
  "add_call c a = a\<lparr>ad_calls := ad_calls a @ [c]\<rparr>"

text \<open>The character pointer of an option that the library reads up to its final zero.\<close>

definition opaque :: "artik_coap_option \<Rightarrow> u8 list" where
  "opaque opt = (case o_data opt of None \<Rightarrow> [] | Some data \<Rightarrow> take (o_len opt) data)"

definition text_of :: "artik_coap_option \<Rightarrow> u8 list option" where
  "text_of opt =
     (case o_data opt of
        None \<Rightarrow> None
      | Some data \<Rightarrow> if 0 \<in> set data then Some (takeWhile (\<lambda>b. b \<noteq> 0) data) else None)"

definition add_option :: "bool \<Rightarrow> artik_coap_option \<Rightarrow> adding \<Rightarrow> adding option" where
  "add_option observe opt a =
     (case o_key opt of
        OPTION_IF_MATCH \<Rightarrow> Some (add_call (Set_if_match (opaque opt)) a)
      | OPTION_URI_HOST \<Rightarrow> do { s \<leftarrow> text_of opt; Some (add_call (Set_uri_host s) a) }
      | OPTION_ETAG \<Rightarrow> Some (add_call (Set_etag (opaque opt)) a)
      | OPTION_URI_PATH \<Rightarrow>
          (case ad_node a of
             None \<Rightarrow> Some a
           | Some n \<Rightarrow> do {
               b \<leftarrow> append_part 0x2F opt (os_uri_path n);
               Some (a\<lparr>ad_node := Some (n\<lparr>os_uri_path := b\<rparr>)\<rparr>) })
      | OPTION_URI_QUERY \<Rightarrow>
          (case ad_node a of
             None \<Rightarrow> Some a
           | Some n \<Rightarrow>
               if os_uri_query n = None then Some a
               else do {
                 b \<leftarrow> append_part (if ad_uri_query_index a = 0 then 0x3F else 0x26) opt (os_uri_query n);
                 Some (a\<lparr>ad_node := Some (n\<lparr>os_uri_query := b\<rparr>),
                         ad_uri_query_index := (if ad_uri_query_index a = 0 then 1 else ad_uri_query_index a)\<rparr>) })
      | OPTION_LOCATION_PATH \<Rightarrow>
          (case ad_node a of
             None \<Rightarrow> Some a
           | Some n \<Rightarrow> do {
               b \<leftarrow> append_part 0x2F opt (os_location_path n);
               Some (a\<lparr>ad_node := Some (n\<lparr>os_location_path := b\<rparr>)\<rparr>) })
      | OPTION_LOCATION_QUERY \<Rightarrow>
          (case ad_node a of
             None \<Rightarrow> Some a
           | Some n \<Rightarrow>
               if os_location_query n = None then Some a
               else do {
                 b \<leftarrow> append_part (if ad_location_query_index a = 0 then 0x3F else 0x26) opt (os_location_query n);
                 Some (a\<lparr>ad_node := Some (n\<lparr>os_location_query := b\<rparr>),
                         ad_location_query_index :=
                           (if ad_location_query_index a = 0 then 1 else ad_location_query_index a)\<rparr>) })
      | OPTION_PROXY_URI \<Rightarrow> do { s \<leftarrow> text_of opt; Some (add_call (Set_proxy_uri s) a) }
      | OPTION_PROXY_SCHEME \<Rightarrow> do { s \<leftarrow> text_of opt; Some (add_call (Set_proxy_scheme s) a) }
      | OPTION_URI_PORT \<Rightarrow> do { v \<leftarrow> option_integer opt; Some (add_call (Set_uri_port (ucast v)) a) }
      | OPTION_ACCEPT \<Rightarrow> do { v \<leftarrow> option_integer opt; Some (add_call (Set_accept (ucast v)) a) }
      | OPTION_CONTENT_FORMAT \<Rightarrow> do { v \<leftarrow> option_integer opt; Some (add_call (Set_content_type v) a) }
      | OPTION_MAXAGE \<Rightarrow> do { v \<leftarrow> option_integer opt; Some (add_call (Set_max_age v) a) }
      | OPTION_SIZE1 \<Rightarrow> do { v \<leftarrow> option_integer opt; Some (add_call (Set_size1 v) a) }
      | OPTION_OBSERVE \<Rightarrow>
          if observe then do { v \<leftarrow> option_integer opt; Some (add_call (Set_observe v) a) } else Some a
      | OPTION_IF_NONE_MATCH \<Rightarrow> Some (add_call Set_if_none_match a)
      | OPTION_BLOCK2 \<Rightarrow> do {
          v \<leftarrow> option_integer opt;
          let block = coap_convert_to_block v;
          Some (add_call (Set_block2 (b_num block) (b_m block) (b_szx block)) a) }
      | OPTION_CLEARED \<Rightarrow> Some a)"

fun add_each :: "bool \<Rightarrow> artik_coap_option list \<Rightarrow> adding \<Rightarrow> adding option" where
  "add_each observe [] a = Some a"
| "add_each observe (opt # opts) a = do { a \<leftarrow> add_option observe opt a; add_each observe opts a }"

text \<open>The calls after the loop, which give the collected texts to the library.\<close>

definition set_strings :: "artik_coap_option list \<Rightarrow> adding \<Rightarrow> adding" where
  "set_strings options a =
     (case ad_node a of
        None \<Rightarrow> a
      | Some n \<Rightarrow>
          let give = (\<lambda>key buf call a. case buf of
                        Some b \<Rightarrow> if has key options then add_call (call (snd b)) a else a
                      | None \<Rightarrow> a);
              used = (\<lambda>key buf old. old \<or> has key options \<and> buf \<noteq> (None :: buffer option));
              a = give OPTION_LOCATION_PATH (os_location_path n) Set_location_path a;
              a = give OPTION_URI_PATH (os_uri_path n) Set_uri_path a;
              a = give OPTION_LOCATION_QUERY (os_location_query n) Set_location_query a;
              a = give OPTION_URI_QUERY (os_uri_query n) Set_uri_query a
          in a\<lparr>ad_node := Some (n\<lparr>
                os_use_location_path := used OPTION_LOCATION_PATH (os_location_path n) (os_use_location_path n),
                os_use_uri_path := used OPTION_URI_PATH (os_uri_path n) (os_use_uri_path n),
                os_use_location_query := used OPTION_LOCATION_QUERY (os_location_query n) (os_use_location_query n),
                os_use_uri_query := used OPTION_URI_QUERY (os_uri_query n) (os_use_uri_query n)\<rparr>)\<rparr>)"

text \<open>
  The whole function: the calls and the strings of the node.  \<^term>\<open>None\<close> is a write behind an object or
  a read of a text without an end.
\<close>

definition add_options ::
  "(artik_coap_option_key \<Rightarrow> bool) \<Rightarrow> artik_coap_option list \<Rightarrow> bool \<Rightarrow> option_strings option \<Rightarrow>
   (header_call list \<times> option_strings option) option" where
  "add_options memory options observe node =
     (let (ready, node) = (case node of
                             None \<Rightarrow> (True, None)
                           | Some n \<Rightarrow> (case new_buffers memory options n of (r, n) \<Rightarrow> (r, Some n)))
      in if \<not> ready then Some ([], node)
         else do {
           a \<leftarrow> add_each observe options
                 \<lparr>ad_calls = [], ad_node = node, ad_location_query_index = 0, ad_uri_query_index = 0\<rparr>;
           let a = set_strings options a;
           Some (ad_calls a, ad_node a)
         })"

section \<open>From the library to the application\<close>

text \<open>
  What the getters of the library answer; \<^term>\<open>None\<close> says that the message does not have the option.
  The getter of the accept option gives a pointer to its values; \<open>pt_accept\<close> is that pointer.
\<close>

record parsed_options =
  pt_if_match :: "u8 list option"
  pt_uri_host :: "u8 list option"
  pt_etag :: "u8 list option"
  pt_if_none_match :: bool
  pt_observe :: "u32 option"
  pt_uri_port :: "u16 option"
  pt_location_path :: "u8 list list option"
  pt_uri_path :: "u8 list list option"
  pt_content_type :: "u32 option"
  pt_max_age :: "u32 option"
  pt_uri_query :: "u8 list list option"
  pt_accept :: "u32 option"
  pt_location_query :: "u8 list option"
  pt_proxy_uri :: "u8 list option"
  pt_proxy_scheme :: "u8 list option"
  pt_size1 :: "u32 option"
  pt_block2 :: "(u32 \<times> u8 \<times> u16) option"

text \<open>The parts that \<^verbatim>\<open>strtok\<close> finds between ampersands: empty ones are skipped.\<close>

fun parts_from :: "u8 list \<Rightarrow> u8 list \<Rightarrow> u8 list list" where
  "parts_from cur [] = (if cur = [] then [] else [cur])"
| "parts_from cur (b # bs) =
     (if b = 0 then (if cur = [] then [] else [cur])
      else if b = 0x26 then (if cur = [] then parts_from [] bs else cur # parts_from [] bs)
      else parts_from (cur @ [b]) bs)"

definition query_parts :: "u8 list \<Rightarrow> u8 list list" where "query_parts q = parts_from [] q"

definition one :: "'a option \<Rightarrow> nat" where "one x = (case x of None \<Rightarrow> 0 | Some _ \<Rightarrow> 1)"

definition many :: "'a list option \<Rightarrow> nat" where "many x = (case x of None \<Rightarrow> 0 | Some l \<Rightarrow> length l)"

text \<open>\<open>memory\<close>: whether the copy of the location query can be made.\<close>

definition get_number_options :: "bool \<Rightarrow> parsed_options \<Rightarrow> nat" where
  "get_number_options memory p =
     one (pt_if_match p) + one (pt_uri_host p) + one (pt_etag p) + (if pt_if_none_match p then 1 else 0) +
     one (pt_observe p) + one (pt_uri_port p) + many (pt_location_path p) + many (pt_uri_path p) +
     one (pt_content_type p) + one (pt_max_age p) + many (pt_uri_query p) + one (pt_accept p) +
     (case pt_location_query p of None \<Rightarrow> 0 | Some q \<Rightarrow> if memory then length (query_parts q) else 0) +
     one (pt_proxy_uri p) + one (pt_proxy_scheme p) + one (pt_size1 p) + one (pt_block2 p)"

text \<open>
  What is written one after the other: an option, whose data (if any) is allocated for it, or a
  working copy that only has to be allocated.
\<close>

datatype fill_step = Entry artik_coap_option | Working_copy

definition cleared :: artik_coap_option where
  "cleared = \<lparr>o_key = OPTION_CLEARED, o_data = None, o_len = 0\<rparr>"

text \<open>
  Filling an array of \<open>n\<close> cleared options; \<open>memory i\<close> is the success of the \<open>i\<close>-th allocation.  A failed
  one ends the function and leaves the key and the length written.
\<close>

fun fill :: "(nat \<Rightarrow> bool) \<Rightarrow> nat \<Rightarrow> nat \<Rightarrow> fill_step list \<Rightarrow> artik_coap_option list" where
  "fill memory i 0 steps = []"
| "fill memory i (Suc n) [] = cleared # fill memory i n []"
| "fill memory i (Suc n) (Working_copy # steps) =
     (if memory i then fill memory (i + 1) (Suc n) steps else replicate (Suc n) cleared)"
| "fill memory i (Suc n) (Entry e # steps) =
     (if o_data e = None then e # fill memory i n steps
      else if memory i then e # fill memory (i + 1) n steps
      else e\<lparr>o_data := None\<rparr> # replicate n cleared)"

definition bytes_entry :: "artik_coap_option_key \<Rightarrow> u8 list option \<Rightarrow> fill_step list" where
  "bytes_entry key x =
     (case x of
        None \<Rightarrow> []
      | Some d \<Rightarrow> [Entry \<lparr>o_key = key, o_data = (if d = [] then None else Some d), o_len = length d\<rparr>])"

definition integer_entry :: "artik_coap_option_key \<Rightarrow> nat \<Rightarrow> u32 option \<Rightarrow> fill_step list" where
  "integer_entry key n x =
     (case x of None \<Rightarrow> [] | Some v \<Rightarrow> [Entry \<lparr>o_key = key, o_data = Some (le_bytes n v), o_len = n\<rparr>])"

definition part_entry :: "artik_coap_option_key \<Rightarrow> u8 list \<Rightarrow> fill_step" where
  "part_entry key d = Entry \<lparr>o_key = key, o_data = (if d = [] then None else Some (d @ [0])), o_len = length d\<rparr>"

definition parts_entries :: "artik_coap_option_key \<Rightarrow> u8 list list option \<Rightarrow> fill_step list" where
  "parts_entries key x = (case x of None \<Rightarrow> [] | Some ds \<Rightarrow> map (part_entry key) ds)"

definition location_query_entries :: "u8 list option \<Rightarrow> fill_step list" where
  "location_query_entries x =
     (case x of
        None \<Rightarrow> []
      | Some q \<Rightarrow>
          if q = [] then []
          else Working_copy #
            (if query_parts q = []
             then [Entry \<lparr>o_key = OPTION_LOCATION_QUERY, o_data = Some (q @ [0]), o_len = length q\<rparr>]
             else map (part_entry OPTION_LOCATION_QUERY) (query_parts q)))"

text \<open>The block option as a number of three bytes; the loop over the size may not end.\<close>

definition block2_value :: "u32 \<times> u8 \<times> u16 \<Rightarrow> u32 option" where
  "block2_value b =
     (case b of (num, further, bytes) \<Rightarrow>
        do {
          count \<leftarrow> count_halvings bytes 0;
          let szx = (of_nat count - 4 :: u16);
          Some (push_bit 4 num OR ucast (push_bit 3 further) OR ucast (szx AND 0x07))
        })"

text \<open>The entries in their order, with the value of the block option.\<close>

definition entries_with :: "u32 option \<Rightarrow> parsed_options \<Rightarrow> bool \<Rightarrow> fill_step list" where
  "entries_with block2 p observe =
     bytes_entry OPTION_IF_MATCH (pt_if_match p) @
     bytes_entry OPTION_URI_HOST (pt_uri_host p) @
     bytes_entry OPTION_ETAG (pt_etag p) @
     (if pt_if_none_match p
      then [Entry \<lparr>o_key = OPTION_IF_NONE_MATCH, o_data = None, o_len = 0\<rparr>] else []) @
     (if observe then integer_entry OPTION_OBSERVE 4 (pt_observe p)
      else if pt_observe p = None then [] else [Entry cleared]) @
     integer_entry OPTION_URI_PORT 2 (map_option ucast (pt_uri_port p)) @
     parts_entries OPTION_LOCATION_PATH (pt_location_path p) @
     parts_entries OPTION_URI_PATH (pt_uri_path p) @
     integer_entry OPTION_CONTENT_FORMAT 2 (pt_content_type p) @
     integer_entry OPTION_MAXAGE 4 (pt_max_age p) @
     parts_entries OPTION_URI_QUERY (pt_uri_query p) @
     integer_entry OPTION_ACCEPT 2 (pt_accept p) @
     location_query_entries (pt_location_query p) @
     bytes_entry OPTION_PROXY_URI (pt_proxy_uri p) @
     bytes_entry OPTION_PROXY_SCHEME (pt_proxy_scheme p) @
     integer_entry OPTION_SIZE1 4 (pt_size1 p) @
     integer_entry OPTION_BLOCK2 3 block2"

definition option_entries :: "parsed_options \<Rightarrow> bool \<Rightarrow> fill_step list option" where
  "option_entries p observe =
     do {
       block2 \<leftarrow> (case pt_block2 p of None \<Rightarrow> Some None | Some b \<Rightarrow> map_option Some (block2_value b));
       Some (entries_with block2 p observe)
     }"

text \<open>
  The number of options and the array, \<^term>\<open>None\<close> for a null pointer.  \<open>count_memory\<close> is the allocation
  made while counting, allocation 0 the array.
\<close>

definition get_options ::
  "bool \<Rightarrow> (nat \<Rightarrow> bool) \<Rightarrow> parsed_options \<Rightarrow> bool \<Rightarrow> (nat \<times> artik_coap_option list option) option" where
  "get_options count_memory memory p observe =
     (let n = get_number_options count_memory p
      in if n = 0 \<or> \<not> memory 0 then Some (n, None)
         else map_option (\<lambda>steps. (n, Some (fill memory 1 n steps))) (option_entries p observe))"

text \<open>
  Freeing: the positions whose data is freed, and the pointer afterwards; \<^term>\<open>None\<close> reads behind the
  array.
\<close>

definition free_options ::
  "artik_coap_option list option \<Rightarrow> int \<Rightarrow> (nat list \<times> artik_coap_option list option) option" where
  "free_options options num_options =
     (case options of
        None \<Rightarrow> Some ([], None)
      | Some os \<Rightarrow>
          if num_options < 0 then Some ([], Some os)
          else if length os < nat num_options then None
          else Some (filter (\<lambda>i. o_data (os ! i) \<noteq> None) [0..<nat num_options], None))"

section \<open>Integers in network order\<close>

lemma octet_masks:
  "(0xFF :: u32) = mask 8" "(0xFF00 :: u32) = push_bit 8 (mask 8)"
  "(0xFF0000 :: u32) = push_bit 16 (mask 8)" "(0xFF000000 :: u32) = push_bit 24 (mask 8)"
  by (simp_all add: mask_eq_exp_minus_1 push_bit_eq_mult)

lemma octet_beyond: "8 \<le> n \<Longrightarrow> \<not> bit (a :: u8) n"
  using bit_imp_le_length [of a n] by auto

lemma u32_bits: "(v :: u32) = w \<longleftrightarrow> (\<forall>n \<in> set [0..<32]. bit v n = bit w n)"
  by (auto intro: bit_word_eqI)

lemma swap_bytes_2: "swap_bytes (le_value [a, b]) 2 = le_value [b, a]"
  unfolding swap_bytes_def octet_masks u32_bits
  by (simp add: bit_simps octet_beyond upt_rec)

lemma swap_bytes_3: "swap_bytes (le_value [a, b, c]) 3 = le_value [c, b, a]"
  unfolding swap_bytes_def octet_masks u32_bits
  by (simp add: bit_simps octet_beyond upt_rec)

lemma swap_bytes_4: "swap_bytes (le_value [a, b, c, d]) 4 = le_value [d, c, b, a]"
  unfolding swap_bytes_def octet_masks u32_bits
  by (simp add: bit_simps octet_beyond upt_rec)

lemma swap_bytes_rev:
  assumes "length bs \<le> 4"
  shows "swap_bytes (le_value bs) (length bs) = le_value (rev bs)"
proof -
  consider "length bs = 0" | "length bs = 1" | "length bs = 2" | "length bs = 3" | "length bs = 4"
    using assms by linarith
  then show ?thesis
  proof cases
    case 3
    then obtain a b where "bs = [a, b]" by (auto simp: length_Suc_conv eval_nat_numeral)
    then show ?thesis using swap_bytes_2 [of a b] by (simp add: eval_nat_numeral)
  next
    case 4
    then obtain a b c where "bs = [a, b, c]" by (auto simp: length_Suc_conv eval_nat_numeral)
    then show ?thesis using swap_bytes_3 [of a b c] by (simp add: eval_nat_numeral)
  next
    case 5
    then obtain a b c d where "bs = [a, b, c, d]" by (auto simp: length_Suc_conv eval_nat_numeral)
    then show ?thesis using swap_bytes_4 [of a b c d] by (simp add: eval_nat_numeral)
  qed (auto simp: swap_bytes_def length_Suc_conv)
qed

lemma length_le_bytes [simp]: "length (le_bytes n v) = n"
  by (induction n arbitrary: v) simp_all

lemma bit_le_value:
  "k < 32 \<Longrightarrow> bit (le_value (le_bytes n v)) k \<longleftrightarrow> k < 8 * n \<and> bit v k"
proof (induction n arbitrary: v k)
  case (Suc n)
  have "bit (le_value (le_bytes n (drop_bit 8 v))) (k - 8) \<longleftrightarrow> k - 8 < 8 * n \<and> bit v k" if "8 \<le> k"
    using Suc that by (simp add: bit_drop_bit_eq)
  then show ?case using Suc.prems by (cases "k < 8") (auto simp: bit_simps)
qed simp

lemma le_value_bytes_4: "le_value (le_bytes 4 v) = v"
  by (rule bit_word_eqI) (simp add: bit_le_value)

section \<open>Texts\<close>

text \<open>What an option adds to a text, and the texts of paths and queries.\<close>

definition part :: "artik_coap_option \<Rightarrow> u8 list" where
  "part opt = takeWhile (\<lambda>b. b \<noteq> 0) (opaque opt)"

definition parts :: "artik_coap_option_key \<Rightarrow> artik_coap_option list \<Rightarrow> u8 list list" where
  "parts key options = map part (filter (\<lambda>opt. o_key opt = key) options)"

fun path_text :: "u8 list list \<Rightarrow> u8 list" where
  "path_text [] = []"
| "path_text (p # ps) = 0x2F # p @ path_text ps"

fun query_text :: "bool \<Rightarrow> u8 list list \<Rightarrow> u8 list" where
  "query_text first [] = []"
| "query_text first (p # ps) = (if first then 0x3F else 0x26) # p @ query_text False ps"

text \<open>An option whose data is there, is no longer than an integer where one is expected, and ends where
  the library reads a text.\<close>

definition integer_keys :: "artik_coap_option_key set" where
  "integer_keys = {OPTION_OBSERVE, OPTION_URI_PORT, OPTION_CONTENT_FORMAT, OPTION_MAXAGE, OPTION_ACCEPT,
     OPTION_SIZE1, OPTION_BLOCK2}"

definition text_keys :: "artik_coap_option_key set" where
  "text_keys = {OPTION_URI_HOST, OPTION_PROXY_URI, OPTION_PROXY_SCHEME}"

definition option_ok :: "artik_coap_option \<Rightarrow> bool" where
  "option_ok opt \<longleftrightarrow>
     (case o_data opt of None \<Rightarrow> o_len opt = 0 | Some data \<Rightarrow> o_len opt \<le> length data)
     \<and> (o_key opt \<in> integer_keys \<longrightarrow> o_len opt \<le> 4)
     \<and> (o_key opt \<in> text_keys \<longrightarrow> text_of opt \<noteq> None)"

lemma option_integer_ok:
  assumes "option_ok opt" "o_key opt \<in> integer_keys"
  shows "option_integer opt = Some (le_value (rev (opaque opt)))"
proof (cases "o_data opt")
  case None
  then show ?thesis using assms by (simp add: option_ok_def option_integer_def opaque_def)
next
  case (Some data)
  then have len: "o_len opt \<le> 4" "o_len opt \<le> length data" using assms by (auto simp: option_ok_def)
  then show ?thesis
    using swap_bytes_rev [of "take (o_len opt) data"] Some
    by (simp add: option_integer_def opaque_def min_absorb2)
qed

lemma append_part_ok:
  assumes "option_ok opt" "sep \<noteq> 0" "\<forall>b. buf = Some b \<longrightarrow> length (snd b) + o_len opt + 1 < fst b"
  shows "append_part sep opt buf = Some (map_option (\<lambda>b. (fst b, snd b @ sep # part opt)) buf)"
proof (cases buf)
  case (Some b)
  have "length (takeWhile (\<lambda>b. b \<noteq> 0) xs) \<le> length xs" for xs :: "u8 list" by (rule length_takeWhile_le)
  note le = this [of "take (o_len opt) data" for data]
  show ?thesis
  proof (cases "o_data opt")
    case None
    then show ?thesis
      using assms Some by (auto simp: append_part_def strncat_def option_ok_def part_def opaque_def)
  next
    case (Some data)
    moreover have "length (takeWhile (\<lambda>b. b \<noteq> 0) (take (o_len opt) data)) \<le> o_len opt"
      using le [of data] by simp
    ultimately show ?thesis
      using assms \<open>buf = Some b\<close>
      by (auto simp: append_part_def strncat_def option_ok_def part_def opaque_def Let_def)
  qed
qed (simp add: append_part_def)

lemma parts_simps [simp]:
  "parts key [] = []"
  "parts key (opt # opts) = (if o_key opt = key then part opt # parts key opts else parts key opts)"
  by (simp_all add: parts_def)

lemma total_len_simps [simp]:
  "total_len key [] = 0"
  "total_len key (opt # opts) = (if o_key opt = key then o_len opt + 1 else 0) + total_len key opts"
  by (simp_all add: total_len_def)

lemma path_text_append: "path_text (ps @ qs) = path_text ps @ path_text qs"
  by (induction ps) simp_all

lemma query_text_append: "query_text first (ps @ qs) = query_text first ps @ query_text (first \<and> ps = []) qs"
  by (induction ps arbitrary: first) simp_all

lemma length_part: "option_ok opt \<Longrightarrow> length (part opt) \<le> o_len opt"
  by (auto simp: part_def opaque_def option_ok_def split: option.split
      intro: order_trans [OF length_takeWhile_le])

text \<open>A buffer with room for the options to come, and the buffer with a text behind its own.\<close>

definition room :: "artik_coap_option_key \<Rightarrow> artik_coap_option list \<Rightarrow> buffer option \<Rightarrow> bool" where
  "room key opts buf = (case buf of None \<Rightarrow> True | Some b \<Rightarrow> length (snd b) + total_len key opts < fst b)"

definition extend :: "u8 list \<Rightarrow> buffer option \<Rightarrow> buffer option" where
  "extend t buf = map_option (\<lambda>b. (fst b, snd b @ t)) buf"

lemma extend_simps [simp]:
  "extend [] buf = buf" "extend t (extend s buf) = extend (s @ t) buf" "extend t None = None"
  "extend t (Some b) = Some (fst b, snd b @ t)"
  "(extend t buf = None) = (buf = None)"
  by (cases buf; simp add: extend_def)+

definition node_room :: "artik_coap_option list \<Rightarrow> option_strings \<Rightarrow> bool" where
  "node_room opts n \<longleftrightarrow>
     room OPTION_LOCATION_PATH opts (os_location_path n) \<and> room OPTION_URI_PATH opts (os_uri_path n)
     \<and> room OPTION_LOCATION_QUERY opts (os_location_query n) \<and> room OPTION_URI_QUERY opts (os_uri_query n)"

text \<open>The strings of the node after the options, from the two counts.\<close>

definition node_after :: "bool \<Rightarrow> bool \<Rightarrow> artik_coap_option list \<Rightarrow> option_strings \<Rightarrow> option_strings" where
  "node_after lq uq opts n = n\<lparr>
     os_location_path := extend (path_text (parts OPTION_LOCATION_PATH opts)) (os_location_path n),
     os_uri_path := extend (path_text (parts OPTION_URI_PATH opts)) (os_uri_path n),
     os_location_query := extend (query_text lq (parts OPTION_LOCATION_QUERY opts)) (os_location_query n),
     os_uri_query := extend (query_text uq (parts OPTION_URI_QUERY opts)) (os_uri_query n)\<rparr>"

lemma append_part_room:
  assumes "option_ok opt" "sep \<noteq> 0" "o_key opt = key" "room key [opt] buf"
  shows "append_part sep opt buf = Some (extend (sep # part opt) buf)"
  using append_part_ok [OF assms(1,2), of buf] assms(3,4) by (cases buf) (auto simp: room_def extend_def)

lemma add_option_ok:
  assumes "option_ok opt" "ad_node a = Some n" "node_room [opt] n"
  shows "\<exists>a'. add_option observe opt a = Some a'
    \<and> ad_node a' = Some (node_after (ad_location_query_index a = 0) (ad_uri_query_index a = 0) [opt] n)
    \<and> (ad_location_query_index a' = 0) = (ad_location_query_index a = 0 \<and>
        (parts OPTION_LOCATION_QUERY [opt] = [] \<or> os_location_query n = None))
    \<and> (ad_uri_query_index a' = 0) = (ad_uri_query_index a = 0 \<and>
        (parts OPTION_URI_QUERY [opt] = [] \<or> os_uri_query n = None))"
proof (cases "o_key opt \<in> integer_keys")
  case True
  then show ?thesis
    using assms option_integer_ok [OF assms(1) True]
    by (auto simp: integer_keys_def add_option_def add_call_def node_after_def Let_def)
next
  case False
  note room = assms(3) [unfolded node_room_def]
  have ended: "\<exists>s. text_of opt = Some s" if "o_key opt \<in> text_keys" using assms(1) that by (auto simp: option_ok_def)
  show ?thesis
  proof (cases "o_key opt")
    case OPTION_URI_PATH
    then show ?thesis
      using assms room append_part_room [OF assms(1), of "0x2F" OPTION_URI_PATH "os_uri_path n"]
      by (simp add: add_option_def node_after_def)
  next
    case OPTION_LOCATION_PATH
    then show ?thesis
      using assms room append_part_room [OF assms(1), of "0x2F" OPTION_LOCATION_PATH "os_location_path n"]
      by (simp add: add_option_def node_after_def)
  next
    case OPTION_URI_QUERY
    then show ?thesis
      using assms room append_part_room [OF assms(1), of "if ad_uri_query_index a = 0 then 0x3F else 0x26"
          OPTION_URI_QUERY "os_uri_query n"]
      by (auto simp: add_option_def node_after_def)
  next
    case OPTION_LOCATION_QUERY
    then show ?thesis
      using assms room append_part_room [OF assms(1), of "if ad_location_query_index a = 0 then 0x3F else 0x26"
          OPTION_LOCATION_QUERY "os_location_query n"]
      by (auto simp: add_option_def node_after_def)
  qed (use False assms ended in \<open>auto simp: integer_keys_def text_keys_def add_option_def add_call_def node_after_def\<close>)
qed

lemma node_room_step:
  assumes "option_ok opt" "node_room (opt # opts) n"
  shows "node_room [opt] n" "node_room opts (node_after lq uq [opt] n)"
  using assms(2) length_part [OF assms(1)]
  by (auto simp: node_room_def room_def node_after_def extend_def split: option.splits)

lemma node_after_simps [simp]:
  "node_after lq uq [] n = n"
  "os_location_query (node_after lq uq opts n) = extend (query_text lq (parts OPTION_LOCATION_QUERY opts)) (os_location_query n)"
  "os_uri_query (node_after lq uq opts n) = extend (query_text uq (parts OPTION_URI_QUERY opts)) (os_uri_query n)"
  by (simp_all add: node_after_def)

lemma node_after_Cons:
  "node_after lq uq (opt # opts) n =
     node_after (lq \<and> (parts OPTION_LOCATION_QUERY [opt] = [] \<or> os_location_query n = None))
       (uq \<and> (parts OPTION_URI_QUERY [opt] = [] \<or> os_uri_query n = None)) opts (node_after lq uq [opt] n)"
  by (cases "os_location_query n"; cases "os_uri_query n") (simp_all add: node_after_def)

lemma add_each_ok:
  assumes "\<forall>opt \<in> set opts. option_ok opt" "ad_node a = Some n" "node_room opts n"
  shows "\<exists>a'. add_each observe opts a = Some a' \<and>
    ad_node a' = Some (node_after (ad_location_query_index a = 0) (ad_uri_query_index a = 0) opts n)"
  using assms
proof (induction opts arbitrary: a n)
  case (Cons opt opts)
  have ok: "option_ok opt" using Cons.prems by simp
  from add_option_ok [OF ok Cons.prems(2) node_room_step(1) [OF ok Cons.prems(3)], of observe]
  obtain a1 where a1: "add_option observe opt a = Some a1"
      "ad_node a1 = Some (node_after (ad_location_query_index a = 0) (ad_uri_query_index a = 0) [opt] n)"
      "(ad_location_query_index a1 = 0) = (ad_location_query_index a = 0 \<and>
        (parts OPTION_LOCATION_QUERY [opt] = [] \<or> os_location_query n = None))"
      "(ad_uri_query_index a1 = 0) = (ad_uri_query_index a = 0 \<and>
        (parts OPTION_URI_QUERY [opt] = [] \<or> os_uri_query n = None))"
    by (elim exE conjE)
  have "\<exists>a'. add_each observe opts a1 = Some a' \<and>
      ad_node a' = Some (node_after (ad_location_query_index a1 = 0) (ad_uri_query_index a1 = 0) opts
        (node_after (ad_location_query_index a = 0) (ad_uri_query_index a = 0) [opt] n))"
    using Cons.prems(1) by (intro Cons.IH a1 node_room_step(2) [OF ok Cons.prems(3)]) simp_all
  then show ?case
    unfolding a1(3,4) node_after_Cons [of _ _ opt opts] by (simp add: a1(1))
qed simp


text \<open>The buffers before the loop: one of the right size for each key that occurs, else the old one.\<close>

lemma new_buffers_ok:
  assumes "memory = (\<lambda>_. True)"
  shows "new_buffers memory options node = (True, node\<lparr>
     os_location_path := (if has OPTION_LOCATION_PATH options
       then Some (total_len OPTION_LOCATION_PATH options + 1, []) else os_location_path node),
     os_uri_path := (if has OPTION_URI_PATH options
       then Some (total_len OPTION_URI_PATH options + 1, []) else os_uri_path node),
     os_location_query := (if has OPTION_LOCATION_QUERY options
       then Some (total_len OPTION_LOCATION_QUERY options + 1, []) else os_location_query node),
     os_uri_query := (if has OPTION_URI_QUERY options
       then Some (total_len OPTION_URI_QUERY options + 1, []) else os_uri_query node)\<rparr>)"
  using assms by (simp add: new_buffers_def new_buffer_def Let_def)

lemma total_len_absent: "\<not> has key options \<Longrightarrow> total_len key options = 0"
  by (auto simp: has_def total_len_def filter_empty_conv)

lemma new_buffers_room:
  assumes "memory = (\<lambda>_. True)" "node_room [] node"
  shows "node_room options (snd (new_buffers memory options node))"
  using assms(2) unfolding new_buffers_ok [OF assms(1)]
  by (auto simp: node_room_def room_def total_len_absent split: option.splits)

text \<open>The loop from the cleared buffers, and the calls of the whole function.\<close>

definition first_state :: "artik_coap_option list \<Rightarrow> option_strings \<Rightarrow> adding" where
  "first_state options node =
     \<lparr>ad_calls = [], ad_node = Some (snd (new_buffers (\<lambda>_. True) options node)),
      ad_location_query_index = 0, ad_uri_query_index = 0\<rparr>"

lemma add_options_calls:
  assumes "\<forall>opt \<in> set options. option_ok opt" "memory = (\<lambda>_. True)" "node_room [] node"
  obtains a node' where "add_each observe options (first_state options node) = Some a"
    "add_options memory options observe (Some node) =
    Some (ad_calls a
      @ (if has OPTION_LOCATION_PATH options
         then [Set_location_path (path_text (parts OPTION_LOCATION_PATH options))] else [])
      @ (if has OPTION_URI_PATH options then [Set_uri_path (path_text (parts OPTION_URI_PATH options))] else [])
      @ (if has OPTION_LOCATION_QUERY options
         then [Set_location_query (query_text True (parts OPTION_LOCATION_QUERY options))] else [])
      @ (if has OPTION_URI_QUERY options
         then [Set_uri_query (query_text True (parts OPTION_URI_QUERY options))] else []), Some node')"
proof -
  define n where "n = snd (new_buffers (\<lambda>_. True) options node)"
  have ready: "new_buffers memory options node = (True, n)"
    by (simp add: n_def new_buffers_ok assms(2))
  obtain a where a: "add_each observe options (first_state options node) = Some a"
      "ad_node a = Some (node_after True True options n)"
    using add_each_ok [OF assms(1), of "first_state options node" n observe]
      new_buffers_room [OF refl assms(3), of options]
    by (auto simp: first_state_def n_def)
  have "add_options memory options observe (Some node) =
      Some (ad_calls (set_strings options a), ad_node (set_strings options a))"
    using a(1) by (simp add: add_options_def ready first_state_def n_def [symmetric] Let_def)
  moreover have "ad_calls (set_strings options a) = ad_calls a
      @ (if has OPTION_LOCATION_PATH options
         then [Set_location_path (path_text (parts OPTION_LOCATION_PATH options))] else [])
      @ (if has OPTION_URI_PATH options then [Set_uri_path (path_text (parts OPTION_URI_PATH options))] else [])
      @ (if has OPTION_LOCATION_QUERY options
         then [Set_location_query (query_text True (parts OPTION_LOCATION_QUERY options))] else [])
      @ (if has OPTION_URI_QUERY options
         then [Set_uri_query (query_text True (parts OPTION_URI_QUERY options))] else [])"
    "\<exists>node'. ad_node (set_strings options a) = Some node'"
    by (simp_all add: set_strings_def a(2) n_def new_buffers_ok node_after_def add_call_def Let_def split: option.split)
  ultimately show ?thesis using a(1) that by auto
qed

text \<open>
  C35. Handing well-formed options to the library never writes behind a buffer, and gives it, after
  the calls of the single options, each collected text in one call: the paths with a slash before every
  segment, the queries with a question mark before the first part and an ampersand before the others.
  The allocations are taken to succeed.
\<close>

theorem add_options_texts:
  assumes "\<forall>opt \<in> set options. option_ok opt" "memory = (\<lambda>_. True)" "node_room [] node"
  shows "\<exists>calls node'. add_options memory options observe (Some node) =
    Some (calls
      @ (if has OPTION_LOCATION_PATH options
         then [Set_location_path (path_text (parts OPTION_LOCATION_PATH options))] else [])
      @ (if has OPTION_URI_PATH options then [Set_uri_path (path_text (parts OPTION_URI_PATH options))] else [])
      @ (if has OPTION_LOCATION_QUERY options
         then [Set_location_query (query_text True (parts OPTION_LOCATION_QUERY options))] else [])
      @ (if has OPTION_URI_QUERY options
         then [Set_uri_query (query_text True (parts OPTION_URI_QUERY options))] else []), Some node')"
  by (rule add_options_calls [OF assms, of observe]) blast

text \<open>Options of a request: two segments of a path and a maximal age.\<close>

definition ex_options :: "artik_coap_option list" where
  "ex_options =
     [\<lparr>o_key = OPTION_URI_PATH, o_data = Some [0x61, 0x62, 0], o_len = 2\<rparr>,
      \<lparr>o_key = OPTION_URI_PATH, o_data = Some [0x63, 0], o_len = 1\<rparr>,
      \<lparr>o_key = OPTION_MAXAGE, o_data = Some [0, 0, 1, 2], o_len = 4\<rparr>]"

definition no_strings :: option_strings where
  "no_strings = \<lparr>os_location_path = None, os_uri_path = None, os_location_query = None, os_uri_query = None,
     os_use_location_path = False, os_use_uri_path = False, os_use_location_query = False,
     os_use_uri_query = False\<rparr>"

lemma no_strings_room: "node_room [] no_strings"
  by (simp add: node_room_def room_def no_strings_def)

theorem add_options_texts_witness:
  "\<exists>calls node'. add_options (\<lambda>_. True) ex_options False (Some no_strings) =
    Some (calls @ [Set_uri_path [0x2F, 0x61, 0x62, 0x2F, 0x63]], Some node')"
proof -
  have "\<forall>opt \<in> set ex_options. option_ok opt"
    by (simp add: ex_options_def option_ok_def integer_keys_def text_keys_def)
  from add_options_texts [OF this refl no_strings_room, of False] show ?thesis
    by (simp add: ex_options_def has_def part_def opaque_def)
qed

section \<open>Options that are received and sent on\<close>








text \<open>The entries are well formed where the message has no text without an end.\<close>

lemma query_parts_nonzero: "0 \<notin> set cur \<Longrightarrow> d \<in> set (parts_from cur q) \<Longrightarrow> 0 \<notin> set d"
  by (induction cur q rule: parts_from.induct) (auto split: if_splits)

definition all_ok :: "artik_coap_option list \<Rightarrow> bool" where
  "all_ok es \<longleftrightarrow> (\<forall>opt \<in> set es. option_ok opt)"

lemma all_ok_simps [simp]:
  "all_ok []" "all_ok (es @ fs) \<longleftrightarrow> all_ok es \<and> all_ok fs" "all_ok (e # es) \<longleftrightarrow> option_ok e \<and> all_ok es"
  by (auto simp: all_ok_def)








lemma parts_append [simp]: "parts key (es @ fs) = parts key es @ parts key fs"
  by (simp add: parts_def)

lemma part_cleared [simp]: "o_key cleared = OPTION_CLEARED"
  by (simp add: cleared_def)











text \<open>
  A longer integer is copied over the stack, and a host that was received has no final zero: both are
  accesses behind an object.
\<close>

lemma option_integer_overflow:
  "4 < o_len opt \<Longrightarrow> option_integer opt = None"
  by (simp add: option_integer_def split: option.split)

lemma host_sent_on_overread:
  assumes "host \<noteq> []" "0 \<notin> set host"
  shows "add_option observe \<lparr>o_key = OPTION_URI_HOST, o_data = Some host, o_len = length host\<rparr> a = None"
  using assms by (simp add: add_option_def text_of_def)

text \<open>Whatever allocation fails, the array has as many options as reported, so freeing it is safe.\<close>

lemma length_fill: "length (fill memory i n steps) = n"
  by (induction memory i n steps rule: fill.induct) simp_all

lemma free_after_get:
  assumes "get_options count_memory memory p observe = Some (n, Some options)"
  shows "free_options (Some options) (int n) =
    Some (filter (\<lambda>i. o_data (options ! i) \<noteq> None) [0..<length options], None)"
  using assms by (auto simp: get_options_def free_options_def length_fill Let_def split: if_splits)

end
