(* ===== verification/Loop_Vector.thy ===== *)
theory Loop_Vector
  imports Prelude
begin

text \<open>
  The vectors of pointers of the TizenRT event loop (\<^verbatim>\<open>base/loop/tizenrt_loop.c\<close>).  The memory of a
  vector is a list as long as what is allocated, of which the first \<open>v_len\<close> elements are in use; the
  code does not store how much it allocated but computes it again from the length.
\<close>

section \<open>Powers of two\<close>

text \<open>\<^verbatim>\<open>__builtin_clz\<close>: the zeros above the highest bit set.\<close>

definition clz :: "u32 \<Rightarrow> nat" where
  "clz u = length (takeWhile (\<lambda>i. \<not> bit u i) (rev [0..<32]))"

definition align_power2_uint :: "u32 \<Rightarrow> u32" where
  "align_power2_uint u =
     (if u \<le> 1 then u
      else
        let left_zeros = clz (u - 1)
        in if left_zeros \<le> 1 then 0xFFFFFFFF else push_bit (32 - left_zeros) 1)"

definition align_power2_short_uint :: "u16 \<Rightarrow> u32" where
  "align_power2_short_uint u =
     (let aligned = align_power2_uint (ucast u) in if aligned \<le> 0xFFFF then aligned else 0xFFFF)"

section \<open>Vectors\<close>

record ptr_vector =
  v_data :: "addr list"
  v_len :: u16

definition empty_vector :: ptr_vector where "empty_vector = \<lparr>v_data = [], v_len = 0\<rparr>"

text \<open>\<^verbatim>\<open>realloc\<close>: the memory with its old content; new elements are not initialised.\<close>

definition realloc_data :: "nat \<Rightarrow> addr list \<Rightarrow> addr \<Rightarrow> addr list" where
  "realloc_data n data junk = take n data @ replicate (n - length data) junk"

text \<open>\<open>memory\<close> says whether an allocation succeeds; a failed one leaves a null pointer.\<close>

definition vector_grow :: "bool \<Rightarrow> addr \<Rightarrow> u16 \<Rightarrow> ptr_vector \<Rightarrow> ptr_vector" where
  "vector_grow memory junk amount v =
     (let new_len = v_len v + amount;
          old_cap = align_power2_short_uint (v_len v);
          new_cap = align_power2_short_uint new_len;
          v = (if new_cap \<noteq> old_cap
               then v\<lparr>v_data := (if memory then realloc_data (unat new_cap) (v_data v) junk else [])\<rparr> else v)
      in v\<lparr>v_len := new_len\<rparr>)"

text \<open>
  The position of the new elements, which are cleared; \<^term>\<open>None\<close> is a write outside of the memory.
\<close>

definition vector_append_n :: "bool \<Rightarrow> addr \<Rightarrow> u16 \<Rightarrow> ptr_vector \<Rightarrow> (int \<times> ptr_vector) option" where
  "vector_append_n memory junk n v =
     (let v = vector_grow memory junk n v;
          new_elems = uint (v_len v) - uint n
      in if new_elems < 0 \<or> int (length (v_data v)) < new_elems + uint n then None
         else Some (new_elems, v\<lparr>v_data := take (nat new_elems) (v_data v) @ replicate (unat n) 0 @
                                  drop (nat new_elems + unat n) (v_data v)\<rparr>))"

definition ptr_vector_append :: "bool \<Rightarrow> addr \<Rightarrow> addr \<Rightarrow> ptr_vector \<Rightarrow> ptr_vector option" where
  "ptr_vector_append memory junk ptr v =
     (case vector_append_n memory junk 1 v of
        None \<Rightarrow> None
      | Some (i, v) \<Rightarrow> Some (v\<lparr>v_data := (v_data v)[nat i := ptr]\<rparr>))"

definition ptr_vector_get_no_check :: "ptr_vector \<Rightarrow> u16 \<Rightarrow> addr option" where
  "ptr_vector_get_no_check v i = (if unat i < length (v_data v) then Some (v_data v ! unat i) else None)"

definition vector_shrink :: "bool \<Rightarrow> ptr_vector \<Rightarrow> ptr_vector" where
  "vector_shrink memory v =
     (if v_len v = 0 then v\<lparr>v_data := []\<rparr>
      else
        let old_cap = align_power2_uint (ucast (v_len v) + 1);
            new_cap = align_power2_short_uint (v_len v)
        in if new_cap = old_cap \<or> \<not> memory then v
           else v\<lparr>v_data := realloc_data (unat new_cap) (v_data v) 0\<rparr>)"

text \<open>The result is 0, \<^term>\<open>E_INVALID_VALUE\<close>, or an access outside of the memory.\<close>

definition vector_del :: "bool \<Rightarrow> u16 \<Rightarrow> ptr_vector \<Rightarrow> (artik_error \<times> ptr_vector) option" where
  "vector_del memory i v =
     (if v_len v \<le> i then Some (E_INVALID_VALUE, v)
      else
        let v = v\<lparr>v_len := v_len v - 1\<rparr>;
            tail_len = unat (v_len v - i);
            data = v_data v
        in if tail_len \<noteq> 0 \<and> length data < unat i + 1 + tail_len then None
           else Some (S_OK, vector_shrink memory
             (v\<lparr>v_data := take (unat i) data @ take tail_len (drop (unat i + 1) data) @
                          drop (unat i + tail_len) data\<rparr>)))"

section \<open>Powers of two, proved\<close>

lemma clz_bounds:
  assumes "u \<noteq> 0"
  shows "clz u < 32 \<and> 2 ^ (31 - clz u) \<le> unat u \<and> unat u < 2 ^ (32 - clz u)"
proof -
  obtain k where k: "k < 32" "bit u k" "\<And>i. k < i \<Longrightarrow> \<not> bit u i"
  proof -
    let ?S = "{i. bit u i}"
    have "?S \<noteq> {}" using assms by (auto simp: bit_eq_iff)
    moreover have fin: "finite ?S" by (rule finite_bit_word)
    ultimately have "Max ?S \<in> ?S" by (intro Max_in)
    then have top: "bit u (Max ?S)" by (rule CollectD)
    have le: "i \<le> Max ?S" if "bit u i" for i
      using fin by (rule Max_ge) (simp add: that)
    show thesis
    proof (rule that)
      show "Max ?S < 32" using bit_imp_le_length [OF top] by simp
      show "bit u (Max ?S)" by (rule top)
      show "\<not> bit u i" if "Max ?S < i" for i using le [of i] that by linarith
    qed
  qed
  have "[0..<32] = [0..<k] @ [k..<32]" using upt_add_eq_append [of 0 k "32 - k"] k(1) by simp
  then have "rev [0..<32] = rev [Suc k..<32] @ k # rev [0..<k]"
    using upt_conv_Cons [OF k(1)] by simp
  then have "takeWhile (\<lambda>i. \<not> bit u i) (rev [0..<32]) = rev [Suc k..<32]"
    using k(2,3) by (simp only:) (subst takeWhile_append2, auto)
  then have clz: "clz u = 31 - k" using k(1) by (simp add: clz_def)
  have below: "i \<le> k" if "bit u i" for i using k(3) [of i] that by (meson not_le_imp_less)
  have "unat u < 2 ^ Suc k"
  proof -
    have "take_bit (Suc k) u = u"
      using below by (intro bit_word_eqI) (auto simp: bit_take_bit_iff less_Suc_eq_le)
    then show ?thesis
      by (metis take_bit_nat_less_exp unsigned_take_bit_eq)
  qed
  moreover have "2 ^ k \<le> unat u"
  proof (rule ccontr)
    assume "\<not> 2 ^ k \<le> unat u"
    then have "take_bit k (unat u) = unat u" by (simp add: take_bit_nat_eq_self)
    then have "\<not> bit (unat u) k" by (metis bit_take_bit_iff less_irrefl)
    then show False using k(1,2) by (simp add: bit_unsigned_iff)
  qed
  ultimately show ?thesis using k(1) by (simp add: clz Suc_diff_le)
qed

lemma align_power2_uint_power:
  assumes "1 \<le> unat u" "unat u \<le> 2 ^ 16"
  shows "\<exists>k. unat (align_power2_uint u) = 2 ^ k \<and> k \<le> 16 \<and> unat u \<le> 2 ^ k \<and> 2 ^ k < 2 * unat u"
proof (cases "u \<le> 1")
  case True
  then have "unat u = 1" using assms(1) by (simp add: word_le_nat_alt)
  then show ?thesis using True by (intro exI [of _ 0]) (simp add: align_power2_uint_def)
next
  case False
  then have u: "1 < unat u" by (simp add: word_less_nat_alt not_le)
  have "(1 :: u32) \<le> u" using u by (simp add: word_le_nat_alt)
  then have m: "unat (u - 1) = unat u - 1" by (simp add: unat_sub)
  then have "u - 1 \<noteq> 0" using u by auto
  define z where "z = clz (u - 1)"
  have z: "z < 32" "2 ^ (31 - z) \<le> unat u - 1" "unat u - 1 < 2 ^ (32 - z)"
    using clz_bounds [OF \<open>u - 1 \<noteq> 0\<close>] by (simp_all add: z_def m)
  have "(2 :: nat) ^ (31 - z) < 2 ^ 16" using z(2) assms(2) u by linarith
  then have "31 - z < 16" by (rule power_less_imp_less_exp [rotated]) simp
  then have z16: "16 \<le> z" by simp
  have "align_power2_uint u = push_bit (32 - z) 1"
    using False z16 by (simp add: align_power2_uint_def z_def Let_def)
  then have "align_power2_uint u = of_nat (2 ^ (32 - z))" by (simp add: push_bit_eq_mult)
  moreover have "(2 :: nat) ^ (32 - z) < 2 ^ 32" using z16 by (intro power_strict_increasing) auto
  ultimately have val: "unat (align_power2_uint u) = 2 ^ (32 - z)"
    using z16 by (simp only: unsigned_of_nat) (simp add: take_bit_nat_eq_self)
  have "(2 :: nat) ^ (32 - z) = 2 * 2 ^ (31 - z)" using z(1) by (simp flip: power_Suc add: Suc_diff_le)
  then have "(2 :: nat) ^ (32 - z) < 2 * unat u" using z(2) u by linarith
  then show ?thesis using z16 z(3) val by (intro exI [of _ "32 - z"]) auto
qed

text \<open>The elements that are allocated for a length.\<close>

definition capacity :: "u16 \<Rightarrow> nat" where "capacity len = unat (align_power2_short_uint len)"

lemma capacity_0 [simp]: "capacity 0 = 0"
  by (simp add: capacity_def align_power2_short_uint_def align_power2_uint_def)

lemma capacity_power:
  assumes "len \<noteq> 0"
  shows "\<exists>k. capacity len = min (2 ^ k) 65535 \<and> unat len \<le> 2 ^ k \<and> 2 ^ k < 2 * unat len"
proof -
  have len: "unat len < 2 ^ 16" "0 < unat len" using unsigned_less [of len] assms by (simp_all add: unat_gt_0)
  then have "unat len < 2 ^ 32" by simp
  then have "unat (ucast len :: u32) = unat len" by (simp add: unsigned_ucast_eq take_bit_nat_eq_self)
  then obtain k where "unat (align_power2_uint (ucast len)) = 2 ^ k" "unat len \<le> 2 ^ k" "2 ^ k < 2 * unat len"
    using align_power2_uint_power [of "ucast len"] len by auto
  then show ?thesis
    by (intro exI [of _ k]) (auto simp: capacity_def align_power2_short_uint_def Let_def word_le_nat_alt min_def)
qed

lemma capacity_ge: "unat len \<le> capacity len"
proof (cases "len = 0")
  case False
  have "unat len < 2 ^ 16" using unsigned_less [of len] by simp
  then show ?thesis using capacity_power [OF False] by auto
qed simp

lemma capacity_mono:
  assumes "unat a \<le> unat b"
  shows "capacity a \<le> capacity b"
proof (cases "a = 0")
  case False
  then have "0 < unat a" by (simp add: unat_gt_0)
  then have "b \<noteq> 0" using assms by (metis leD unsigned_0)
  with False capacity_power obtain k j where k: "capacity a = min (2 ^ k) 65535" "2 ^ k < 2 * unat a"
    and j: "capacity b = min (2 ^ j) 65535" "unat b \<le> 2 ^ j" by meson
  have "(2 :: nat) ^ k < 2 ^ Suc j" using k(2) j(2) assms by simp
  then have "k < Suc j" by (rule power_less_imp_less_exp [rotated]) simp
  then have "(2 :: nat) ^ k \<le> 2 ^ j" by (intro power_increasing) auto
  then show ?thesis unfolding k(1) j(1) by linarith
qed simp

section \<open>The vector as a list\<close>

text \<open>
  The list a vector stands for.  In every state the elements are allocated that the capacity of the
  length asks for, so that no access goes outside.
\<close>

definition elements :: "ptr_vector \<Rightarrow> addr list" where
  "elements v = take (unat (v_len v)) (v_data v)"

definition vector_ok :: "ptr_vector \<Rightarrow> bool" where
  "vector_ok v \<longleftrightarrow> capacity (v_len v) \<le> length (v_data v)"

text \<open>No more is allocated than that.\<close>

definition vector_exact :: "ptr_vector \<Rightarrow> bool" where
  "vector_exact v \<longleftrightarrow> length (v_data v) = capacity (v_len v)"

lemma vector_ok_length: "vector_ok v \<Longrightarrow> unat (v_len v) \<le> length (v_data v)"
  using capacity_ge [of "v_len v"] by (simp add: vector_ok_def)

lemma length_elements: "vector_ok v \<Longrightarrow> length (elements v) = unat (v_len v)"
  using vector_ok_length by (simp add: elements_def)

lemma u16_inc: "unat (n :: u16) < 65535 \<Longrightarrow> unat (n + 1) = unat n + 1"
  by (simp add: unat_word_ariths)

lemma ptr_vector_append_ok:
  assumes "vector_ok v" "unat (v_len v) < 65535"
  shows "\<exists>v'. ptr_vector_append True junk p v = Some v' \<and> vector_ok v' \<and> elements v' = elements v @ [p]
    \<and> v_len v' = v_len v + 1 \<and> (vector_exact v \<longrightarrow> vector_exact v')"
proof -
  define v1 where "v1 = vector_grow True junk 1 v"
  let ?n = "unat (v_len v)"
  have len: "v_len v1 = v_len v + 1" by (simp add: v1_def vector_grow_def Let_def)
  have inc: "unat (v_len v + 1) = ?n + 1" using assms(2) by (rule u16_inc)
  have data: "take ?n (v_data v1) = take ?n (v_data v)" "capacity (v_len v1) \<le> length (v_data v1)"
    "vector_exact v \<Longrightarrow> length (v_data v1) = capacity (v_len v1)"
  proof -
    let ?c = "align_power2_short_uint (v_len v + 1)"
    have v1: "v_data v1 = (if ?c = align_power2_short_uint (v_len v) then v_data v
        else realloc_data (unat ?c) (v_data v) junk)"
      by (simp add: v1_def vector_grow_def Let_def)
    have "?n + 1 \<le> unat ?c" using capacity_ge [of "v_len v + 1"] by (simp only: capacity_def inc)
    then have "take ?n (realloc_data (unat ?c) (v_data v) junk) = take ?n (v_data v)"
      using vector_ok_length [OF assms(1)] by (simp add: realloc_data_def min_def)
    then show "take ?n (v_data v1) = take ?n (v_data v)" by (simp add: v1)
    have "capacity (v_len v) \<le> length (v_data v)" using assms(1) by (simp add: vector_ok_def)
    then show "capacity (v_len v1) \<le> length (v_data v1)"
      unfolding len v1 capacity_def by (auto simp: realloc_data_def)
    show "vector_exact v \<Longrightarrow> length (v_data v1) = capacity (v_len v1)"
      unfolding len v1 capacity_def vector_exact_def by (auto simp: realloc_data_def)
  qed
  have room: "?n < length (v_data v1)" using data(2) capacity_ge [of "v_len v1"] by (simp add: len inc)
  have "unat (v_len v1) = ?n + 1" by (simp only: len inc)
  then have pos: "uint (v_len v1) - 1 = int ?n" by (metis add_diff_cancel_right' of_nat_1 of_nat_add uint_nat)
  have "int ?n < int (length (v_data v1))" using room by (simp only: of_nat_less_iff)
  then have room_int: "uint (v_len v) < int (length (v_data v1))" by (simp only: uint_nat)
  have upd: "(take ?n xs @ a # drop (Suc ?n) xs)[?n := p] = take ?n xs @ p # drop (Suc ?n) xs"
    if "?n < length xs" for xs a
    using that by (simp add: list_update_append)
  have "ptr_vector_append True junk p v =
      Some (v1\<lparr>v_data := take ?n (v_data v1) @ p # drop (Suc ?n) (v_data v1)\<rparr>)"
    using room unfolding ptr_vector_append_def vector_append_n_def v1_def [symmetric] Let_def
    using room_int by (simp add: pos upd)
  moreover have "elements (v1\<lparr>v_data := take ?n (v_data v1) @ p # drop (Suc ?n) (v_data v1)\<rparr>) = elements v @ [p]"
    using room vector_ok_length [OF assms(1)] by (simp add: elements_def len inc data(1) min_def)
  moreover have "vector_ok (v1\<lparr>v_data := take ?n (v_data v1) @ p # drop (Suc ?n) (v_data v1)\<rparr>)"
    using room data(2) by (simp add: vector_ok_def)
  moreover have "vector_exact v \<longrightarrow> vector_exact (v1\<lparr>v_data := take ?n (v_data v1) @ p # drop (Suc ?n) (v_data v1)\<rparr>)"
    using room data(3) by (auto simp: vector_exact_def)
  ultimately show ?thesis using len by simp
qed

lemma vector_shrink_ok:
  assumes "vector_ok v \<or> capacity (v_len v) \<le> length (v_data v)"
  shows "vector_ok (vector_shrink memory v) \<and> elements (vector_shrink memory v) = elements v
    \<and> v_len (vector_shrink memory v) = v_len v"
proof -
  have ok: "capacity (v_len v) \<le> length (v_data v)" using assms by (auto simp: vector_ok_def)
  have "unat (v_len v) \<le> capacity (v_len v)" by (rule capacity_ge)
  then have "take (unat (v_len v)) (realloc_data (capacity (v_len v)) (v_data v) 0) = take (unat (v_len v)) (v_data v)"
    using ok by (simp add: realloc_data_def min_def)
  moreover have "length (realloc_data (capacity (v_len v)) (v_data v) 0) = capacity (v_len v)"
    using ok by (simp add: realloc_data_def)
  ultimately show ?thesis
    using ok by (auto simp: vector_shrink_def vector_ok_def elements_def Let_def capacity_def [symmetric])
qed

text \<open>After one element less, the memory that is too much is given back.\<close>

lemma shrink_exact:
  assumes "v_len w = v_len v - 1" "v_len v \<noteq> 0" "length (v_data w) = capacity (v_len v)"
  shows "vector_exact (vector_shrink True w)"
proof (cases "v_len w = 0")
  case False
  have "v_len v = v_len w + 1" using assms(1) by simp
  moreover have "unat (v_len v) < 2 ^ 16" using unsigned_less [of "v_len v"] by simp
  moreover have "1 \<le> unat (v_len v)" using assms(2) by (simp add: Suc_le_eq unat_gt_0)
  ultimately have "unat (v_len w) + 1 = unat (v_len v)"
    using assms(1) by (simp add: unat_sub word_le_nat_alt)
  then have len: "unat (ucast (v_len w) + 1 :: u32) = unat (ucast (v_len v) :: u32)"
    using \<open>unat (v_len v) < 2 ^ 16\<close>
    by (simp add: unat_word_ariths unsigned_ucast_eq take_bit_nat_eq_self)
  then have "ucast (v_len w) + 1 = (ucast (v_len v) :: u32)" by (rule unsigned_word_eqI)
  then show ?thesis
    using False assms(3)
    by (auto simp: vector_shrink_def vector_exact_def capacity_def realloc_data_def Let_def
        align_power2_short_uint_def [of "v_len v"] align_power2_short_uint_def [of "v_len w"] split: if_splits)
qed (simp add: vector_shrink_def vector_exact_def)

lemma take_del:
  assumes "i < n" "n \<le> length d"
  shows "take (n - 1) (take i d @ take (n - 1 - i) (drop (i + 1) d) @ r) = take i (take n d) @ drop (i + 1) (take n d)"
proof -
  let ?a = "take i d @ take (n - 1 - i) (drop (i + 1) d)"
  have "length ?a = n - 1" using assms by simp
  then have "take (n - 1) (?a @ r) = ?a" by (metis append_eq_conv_conj)
  then show ?thesis using assms(1) by (simp add: drop_take min_def)
qed

lemma vector_del_ok:
  assumes "vector_ok v" "unat i < unat (v_len v)"
  shows "\<exists>v'. vector_del memory i v = Some (S_OK, v') \<and> vector_ok v'
    \<and> elements v' = take (unat i) (elements v) @ drop (unat i + 1) (elements v) \<and> v_len v' = v_len v - 1
    \<and> (memory \<and> vector_exact v \<longrightarrow> vector_exact v')"
proof -
  let ?i = "unat i" and ?n = "unat (v_len v)" and ?d = "v_data v"
  have dec: "unat (v_len v - 1) = ?n - 1"
    using assms(2) by (simp add: unat_sub word_le_nat_alt)
  have tail: "unat (v_len v - 1 - i) = ?n - 1 - ?i"
    using assms(2) dec by (simp add: unat_sub word_le_nat_alt)
  have n: "?n \<le> length ?d" by (rule vector_ok_length [OF assms(1)])
  define w where "w = v\<lparr>v_len := v_len v - 1,
    v_data := take ?i ?d @ take (?n - 1 - ?i) (drop (?i + 1) ?d) @ drop (?i + (?n - 1 - ?i)) ?d\<rparr>"
  have length_w: "length (v_data w) = length ?d" using assms(2) n by (simp add: w_def)
  have "capacity (v_len v - 1) \<le> capacity (v_len v)" by (rule capacity_mono) (simp add: dec)
  then have "vector_ok w" using assms(1) length_w by (simp add: vector_ok_def w_def)
  moreover have "elements w = take ?i (elements v) @ drop (?i + 1) (elements v)"
    using take_del [OF assms(2) n] by (simp add: elements_def w_def dec)
  moreover have "vector_del memory i v = Some (S_OK, vector_shrink memory w)"
    using assms(2) n by (simp add: vector_del_def tail w_def Let_def word_le_nat_alt)
  moreover have len: "v_len w = v_len v - 1" by (simp add: w_def)
  moreover have "memory \<and> vector_exact v \<longrightarrow> vector_exact (vector_shrink memory w)"
  proof
    assume exact: "memory \<and> vector_exact v"
    moreover have "v_len v \<noteq> 0" using assms(2) by auto
    moreover have "length (v_data w) = capacity (v_len v)" using exact length_w by (simp add: vector_exact_def)
    ultimately show "vector_exact (vector_shrink memory w)" using shrink_exact [OF len] by simp
  qed
  ultimately show ?thesis using vector_shrink_ok [of w memory] by simp
qed

lemma vector_get_ok:
  assumes "vector_ok v" "unat i < unat (v_len v)"
  shows "ptr_vector_get_no_check v i = Some (elements v ! unat i)"
  using vector_ok_length [OF assms(1)] assms(2) by (simp add: ptr_vector_get_no_check_def elements_def)

section \<open>Runs\<close>

text \<open>
  One operation with the outcome of its allocation: \<open>memory\<close> says whether a reallocation, should the
  operation make one, succeeds, \<open>junk\<close> what new elements hold.
\<close>

datatype vector_op = Append bool addr addr | Delete bool u16

fun vector_step :: "vector_op \<Rightarrow> ptr_vector \<Rightarrow> ptr_vector option" where
  "vector_step (Append memory junk p) v = ptr_vector_append memory junk p v"
| "vector_step (Delete memory i) v = map_option snd (vector_del memory i v)"

fun list_op :: "vector_op \<Rightarrow> addr list \<Rightarrow> addr list" where
  "list_op (Append memory junk p) xs = xs @ [p]"
| "list_op (Delete memory i) xs = take (unat i) xs @ drop (unat i + 1) xs"

text \<open>
  An operation that the code survives: there is room for the element, and where the length reaches
  the next power of two, memory.
\<close>

definition full :: "nat \<Rightarrow> bool" where
  "full n \<longleftrightarrow> capacity (of_nat n) \<noteq> capacity (of_nat (Suc n))"

fun vector_guard :: "vector_op \<Rightarrow> addr list \<Rightarrow> bool" where
  "vector_guard (Append memory junk p) xs \<longleftrightarrow> length xs < 65535 \<and> (memory \<or> \<not> full (length xs))"
| "vector_guard (Delete memory i) xs \<longleftrightarrow> True"

fun gives_back :: "vector_op \<Rightarrow> bool" where
  "gives_back (Append memory junk p) = True"
| "gives_back (Delete memory i) = memory"

lemma append_no_memory:
  assumes "align_power2_short_uint (v_len v + 1) \<noteq> align_power2_short_uint (v_len v)"
  shows "ptr_vector_append False junk p v = None"
proof -
  have "vector_grow False junk 1 v = v\<lparr>v_data := [], v_len := v_len v + 1\<rparr>"
    using assms by (simp add: vector_grow_def Let_def)
  then show ?thesis by (auto simp: ptr_vector_append_def vector_append_n_def Let_def)
qed

lemma append_no_realloc:
  assumes "align_power2_short_uint (v_len v + 1) = align_power2_short_uint (v_len v)"
  shows "ptr_vector_append False junk p v = ptr_vector_append True junk p v"
  using assms by (simp add: ptr_vector_append_def vector_append_n_def vector_grow_def Let_def)

text \<open>
  One element more than 65535, and the length wraps to zero: the memory is given back and the element
  is written in front of it.
\<close>

lemma loop_vector_overflow: "v_len v = 65535 \<Longrightarrow> ptr_vector_append memory junk p v = None"
  by (simp add: ptr_vector_append_def vector_append_n_def vector_grow_def Let_def)

lemma full_length:
  assumes "vector_ok v"
  shows "full (length (elements v)) \<longleftrightarrow>
    align_power2_short_uint (v_len v + 1) \<noteq> align_power2_short_uint (v_len v)"
proof -
  have "(of_nat (unat (v_len v)) :: u16) = v_len v" by simp
  then have "full (length (elements v)) \<longleftrightarrow> capacity (v_len v) \<noteq> capacity (v_len v + 1)"
    unfolding full_def length_elements [OF assms] by (simp add: add.commute)
  then show ?thesis by (auto simp: capacity_def word_unat_eq_iff)
qed

lemma vector_step_ok:
  assumes "vector_ok v" "vector_guard x (elements v)"
  shows "\<exists>v'. vector_step x v = Some v' \<and> vector_ok v' \<and> elements v' = list_op x (elements v)
    \<and> (gives_back x \<and> vector_exact v \<longrightarrow> vector_exact v')"
proof (cases x)
  case (Append memory junk p)
  have "unat (v_len v) < 65535" using assms Append by (simp add: length_elements)
  from ptr_vector_append_ok [OF assms(1) this, of junk p] obtain v' where
    v': "ptr_vector_append True junk p v = Some v'" "vector_ok v'" "elements v' = elements v @ [p]"
      "vector_exact v \<longrightarrow> vector_exact v'" by auto
  have "ptr_vector_append memory junk p v = ptr_vector_append True junk p v"
    using assms Append append_no_realloc full_length [OF assms(1)] by (cases memory) auto
  with v' Append show ?thesis by simp
next
  case (Delete memory i)
  show ?thesis
  proof (cases "unat i < unat (v_len v)")
    case True
    then show ?thesis using vector_del_ok [OF assms(1) True, of memory] Delete by auto
  next
    case False
    then have "vector_del memory i v = Some (E_INVALID_VALUE, v)" by (simp add: vector_del_def word_le_nat_alt)
    then show ?thesis using False Delete assms(1) by (simp add: length_elements)
  qed
qed

lemma vector_step_bad:
  assumes "vector_ok v" "\<not> vector_guard x (elements v)"
  shows "vector_step x v = None"
proof (cases x)
  case (Append memory junk p)
  show ?thesis
  proof (cases "v_len v = 65535")
    case True
    then show ?thesis using Append by (simp add: loop_vector_overflow)
  next
    case False
    then have "unat (v_len v) < 65535"
      using unsigned_less [of "v_len v", where 'a = nat] by (simp add: word_unat_eq_iff)
    then show ?thesis
      using assms Append append_no_memory full_length [OF assms(1)] by (auto simp: length_elements)
  qed
qed (use assms in simp)

interpretation loop_vector: guarded_simulation vector_step list_op "\<lambda>v xs. vector_ok v \<and> elements v = xs" vector_guard
proof unfold_locales
  fix v xs x
  assume "vector_ok v \<and> elements v = xs" "vector_guard x xs"
  then show "\<exists>v'. vector_step x v = Some v' \<and> vector_ok v' \<and> elements v' = list_op x xs"
    using vector_step_ok [of v x] by auto
qed

lemma run_vector_bad:
  "vector_ok v \<Longrightarrow> \<not> permitted vector_guard list_op ops (elements v) \<Longrightarrow> run_opt vector_step ops v = None"
proof (induction ops arbitrary: v)
  case (Cons x ops)
  show ?case
  proof (cases "vector_guard x (elements v)")
    case True
    from vector_step_ok [OF Cons.prems(1) True] Cons.IH Cons.prems True show ?thesis by auto
  next
    case False
    with vector_step_bad [OF Cons.prems(1)] show ?thesis by simp
  qed
qed simp

lemma run_vector_exact:
  "vector_ok v \<Longrightarrow> vector_exact v \<Longrightarrow> list_all gives_back ops \<Longrightarrow> run_opt vector_step ops v = Some v' \<Longrightarrow>
    vector_exact v'"
proof (induction ops arbitrary: v)
  case (Cons x ops)
  then obtain v1 where v1: "vector_step x v = Some v1" "run_opt vector_step ops v1 = Some v'"
    by (auto split: option.splits)
  then have "vector_guard x (elements v)" using vector_step_bad [OF Cons.prems(1)] by fastforce
  from vector_step_ok [OF Cons.prems(1) this] v1 Cons show ?case by auto
qed simp

text \<open>
  C10. A vector that starts empty behaves as a list along every sequence of operations, although it
  stores only its length, and touches memory outside of its allocation in exactly two cases: a
  reallocation fails that an appended element needs (its length passes a power of two), or it has 65535
  elements already.  At least as many elements are allocated as it has, and where all reallocations of
  deletions succeed, as many as the power of two that the length asks for.
\<close>

theorem loop_vector_run_refines:
  "case run_opt vector_step ops empty_vector of
     None \<Rightarrow> \<not> permitted vector_guard list_op ops []
   | Some v \<Rightarrow> permitted vector_guard list_op ops []
       \<and> elements v = fold list_op ops [] \<and> unat (v_len v) = length (elements v)
       \<and> length (elements v) \<le> length (v_data v)
       \<and> (list_all gives_back ops \<longrightarrow> length (v_data v) = capacity (v_len v))"
proof -
  have e: "vector_ok empty_vector" "elements empty_vector = []" "vector_exact empty_vector"
    by (simp_all add: empty_vector_def vector_ok_def elements_def vector_exact_def)
  show ?thesis
  proof (cases "permitted vector_guard list_op ops []")
    case False
    with run_vector_bad [OF e(1)] e(2) show ?thesis by simp
  next
    case True
    with loop_vector.run_guarded [of empty_vector "[]" ops] e(1,2) obtain v where
      v: "run_opt vector_step ops empty_vector = Some v" "vector_ok v" "elements v = fold list_op ops []" by auto
    then show ?thesis
      using True length_elements [OF v(2)] vector_ok_length [OF v(2)] run_vector_exact [OF e(1,3) _ v(1)]
      by (auto simp: vector_exact_def)
  qed
qed

theorem loop_vector_run_refines_witness:
  "(\<exists>v. run_opt vector_step [Append True 0 7, Append True 0 8, Append True 0 9, Delete True 0] empty_vector = Some v
      \<and> elements v = [8, 9] \<and> length (v_data v) = 2) \<and>
    run_opt vector_step [Append True 0 7, Append True 0 8, Append False 0 9] empty_vector = None"
proof -
  let ?ops = "[Append True 0 7, Append True 0 8, Append True 0 9, Delete True 0]"
  have cap: "capacity 2 = 2" "full 2" by code_simp+
  have "permitted vector_guard list_op ?ops []" by simp
  with loop_vector_run_refines [of ?ops] obtain v where v: "run_opt vector_step ?ops empty_vector = Some v"
      "elements v = [8, 9]" "unat (v_len v) = 2" "length (v_data v) = capacity (v_len v)"
    by (auto split: option.splits)
  have "v_len v = 2" using v(3) by (simp add: word_unat_eq_iff)
  moreover have "\<not> permitted vector_guard list_op [Append True 0 7, Append True 0 8, Append False 0 9] []"
    using cap(2) by (simp add: numeral_2_eq_2)
  then have "run_opt vector_step [Append True 0 7, Append True 0 8, Append False 0 9] empty_vector = None"
    using loop_vector_run_refines [of "[Append True 0 7, Append True 0 8, Append False 0 9]"]
    by (auto split: option.splits)
  ultimately show ?thesis using v cap(1) by auto
qed

end
