(* ===== verification/Tizen_Loop.thy ===== *)
theory Tizen_Loop
  imports Loop_Vector "HOL-Library.Monad_Syntax"
begin

text \<open>
  The event loop of TizenRT (\<^verbatim>\<open>base/loop/tizenrt_loop.c\<close>): sources (timeouts, periodic timers, watched
  descriptors, idle functions) are structures on the heap, each with a handle of libuv, and stand in
  one vector per kind.  libuv is a library: its calls are recorded.  \<^term>\<open>None\<close> is an access to
  memory that is not there: a null pointer, a block that was freed, a place outside of a vector.
\<close>

section \<open>State\<close>

datatype source_kind = Timeout | Periodic | Watch | Idle

text \<open>
  \<^verbatim>\<open>struct _timeout\<close>, \<^verbatim>\<open>_periodic\<close>, \<^verbatim>\<open>_watch\<close> and \<^verbatim>\<open>_idle\<close> differ in their types only, and in the
  descriptor that a watch has besides.
\<close>

record source =
  s_func :: addr
  s_user_data :: addr
  s_handle :: addr
  s_fd :: int
  s_id :: int

datatype uv_event = UV_READABLE | UV_WRITABLE | UV_DISCONNECT

datatype uv_call =
    Uv_default_loop
  | Uv_loop_close
  | Uv_update_time
  | Uv_timer_init addr
  | Uv_timer_start addr source_kind u32 u32
  | Uv_timer_stop addr
  | Uv_poll_init_socket addr int
  | Uv_poll_start addr "uv_event set"
  | Uv_poll_stop addr
  | Uv_idle_init addr
  | Uv_idle_start addr
  | Uv_idle_stop addr

text \<open>
  \<open>l_handles\<close> is the memory of the handles, each with its \<^verbatim>\<open>data\<close> field; \<open>l_calls\<close> has the latest
  call first.
\<close>

record loop_state =
  l_loop :: bool
  l_sources :: "addr \<rightharpoonup> source"
  l_handles :: "addr \<rightharpoonup> addr"
  l_vector :: "source_kind \<Rightarrow> ptr_vector"
  l_id :: "source_kind \<Rightarrow> int"
  l_calls :: "uv_call list"

definition init_loop :: loop_state where
  "init_loop = \<lparr>l_loop = False, l_sources = (\<lambda>_. None), l_handles = (\<lambda>_. None),
     l_vector = (\<lambda>_. empty_vector), l_id = (\<lambda>_. 0), l_calls = []\<rparr>"

definition uv :: "uv_call \<Rightarrow> loop_state \<Rightarrow> loop_state" where
  "uv c s = s\<lparr>l_calls := c # l_calls s\<rparr>"

text \<open>
  What the allocations of one call give: the two blocks (0 when there is no memory), the old content
  of the first one, and the reallocation of the vector.
\<close>

record allocation =
  a_source :: addr
  a_handle :: addr
  a_content :: source
  a_memory :: bool
  a_junk :: addr

section \<open>Operations\<close>

definition get_loop :: "loop_state \<Rightarrow> loop_state" where
  "get_loop s = (if l_loop s then s else (uv Uv_default_loop s)\<lparr>l_loop := True\<rparr>)"

text \<open>The two blocks, with the fields that are set before libuv is called.\<close>

definition new_source :: "allocation \<Rightarrow> addr \<Rightarrow> addr \<Rightarrow> loop_state \<Rightarrow> loop_state option" where
  "new_source a func user_data s =
     (if a_source a = 0 \<or> a_handle a = 0 then None
      else Some (s\<lparr>l_sources := (l_sources s)(a_source a \<mapsto>
                     (a_content a)\<lparr>s_func := func, s_user_data := user_data, s_handle := a_handle a\<rparr>),
                   l_handles := (l_handles s)(a_handle a \<mapsto> a_source a)\<rparr>))"

definition append_source :: "source_kind \<Rightarrow> allocation \<Rightarrow> loop_state \<Rightarrow> loop_state option" where
  "append_source k a s = do {
     v \<leftarrow> ptr_vector_append (a_memory a) (a_junk a) (a_source a) (l_vector s k);
     Some (s\<lparr>l_vector := (l_vector s)(k := v)\<rparr>)
   }"

definition next_id :: "source_kind \<Rightarrow> loop_state \<Rightarrow> int \<times> loop_state" where
  "next_id k s =
     (let n = (if 255 \<le> l_id s k then 0 else l_id s k) in (n, s\<lparr>l_id := (l_id s)(k := n + 1)\<rparr>))"

definition update_source :: "addr \<Rightarrow> (source \<Rightarrow> source) \<Rightarrow> loop_state \<Rightarrow> loop_state option" where
  "update_source p f s = do {
     e \<leftarrow> l_sources s p;
     Some (s\<lparr>l_sources := (l_sources s)(p \<mapsto> f e)\<rparr>)
   }"

text \<open>\<^verbatim>\<open>memset\<close> and \<^verbatim>\<open>free\<close> of a source.\<close>

definition free_source :: "addr \<Rightarrow> loop_state \<Rightarrow> loop_state option" where
  "free_source p s = do {
     _ \<leftarrow> l_sources s p;
     Some (s\<lparr>l_sources := (l_sources s)(p := None)\<rparr>)
   }"

fun uv_stop :: "source_kind \<Rightarrow> addr \<Rightarrow> uv_call" where
  "uv_stop Timeout h = Uv_timer_stop h"
| "uv_stop Periodic h = Uv_timer_stop h"
| "uv_stop Watch h = Uv_poll_stop h"
| "uv_stop Idle h = Uv_idle_stop h"

definition stop_handle :: "source_kind \<Rightarrow> addr \<Rightarrow> loop_state \<Rightarrow> loop_state option" where
  "stop_handle k h s = do {
     _ \<leftarrow> l_handles s h;
     Some ((uv (uv_stop k h) s)\<lparr>l_handles := (l_handles s)(h := None)\<rparr>)
   }"

text \<open>
  The walk over a vector from its end, with a 16-bit index that wraps below zero.  \<open>memory\<close> says which
  reallocations succeed when elements are deleted.
\<close>

definition cleanup_one :: "source_kind \<Rightarrow> (u16 \<Rightarrow> bool) \<Rightarrow> int \<Rightarrow> u16 \<Rightarrow> loop_state \<Rightarrow> loop_state option" where
  "cleanup_one k memory ident i s = do {
     p \<leftarrow> ptr_vector_get_no_check (l_vector s k) i;
     e \<leftarrow> l_sources s p;
     if s_id e \<noteq> ident then Some s
     else do {
       s \<leftarrow> (if s_handle e = 0 then Some s
             else do { s \<leftarrow> stop_handle k (s_handle e) s; free_source p s });
       (_, v) \<leftarrow> vector_del (memory i) i (l_vector s k);
       Some (s\<lparr>l_vector := (l_vector s)(k := v)\<rparr>)
     }
   }"

function cleanup_from :: "source_kind \<Rightarrow> (u16 \<Rightarrow> bool) \<Rightarrow> int \<Rightarrow> u16 \<Rightarrow> loop_state \<Rightarrow> loop_state option" where
  "cleanup_from k memory ident i s =
     (if i = -1 then Some s
      else do {
        s \<leftarrow> cleanup_one k memory ident i s;
        cleanup_from k memory ident (i - 1) s
      })"
  by pat_completeness auto

lemma u16_dec_less:
  assumes "i \<noteq> -1"
  shows "unat (i :: u16) < unat (i + 1)"
proof -
  have "unat i \<noteq> unat (-1 :: u16)" using assms by (simp only: word_unat_eq_iff not_False_eq_True)
  moreover have "unat (-1 :: u16) = 65535" by (simp add: unsigned_minus_1_eq_mask mask_eq_exp_minus_1)
  moreover have "unat i < 65536" using unsigned_less [of i] by simp
  ultimately show ?thesis using u16_inc [of i] by simp
qed

termination cleanup_from
  by (relation "measure (\<lambda>(k, memory, ident, i, s). unat (i + 1))") (auto simp: u16_dec_less)

declare cleanup_from.simps [simp del]

definition cleanup :: "source_kind \<Rightarrow> (u16 \<Rightarrow> bool) \<Rightarrow> int \<Rightarrow> loop_state \<Rightarrow> loop_state option" where
  "cleanup k memory ident s = cleanup_from k memory ident (v_len (l_vector s k) - 1) s"

definition timeout_cleanup :: "(u16 \<Rightarrow> bool) \<Rightarrow> int \<Rightarrow> loop_state \<Rightarrow> loop_state option" where
  "timeout_cleanup = cleanup Timeout"

definition periodic_cleanup :: "(u16 \<Rightarrow> bool) \<Rightarrow> int \<Rightarrow> loop_state \<Rightarrow> loop_state option" where
  "periodic_cleanup = cleanup Periodic"

definition watch_cleanup :: "(u16 \<Rightarrow> bool) \<Rightarrow> int \<Rightarrow> loop_state \<Rightarrow> loop_state option" where
  "watch_cleanup = cleanup Watch"

definition idle_cleanup :: "(u16 \<Rightarrow> bool) \<Rightarrow> int \<Rightarrow> loop_state \<Rightarrow> loop_state option" where
  "idle_cleanup = cleanup Idle"

text \<open>Timeouts: the callback of the program is called once, after \<open>msec\<close>.\<close>

definition os_add_timeout_callback ::
  "allocation \<Rightarrow> u32 \<Rightarrow> addr \<Rightarrow> addr \<Rightarrow> loop_state \<Rightarrow> (artik_error \<times> int \<times> loop_state) option" where
  "os_add_timeout_callback a msec func user_data s = do {
     s \<leftarrow> new_source a func user_data s;
     let s = uv Uv_update_time (get_loop s);
     let s = uv (Uv_timer_init (a_handle a)) (get_loop s);
     let s = uv (Uv_timer_start (a_handle a) Timeout msec 0) s;
     s \<leftarrow> append_source Timeout a s;
     let (n, s) = next_id Timeout s;
     s \<leftarrow> update_source (a_source a) (\<lambda>e. e\<lparr>s_id := n\<rparr>) s;
     Some (S_OK, n, s)
   }"

definition os_remove_timeout_callback :: "(u16 \<Rightarrow> bool) \<Rightarrow> int \<Rightarrow> loop_state \<Rightarrow> (artik_error \<times> loop_state) option" where
  "os_remove_timeout_callback memory timeout_id s = do {
     s \<leftarrow> timeout_cleanup memory timeout_id s;
     Some (S_OK, s)
   }"

text \<open>Periodic timers: after \<open>msec\<close>, and then every millisecond.\<close>

definition os_add_periodic_callback ::
  "allocation \<Rightarrow> u32 \<Rightarrow> addr \<Rightarrow> addr \<Rightarrow> loop_state \<Rightarrow> (artik_error \<times> int \<times> loop_state) option" where
  "os_add_periodic_callback a msec func user_data s = do {
     s \<leftarrow> new_source a func user_data s;
     let s = uv Uv_update_time (get_loop s);
     let s = uv (Uv_timer_init (a_handle a)) (get_loop s);
     let s = uv (Uv_timer_start (a_handle a) Periodic msec 1) s;
     s \<leftarrow> append_source Periodic a s;
     let (n, s) = next_id Periodic s;
     s \<leftarrow> update_source (a_source a) (\<lambda>e. e\<lparr>s_id := n\<rparr>) s;
     Some (S_OK, n, s)
   }"

definition os_remove_periodic_callback :: "(u16 \<Rightarrow> bool) \<Rightarrow> int \<Rightarrow> loop_state \<Rightarrow> (artik_error \<times> loop_state) option" where
  "os_remove_periodic_callback memory periodic_id s = do {
     s \<leftarrow> periodic_cleanup memory periodic_id s;
     Some (S_OK, s)
   }"

text \<open>Watches.  The bits of \<^verbatim>\<open>enum watch_io\<close> against the events of libuv.\<close>

abbreviation (input) WATCH_IO_IN :: u32 where "WATCH_IO_IN \<equiv> 1"
abbreviation (input) WATCH_IO_OUT :: u32 where "WATCH_IO_OUT \<equiv> 2"
abbreviation (input) WATCH_IO_HUP :: u32 where "WATCH_IO_HUP \<equiv> 16"

definition watch_events :: "u32 \<Rightarrow> uv_event set" where
  "watch_events io =
     (if io AND WATCH_IO_IN \<noteq> 0 then {UV_READABLE} else {})
     \<union> (if io AND WATCH_IO_OUT \<noteq> 0 then {UV_WRITABLE} else {})
     \<union> (if io AND WATCH_IO_HUP \<noteq> 0 then {UV_DISCONNECT} else {})"

definition events_io :: "uv_event set \<Rightarrow> u32" where
  "events_io events =
     (if UV_READABLE \<in> events then WATCH_IO_IN else 0)
     OR (if UV_WRITABLE \<in> events then WATCH_IO_OUT else 0)
     OR (if UV_DISCONNECT \<in> events then WATCH_IO_HUP else 0)"

definition os_add_fd_watch ::
  "allocation \<Rightarrow> int \<Rightarrow> u32 \<Rightarrow> addr \<Rightarrow> addr \<Rightarrow> loop_state \<Rightarrow> (artik_error \<times> int \<times> loop_state) option" where
  "os_add_fd_watch a fd io func user_data s = do {
     s \<leftarrow> new_source a func user_data s;
     let s = uv (Uv_poll_init_socket (a_handle a) fd) (get_loop s);
     let s = uv (Uv_poll_start (a_handle a) (watch_events io)) s;
     s \<leftarrow> append_source Watch a s;
     let (n, s) = next_id Watch s;
     s \<leftarrow> update_source (a_source a) (\<lambda>e. e\<lparr>s_id := n, s_fd := fd\<rparr>) s;
     Some (S_OK, n, s)
   }"

definition os_remove_fd_watch :: "(u16 \<Rightarrow> bool) \<Rightarrow> int \<Rightarrow> loop_state \<Rightarrow> (artik_error \<times> loop_state) option" where
  "os_remove_fd_watch memory watch_id s = do {
     s \<leftarrow> watch_cleanup memory watch_id s;
     Some (S_OK, s)
   }"

text \<open>Idle functions.  The identifier goes to the caller only, and not into the structure.\<close>

definition os_add_idle_callback ::
  "allocation \<Rightarrow> addr \<Rightarrow> addr \<Rightarrow> loop_state \<Rightarrow> (artik_error \<times> int \<times> loop_state) option" where
  "os_add_idle_callback a func user_data s = do {
     s \<leftarrow> new_source a func user_data s;
     let s = uv (Uv_idle_init (a_handle a)) (get_loop s);
     let s = uv (Uv_idle_start (a_handle a)) s;
     s \<leftarrow> append_source Idle a s;
     let (n, s) = next_id Idle s;
     Some (S_OK, n, s)
   }"

definition os_remove_idle_callback :: "(u16 \<Rightarrow> bool) \<Rightarrow> int \<Rightarrow> loop_state \<Rightarrow> (artik_error \<times> loop_state) option" where
  "os_remove_idle_callback memory idle_id s = do {
     s \<leftarrow> idle_cleanup memory idle_id s;
     Some (S_OK, s)
   }"

definition os_loop_quit :: "loop_state \<Rightarrow> loop_state" where
  "os_loop_quit s = (if l_loop s then uv Uv_loop_close s else s)\<lparr>l_loop := False\<rparr>"

section \<open>Callbacks\<close>

text \<open>
  What libuv calls when a source is due.  A function of the program gets its user data, for a watch
  also the descriptor and the events, may use the loop again, and returns a number; \<open>program\<close> gives
  the function at an address.
\<close>

type_synonym callback = "addr \<Rightarrow> int \<Rightarrow> u32 \<Rightarrow> loop_state \<Rightarrow> (int \<times> loop_state) option"

text \<open>The end of all four callbacks: the source is read again, after it was freed.\<close>

definition finish_source :: "source_kind \<Rightarrow> (u16 \<Rightarrow> bool) \<Rightarrow> addr \<Rightarrow> loop_state \<Rightarrow> loop_state option" where
  "finish_source k memory p s = do {
     e \<leftarrow> l_sources s p;
     s \<leftarrow> stop_handle k (s_handle e) s;
     s \<leftarrow> free_source p s;
     e \<leftarrow> l_sources s p;
     cleanup k memory (s_id e) s
   }"

definition timeout_callback :: "(addr \<Rightarrow> callback) \<Rightarrow> (u16 \<Rightarrow> bool) \<Rightarrow> addr \<Rightarrow> loop_state \<Rightarrow> loop_state option" where
  "timeout_callback program memory handle s = do {
     p \<leftarrow> l_handles s handle;
     e \<leftarrow> l_sources s p;
     s \<leftarrow> (if s_func e \<noteq> 0 then map_option snd (program (s_func e) (s_user_data e) 0 0 s) else Some s);
     finish_source Timeout memory p s
   }"

definition periodic_callback :: "(addr \<Rightarrow> callback) \<Rightarrow> (u16 \<Rightarrow> bool) \<Rightarrow> addr \<Rightarrow> loop_state \<Rightarrow> loop_state option" where
  "periodic_callback program memory handle s = do {
     p \<leftarrow> l_handles s handle;
     e \<leftarrow> l_sources s p;
     if s_func e \<noteq> 0 then do {
       (ret, s) \<leftarrow> program (s_func e) (s_user_data e) 0 0 s;
       if ret = 1 then Some s else finish_source Periodic memory p s
     } else finish_source Periodic memory p s
   }"

definition watch_callback ::
  "(addr \<Rightarrow> callback) \<Rightarrow> (u16 \<Rightarrow> bool) \<Rightarrow> addr \<Rightarrow> uv_event set \<Rightarrow> loop_state \<Rightarrow> loop_state option" where
  "watch_callback program memory handle events s = do {
     p \<leftarrow> l_handles s handle;
     e \<leftarrow> l_sources s p;
     (ret, s) \<leftarrow> (if s_func e = 0 then None
                  else program (s_func e) (s_user_data e) (s_fd e) (events_io events) s);
     if ret = 0 then finish_source Watch memory p s else Some s
   }"

definition idle_callback :: "(addr \<Rightarrow> callback) \<Rightarrow> (u16 \<Rightarrow> bool) \<Rightarrow> addr \<Rightarrow> loop_state \<Rightarrow> loop_state option" where
  "idle_callback program memory handle s = do {
     p \<leftarrow> l_handles s handle;
     e \<leftarrow> l_sources s p;
     (ret, s) \<leftarrow> (if s_func e = 0 then None else program (s_func e) (s_user_data e) 0 0 s);
     if ret = 0 then finish_source Idle memory p s else Some s
   }"

section \<open>Specification: a registry of sources\<close>

text \<open>\<open>r_id\<close> is the identifier that the caller of the addition got.\<close>

record registered =
  r_kind :: source_kind
  r_id :: int
  r_source :: addr
  r_struct :: source

text \<open>The sources in the order in which they were added, and how many of a kind ever were.\<close>

record registry =
  g_entries :: "registered list"
  g_added :: "source_kind \<Rightarrow> nat"

definition empty_registry :: registry where
  "empty_registry = \<lparr>g_entries = [], g_added = (\<lambda>_. 0)\<rparr>"

abbreviation r_handle :: "registered \<Rightarrow> addr" where "r_handle x \<equiv> s_handle (r_struct x)"

abbreviation of_kind :: "source_kind \<Rightarrow> registered list \<Rightarrow> registered list" where
  "of_kind k xs \<equiv> filter (\<lambda>x. r_kind x = k) xs"

definition registry_id :: "source_kind \<Rightarrow> registry \<Rightarrow> int" where
  "registry_id k g = int (g_added g k mod 255)"

definition registry_add :: "source_kind \<Rightarrow> addr \<Rightarrow> source \<Rightarrow> registry \<Rightarrow> registry" where
  "registry_add k p e g =
     g\<lparr>g_entries := g_entries g @ [\<lparr>r_kind = k, r_id = registry_id k g, r_source = p, r_struct = e\<rparr>],
       g_added := (g_added g)(k := g_added g k + 1)\<rparr>"

text \<open>Removing by the identifier of the caller.\<close>

definition registry_cancel :: "source_kind \<Rightarrow> int \<Rightarrow> registry \<Rightarrow> registry" where
  "registry_cancel k ident g =
     g\<lparr>g_entries := filter (\<lambda>x. \<not> (r_kind x = k \<and> r_id x = ident)) (g_entries g)\<rparr>"

text \<open>What the code does: it compares the identifier in the structure.\<close>

definition registry_remove :: "source_kind \<Rightarrow> int \<Rightarrow> registry \<Rightarrow> registry" where
  "registry_remove k ident g =
     g\<lparr>g_entries := filter (\<lambda>x. \<not> (r_kind x = k \<and> s_id (r_struct x) = ident)) (g_entries g)\<rparr>"

text \<open>The handles that libuv serves: those that were started and not stopped since.\<close>

fun running :: "uv_call list \<Rightarrow> addr set" where
  "running [] = {}"
| "running (c # cs) =
     (case c of
        Uv_timer_start h _ _ _ \<Rightarrow> insert h (running cs)
      | Uv_poll_start h _ \<Rightarrow> insert h (running cs)
      | Uv_idle_start h \<Rightarrow> insert h (running cs)
      | Uv_timer_stop h \<Rightarrow> running cs - {h}
      | Uv_poll_stop h \<Rightarrow> running cs - {h}
      | Uv_idle_stop h \<Rightarrow> running cs - {h}
      | _ \<Rightarrow> running cs)"

text \<open>
  The loop holds a registry: the live structures are those registered and so are the live handles,
  each handle points to its structure and runs, the vector of a kind lists the sources of that kind.
\<close>

definition loop_rel :: "loop_state \<Rightarrow> registry \<Rightarrow> bool" where
  "loop_rel s g \<longleftrightarrow>
     distinct (map r_source (g_entries g)) \<and> distinct (map r_handle (g_entries g)) \<and>
     0 \<notin> set (map r_handle (g_entries g)) \<and>
     l_sources s = map_of (map (\<lambda>x. (r_source x, r_struct x)) (g_entries g)) \<and>
     l_handles s = map_of (map (\<lambda>x. (r_handle x, r_source x)) (g_entries g)) \<and>
     running (l_calls s) = set (map r_handle (g_entries g)) \<and>
     (\<forall>k. vector_ok (l_vector s k) \<and> elements (l_vector s k) = map r_source (of_kind k (g_entries g))) \<and>
     (\<forall>k. l_id s k = (if g_added g k = 0 then 0 else int ((g_added g k - 1) mod 255) + 1))"

section \<open>Lists with keys\<close>

lemma map_of_snoc:
  assumes "key x \<notin> key ` set xs"
  shows "map_of (map (\<lambda>x. (key x, val x)) (xs @ [x])) = (map_of (map (\<lambda>x. (key x, val x)) xs))(key x \<mapsto> val x)"
  using assms by (induction xs) (auto simp: fun_upd_twist)

lemma map_of_without:
  assumes "distinct (map key xs)" "x \<in> set xs"
  shows "map_of (map (\<lambda>x. (key x, val x)) (filter (\<lambda>y. y \<noteq> x) xs))
    = (map_of (map (\<lambda>x. (key x, val x)) xs))(key x := None)"
  using assms
proof (induction xs)
  case (Cons y xs)
  have "map_of (map (\<lambda>x. (key x, val x)) xs) (key y) = None"
    using Cons.prems(1) by (auto simp: map_of_eq_None_iff)
  moreover have "filter (\<lambda>z. z \<noteq> y) xs = xs" using Cons.prems(1) by (auto simp: filter_id_conv)
  moreover have "key x \<noteq> key y" if "x \<noteq> y"
  proof -
    have "key x \<in> set (map key xs)" using Cons.prems(2) that by simp
    then show ?thesis using Cons.prems(1) by (metis distinct.simps(2) list.simps(9))
  qed
  ultimately show ?case
    using Cons by (cases "x = y") (auto simp: fun_eq_iff)
qed simp

lemma map_of_key:
  assumes "distinct (map key xs)" "x \<in> set xs"
  shows "map_of (map (\<lambda>x. (key x, val x)) xs) (key x) = Some (val x)"
  using assms by (intro map_of_is_SomeI) (auto simp: o_def)

lemma filter_nth_neq:
  assumes "distinct xs" "n < length xs"
  shows "filter (\<lambda>y. y \<noteq> xs ! n) xs = take n xs @ drop (Suc n) xs"
proof -
  have split: "xs = take n xs @ xs ! n # drop (Suc n) xs" by (rule id_take_nth_drop [OF assms(2)])
  then have "xs ! n \<notin> set (take n xs) \<union> set (drop (Suc n) xs)"
    using assms(1) by (metis Un_iff distinct.simps(2) distinct_append disjoint_iff list.set_intros(1))
  then have "filter (\<lambda>y. y \<noteq> xs ! n) (take n xs) = take n xs"
      "filter (\<lambda>y. y \<noteq> xs ! n) (drop (Suc n) xs) = drop (Suc n) xs"
    by (auto simp: filter_id_conv)
  then show ?thesis by (subst (2) split) simp
qed

section \<open>Adding\<close>

lemma running_get_loop [simp]: "running (l_calls (get_loop s)) = running (l_calls s)"
  by (simp add: get_loop_def uv_def)

lemma get_loop_frame [simp]:
  "l_sources (get_loop s) = l_sources s" "l_handles (get_loop s) = l_handles s"
  "l_vector (get_loop s) = l_vector s" "l_id (get_loop s) = l_id s"
  by (simp_all add: get_loop_def uv_def)

lemma uv_frame [simp]:
  "l_sources (uv c s) = l_sources s" "l_handles (uv c s) = l_handles s"
  "l_vector (uv c s) = l_vector s" "l_id (uv c s) = l_id s" "l_calls (uv c s) = c # l_calls s"
  by (simp_all add: uv_def)

text \<open>The state after a source was added, up to calls of libuv that start nothing.\<close>

definition added ::
  "source_kind \<Rightarrow> addr \<Rightarrow> source \<Rightarrow> int \<Rightarrow> ptr_vector \<Rightarrow> loop_state \<Rightarrow> loop_state \<Rightarrow> bool" where
  "added k p e n v s s' \<longleftrightarrow>
     l_sources s' = (l_sources s)(p \<mapsto> e) \<and> l_handles s' = (l_handles s)(s_handle e \<mapsto> p) \<and>
     l_vector s' = (l_vector s)(k := v) \<and>
     l_id s' = (l_id s)(k := n + 1) \<and>
     running (l_calls s') = insert (s_handle e) (running (l_calls s))"

definition fresh :: "allocation \<Rightarrow> source_kind \<Rightarrow> registry \<Rightarrow> bool" where
  "fresh a k g \<longleftrightarrow>
     a_source a \<noteq> 0 \<and> a_source a \<notin> set (map r_source (g_entries g)) \<and>
     a_handle a \<noteq> 0 \<and> a_handle a \<notin> set (map r_handle (g_entries g)) \<and>
     a_memory a \<and> length (of_kind k (g_entries g)) < 65535"

lemma next_id_registry:
  assumes "loop_rel s g" "l_id s' = l_id s"
  shows "next_id k s' = (registry_id k g, s'\<lparr>l_id := (l_id s)(k := registry_id k g + 1)\<rparr>)"
proof -
  have "(if 255 \<le> l_id s k then 0 else l_id s k) = registry_id k g"
  proof (cases "g_added g k")
    case (Suc n)
    have "Suc n mod 255 = (if Suc (n mod 255) = 255 then 0 else Suc (n mod 255))" by (rule mod_Suc)
    moreover have "n mod 255 < 255" by simp
    ultimately show ?thesis using assms(1) Suc by (auto simp: loop_rel_def registry_id_def)
  qed (use assms(1) in \<open>simp add: loop_rel_def registry_id_def\<close>)
  then show ?thesis unfolding next_id_def Let_def assms(2) by (simp only:)
qed

lemma loop_rel_added:
  assumes "loop_rel s g" "fresh a k g" "s_handle e = a_handle a"
    and v: "vector_ok v" "elements v = elements (l_vector s k) @ [a_source a]"
    and "added k (a_source a) e (registry_id k g) v s s'"
  shows "loop_rel s' (registry_add k (a_source a) e g)"
proof -
  let ?x = "\<lparr>r_kind = k, r_id = registry_id k g, r_source = a_source a, r_struct = e\<rparr>" and ?es = "g_entries g"
  have new: "r_source ?x \<notin> r_source ` set ?es" "r_handle ?x \<notin> r_handle ` set ?es"
    using assms(2,3) by (simp_all add: fresh_def)
  show ?thesis
    using assms new map_of_snoc [of r_source ?x ?es r_struct] map_of_snoc [of r_handle ?x ?es r_source]
    unfolding loop_rel_def registry_add_def registry_id_def added_def fresh_def by simp
qed

text \<open>The vector has room.\<close>

lemma append_registered:
  assumes "loop_rel s g" "fresh a k g"
  shows "\<exists>v. ptr_vector_append (a_memory a) (a_junk a) (a_source a) (l_vector s k) = Some v \<and>
    vector_ok v \<and> elements v = elements (l_vector s k) @ [a_source a]"
proof -
  have v: "vector_ok (l_vector s k)" "elements (l_vector s k) = map r_source (of_kind k (g_entries g))"
    using assms(1) by (simp_all add: loop_rel_def)
  have "unat (v_len (l_vector s k)) < 65535"
    using length_elements [OF v(1)] v(2) assms(2) by (simp add: fresh_def)
  then show ?thesis
    using ptr_vector_append_ok [OF v(1), of "a_junk a" "a_source a"] assms(2) by (auto simp: fresh_def)
qed

lemmas add_defs = new_source_def append_source_def update_source_def Let_def

lemma os_add_timeout_ok:
  assumes "loop_rel s g" "fresh a Timeout g"
  shows "\<exists>s'. os_add_timeout_callback a msec func d s = Some (S_OK, registry_id Timeout g, s') \<and>
    loop_rel s' (registry_add Timeout (a_source a) ((a_content a)\<lparr>s_func := func, s_user_data := d,
      s_handle := a_handle a, s_id := registry_id Timeout g\<rparr>) g)"
proof -
  from append_registered [OF assms] obtain v
    where v: "ptr_vector_append (a_memory a) (a_junk a) (a_source a) (l_vector s Timeout) = Some v"
      "vector_ok v" "elements v = elements (l_vector s Timeout) @ [a_source a]" by (elim exE conjE)
  show ?thesis
    using assms(2) v(1)
    unfolding os_add_timeout_callback_def fresh_def
    by (simp add: add_defs next_id_registry [OF assms(1)]) (rule loop_rel_added [OF assms _ v(2,3)], simp_all add: added_def)
qed

lemma os_add_periodic_ok:
  assumes "loop_rel s g" "fresh a Periodic g"
  shows "\<exists>s'. os_add_periodic_callback a msec func d s = Some (S_OK, registry_id Periodic g, s') \<and>
    loop_rel s' (registry_add Periodic (a_source a) ((a_content a)\<lparr>s_func := func, s_user_data := d,
      s_handle := a_handle a, s_id := registry_id Periodic g\<rparr>) g)"
proof -
  from append_registered [OF assms] obtain v
    where v: "ptr_vector_append (a_memory a) (a_junk a) (a_source a) (l_vector s Periodic) = Some v"
      "vector_ok v" "elements v = elements (l_vector s Periodic) @ [a_source a]" by (elim exE conjE)
  show ?thesis
    using assms(2) v(1)
    unfolding os_add_periodic_callback_def fresh_def
    by (simp add: add_defs next_id_registry [OF assms(1)]) (rule loop_rel_added [OF assms _ v(2,3)], simp_all add: added_def)
qed

lemma os_add_fd_watch_ok:
  assumes "loop_rel s g" "fresh a Watch g"
  shows "\<exists>s'. os_add_fd_watch a fd io func d s = Some (S_OK, registry_id Watch g, s') \<and>
    loop_rel s' (registry_add Watch (a_source a) ((a_content a)\<lparr>s_func := func, s_user_data := d,
      s_handle := a_handle a, s_id := registry_id Watch g, s_fd := fd\<rparr>) g)"
proof -
  from append_registered [OF assms] obtain v
    where v: "ptr_vector_append (a_memory a) (a_junk a) (a_source a) (l_vector s Watch) = Some v"
      "vector_ok v" "elements v = elements (l_vector s Watch) @ [a_source a]" by (elim exE conjE)
  show ?thesis
    using assms(2) v(1)
    unfolding os_add_fd_watch_def fresh_def
    by (simp add: add_defs next_id_registry [OF assms(1)]) (rule loop_rel_added [OF assms _ v(2,3)], simp_all add: added_def)
qed

lemma os_add_idle_ok:
  assumes "loop_rel s g" "fresh a Idle g"
  shows "\<exists>s'. os_add_idle_callback a func d s = Some (S_OK, registry_id Idle g, s') \<and>
    loop_rel s' (registry_add Idle (a_source a) ((a_content a)\<lparr>s_func := func, s_user_data := d,
      s_handle := a_handle a\<rparr>) g)"
proof -
  from append_registered [OF assms] obtain v
    where v: "ptr_vector_append (a_memory a) (a_junk a) (a_source a) (l_vector s Idle) = Some v"
      "vector_ok v" "elements v = elements (l_vector s Idle) @ [a_source a]" by (elim exE conjE)
  show ?thesis
    using assms(2) v(1)
    unfolding os_add_idle_callback_def fresh_def
    by (simp add: add_defs next_id_registry [OF assms(1)]) (rule loop_rel_added [OF assms _ v(2,3)], simp_all add: added_def)
qed

section \<open>Removing\<close>

definition registry_delete :: "registered \<Rightarrow> registry \<Rightarrow> registry" where
  "registry_delete x g = g\<lparr>g_entries := filter (\<lambda>y. y \<noteq> x) (g_entries g)\<rparr>"

lemma of_kind_delete:
  assumes "distinct (of_kind k es)" "n < length (of_kind k es)" "x = of_kind k es ! n"
  shows "of_kind k (filter (\<lambda>y. y \<noteq> x) es) = take n (of_kind k es) @ drop (Suc n) (of_kind k es)"
  using filter_nth_neq [OF assms(1,2)] by (simp add: assms(3) conj_commute)

lemma of_kind_delete_other: "r_kind x \<noteq> k \<Longrightarrow> filter (\<lambda>y. y \<noteq> x \<and> r_kind y = k) es = of_kind k es"
  by (rule filter_cong) auto

lemma running_uv_stop [simp]: "running (uv_stop k h # cs) = running cs - {h}"
  by (cases k) auto

lemma image_without:
  assumes "distinct (map f xs)" "x \<in> set xs"
  shows "set (map f (filter (\<lambda>y. y \<noteq> x) xs)) = set (map f xs) - {f x}"
  using assms by (auto simp: distinct_map inj_on_def)

lemma loop_rel_deleted:
  assumes "loop_rel s g" "x \<in> set (g_entries g)" "r_kind x = k"
    and v: "vector_ok v" "elements v = map r_source (of_kind k (filter (\<lambda>y. y \<noteq> x) (g_entries g)))"
  shows "loop_rel (s\<lparr>l_calls := uv_stop k (r_handle x) # l_calls s, l_handles := (l_handles s)(r_handle x := None),
    l_sources := (l_sources s)(r_source x := None), l_vector := (l_vector s)(k := v)\<rparr>) (registry_delete x g)"
proof -
  let ?es = "g_entries g"
  have d: "distinct (map r_source ?es)" "distinct (map r_handle ?es)" using assms(1) by (simp_all add: loop_rel_def)
  have "distinct (map f (filter P ?es))" if "distinct (map f ?es)" for f :: "registered \<Rightarrow> addr" and P
    using that by (rule distinct_map_filter)
  then show ?thesis
    using assms d map_of_without [OF d(1) assms(2), of r_struct] map_of_without [OF d(2) assms(2), of r_source]
      image_without [OF d(2) assms(2)]
    unfolding loop_rel_def registry_delete_def by (auto simp: of_kind_delete_other simp del: running.simps(2))
qed

lemma cleanup_one_ok:
  assumes rel: "loop_rel s g" and n: "n < length (of_kind k (g_entries g))"
    and x: "x = of_kind k (g_entries g) ! n" and i: "unat i = n"
  shows "\<exists>s'. cleanup_one k memory ident i s = Some s' \<and>
    loop_rel s' (if s_id (r_struct x) = ident then registry_delete x g else g)"
proof -
  let ?es = "g_entries g" and ?v = "l_vector s k"
  have x_in: "x \<in> set ?es" "r_kind x = k" using nth_mem [OF n] by (simp_all add: x)
  have d: "distinct (map r_source ?es)" "distinct (map r_handle ?es)" using rel by (simp_all add: loop_rel_def)
  have v: "vector_ok ?v" "elements ?v = map r_source (of_kind k ?es)" using rel by (simp_all add: loop_rel_def)
  have "unat (v_len ?v) = length (of_kind k ?es)" using length_elements [OF v(1)] by (simp add: v(2))
  then have less: "unat i < unat (v_len ?v)" using n i by simp
  have get: "ptr_vector_get_no_check ?v i = Some (r_source x)"
    using vector_get_ok [OF v(1) less] n by (simp add: v(2) i x)
  have source: "l_sources s (r_source x) = Some (r_struct x)"
    using rel map_of_key [OF d(1) x_in(1), of r_struct] by (simp add: loop_rel_def)
  have handle: "l_handles s (r_handle x) = Some (r_source x)" "r_handle x \<noteq> 0"
    using rel map_of_key [OF d(2) x_in(1), of r_source] x_in(1) by (auto simp: loop_rel_def)
  show ?thesis
  proof (cases "s_id (r_struct x) = ident")
    case False
    then show ?thesis using rel by (simp add: cleanup_one_def get source)
  next
    case True
    from vector_del_ok [OF v(1) less, of "memory i"] obtain v' where
      v': "vector_del (memory i) i ?v = Some (S_OK, v')" "vector_ok v'"
        "elements v' = take n (elements ?v) @ drop (n + 1) (elements ?v)"
      unfolding i by (elim exE conjE)
    have "distinct (of_kind k ?es)" using d(1) by (simp add: distinct_map)
    then have "elements v' = map r_source (of_kind k (filter (\<lambda>y. y \<noteq> x) ?es))"
      using of_kind_delete [OF _ n x] by (simp add: v'(3) v(2) take_map drop_map)
    from loop_rel_deleted [OF rel x_in v'(2) this] show ?thesis
      using True handle v'(1)
      by (simp add: cleanup_one_def get source stop_handle_def free_source_def uv_def)
  qed
qed

lemma registry_delete_remove:
  assumes "s_id (r_struct x) = ident" "r_kind x = k"
  shows "registry_remove k ident (registry_delete x g) = registry_remove k ident g"
  using assms by (auto simp: registry_remove_def registry_delete_def intro!: filter_cong
    arg_cong [where f = "\<lambda>es. g_entries_update (\<lambda>_. es) g"])

lemma cleanup_from_ok:
  assumes "loop_rel s g" "n \<le> length (of_kind k (g_entries g))" "i + 1 = of_nat n"
    and "\<forall>x \<in> set (drop n (of_kind k (g_entries g))). s_id (r_struct x) \<noteq> ident"
  shows "\<exists>s'. cleanup_from k memory ident i s = Some s' \<and> loop_rel s' (registry_remove k ident g)"
  using assms
proof (induction n arbitrary: i s g)
  case 0
  then have "i = -1" by (simp add: eq_neg_iff_add_eq_0)
  moreover have "registry_remove k ident g = g"
  proof -
    have "filter (\<lambda>x. \<not> (r_kind x = k \<and> s_id (r_struct x) = ident)) (g_entries g) = g_entries g"
      using 0(4) by (auto simp: filter_id_conv)
    then show ?thesis by (simp add: registry_remove_def)
  qed
  ultimately show ?case using 0(1) by (simp add: cleanup_from.simps)
next
  case (Suc n)
  let ?L = "of_kind k (g_entries g)"
  define x where "x = ?L ! n"
  have n: "n < length ?L" using Suc.prems(2) by simp
  have v: "vector_ok (l_vector s k)" "elements (l_vector s k) = map r_source ?L"
    using Suc.prems(1) by (simp_all add: loop_rel_def)
  have "length ?L = unat (v_len (l_vector s k))" using length_elements [OF v(1)] by (simp add: v(2))
  then have "n < 65535" using n unsigned_less [of "v_len (l_vector s k)", where 'a = nat] by simp
  moreover have i: "i = of_nat n" using Suc.prems(3) by simp
  ultimately have unat: "unat i = n" by (simp add: unsigned_of_nat take_bit_nat_eq_self)
  have neq: "i \<noteq> -1"
    using unat \<open>n < 65535\<close> by (auto simp: unsigned_minus_1_eq_mask mask_eq_exp_minus_1)
  have kx: "r_kind x = k" using nth_mem [OF n] by (simp add: x_def)
  define g' where "g' = (if s_id (r_struct x) = ident then registry_delete x g else g)"
  from cleanup_one_ok [OF Suc.prems(1) n x_def unat, of memory ident]
  obtain s' where s': "cleanup_one k memory ident i s = Some s'" "loop_rel s' g'"
    unfolding g'_def [symmetric] by (elim exE conjE)
  have d: "distinct ?L" using Suc.prems(1) by (simp add: loop_rel_def distinct_map)
  have L': "of_kind k (g_entries g') = (if s_id (r_struct x) = ident then take n ?L @ drop (Suc n) ?L else ?L)"
    using of_kind_delete [OF d n x_def] by (simp add: g'_def registry_delete_def)
  have "drop n ?L = x # drop (Suc n) ?L" unfolding x_def by (rule Cons_nth_drop_Suc [OF n, symmetric])
  then have rest: "\<forall>y \<in> set (drop n (of_kind k (g_entries g'))). s_id (r_struct y) \<noteq> ident"
    using Suc.prems(4) n by (simp add: L')
  have le: "n \<le> length (of_kind k (g_entries g'))" using n by (auto simp: L')
  have "i - 1 + 1 = of_nat n" by (simp add: i)
  from Suc.IH [OF s'(2) le this rest]
  have "\<exists>s''. cleanup_from k memory ident (i - 1) s' = Some s'' \<and> loop_rel s'' (registry_remove k ident g)"
    using registry_delete_remove [OF _ kx, of ident] by (simp add: g'_def split: if_splits)
  then show ?case using s'(1) neq by (subst cleanup_from.simps) simp
qed

lemma cleanup_ok:
  assumes "loop_rel s g"
  shows "\<exists>s'. cleanup k memory ident s = Some s' \<and> loop_rel s' (registry_remove k ident g)"
proof -
  let ?L = "of_kind k (g_entries g)"
  have v: "vector_ok (l_vector s k)" "elements (l_vector s k) = map r_source ?L"
    using assms by (simp_all add: loop_rel_def)
  have "length ?L = unat (v_len (l_vector s k))" using length_elements [OF v(1)] by (simp add: v(2))
  then have "v_len (l_vector s k) - 1 + 1 = of_nat (length ?L)" by simp
  from cleanup_from_ok [OF assms _ this] show ?thesis by (simp add: cleanup_def)
qed

section \<open>Runs\<close>

datatype loop_op =
    Add_timeout allocation u32 addr addr
  | Add_periodic allocation u32 addr addr
  | Add_watch allocation int u32 addr addr
  | Add_idle allocation addr addr
  | Remove_timeout "u16 \<Rightarrow> bool" int
  | Remove_periodic "u16 \<Rightarrow> bool" int
  | Remove_watch "u16 \<Rightarrow> bool" int
  | Remove_idle "u16 \<Rightarrow> bool" int
  | Quit

fun loop_step :: "loop_op \<Rightarrow> loop_state \<Rightarrow> loop_state option" where
  "loop_step (Add_timeout a msec func d) s = map_option (snd \<circ> snd) (os_add_timeout_callback a msec func d s)"
| "loop_step (Add_periodic a msec func d) s = map_option (snd \<circ> snd) (os_add_periodic_callback a msec func d s)"
| "loop_step (Add_watch a fd io func d) s = map_option (snd \<circ> snd) (os_add_fd_watch a fd io func d s)"
| "loop_step (Add_idle a func d) s = map_option (snd \<circ> snd) (os_add_idle_callback a func d s)"
| "loop_step (Remove_timeout memory n) s = map_option snd (os_remove_timeout_callback memory n s)"
| "loop_step (Remove_periodic memory n) s = map_option snd (os_remove_periodic_callback memory n s)"
| "loop_step (Remove_watch memory n) s = map_option snd (os_remove_fd_watch memory n s)"
| "loop_step (Remove_idle memory n) s = map_option snd (os_remove_idle_callback memory n s)"
| "loop_step Quit s = Some (os_loop_quit s)"

text \<open>An idle source keeps the identifier that its memory happened to hold.\<close>

fun registry_step :: "loop_op \<Rightarrow> registry \<Rightarrow> registry" where
  "registry_step (Add_timeout a msec func d) g = registry_add Timeout (a_source a)
     \<lparr>s_func = func, s_user_data = d, s_handle = a_handle a, s_fd = s_fd (a_content a), s_id = registry_id Timeout g\<rparr> g"
| "registry_step (Add_periodic a msec func d) g = registry_add Periodic (a_source a)
     \<lparr>s_func = func, s_user_data = d, s_handle = a_handle a, s_fd = s_fd (a_content a), s_id = registry_id Periodic g\<rparr> g"
| "registry_step (Add_watch a fd io func d) g = registry_add Watch (a_source a)
     \<lparr>s_func = func, s_user_data = d, s_handle = a_handle a, s_fd = fd, s_id = registry_id Watch g\<rparr> g"
| "registry_step (Add_idle a func d) g = registry_add Idle (a_source a)
     \<lparr>s_func = func, s_user_data = d, s_handle = a_handle a, s_fd = s_fd (a_content a), s_id = s_id (a_content a)\<rparr> g"
| "registry_step (Remove_timeout memory n) g = registry_cancel Timeout n g"
| "registry_step (Remove_periodic memory n) g = registry_cancel Periodic n g"
| "registry_step (Remove_watch memory n) g = registry_cancel Watch n g"
| "registry_step (Remove_idle memory n) g = registry_cancel Idle n g"
| "registry_step Quit g = g"

text \<open>
  What is asked of an addition: its allocations give memory that is not in use, and its vector has
  room.  An idle source is not registered under the identifier of the caller but under what its memory
  held: removing by an identifier is only asked where the two agree on the idle sources there are.
\<close>

fun loop_guard :: "loop_op \<Rightarrow> registry \<Rightarrow> bool" where
  "loop_guard (Add_timeout a msec func d) g \<longleftrightarrow> fresh a Timeout g"
| "loop_guard (Add_periodic a msec func d) g \<longleftrightarrow> fresh a Periodic g"
| "loop_guard (Add_watch a fd io func d) g \<longleftrightarrow> fresh a Watch g"
| "loop_guard (Add_idle a func d) g \<longleftrightarrow> fresh a Idle g"
| "loop_guard (Remove_idle memory n) g \<longleftrightarrow>
     (\<forall>x \<in> set (of_kind Idle (g_entries g)). s_id (r_struct x) = n \<longleftrightarrow> r_id x = n)"
| "loop_guard x g \<longleftrightarrow> True"

text \<open>The structures of all other sources hold the identifier of the caller.\<close>

definition ids_ok :: "registry \<Rightarrow> bool" where
  "ids_ok g \<longleftrightarrow> (\<forall>x \<in> set (g_entries g). r_kind x \<noteq> Idle \<longrightarrow> s_id (r_struct x) = r_id x)"

lemma registry_remove_cancel:
  assumes "\<forall>x \<in> set (of_kind k (g_entries g)). s_id (r_struct x) = n \<longleftrightarrow> r_id x = n"
  shows "registry_remove k n g = registry_cancel k n g"
proof -
  have "filter (\<lambda>x. \<not> (r_kind x = k \<and> s_id (r_struct x) = n)) (g_entries g) =
      filter (\<lambda>x. \<not> (r_kind x = k \<and> r_id x = n)) (g_entries g)"
    using assms by (intro filter_cong) auto
  then show ?thesis by (simp add: registry_remove_def registry_cancel_def)
qed

lemma ids_ok_cancel: "ids_ok g \<Longrightarrow> k \<noteq> Idle \<Longrightarrow> registry_remove k n g = registry_cancel k n g"
  by (rule registry_remove_cancel) (auto simp: ids_ok_def)

lemma ids_ok_step: "ids_ok g \<Longrightarrow> ids_ok (registry_step x g)"
  by (cases x) (auto simp: ids_ok_def registry_add_def registry_cancel_def)

lemma source_record:
  "e\<lparr>s_func := f, s_user_data := d, s_handle := h, s_id := n\<rparr> =
    \<lparr>s_func = f, s_user_data = d, s_handle = h, s_fd = s_fd e, s_id = n\<rparr>"
  "e\<lparr>s_func := f, s_user_data := d, s_handle := h, s_id := n, s_fd := fd\<rparr> =
    \<lparr>s_func = f, s_user_data = d, s_handle = h, s_fd = fd, s_id = n\<rparr>"
  "e\<lparr>s_func := f, s_user_data := d, s_handle := h\<rparr> =
    \<lparr>s_func = f, s_user_data = d, s_handle = h, s_fd = s_fd e, s_id = s_id e\<rparr>"
  by (cases e, simp)+

lemma loop_quit_ok: "loop_rel s g \<Longrightarrow> loop_rel (os_loop_quit s) g"
  by (simp add: loop_rel_def os_loop_quit_def)

interpretation loop_sources: guarded_simulation loop_step registry_step
  "\<lambda>s g. loop_rel s g \<and> ids_ok g" loop_guard
proof unfold_locales
  fix s g x
  assume "loop_rel s g \<and> ids_ok g" and guard: "loop_guard x g"
  then have rel: "loop_rel s g" and ids: "ids_ok g" by simp_all
  note remove = os_remove_timeout_callback_def os_remove_periodic_callback_def os_remove_fd_watch_def
    os_remove_idle_callback_def timeout_cleanup_def periodic_cleanup_def watch_cleanup_def idle_cleanup_def
  have "\<exists>s'. loop_step x s = Some s' \<and> loop_rel s' (registry_step x g)"
  proof (cases x)
    case (Add_timeout a msec f d)
    then show ?thesis using os_add_timeout_ok [OF rel, of a msec f d] guard by (auto simp: source_record)
  next
    case (Add_periodic a msec f d)
    then show ?thesis using os_add_periodic_ok [OF rel, of a msec f d] guard by (auto simp: source_record)
  next
    case (Add_watch a fd io f d)
    then show ?thesis using os_add_fd_watch_ok [OF rel, of a fd io f d] guard by (auto simp: source_record)
  next
    case (Add_idle a f d)
    then show ?thesis using os_add_idle_ok [OF rel, of a f d] guard by (auto simp: source_record)
  next
    case (Remove_timeout memory n)
    then show ?thesis using cleanup_ok [OF rel, of Timeout memory n] ids_ok_cancel [OF ids, of Timeout n]
      by (auto simp: remove)
  next
    case (Remove_periodic memory n)
    then show ?thesis using cleanup_ok [OF rel, of Periodic memory n] ids_ok_cancel [OF ids, of Periodic n]
      by (auto simp: remove)
  next
    case (Remove_watch memory n)
    then show ?thesis using cleanup_ok [OF rel, of Watch memory n] ids_ok_cancel [OF ids, of Watch n]
      by (auto simp: remove)
  next
    case (Remove_idle memory n)
    then show ?thesis using cleanup_ok [OF rel, of Idle memory n] registry_remove_cancel [of Idle g n] guard
      by (auto simp: remove)
  next
    case Quit
    then show ?thesis using loop_quit_ok [OF rel] by simp
  qed
  then show "\<exists>s'. loop_step x s = Some s' \<and> loop_rel s' (registry_step x g) \<and> ids_ok (registry_step x g)"
    using ids_ok_step [OF ids] by simp
qed

lemma loop_rel_init: "loop_rel init_loop empty_registry"
  by (simp add: loop_rel_def init_loop_def empty_registry_def empty_vector_def vector_ok_def elements_def)

section \<open>Properties\<close>

text \<open>
  C5. Memory safety and correctness of the loop's registration: along every sequence of additions whose
  allocations succeed (with memory that is not in use, at most 65535 sources of a kind at a time),
  removals and stops of the loop, no operation touches memory it may not, although the vectors change
  under the walk that removes from them.  The structures and handles that are allocated are those of the
  sources that were added and not removed by the identifier their caller got, each vector lists those of
  its kind, and libuv serves exactly their handles.  Idle functions are the exception that a hypothesis
  (\<open>loop_guard\<close>) names: their structure never gets the identifier, so that a removal among them is
  covered only where the memory happened to hold it before.
\<close>

theorem loop_run_refines:
  assumes "permitted loop_guard registry_step ops empty_registry"
  shows "\<exists>s. run_opt loop_step ops init_loop = Some s \<and> loop_rel s (fold registry_step ops empty_registry)"
  using loop_sources.run_guarded [OF _ assms, of init_loop] loop_rel_init by (auto simp: ids_ok_def empty_registry_def)

definition blank :: source where
  "blank = \<lparr>s_func = 0, s_user_data = 0, s_handle = 0, s_fd = 0, s_id = 77\<rparr>"

abbreviation (input) block :: "addr \<Rightarrow> addr \<Rightarrow> allocation" where
  "block p h \<equiv> \<lparr>a_source = p, a_handle = h, a_content = blank, a_memory = True, a_junk = 0\<rparr>"

theorem loop_run_refines_witness:
  "\<exists>s. run_opt loop_step [Add_timeout (block 10 11) 500 1 2, Add_watch (block 20 21) 3 1 4 5,
        Add_timeout (block 30 31) 200 6 7, Remove_timeout (\<lambda>_. True) 0] init_loop = Some s \<and>
     dom (l_sources s) = {20, 30} \<and> running (l_calls s) = {21, 31} \<and>
     elements (l_vector s Timeout) = [30] \<and> elements (l_vector s Watch) = [20]"
proof -
  let ?ops = "[Add_timeout (block 10 11) 500 1 2, Add_watch (block 20 21) 3 1 4 5,
        Add_timeout (block 30 31) 200 6 7, Remove_timeout (\<lambda>_. True) 0]"
  have "permitted loop_guard registry_step ?ops empty_registry"
    by (simp add: fresh_def empty_registry_def registry_add_def)
  from loop_run_refines [OF this] obtain s where s: "run_opt loop_step ?ops init_loop = Some s"
      "loop_rel s (fold registry_step ?ops empty_registry)" by (elim exE conjE)
  moreover have "g_entries (fold registry_step ?ops empty_registry) =
      [\<lparr>r_kind = Watch, r_id = 0, r_source = 20,
         r_struct = \<lparr>s_func = 4, s_user_data = 5, s_handle = 21, s_fd = 3, s_id = 0\<rparr>\<rparr>,
       \<lparr>r_kind = Timeout, r_id = 1, r_source = 30,
         r_struct = \<lparr>s_func = 6, s_user_data = 7, s_handle = 31, s_fd = 0, s_id = 1\<rparr>\<rparr>]"
    by (simp add: empty_registry_def registry_add_def registry_cancel_def registry_id_def blank_def)
  ultimately have "dom (l_sources s) = {20, 30} \<and> running (l_calls s) = {21, 31} \<and>
     elements (l_vector s Timeout) = [30] \<and> elements (l_vector s Watch) = [20]"
    unfolding loop_rel_def by (auto simp: dom_def)
  with s(1) show ?thesis by blast
qed

fun adds_timeout :: "loop_op \<Rightarrow> bool" where
  "adds_timeout (Add_timeout a msec func d) = True"
| "adds_timeout x = False"

lemma added_timeouts:
  "g_added (fold registry_step ops g) Timeout = g_added g Timeout + length (filter adds_timeout ops)"
proof (induction ops arbitrary: g)
  case (Cons x ops)
  then show ?case by (cases x) (simp_all add: registry_add_def registry_cancel_def)
qed simp

lemma permitted_append:
  "permitted guard step (xs @ ys) a \<longleftrightarrow> permitted guard step xs a \<and> permitted guard step ys (fold step xs a)"
  by (induction xs arbitrary: a) auto

text \<open>
  C32. The identifiers of timeouts: whatever was added and removed before, the next timeout gets the
  number of timeouts added so far, modulo 255.  Removing by that identifier stops the new timeout and
  every older one that has the same number, and leaves all other sources.
\<close>

theorem loop_timeout_identifier:
  assumes "permitted loop_guard registry_step (ops @ [Add_timeout a msec func d]) empty_registry"
  defines "n \<equiv> int (length (filter adds_timeout ops) mod 255)"
  shows "\<exists>s s1 s2. run_opt loop_step ops init_loop = Some s \<and>
    os_add_timeout_callback a msec func d s = Some (S_OK, n, s1) \<and>
    os_remove_timeout_callback memory n s1 = Some (S_OK, s2) \<and>
    running (l_calls s2) = set (map r_handle
      (filter (\<lambda>x. \<not> (r_kind x = Timeout \<and> r_id x = n)) (g_entries (fold registry_step ops empty_registry))))"
proof -
  let ?g = "fold registry_step ops empty_registry"
  have "permitted loop_guard registry_step ops empty_registry" and new: "fresh a Timeout ?g"
    using assms by (simp_all add: permitted_append)
  from loop_sources.run_guarded [OF _ this(1), of init_loop] loop_rel_init obtain s where
    s: "run_opt loop_step ops init_loop = Some s" "loop_rel s ?g" "ids_ok ?g"
    by (auto simp: ids_ok_def empty_registry_def)
  have n: "registry_id Timeout ?g = n"
    unfolding registry_id_def added_timeouts n_def by (simp add: empty_registry_def)
  let ?e = "(a_content a)\<lparr>s_func := func, s_user_data := d, s_handle := a_handle a, s_id := n\<rparr>"
  let ?g1 = "registry_add Timeout (a_source a) ?e ?g"
  from os_add_timeout_ok [OF s(2) new, of msec func d] n obtain s1 where
    s1: "os_add_timeout_callback a msec func d s = Some (S_OK, n, s1)" "loop_rel s1 ?g1" by auto
  from cleanup_ok [OF s1(2), of Timeout memory n] obtain s2 where
    s2: "cleanup Timeout memory n s1 = Some s2" "loop_rel s2 (registry_remove Timeout n ?g1)" by blast
  have "ids_ok ?g1" using s(3) by (auto simp: ids_ok_def registry_add_def n)
  then have "g_entries (registry_remove Timeout n ?g1) =
      filter (\<lambda>x. \<not> (r_kind x = Timeout \<and> r_id x = n)) (g_entries ?g)"
    by (simp add: ids_ok_cancel registry_cancel_def registry_add_def n)
  with s(1) s1(1) s2 show ?thesis
    by (auto simp: os_remove_timeout_callback_def timeout_cleanup_def loop_rel_def)
qed

theorem loop_timeout_identifier_witness:
  "\<exists>s s1 s2. run_opt loop_step [Add_timeout (block 10 11) 500 1 2, Add_timeout (block 20 21) 500 1 2,
      Remove_timeout (\<lambda>_. True) 0] init_loop = Some s \<and>
    os_add_timeout_callback (block 10 11) 500 1 2 s = Some (S_OK, 2, s1) \<and>
    os_remove_timeout_callback (\<lambda>_. True) 2 s1 = Some (S_OK, s2) \<and> running (l_calls s2) = {21}"
  using loop_timeout_identifier
    [of "[Add_timeout (block 10 11) 500 1 2, Add_timeout (block 20 21) 500 1 2, Remove_timeout (\<lambda>_. True) 0]"
      "block 10 11" 500 1 2 "\<lambda>_. True"]
  by (simp add: fresh_def empty_registry_def registry_add_def registry_cancel_def registry_id_def)

text \<open>A source that is done is always read after it was freed.\<close>

lemma finish_source_undefined [simp]: "finish_source k memory p s = None"
proof -
  have "s' p = None" if "free_source p s = Some t" "s' = l_sources t" for s s' t
    using that by (auto simp: free_source_def bind_eq_Some_conv)
  then show ?thesis by (auto simp: finish_source_def bind_eq_None_conv)
qed

text \<open>
  C23. When libuv calls a source, the only defined outcome is that the source stays: a periodic timer
  whose function returns 1, a watch or an idle function that returns anything but 0; then the state is
  the one the function left.  A timeout has no defined outcome at all, because it is read after it was
  freed to find the entry of the vector.
\<close>

theorem loop_callback_outcome:
  "timeout_callback program memory handle s = None \<and>
   (periodic_callback program memory handle s = Some s' \<longleftrightarrow>
     (\<exists>p e. l_handles s handle = Some p \<and> l_sources s p = Some e \<and> s_func e \<noteq> 0 \<and>
        program (s_func e) (s_user_data e) 0 0 s = Some (1, s'))) \<and>
   (watch_callback program memory handle events s = Some s' \<longleftrightarrow>
     (\<exists>p e ret. l_handles s handle = Some p \<and> l_sources s p = Some e \<and> s_func e \<noteq> 0 \<and>
        program (s_func e) (s_user_data e) (s_fd e) (events_io events) s = Some (ret, s') \<and> ret \<noteq> 0)) \<and>
   (idle_callback program memory handle s = Some s' \<longleftrightarrow>
     (\<exists>p e ret. l_handles s handle = Some p \<and> l_sources s p = Some e \<and> s_func e \<noteq> 0 \<and>
        program (s_func e) (s_user_data e) 0 0 s = Some (ret, s') \<and> ret \<noteq> 0))"
proof (intro conjI)
  show "timeout_callback program memory handle s = None"
    by (auto simp: timeout_callback_def bind_eq_None_conv split: if_splits)
  show "periodic_callback program memory handle s = Some s' \<longleftrightarrow>
     (\<exists>p e. l_handles s handle = Some p \<and> l_sources s p = Some e \<and> s_func e \<noteq> 0 \<and>
        program (s_func e) (s_user_data e) 0 0 s = Some (1, s'))"
    by (auto simp: periodic_callback_def bind_eq_Some_conv split: if_splits)
  show "watch_callback program memory handle events s = Some s' \<longleftrightarrow>
     (\<exists>p e ret. l_handles s handle = Some p \<and> l_sources s p = Some e \<and> s_func e \<noteq> 0 \<and>
        program (s_func e) (s_user_data e) (s_fd e) (events_io events) s = Some (ret, s') \<and> ret \<noteq> 0)"
    by (auto simp: watch_callback_def bind_eq_Some_conv split: if_splits)
  show "idle_callback program memory handle s = Some s' \<longleftrightarrow>
     (\<exists>p e ret. l_handles s handle = Some p \<and> l_sources s p = Some e \<and> s_func e \<noteq> 0 \<and>
        program (s_func e) (s_user_data e) 0 0 s = Some (ret, s') \<and> ret \<noteq> 0)"
    by (auto simp: idle_callback_def bind_eq_Some_conv split: if_splits)
qed

text \<open>The events of a watch: what is asked for and can be expressed is what the program is told.\<close>

lemma watch_io_roundtrip: "watch_events (events_io events) = events"
proof -
  have "e \<in> watch_events (events_io events) \<longleftrightarrow> e \<in> events" for e
    by (cases e) (auto simp: watch_events_def events_io_def)
  then show ?thesis by blast
qed

text \<open>
  An idle source is registered under what its memory held before; removing it by the identifier the
  caller got leaves it in place.
\<close>

lemma loop_idle_not_removed:
  assumes "loop_rel s g" "fresh a Idle g" "s_id (a_content a) \<noteq> registry_id Idle g"
  shows "\<exists>n s1 s2. os_add_idle_callback a func d s = Some (S_OK, n, s1) \<and>
    os_remove_idle_callback memory n s1 = Some (S_OK, s2) \<and> a_handle a \<in> running (l_calls s2)"
proof -
  from os_add_idle_ok [OF assms(1,2), of func d] obtain s1 where
    s1: "os_add_idle_callback a func d s = Some (S_OK, registry_id Idle g, s1)"
      "loop_rel s1 (registry_add Idle (a_source a)
        ((a_content a)\<lparr>s_func := func, s_user_data := d, s_handle := a_handle a\<rparr>) g)"
    by (elim exE conjE)
  from cleanup_ok [OF s1(2), of Idle memory "registry_id Idle g"] obtain s2 where
    "cleanup Idle memory (registry_id Idle g) s1 = Some s2"
    "loop_rel s2 (registry_remove Idle (registry_id Idle g) (registry_add Idle (a_source a)
        ((a_content a)\<lparr>s_func := func, s_user_data := d, s_handle := a_handle a\<rparr>) g))"
    by (elim exE conjE)
  then show ?thesis using s1(1) assms(3)
    by (auto simp: os_remove_idle_callback_def idle_cleanup_def loop_rel_def registry_remove_def registry_add_def)
qed

end
