(* ===== verification/Calendar.thy ===== *)
theory Calendar
  imports Prelude
begin

text \<open>
  What the time module uses of the C library: \<^verbatim>\<open>gmtime\<close>, \<^verbatim>\<open>timegm\<close>, \<^verbatim>\<open>localtime\<close> and \<^verbatim>\<open>mktime\<close> in the
  Gregorian calendar, for zones without daylight saving time.  Of \<^verbatim>\<open>struct tm\<close> the fields the module
  reads or writes; months count from 0 and years from 1900.
\<close>

section \<open>Years and months\<close>

definition leap :: "int \<Rightarrow> bool" where
  "leap y \<longleftrightarrow> 4 dvd y \<and> (\<not> 100 dvd y \<or> 400 dvd y)"

definition year_days :: "int \<Rightarrow> int" where
  "year_days y = (if leap y then 366 else 365)"

definition month_days :: "int \<Rightarrow> nat \<Rightarrow> int" where
  "month_days y m = [31, if leap y then 29 else 28, 31, 30, 31, 30, 31, 31, 30, 31, 30, 31] ! m"

text \<open>The days from 1 January 1970 to 1 January of a year, and from there to the first of a month.\<close>

definition leap_years :: "int \<Rightarrow> int" where
  "leap_years y = y div 4 - y div 100 + y div 400"

definition days_before_year :: "int \<Rightarrow> int" where
  "days_before_year y = 365 * (y - 1970) + leap_years (y - 1) - leap_years 1969"

definition days_before_month :: "int \<Rightarrow> nat \<Rightarrow> int" where
  "days_before_month y m = sum_list (map (month_days y) [0..<m])"

section \<open>Conversions\<close>

record tm =
  tm_sec :: int
  tm_min :: int
  tm_hour :: int
  tm_mday :: int
  tm_mon :: int
  tm_year :: int
  tm_wday :: int

text \<open>Every field may be out of its range; the month carries into the year, the rest is a sum.\<close>

definition timegm :: "tm \<Rightarrow> int" where
  "timegm t =
     (let y = tm_year t + 1900 + tm_mon t div 12; m = nat (tm_mon t mod 12);
          days = days_before_year y + days_before_month y m + tm_mday t - 1
      in ((days * 24 + tm_hour t) * 60 + tm_min t) * 60 + tm_sec t)"

text \<open>The year a day falls into, and the day of that year: count the years off.\<close>

function find_year :: "int \<Rightarrow> int \<Rightarrow> int \<times> int" where
  "find_year y d =
     (if d < 0 then find_year (y - 1) (d + year_days (y - 1))
      else if d < year_days y then (y, d)
      else find_year (y + 1) (d - year_days y))"
  by pat_completeness auto

termination find_year
proof (relation "measure (\<lambda>(y, d). if d < 0 then nat (- d) + 366 else nat d)")
  fix y d :: int
  assume "d < 0"
  then show "((y - 1, d + year_days (y - 1)), y, d) \<in> measure (\<lambda>(y, d). if d < 0 then nat (- d) + 366 else nat d)"
    by (auto simp: year_days_def)
qed (auto simp: year_days_def split: if_splits)

declare find_year.simps [simp del]

fun find_month :: "int \<Rightarrow> nat \<Rightarrow> nat \<Rightarrow> int \<Rightarrow> nat \<times> int" where
  "find_month y m 0 d = (m, d)"
| "find_month y m (Suc n) d =
     (if d < month_days y m then (m, d) else find_month y (m + 1) n (d - month_days y m))"

definition gmtime :: "int \<Rightarrow> tm" where
  "gmtime t =
     (let days = t div 86400; r = t mod 86400; (y, yday) = find_year 1970 days;
          (m, mday) = find_month y 0 11 yday
      in \<lparr>tm_sec = r mod 60, tm_min = r div 60 mod 60, tm_hour = r div 3600, tm_mday = mday + 1,
          tm_mon = int m, tm_year = y - 1900, tm_wday = (days + 4) mod 7\<rparr>)"

text \<open>In the zone \<open>GMT-h\<close>, which is \<open>h\<close> hours ahead of UTC.\<close>

definition localtime :: "int \<Rightarrow> int \<Rightarrow> tm" where
  "localtime h t = gmtime (t + 3600 * h)"

definition mktime :: "int \<Rightarrow> tm \<Rightarrow> int" where
  "mktime h t = timegm t - 3600 * h"

section \<open>Days of a calendar\<close>

lemma div_pred:
  assumes "(0 :: int) < c"
  shows "y div c - (y - 1) div c = (if c dvd y then 1 else 0)"
proof (cases "c dvd y")
  case True
  then obtain k where "y = c * k" by (rule dvdE)
  moreover have "(c * k - 1) div c = k - 1"
    using assms by (intro div_pos_geq [THEN trans] int_div_pos_eq [where r = "c - 1"]) (auto simp: algebra_simps)
  ultimately show ?thesis using assms by simp
next
  case False
  have y: "y = c * (y div c) + y mod c" by simp
  have "y mod c < c" "0 \<le> y mod c" "y mod c \<noteq> 0" using assms False by (simp_all add: dvd_eq_mod_eq_0)
  then have r: "0 < y mod c" "y mod c < c" by simp_all
  have "(y - 1) div c = y div c"
    by (rule int_div_pos_eq [where r = "y mod c - 1"]) (use y r in auto)
  then show ?thesis using False by simp
qed

lemma days_before_next_year: "days_before_year (y + 1) = days_before_year y + year_days y"
proof -
  have h: "100 dvd y" if "400 dvd y" using dvd_trans [OF _ that, of 100] by simp
  have f: "4 dvd y" if "100 dvd y" using dvd_trans [OF _ that, of 4] by simp
  have "leap_years y - leap_years (y - 1) =
      (if 4 dvd y then 1 else 0) - (if 100 dvd y then 1 else 0) + (if 400 dvd y then 1 else 0)"
    using div_pred [of 4 y] div_pred [of 100 y] div_pred [of 400 y] unfolding leap_years_def by linarith
  also have "\<dots> = (if leap y then 1 else 0)"
    unfolding leap_def using h f by (cases "4 dvd y"; cases "100 dvd y"; cases "400 dvd y") simp_all
  finally have "leap_years y - leap_years (y - 1) = (if leap y then 1 else 0)" .
  then show ?thesis by (simp add: days_before_year_def year_days_def algebra_simps)
qed

lemma days_before_1970 [simp]: "days_before_year 1970 = 0"
  by (simp add: days_before_year_def)

lemma days_before_year_mono: "y \<le> y' \<Longrightarrow> days_before_year y \<le> days_before_year y'"
proof (induction y' rule: int_ge_induct)
  case (step y')
  then show ?case using days_before_next_year [of y'] by (simp add: year_days_def split: if_splits)
qed simp

lemma days_before_next_month: "days_before_month y (Suc m) = days_before_month y m + month_days y m"
  by (simp add: days_before_month_def)

lemma month_days_bounds:
  assumes "m < 12"
  shows "28 \<le> month_days y m" "month_days y m \<le> 31"
proof -
  have "\<forall>m \<in> set [0..<12]. 28 \<le> month_days y m \<and> month_days y m \<le> 31"
    by (simp add: month_days_def upt_rec)
  then show "28 \<le> month_days y m" "month_days y m \<le> 31" using assms by auto
qed

lemma days_before_month_mono: "m \<le> m' \<Longrightarrow> m' \<le> 12 \<Longrightarrow> days_before_month y m \<le> days_before_month y m'"
proof (induction m' rule: dec_induct)
  case (step m')
  then show ?case using month_days_bounds [of m' y] by (simp add: days_before_next_month)
qed simp

lemma days_before_month_0 [simp]: "days_before_month y 0 = 0"
  by (simp add: days_before_month_def)

lemma days_before_month_12: "days_before_month y 12 = year_days y"
  by (simp add: days_before_month_def month_days_def year_days_def upt_rec numeral_2_eq_2)

lemma find_year_ok:
  "find_year y d = (y', r) \<Longrightarrow>
    days_before_year y' + r = days_before_year y + d \<and> 0 \<le> r \<and> r < year_days y'"
proof (induction y d rule: find_year.induct)
  case (1 y d)
  have prev: "days_before_year y = days_before_year (y - 1) + year_days (y - 1)"
    using days_before_next_year [of "y - 1"] by simp
  consider (past) "d < 0" | (inside) "0 \<le> d" "d < year_days y" | (future) "0 \<le> d" "\<not> d < year_days y" by linarith
  then show ?case
  proof cases
    case past
    then have "find_year (y - 1) (d + year_days (y - 1)) = (y', r)"
      using "1.prems" by (simp add: find_year.simps [of y d])
    then show ?thesis using "1.IH"(1) past prev by simp
  next
    case inside
    then show ?thesis using "1.prems" by (simp add: find_year.simps [of y d])
  next
    case future
    then have "find_year (y + 1) (d - year_days y) = (y', r)"
      using "1.prems" by (simp add: find_year.simps [of y d])
    then show ?thesis using "1.IH"(2) future days_before_next_year [of y] by simp
  qed
qed

lemma find_month_ok:
  assumes "find_month y m n d = (m', r)" "m + n = 11" "0 \<le> d" "days_before_month y m + d < year_days y"
  shows "m' < 12 \<and> days_before_month y m' + r = days_before_month y m + d \<and> 0 \<le> r \<and> r < month_days y m'"
  using assms
proof (induction y m n d rule: find_month.induct)
  case (1 y m d)
  then show ?case using days_before_month_12 [of y] days_before_next_month [of y 11] by simp
next
  case (2 y m n d)
  show ?case
  proof (cases "d < month_days y m")
    case True
    then show ?thesis using 2 by simp
  next
    case False
    then show ?thesis using 2 by (simp add: days_before_next_month)
  qed
qed

text \<open>A time of the calendar, and which of two is earlier.\<close>

definition tm_valid :: "tm \<Rightarrow> bool" where
  "tm_valid t \<longleftrightarrow>
     0 \<le> tm_sec t \<and> tm_sec t < 60 \<and> 0 \<le> tm_min t \<and> tm_min t < 60 \<and> 0 \<le> tm_hour t \<and> tm_hour t < 24 \<and>
     0 \<le> tm_mon t \<and> tm_mon t < 12 \<and>
     1 \<le> tm_mday t \<and> tm_mday t \<le> month_days (tm_year t + 1900) (nat (tm_mon t))"

definition tm_day :: "tm \<Rightarrow> int" where
  "tm_day t = days_before_year (tm_year t + 1900) + days_before_month (tm_year t + 1900) (nat (tm_mon t)) + tm_mday t - 1"

lemma timegm_valid:
  "tm_valid t \<Longrightarrow> timegm t = 86400 * tm_day t + (3600 * tm_hour t + 60 * tm_min t + tm_sec t)"
  by (simp add: tm_valid_def timegm_def tm_day_def Let_def algebra_simps)

lemma day_of_year:
  assumes "m < 12" "1 \<le> d" "d \<le> month_days y m"
  shows "0 \<le> days_before_month y m + d - 1" "days_before_month y m + d - 1 < year_days y"
proof -
  show "0 \<le> days_before_month y m + d - 1" using days_before_month_mono [of 0 m y] assms by simp
  have "days_before_month y (Suc m) \<le> days_before_month y 12" using assms(1) by (intro days_before_month_mono) auto
  then show "days_before_month y m + d - 1 < year_days y"
    using assms(3) by (simp add: days_before_next_month days_before_month_12)
qed

lemma tm_day_mono:
  assumes "tm_valid a" "tm_valid b"
    and "tm_year a < tm_year b \<or> tm_year a = tm_year b \<and>
      (tm_mon a < tm_mon b \<or> tm_mon a = tm_mon b \<and> tm_mday a < tm_mday b)"
  shows "tm_day a < tm_day b"
proof -
  let ?ya = "tm_year a + 1900" and ?yb = "tm_year b + 1900" and ?ma = "nat (tm_mon a)" and ?mb = "nat (tm_mon b)"
  have a: "?ma < 12" "1 \<le> tm_mday a" "tm_mday a \<le> month_days ?ya ?ma"
    and b: "?mb < 12" "1 \<le> tm_mday b" "tm_mday b \<le> month_days ?yb ?mb"
    using assms(1,2) by (auto simp: tm_valid_def)
  from assms(3) consider "tm_year a < tm_year b" | "tm_year a = tm_year b" "tm_mon a < tm_mon b"
    | "tm_year a = tm_year b" "tm_mon a = tm_mon b" "tm_mday a < tm_mday b" by blast
  then show ?thesis
  proof cases
    case 1
    then have "days_before_year (?ya + 1) \<le> days_before_year ?yb" by (intro days_before_year_mono) simp
    then show ?thesis
      using day_of_year(2) [OF a] day_of_year(1) [OF b] days_before_next_year [of ?ya] by (simp add: tm_day_def)
  next
    case 2
    then have "Suc ?ma \<le> ?mb" using assms(1) unfolding tm_valid_def by linarith
    then have "days_before_month ?ya (Suc ?ma) \<le> days_before_month ?ya ?mb"
      using b(1) by (intro days_before_month_mono) auto
    then show ?thesis using 2 a(3) b(2) by (simp add: tm_day_def days_before_next_month)
  next
    case 3
    then show ?thesis by (simp add: tm_day_def)
  qed
qed

definition tm_earlier :: "tm \<Rightarrow> tm \<Rightarrow> bool" where
  "tm_earlier a b \<longleftrightarrow>
     tm_year a < tm_year b \<or> tm_year a = tm_year b \<and>
     (tm_mon a < tm_mon b \<or> tm_mon a = tm_mon b \<and>
     (tm_mday a < tm_mday b \<or> tm_mday a = tm_mday b \<and>
     (tm_hour a < tm_hour b \<or> tm_hour a = tm_hour b \<and>
     (tm_min a < tm_min b \<or> tm_min a = tm_min b \<and> tm_sec a < tm_sec b))))"

lemma timegm_mono:
  assumes "tm_valid a" "tm_valid b" "tm_earlier a b"
  shows "timegm a < timegm b"
proof -
  have range: "0 \<le> 3600 * tm_hour t + 60 * tm_min t + tm_sec t \<and>
      3600 * tm_hour t + 60 * tm_min t + tm_sec t < 86400" if "tm_valid t" for t
    using that unfolding tm_valid_def by linarith
  show ?thesis
  proof (cases "tm_year a = tm_year b \<and> tm_mon a = tm_mon b \<and> tm_mday a = tm_mday b")
    case True
    then have "tm_day a = tm_day b" by (simp add: tm_day_def)
    moreover have "3600 * tm_hour a + 60 * tm_min a + tm_sec a < 3600 * tm_hour b + 60 * tm_min b + tm_sec b"
      using assms True unfolding tm_valid_def tm_earlier_def by auto
    ultimately show ?thesis by (simp add: timegm_valid assms)
  next
    case False
    then have "tm_day a < tm_day b" using assms by (intro tm_day_mono) (auto simp: tm_earlier_def)
    then show ?thesis using range [OF assms(1)] range [OF assms(2)] by (simp add: timegm_valid assms)
  qed
qed

lemma gmtime_valid: "tm_valid (gmtime t)" and timegm_gmtime: "timegm (gmtime t) = t"
proof -
  obtain y yday where y: "find_year 1970 (t div 86400) = (y, yday)" by force
  obtain m mday where m: "find_month y 0 11 yday = (m, mday)" by force
  have year: "days_before_year y + yday = t div 86400" "0 \<le> yday" "yday < year_days y"
    using find_year_ok [OF y] by simp_all
  have month: "m < 12" "days_before_month y m + mday = yday" "0 \<le> mday" "mday < month_days y m"
    using find_month_ok [OF m _ year(2)] year(3) by simp_all
  have g: "gmtime t = \<lparr>tm_sec = t mod 86400 mod 60, tm_min = t mod 86400 div 60 mod 60, tm_hour = t mod 86400 div 3600,
      tm_mday = mday + 1, tm_mon = int m, tm_year = y - 1900, tm_wday = (t div 86400 + 4) mod 7\<rparr>"
    unfolding gmtime_def Let_def y m by (simp only: prod.case m)
  have "t mod 86400 div 3600 < 24" "0 \<le> t mod 86400 div 3600" by (auto simp: pos_imp_zdiv_nonneg_iff)
  then show valid: "tm_valid (gmtime t)" using month by (simp add: g tm_valid_def)
  have "3600 * (r div 3600) + 60 * (r div 60 mod 60) + r mod 60 = r" for r :: int
  proof -
    have "r div 60 div 60 = r div 3600" by (simp add: zdiv_zmult2_eq [symmetric])
    then show ?thesis using div_mult_mod_eq [of "r div 60" 60] div_mult_mod_eq [of r 60] by linarith
  qed
  then have "timegm (gmtime t) = 86400 * tm_day (gmtime t) + t mod 86400"
    unfolding timegm_valid [OF valid] by (simp add: g)
  also have "tm_day (gmtime t) = t div 86400" using year(1) month(2) by (simp add: g tm_day_def)
  finally show "timegm (gmtime t) = t" by simp
qed

lemma tm_cases:
  assumes "\<not> tm_earlier a b" "\<not> tm_earlier b a"
  shows "a = b\<lparr>tm_wday := tm_wday a\<rparr>"
  using assms by (cases a; cases b) (auto simp: tm_earlier_def)

lemma timegm_less_iff:
  assumes "tm_valid a" "tm_valid b"
  shows "timegm a < timegm b \<longleftrightarrow> tm_earlier a b"
proof
  assume less: "timegm a < timegm b"
  show "tm_earlier a b"
  proof (rule ccontr)
    assume "\<not> tm_earlier a b"
    moreover have "\<not> tm_earlier b a" using timegm_mono [OF assms(2,1)] less by auto
    ultimately have "a = b\<lparr>tm_wday := tm_wday a\<rparr>" by (rule tm_cases)
    then have "timegm a = timegm (b\<lparr>tm_wday := tm_wday a\<rparr>)" by (rule arg_cong)
    then show False using less by (simp add: timegm_def)
  qed
qed (rule timegm_mono [OF assms])

lemma gmtime_timegm:
  assumes "tm_valid t"
  shows "gmtime (timegm t) = t\<lparr>tm_wday := (timegm t div 86400 + 4) mod 7\<rparr>"
proof -
  let ?u = "gmtime (timegm t)"
  have "\<not> tm_earlier ?u t" "\<not> tm_earlier t ?u"
    using timegm_less_iff [OF gmtime_valid assms, of "timegm t"] timegm_less_iff [OF assms gmtime_valid, of "timegm t"]
    by (simp_all add: timegm_gmtime)
  from tm_cases [OF this] have "?u = t\<lparr>tm_wday := tm_wday ?u\<rparr>" .
  moreover have "tm_wday ?u = (timegm t div 86400 + 4) mod 7"
    by (simp add: gmtime_def Let_def split: prod.splits)
  ultimately show ?thesis by simp
qed

lemma mktime_localtime [simp]: "mktime h (localtime h t) = t"
  by (simp add: mktime_def localtime_def timegm_gmtime)

lemma localtime_mktime:
  "tm_valid t \<Longrightarrow> localtime h (mktime h t) = t\<lparr>tm_wday := (timegm t div 86400 + 4) mod 7\<rparr>"
  by (simp add: mktime_def localtime_def gmtime_timegm)

end
