(* ===== verification/Time.thy ===== *)
theory Time
  imports Calendar
begin

text \<open>
  The time module on Linux (\<^verbatim>\<open>base/time/linux_time.c\<close>, \<^verbatim>\<open>artik_time.c\<close>): dates and time stamps, the
  clock of the system in a zone, alarms.  Calendar computations are those of \<^theory_text>\<open>Calendar\<close>; \<^verbatim>\<open>long\<close> and
  \<^verbatim>\<open>time_t\<close> have 64 bits.
\<close>

type_synonym u64 = "64 word"

section \<open>Dates and time stamps\<close>

record artik_time =
  d_second :: u32
  d_minute :: u32
  d_hour :: u32
  d_day :: u32
  d_month :: u32
  d_year :: u32
  d_day_of_week :: u32
  d_msecond :: u32

text \<open>The checks that three operations begin with; the fields are compared as signed numbers.\<close>

definition date_ok :: "artik_time \<Rightarrow> bool" where
  "date_ok d \<longleftrightarrow>
     0 \<le> sint (d_second d) \<and> sint (d_second d) \<le> 59 \<and>
     0 \<le> sint (d_minute d) \<and> sint (d_minute d) \<le> 59 \<and>
     0 \<le> sint (d_hour d) \<and> sint (d_hour d) \<le> 23 \<and>
     1 \<le> sint (d_day d) \<and> sint (d_day d) \<le> 31 \<and>
     1 \<le> sint (d_month d) \<and> sint (d_month d) \<le> 12 \<and>
     1900 \<le> sint (d_year d) \<and>
     0 \<le> sint (d_day_of_week d) \<and> sint (d_day_of_week d) \<le> 6 \<and>
     0 \<le> sint (d_msecond d)"

definition to_tm :: "artik_time \<Rightarrow> tm" where
  "to_tm d = \<lparr>tm_sec = sint (d_second d), tm_min = sint (d_minute d), tm_hour = sint (d_hour d),
     tm_mday = sint (d_day d), tm_mon = sint (d_month d) - 1, tm_year = sint (d_year d) - 1900,
     tm_wday = sint (d_day_of_week d)\<rparr>"

definition of_tm :: "tm \<Rightarrow> artik_time" where
  "of_tm t = \<lparr>d_second = word_of_int (tm_sec t), d_minute = word_of_int (tm_min t),
     d_hour = word_of_int (tm_hour t), d_day = word_of_int (tm_mday t), d_month = word_of_int (tm_mon t + 1),
     d_year = word_of_int (tm_year t + 1900), d_day_of_week = word_of_int (tm_wday t), d_msecond = 0\<rparr>"

definition os_time_convert_timestamp_to_time :: "u64 \<Rightarrow> artik_error \<times> artik_time" where
  "os_time_convert_timestamp_to_time timestamp = (S_OK, of_tm (gmtime (uint (timestamp AND 0xFFFFFFFF))))"

text \<open>The time stamp is written in both cases at the end; \<^term>\<open>None\<close> is one that is not.\<close>

definition os_time_convert_time_to_timestamp :: "artik_time \<Rightarrow> artik_error \<times> u64 option" where
  "os_time_convert_time_to_timestamp date =
     (if \<not> date_ok date then (E_BAD_ARGS, None)
      else
        let timestamp = word_of_int (timegm (to_tm date))
        in (if sint timestamp < 0 then E_INVALID_VALUE else S_OK, Some timestamp))"

text \<open>A date may be a null pointer.\<close>

definition artik_time_compare_dates :: "artik_time option \<Rightarrow> artik_time option \<Rightarrow> int" where
  "artik_time_compare_dates date1 date2 =
     (case (date1, date2) of
        (Some a, Some b) \<Rightarrow>
          if d_year a > d_year b then 1 else if d_year a < d_year b then -1
          else if d_month a > d_month b then 1 else if d_month a < d_month b then -1
          else if d_day a > d_day b then 1 else if d_day a < d_day b then -1
          else if d_hour a > d_hour b then 1 else if d_hour a < d_hour b then -1
          else if d_minute a > d_minute b then 1 else if d_minute a < d_minute b then -1
          else if d_second a > d_second b then 1 else if d_second a < d_second b then -1
          else if d_msecond a > d_msecond b then 1 else if d_msecond a < d_msecond b then -1
          else 0
      | _ \<Rightarrow> -2)"

section \<open>The clock\<close>

text \<open>
  An alarm and a timer of the loop module.  The clock counts microseconds from 1970; the zone is the
  number \<open>n\<close> of the environment variable \<^verbatim>\<open>TZ=GMT-n\<close>.
\<close>

record alarm =
  al_gmt :: u32
  al_func :: addr
  al_date :: u64
  al_id :: int

record timer =
  ti_id :: int
  ti_msec :: u32
  ti_func :: addr
  ti_data :: addr

record time_state =
  c_usec :: int
  c_readable :: bool
  c_settable :: bool
  c_zone :: int
  c_alarms :: "addr \<rightharpoonup> alarm"
  c_timers :: "timer list"
  c_loops :: nat

definition set_zone :: "u32 \<Rightarrow> time_state \<Rightarrow> time_state" where
  "set_zone gmt s = s\<lparr>c_zone := sint gmt\<rparr>"

text \<open>\<^term>\<open>None\<close> is the error, and leaves the result as it was.\<close>

definition os_time_get_sys :: "u32 \<Rightarrow> time_state \<Rightarrow> tm option \<times> time_state" where
  "os_time_get_sys gmt s =
     (if \<not> c_readable s then (None, s)
      else
        let s = set_zone gmt s
        in (Some (localtime (c_zone s) (c_usec s div 1000000)), s))"

definition os_time_set_time :: "artik_time \<Rightarrow> u32 \<Rightarrow> time_state \<Rightarrow> artik_error \<times> time_state" where
  "os_time_set_time date gmt s =
     (if 12 < gmt then (E_BAD_ARGS, s)
      else if \<not> date_ok date then (E_BAD_ARGS, s)
      else
        let s = set_zone gmt s; sec = mktime (c_zone s) (to_tm date)
        in if sec < 0 then (E_BAD_ARGS, s)
           else if \<not> c_settable s then (E_BAD_ARGS, s)
           else (S_OK, s\<lparr>c_usec := sec * 1000000\<rparr>))"

definition os_time_get_tick :: "time_state \<Rightarrow> u64" where
  "os_time_get_tick s =
     (if \<not> c_readable s then 0
      else word_of_int (c_usec s div 1000000 * 1000 + c_usec s mod 1000000 div 1000))"

text \<open>The clock is read twice; \<open>elapse\<close> is the time between.  \<open>date\<close> says that the pointer is not null.\<close>

definition os_time_get_time :: "u32 \<Rightarrow> bool \<Rightarrow> int \<Rightarrow> time_state \<Rightarrow> (artik_error \<times> artik_time option) \<times> time_state" where
  "os_time_get_time gmt date elapse s =
     (if \<not> date then ((E_BAD_ARGS, None), s)
      else if 12 < gmt then ((E_BAD_ARGS, None), s)
      else
        case os_time_get_sys gmt s of
          (None, s) \<Rightarrow> ((E_BAD_ARGS, None), s)
        | (Some rtime, s) \<Rightarrow>
            let s = s\<lparr>c_usec := c_usec s + elapse\<rparr>
            in ((S_OK, Some ((of_tm rtime)\<lparr>d_msecond := ucast (os_time_get_tick s mod 1000)\<rparr>)), s))"

text \<open>\<open>strftime\<close> formats a time; it returns 0 when the text and its end do not fit, or is empty.\<close>

definition os_time_get_time_str ::
  "(string \<Rightarrow> tm \<Rightarrow> string) \<Rightarrow> bool \<Rightarrow> int \<Rightarrow> string option \<Rightarrow> u32 \<Rightarrow> time_state \<Rightarrow>
    (artik_error \<times> string option) \<times> time_state" where
  "os_time_get_time_str strftime date_str capacity format gmt s =
     (if \<not> date_str then ((E_BAD_ARGS, None), s)
      else if capacity \<le> 0 then ((E_BAD_ARGS, None), s)
      else if 12 < gmt then ((E_BAD_ARGS, None), s)
      else
        let (sys, s) = os_time_get_sys gmt s;
            rtime = (case sys of
                None \<Rightarrow> \<lparr>tm_sec = 0, tm_min = 0, tm_hour = 0, tm_mday = 0, tm_mon = 0, tm_year = 0, tm_wday = 0\<rparr>
              | Some rtime \<Rightarrow> rtime);
            out = strftime (case format of None \<Rightarrow> ''%I:%M:%S-%w-%d/%m/%Y'' | Some f \<Rightarrow> f) rtime
        in if out = [] \<or> capacity \<le> int (length out) then ((E_BAD_ARGS, None), s) else ((S_OK, Some out), s))"
section \<open>Alarms\<close>

text \<open>
  What the outside gives a call that creates an alarm: the block for the alarm (0 without memory), the
  answer to the request for the loop module, and the answer of its \<^verbatim>\<open>add_timeout_callback\<close>.
\<close>

datatype loop_request = Null_module | Invalid_module | Loop_module

record alarm_env =
  ae_block :: addr
  ae_loop :: loop_request
  ae_added :: "artik_error \<times> int"

text \<open>The result: the error and the handle given to the caller (\<^term>\<open>None\<close>: not written).\<close>

definition os_time_create_alarm_second ::
  "alarm_env \<Rightarrow> u32 \<Rightarrow> addr \<Rightarrow> addr \<Rightarrow> u64 \<Rightarrow> time_state \<Rightarrow> ((artik_error \<times> addr option) \<times> time_state) option" where
  "os_time_create_alarm_second env gmt func user_data second s =
     (if 12 < gmt then Some ((E_BAD_ARGS, None), s)
      else if sint (ucast second :: u32) < 0 then Some ((E_BAD_ARGS, None), s)
      else if func = 0 then Some ((E_BAD_ARGS, None), s)
      else
        let (sys, s) = os_time_get_sys gmt (set_zone gmt s);
            curr_usr = (case sys of
                None \<Rightarrow> \<lparr>tm_sec = 0, tm_min = 0, tm_hour = 0, tm_mday = 0, tm_mon = 0, tm_year = 0, tm_wday = 0\<rparr>
              | Some t \<Rightarrow> t);
            curr_in_sec = mktime (c_zone s) curr_usr
        in if curr_in_sec < 0 then Some ((E_BAD_ARGS, None), s)
           else if ae_block env = 0 then None
           else
             let s = s\<lparr>c_alarms := (c_alarms s)(ae_block env \<mapsto>
                   \<lparr>al_gmt = gmt, al_func = func, al_date = word_of_int curr_in_sec + second, al_id = snd (ae_added env)\<rparr>)\<rparr>
             in case ae_loop env of
                  Null_module \<Rightarrow> Some ((E_BUSY, Some 0), s\<lparr>c_alarms := (c_alarms s)(ae_block env := None)\<rparr>)
                | Invalid_module \<Rightarrow> None
                | Loop_module \<Rightarrow>
                    Some ((fst (ae_added env), Some (ae_block env)),
                      s\<lparr>c_loops := c_loops s + 1,
                        c_timers := (if fst (ae_added env) = S_OK
                          then \<lparr>ti_id = snd (ae_added env), ti_msec = ucast second * 1000, ti_func = func,
                                ti_data = user_data\<rparr> # c_timers s
                          else c_timers s)\<rparr>))"

text \<open>A difference of times is a floating-point number; the conversion of a negative one is undefined.\<close>

definition os_time_create_alarm_date ::
  "alarm_env \<Rightarrow> u32 \<Rightarrow> addr \<Rightarrow> addr \<Rightarrow> artik_time \<Rightarrow> time_state \<Rightarrow> ((artik_error \<times> addr option) \<times> time_state) option" where
  "os_time_create_alarm_date env gmt func user_data date s =
     (if 12 < gmt then Some ((E_BAD_ARGS, None), s)
      else if func = 0 then Some ((E_BAD_ARGS, None), s)
      else if \<not> date_ok date then Some ((E_BAD_ARGS, None), s)
      else
        let (sys, s) = os_time_get_sys gmt (set_zone gmt s);
            curr_usr = (case sys of
                None \<Rightarrow> \<lparr>tm_sec = 0, tm_min = 0, tm_hour = 0, tm_mday = 0, tm_mon = 0, tm_year = 0, tm_wday = 0\<rparr>
              | Some t \<Rightarrow> t);
            curr_in_sec = mktime (c_zone s) curr_usr
        in if curr_in_sec < 0 then Some ((E_INVALID_VALUE, None), s)
           else
             let date_in_sec = mktime (c_zone s) (to_tm date)
             in if date_in_sec < 0 then Some ((E_INVALID_VALUE, None), s)
                else if date_in_sec - curr_in_sec < 0 then None
                else os_time_create_alarm_second env gmt func user_data (word_of_int (date_in_sec - curr_in_sec)) s)"

definition os_time_delete_alarm :: "addr \<Rightarrow> time_state \<Rightarrow> (artik_error \<times> time_state) option" where
  "os_time_delete_alarm handle s =
     (if handle = 0 then Some (S_OK, s)
      else case c_alarms s handle of
        None \<Rightarrow> None
      | Some _ \<Rightarrow> Some (S_OK, s\<lparr>c_alarms := (c_alarms s)(handle := None)\<rparr>))"

text \<open>The seconds of the clock pass through an \<^verbatim>\<open>int\<close>.\<close>

definition os_time_get_delay_alarm :: "addr \<Rightarrow> time_state \<Rightarrow> ((artik_error \<times> u64 option) \<times> time_state) option" where
  "os_time_get_delay_alarm handle s =
     (if handle = 0 then Some ((E_BAD_ARGS, None), s)
      else case c_alarms s handle of
        None \<Rightarrow> None
      | Some a \<Rightarrow> Some (
          case os_time_get_sys (al_gmt a) s of
            (None, s) \<Rightarrow> ((E_BAD_ARGS, Some 0), s)
          | (Some curr_usr, s) \<Rightarrow>
              let res = word_of_int (mktime (c_zone s) curr_usr) :: u32
              in if sint res < 0 then ((E_INVALID_VALUE, Some 0), s)
                 else
                   let curr_in_sec = word_of_int (sint res)
                   in ((S_OK, Some (if al_date a \<le> curr_in_sec then 0 else (al_date a - curr_in_sec) * 1000)), s)))"

text \<open>The checks of the layer above.  The handle is a pointer to a pointer that must be null.\<close>

definition artik_time_create_alarm_second ::
  "alarm_env \<Rightarrow> u32 \<Rightarrow> u64 \<Rightarrow> addr option \<Rightarrow> addr \<Rightarrow> addr \<Rightarrow> time_state \<Rightarrow>
    ((artik_error \<times> addr option) \<times> time_state) option" where
  "artik_time_create_alarm_second env gmt sec handle func user_data s =
     (if handle \<noteq> Some 0 \<or> sec = 0 then Some ((E_BAD_ARGS, None), s)
      else os_time_create_alarm_second env gmt func user_data sec s)"

definition artik_time_create_alarm_date ::
  "alarm_env \<Rightarrow> u32 \<Rightarrow> artik_time \<Rightarrow> addr option \<Rightarrow> addr \<Rightarrow> addr \<Rightarrow> time_state \<Rightarrow>
    ((artik_error \<times> addr option) \<times> time_state) option" where
  "artik_time_create_alarm_date env gmt date handle func user_data s =
     (if handle \<noteq> Some 0 then Some ((E_BAD_ARGS, None), s)
      else os_time_create_alarm_date env gmt func user_data date s)"

definition artik_time_delete_alarm :: "addr \<Rightarrow> time_state \<Rightarrow> (artik_error \<times> time_state) option" where
  "artik_time_delete_alarm handle s = (if handle = 0 then Some (E_BAD_ARGS, s) else os_time_delete_alarm handle s)"

definition artik_time_get_delay_alarm ::
  "addr \<Rightarrow> bool \<Rightarrow> time_state \<Rightarrow> ((artik_error \<times> u64 option) \<times> time_state) option" where
  "artik_time_get_delay_alarm handle msecond s =
     (if handle = 0 \<or> \<not> msecond then Some ((E_BAD_ARGS, None), s) else os_time_get_delay_alarm handle s)"

text \<open>Conversions: a null pointer is \<^term>\<open>None\<close> or \<^term>\<open>False\<close>.\<close>

definition artik_time_convert_timestamp_to_time :: "u64 \<Rightarrow> bool \<Rightarrow> artik_error \<times> artik_time option" where
  "artik_time_convert_timestamp_to_time timestamp date =
     (if \<not> date then (E_BAD_ARGS, None) else map_prod id Some (os_time_convert_timestamp_to_time timestamp))"

definition artik_time_convert_time_to_timestamp :: "artik_time option \<Rightarrow> bool \<Rightarrow> artik_error \<times> u64 option" where
  "artik_time_convert_time_to_timestamp date timestamp =
     (case date of
        None \<Rightarrow> (E_BAD_ARGS, None)
      | Some d \<Rightarrow> if \<not> timestamp then (E_BAD_ARGS, None) else os_time_convert_time_to_timestamp d)"

section \<open>Dates of the calendar\<close>

lemma sint_word_of_int [simp]:
  "- (2 ^ 31) \<le> i \<Longrightarrow> i < 2 ^ 31 \<Longrightarrow> sint (word_of_int i :: u32) = i"
  by (simp add: signed_of_int signed_take_bit_int_eq_self)

text \<open>A date that passes the checks and names a day that its month has.\<close>

definition date_valid :: "artik_time \<Rightarrow> bool" where
  "date_valid d \<longleftrightarrow> date_ok d \<and> sint (d_day d) \<le> month_days (sint (d_year d)) (nat (sint (d_month d) - 1))"

lemma to_tm_valid: "date_valid d \<Longrightarrow> tm_valid (to_tm d)"
  by (auto simp: date_valid_def date_ok_def tm_valid_def to_tm_def)

lemma of_tm_to_tm:
  "of_tm ((to_tm d)\<lparr>tm_wday := w\<rparr>) = d\<lparr>d_day_of_week := word_of_int w, d_msecond := 0\<rparr>"
  by (cases d) (simp add: of_tm_def to_tm_def)

text \<open>The years of the 32-bit time stamps.\<close>

lemma gmtime_year:
  assumes "0 \<le> t" "t < 2 ^ 32"
  shows "70 \<le> tm_year (gmtime t)" "tm_year (gmtime t) \<le> 206"
proof -
  let ?g = "gmtime t" and ?y = "tm_year (gmtime t) + 1900"
  have v: "tm_valid ?g" by (rule gmtime_valid)
  then have m: "nat (tm_mon ?g) < 12" "1 \<le> tm_mday ?g" "tm_mday ?g \<le> month_days ?y (nat (tm_mon ?g))"
    by (auto simp: tm_valid_def)
  have "timegm ?g = t" by (rule timegm_gmtime)
  then have "86400 * tm_day ?g \<le> t" "t < 86400 * tm_day ?g + 86400"
    using timegm_valid [OF v] v unfolding tm_valid_def by linarith+
  then have day: "0 \<le> tm_day ?g" "tm_day ?g \<le> 49710" using assms by simp_all
  have year: "days_before_year ?y \<le> tm_day ?g" "tm_day ?g < days_before_year (?y + 1)"
    using day_of_year [OF m] days_before_next_year [of ?y] by (simp_all add: tm_day_def)
  show "70 \<le> tm_year ?g"
  proof (rule ccontr)
    assume "\<not> 70 \<le> tm_year ?g"
    then have "days_before_year (?y + 1) \<le> days_before_year 1970" by (intro days_before_year_mono) simp
    then show False using year(2) day(1) by simp
  qed
  show "tm_year ?g \<le> 206"
  proof (rule ccontr)
    assume "\<not> tm_year ?g \<le> 206"
    then have "days_before_year 2107 \<le> days_before_year ?y" by (intro days_before_year_mono) simp
    moreover have "days_before_year 2107 = 50038" by (simp add: days_before_year_def leap_years_def)
    ultimately show False using year(1) day(2) by simp
  qed
qed

lemma gmtime_wday: "0 \<le> tm_wday (gmtime t)" "tm_wday (gmtime t) < 7"
  by (simp_all add: gmtime_def Let_def split: prod.splits)

lemma to_tm_of_tm:
  assumes "0 \<le> t" "t < 2 ^ 32"
  shows "to_tm (of_tm (gmtime t)) = gmtime t" "date_valid (of_tm (gmtime t))"
proof -
  let ?g = "gmtime t"
  have g: "0 \<le> tm_sec ?g" "tm_sec ?g < 60" "0 \<le> tm_min ?g" "tm_min ?g < 60" "0 \<le> tm_hour ?g" "tm_hour ?g < 24"
      "0 \<le> tm_mon ?g" "tm_mon ?g < 12" "1 \<le> tm_mday ?g"
      "tm_mday ?g \<le> month_days (tm_year ?g + 1900) (nat (tm_mon ?g))"
    using gmtime_valid [of t] by (simp_all add: tm_valid_def)
  have "nat (tm_mon ?g) < 12" using g by simp
  from month_days_bounds(2) [OF this, of "tm_year ?g + 1900"] have "tm_mday ?g \<le> 31" using g(10) by linarith
  note g = g this gmtime_year [OF assms] gmtime_wday [of t]
  show "to_tm (of_tm ?g) = ?g" using g by (cases ?g) (simp add: to_tm_def of_tm_def del: of_int_add)
  show "date_valid (of_tm ?g)" using g by (simp add: date_valid_def date_ok_def of_tm_def del: of_int_add)
qed

lemma timegm_year_bound:
  assumes "date_valid d"
  shows "- 2300000000 < timegm (to_tm d)" "timegm (to_tm d) < 86400 * days_before_year (sint (d_year d) + 1)"
proof -
  let ?y = "sint (d_year d)" and ?t = "to_tm d"
  have v: "tm_valid ?t" using assms by (rule to_tm_valid)
  have y: "1900 \<le> ?y" using assms by (simp add: date_valid_def date_ok_def)
  have m: "nat (tm_mon ?t) < 12" "1 \<le> tm_mday ?t" "tm_mday ?t \<le> month_days ?y (nat (tm_mon ?t))"
    using v by (auto simp: tm_valid_def to_tm_def)
  have "days_before_year 1900 \<le> days_before_year ?y" using y by (intro days_before_year_mono) simp
  moreover have "days_before_year 1900 = - 25567" by (simp add: days_before_year_def leap_years_def)
  moreover have "tm_day ?t = days_before_year ?y + (days_before_month ?y (nat (tm_mon ?t)) + tm_mday ?t - 1)"
    by (simp add: tm_day_def to_tm_def)
  ultimately have day: "- 25567 \<le> tm_day ?t" "tm_day ?t + 1 \<le> days_before_year (?y + 1)"
    using day_of_year [OF m] days_before_next_year [of ?y] by linarith+
  have "timegm ?t = 86400 * tm_day ?t + (3600 * tm_hour ?t + 60 * tm_min ?t + tm_sec ?t)"
    by (rule timegm_valid [OF v])
  moreover have "0 \<le> 3600 * tm_hour ?t + 60 * tm_min ?t + tm_sec ?t"
      "3600 * tm_hour ?t + 60 * tm_min ?t + tm_sec ?t < 86400"
    using v unfolding tm_valid_def by linarith+
  ultimately show "- 2300000000 < timegm ?t" "timegm ?t < 86400 * days_before_year (?y + 1)"
    using day by linarith+
qed

lemma timegm_bound:
  assumes "date_valid d"
  shows "- (2 ^ 62) < timegm (to_tm d)" "timegm (to_tm d) < 2 ^ 62"
proof -
  have "sint (d_year d) < 2 ^ 31" using sint_lt [of "d_year d"] by simp
  then have "days_before_year (sint (d_year d) + 1) \<le> days_before_year (2 ^ 31)" by (intro days_before_year_mono) simp
  moreover have "days_before_year (2 ^ 31) = 784351576777" by (simp add: days_before_year_def leap_years_def)
  ultimately show "- (2 ^ 62) < timegm (to_tm d)" "timegm (to_tm d) < 2 ^ 62"
    using timegm_year_bound [OF assms] by simp_all
qed

lemma timegm_before_10000:
  assumes "date_valid d" "sint (d_year d) < 10000"
  shows "timegm (to_tm d) < 260000000000"
proof -
  have "days_before_year (sint (d_year d) + 1) \<le> days_before_year 10000" using assms(2) by (intro days_before_year_mono) simp
  moreover have "days_before_year 10000 = 2932897" by (simp add: days_before_year_def leap_years_def)
  ultimately show ?thesis using timegm_year_bound(2) [OF assms(1)] by simp
qed

lemma sint_word_of_int_64 [simp]:
  "- (2 ^ 63) \<le> i \<Longrightarrow> i < 2 ^ 63 \<Longrightarrow> sint (word_of_int i :: u64) = i"
  by (simp add: signed_of_int signed_take_bit_int_eq_self)

lemma sint_word_of_int_32_bits: "0 \<le> i \<Longrightarrow> i < 2 ^ 32 \<Longrightarrow> sint (word_of_int i :: u64) = i"
  by (rule sint_word_of_int_64) simp_all

lemma sint_small:
  assumes "uint (w :: u32) < 2 ^ 31"
  shows "sint w = uint w"
proof -
  have "sint (word_of_int (uint w) :: u32) = uint w"
    using assms by (intro sint_word_of_int) (auto intro: order_trans [of _ 0])
  then show ?thesis by simp
qed

lemma uint_sint_nonneg:
  assumes "0 \<le> sint (w :: u32)"
  shows "uint w = sint w"
proof -
  have "sint w < 2 ^ 32" using sint_lt [of w] by simp
  with assms show ?thesis by (simp add: uint_sint take_bit_int_eq_self)
qed

lemma less_sint_nonneg: "0 \<le> sint a \<Longrightarrow> 0 \<le> sint b \<Longrightarrow> (a :: u32) < b \<longleftrightarrow> sint a < sint b"
  by (simp add: word_less_def uint_sint_nonneg)

lemma mask_32_range: "0 \<le> uint (ts AND 0xFFFFFFFF :: u64)" "uint (ts AND 0xFFFFFFFF :: u64) < 2 ^ 32"
proof -
  have "(0xFFFFFFFF :: u64) = mask 32" by (simp add: mask_eq_exp_minus_1)
  then have "ts AND 0xFFFFFFFF = take_bit 32 ts" by (simp add: take_bit_eq_mask)
  then show "uint (ts AND 0xFFFFFFFF) < 2 ^ 32"
    using take_bit_int_less_exp [of 32 "uint ts"] by (simp add: unsigned_take_bit_eq)
qed simp

text \<open>The milliseconds of a tick.\<close>

lemma tick_msecond:
  assumes "c_readable s" "0 \<le> sec" "sec < 9000000000000" "0 \<le> e" "e < 1000000"
    and "c_usec s = sec * 1000000 + e"
  shows "(ucast (os_time_get_tick s mod 1000) :: u32) = word_of_int (e div 1000)"
proof -
  have "c_usec s div 1000000 = sec" "c_usec s mod 1000000 = e"
    using assms(4-6) by (simp_all add: div_add1_eq)
  then have tick: "os_time_get_tick s = word_of_int (sec * 1000 + e div 1000)"
    using assms(1) by (simp add: os_time_get_tick_def)
  have e: "0 \<le> e div 1000" "e div 1000 < 1000" using assms(4,5) by (simp_all add: pos_imp_zdiv_nonneg_iff)
  then have "uint (os_time_get_tick s) = sec * 1000 + e div 1000"
    unfolding tick using assms(2,3) by (simp add: unsigned_of_int take_bit_int_eq_self del: of_int_add of_int_mult)
  then have "uint (os_time_get_tick s mod 1000) = e div 1000"
    using e by (simp add: uint_mod)
  then show ?thesis by (metis of_int_uint)
qed

section \<open>Properties\<close>

text \<open>
  C29. From time stamps to dates and back: the two conversions return the low 32 bits of every time
  stamp, so every second from 1970 to 2106 comes back, and no other does.
\<close>

theorem timestamp_roundtrip:
  "os_time_convert_time_to_timestamp (snd (os_time_convert_timestamp_to_time ts)) = (S_OK, Some (ts AND 0xFFFFFFFF))"
proof -
  let ?t = "uint (ts AND 0xFFFFFFFF)"
  have valid: "date_ok (of_tm (gmtime ?t))" and tm: "to_tm (of_tm (gmtime ?t)) = gmtime ?t"
    using to_tm_of_tm [OF mask_32_range] by (simp_all only: date_valid_def)
  have "sint (word_of_int ?t :: u64) = ?t" using mask_32_range [of ts] by (rule sint_word_of_int_32_bits)
  then show ?thesis
    using valid mask_32_range(1) [of ts]
    by (simp add: os_time_convert_time_to_timestamp_def os_time_convert_timestamp_to_time_def tm timegm_gmtime)
qed

lemma valid_timestamp:
  assumes "date_valid d" "0 \<le> timegm (to_tm d)"
  shows "os_time_convert_time_to_timestamp d = (S_OK, Some (word_of_int (timegm (to_tm d))))"
proof -
  have "sint (word_of_int (timegm (to_tm d)) :: u64) = timegm (to_tm d)"
    using timegm_bound [OF assms(1)] by (intro sint_word_of_int_64) simp_all
  then show ?thesis using assms by (simp add: os_time_convert_time_to_timestamp_def date_valid_def Let_def)
qed

lemma timegm_epoch:
  assumes "date_valid d" "1970 \<le> sint (d_year d)"
  shows "0 \<le> timegm (to_tm d)"
proof (rule ccontr)
  let ?e = "\<lparr>tm_sec = 0, tm_min = 0, tm_hour = 0, tm_mday = 1, tm_mon = 0, tm_year = 70, tm_wday = 0\<rparr>"
  assume "\<not> 0 \<le> timegm (to_tm d)"
  moreover have "timegm ?e = 0" by (simp add: timegm_def Let_def)
  moreover have "tm_valid ?e" by (simp add: tm_valid_def month_days_def)
  ultimately have "tm_earlier (to_tm d) ?e" using timegm_less_iff [OF to_tm_valid [OF assms(1)], of ?e] by simp
  then show False using assms by (auto simp: tm_earlier_def to_tm_def date_valid_def date_ok_def)
qed

lemma timegm_2106:
  assumes "date_valid d" "sint (d_year d) < 2106"
  shows "timegm (to_tm d) < 2 ^ 32"
proof (rule ccontr)
  let ?e = "gmtime (2 ^ 32)"
  assume "\<not> timegm (to_tm d) < 2 ^ 32"
  then have "\<not> tm_earlier (to_tm d) ?e"
    using timegm_less_iff [OF to_tm_valid [OF assms(1)] gmtime_valid, of "2 ^ 32"] by (simp add: timegm_gmtime)
  moreover have "tm_year ?e = 206" by code_simp
  ultimately show False using assms(2) by (simp add: tm_earlier_def to_tm_def)
qed

text \<open>
  C7. From dates to time stamps and back: a date of the calendar between 1970 and 2105 comes back with
  its second, minute, hour, day, month and year, the day of the week that belongs to it and no
  milliseconds.
\<close>

theorem date_roundtrip:
  assumes "date_valid d" "1970 \<le> sint (d_year d)" "sint (d_year d) < 2106"
  shows "\<exists>ts. os_time_convert_time_to_timestamp d = (S_OK, Some ts) \<and>
    os_time_convert_timestamp_to_time ts =
      (S_OK, d\<lparr>d_day_of_week := word_of_int ((uint ts div 86400 + 4) mod 7), d_msecond := 0\<rparr>)"
proof -
  let ?t = "timegm (to_tm d)"
  define ts :: u64 where "ts = word_of_int ?t"
  have t: "0 \<le> ?t" "?t < 2 ^ 32"
    using timegm_epoch [OF assms(1,2)] timegm_2106 [OF assms(1,3)] by auto
  then have uint: "uint ts = ?t" by (simp add: ts_def unsigned_of_int take_bit_int_eq_self)
  have "ts AND 0xFFFFFFFF = ts"
  proof -
    have "(0xFFFFFFFF :: u64) = mask 32" by (simp add: mask_eq_exp_minus_1)
    moreover have "take_bit 32 (uint ts) = uint ts" using t uint by (intro take_bit_int_eq_self) simp_all
    then have "take_bit 32 ts = ts" by (metis unsigned_take_bit_eq word_uint_eq_iff)
    ultimately show ?thesis by (simp add: take_bit_eq_mask)
  qed
  then have "os_time_convert_timestamp_to_time ts = (S_OK, of_tm (gmtime ?t))"
    by (simp add: os_time_convert_timestamp_to_time_def uint)
  also have "gmtime ?t = (to_tm d)\<lparr>tm_wday := (?t div 86400 + 4) mod 7\<rparr>"
    by (rule gmtime_timegm [OF to_tm_valid [OF assms(1)]])
  finally have "os_time_convert_timestamp_to_time ts =
      (S_OK, d\<lparr>d_day_of_week := word_of_int ((uint ts div 86400 + 4) mod 7), d_msecond := 0\<rparr>)"
    by (simp only: of_tm_to_tm uint)
  moreover have "os_time_convert_time_to_timestamp d = (S_OK, Some ts)"
    unfolding ts_def by (rule valid_timestamp [OF assms(1) t(1)])
  ultimately show ?thesis by blast
qed

definition some_date :: artik_time where
  "some_date = \<lparr>d_second = 30, d_minute = 59, d_hour = 23, d_day = 29, d_month = 2, d_year = 2000,
     d_day_of_week = 0, d_msecond = 7\<rparr>"

lemma some_date_valid: "date_valid some_date" "sint (d_year some_date) = 2000" by code_simp+

theorem date_roundtrip_witness:
  "os_time_convert_timestamp_to_time 951868770 =
    (S_OK, some_date\<lparr>d_day_of_week := 2, d_msecond := 0\<rparr>)"
proof -
  have "os_time_convert_time_to_timestamp some_date = (S_OK, Some 951868770)" by code_simp
  moreover obtain ts where "os_time_convert_time_to_timestamp some_date = (S_OK, Some ts)"
      "os_time_convert_timestamp_to_time ts =
        (S_OK, some_date\<lparr>d_day_of_week := word_of_int ((uint ts div 86400 + 4) mod 7), d_msecond := 0\<rparr>)"
    using date_roundtrip [of some_date] some_date_valid by auto
  ultimately show ?thesis by simp
qed

lemma compare_lex:
  "(if b < a \<or> b = a \<and> E then 1 else if a < b \<or> a = b \<and> F then -1 else c)
    = (if b < a then 1 else if a < b then -1 else if E then 1 else if F then -1 else (c :: int))"
  for a b :: int
  by auto

lemma compare_earlier:
  assumes "date_valid a" "date_valid b"
  shows "artik_time_compare_dates (Some a) (Some b) =
    (if tm_earlier (to_tm b) (to_tm a) then 1 else if tm_earlier (to_tm a) (to_tm b) then -1
     else sgn (sint (d_msecond a) - sint (d_msecond b)))"
proof -
  have nonneg: "0 \<le> sint (d_second d) \<and> 0 \<le> sint (d_minute d) \<and> 0 \<le> sint (d_hour d) \<and> 0 \<le> sint (d_day d) \<and>
      0 \<le> sint (d_month d) \<and> 0 \<le> sint (d_year d) \<and> 0 \<le> sint (d_msecond d)" if "date_valid d" for d
    using that by (simp add: date_valid_def date_ok_def)
  have ms: "(if y < x then 1 else if x < y then - 1 else 0) = sgn (x - y)" for x y :: int
    by (simp add: sgn_if)
  have tm: "tm_year (to_tm d) = sint (d_year d) - 1900" "tm_mon (to_tm d) = sint (d_month d) - 1"
      "tm_mday (to_tm d) = sint (d_day d)" "tm_hour (to_tm d) = sint (d_hour d)"
      "tm_min (to_tm d) = sint (d_minute d)" "tm_sec (to_tm d) = sint (d_second d)" for d
    by (simp_all add: to_tm_def)
  have shift: "x - c < y - c \<longleftrightarrow> x < y" "x - c = y - c \<longleftrightarrow> x = y" for x y c :: int by simp_all
  show ?thesis
    unfolding tm_earlier_def compare_lex tm shift
    using nonneg [OF assms(1)] nonneg [OF assms(2)]
    by (simp only: artik_time_compare_dates_def prod.case option.case less_sint_nonneg ms)
qed

text \<open>
  C12. Comparing two dates of the calendar is comparing their time stamps, and their milliseconds
  between dates of the same second.
\<close>

theorem compare_dates_timestamps:
  assumes "date_valid a" "date_valid b"
    and "os_time_convert_time_to_timestamp a = (S_OK, Some ta)"
    and "os_time_convert_time_to_timestamp b = (S_OK, Some tb)"
  shows "artik_time_compare_dates (Some a) (Some b) =
    (if sint tb < sint ta then 1 else if sint ta < sint tb then -1
     else sgn (sint (d_msecond a) - sint (d_msecond b)))"
proof -
  have stamp: "sint t = timegm (to_tm d)"
    if "date_valid d" "os_time_convert_time_to_timestamp d = (S_OK, Some t)" for d t
  proof -
    have "t = word_of_int (timegm (to_tm d))"
      using that(2) by (simp add: os_time_convert_time_to_timestamp_def Let_def split: if_splits)
    then show ?thesis using timegm_bound [OF that(1)] by simp
  qed
  show ?thesis
    unfolding compare_earlier [OF assms(1,2)] stamp [OF assms(1,3)] stamp [OF assms(2,4)]
    using timegm_less_iff [OF to_tm_valid to_tm_valid, OF assms(1,2)] timegm_less_iff [OF to_tm_valid to_tm_valid, OF assms(2,1)]
    by simp
qed

theorem compare_dates_timestamps_witness:
  "artik_time_compare_dates (Some some_date) (Some (some_date\<lparr>d_day := 1, d_month := 3, d_hour := 0\<rparr>)) = -1"
  using compare_dates_timestamps [of some_date "some_date\<lparr>d_day := 1, d_month := 3, d_hour := 0\<rparr>" 951868770 951872370]
  by code_simp

text \<open>
  C18. The clock: after a date of the calendar up to the year 9999 was set in a zone, reading the time in
  that zone within the same second gives the date back, with the day of the week that belongs to it and
  the milliseconds since.  The read may begin at any time \<open>t\<close> after the date was set; it looks at the
  clock twice, with \<open>e\<close> between, and both looks fall into the second that was set.
\<close>

theorem set_time_get_time:
  assumes "date_valid d" "sint (d_year d) < 10000"
    and "os_time_set_time d gmt s = (S_OK, s')" "c_readable s" "0 \<le> t" "0 \<le> e" "t + e < 1000000"
  shows "fst (os_time_get_time gmt True e (s'\<lparr>c_usec := c_usec s' + t\<rparr>)) =
    (S_OK, Some (d\<lparr>d_day_of_week := word_of_int ((timegm (to_tm d) div 86400 + 4) mod 7),
       d_msecond := word_of_int ((t + e) div 1000)\<rparr>))"
proof -
  let ?sec = "mktime (sint gmt) (to_tm d)" and ?t = "s'\<lparr>c_usec := c_usec s' + t\<rparr>"
  have g: "\<not> 12 < gmt" and sec: "0 \<le> ?sec" and s': "s' = (set_zone gmt s)\<lparr>c_usec := ?sec * 1000000\<rparr>"
    using assms(3) by (auto simp: os_time_set_time_def Let_def set_zone_def split: if_splits)
  have "(?sec * 1000000 + t) div 1000000 = ?sec" using assms(5-7) by simp
  then have sys: "os_time_get_sys gmt ?t = (Some (localtime (sint gmt) ?sec), ?t)"
    using assms(4) by (simp add: os_time_get_sys_def s' set_zone_def Let_def)
  have local: "localtime (sint gmt) ?sec = (to_tm d)\<lparr>tm_wday := (timegm (to_tm d) div 86400 + 4) mod 7\<rparr>"
    by (rule localtime_mktime [OF to_tm_valid [OF assms(1)]])
  have "- (2 ^ 31) \<le> sint gmt" using sint_ge [of gmt] by simp
  then have upper: "?sec < 9000000000000"
    using timegm_before_10000 [OF assms(1,2)] by (simp add: mktime_def)
  have sum: "0 \<le> t + e" using assms(5,6) by simp
  note tick = tick_msecond [OF _ sec upper sum assms(7), of "?t\<lparr>c_usec := c_usec ?t + e\<rparr>"]
  have "ucast (os_time_get_tick (?t\<lparr>c_usec := c_usec ?t + e\<rparr>) mod 1000) = (word_of_int ((t + e) div 1000) :: u32)"
    using assms(4) by (intro tick) (simp_all add: s' set_zone_def)
  then show ?thesis
    using g by (simp add: os_time_get_time_def sys Let_def local of_tm_to_tm)
qed

definition some_clock :: time_state where
  "some_clock = \<lparr>c_usec = 5, c_readable = True, c_settable = True, c_zone = 0, c_alarms = (\<lambda>_. None),
     c_timers = [], c_loops = 0\<rparr>"

lemma set_some_date:
  "os_time_set_time some_date 9 some_clock =
    (S_OK, some_clock\<lparr>c_zone := 9, c_usec := 951836370000000\<rparr>)"
proof -
  have "date_ok some_date" "mktime 9 (to_tm some_date) = 951836370" "sint (9 :: u32) = 9" by code_simp+
  then show ?thesis by (simp add: os_time_set_time_def set_zone_def some_clock_def)
qed

theorem set_time_get_time_witness:
  "fst (os_time_get_time 9 True 456 (some_clock\<lparr>c_zone := 9, c_usec := 951836370000000 + 123000\<rparr>)) =
    (S_OK, Some (some_date\<lparr>d_day_of_week := 2, d_msecond := 123\<rparr>))"
proof -
  have "timegm (to_tm some_date) = 951868770" by code_simp
  then show ?thesis
    using set_time_get_time [OF some_date_valid(1) _ set_some_date, of 123000 456]
    by (simp add: some_date_valid(2)) (simp add: some_clock_def)
qed

text \<open>
  C31. Every date the module gives out is a date of the calendar: the one of any time stamp, and the
  time of the clock in any zone while the clock is before 2106.
\<close>

theorem time_results_well_formed:
  assumes "0 \<le> c_usec s" "c_usec s div 1000000 + 3600 * sint gmt < 2 ^ 32" "0 \<le> e"
  shows "date_valid (snd (os_time_convert_timestamp_to_time ts)) \<and>
    (\<forall>d. snd (fst (os_time_get_time gmt p e s)) = Some d \<longrightarrow> date_valid d \<and> d_msecond d < 1000)"
proof (intro conjI allI impI)
  show "date_valid (snd (os_time_convert_timestamp_to_time ts))"
    using to_tm_of_tm(2) [OF mask_32_range] by (simp add: os_time_convert_timestamp_to_time_def)
  fix d
  assume d: "snd (fst (os_time_get_time gmt p e s)) = Some d"
  let ?t = "c_usec s div 1000000 + 3600 * sint gmt"
  have g: "\<not> 12 < gmt" and readable: "c_readable s"
    using d by (auto simp: os_time_get_time_def os_time_get_sys_def Let_def split: if_splits)
  then have "uint gmt \<le> 12" by (simp add: word_less_def)
  then have "0 \<le> sint gmt" by (simp add: sint_small)
  then have t: "0 \<le> ?t" using assms(1) by (simp add: pos_imp_zdiv_nonneg_iff)
  obtain m :: u32 where m: "d = (of_tm (gmtime ?t))\<lparr>d_msecond := m\<rparr>"
      "m = ucast (os_time_get_tick (s\<lparr>c_zone := sint gmt, c_usec := c_usec s + e\<rparr>) mod 1000)"
    using d g readable
    by (auto simp: os_time_get_time_def os_time_get_sys_def set_zone_def localtime_def Let_def split: if_splits)
  have small: "uint (x mod 1000) < 1000" for x :: u64 by (simp add: uint_mod)
  have "uint (ucast (x mod 1000) :: u32) < 1000" for x :: u64
  proof -
    have "uint (ucast (x mod 1000) :: u32) = take_bit 32 (uint (x mod 1000))" by (simp add: unsigned_ucast_eq)
    also have "\<dots> \<le> uint (x mod 1000)" by (rule take_bit_int_less_eq_self_iff [THEN iffD2]) simp
    finally show ?thesis using small [of x] by linarith
  qed
  then have "uint m < 1000" unfolding m(2) .
  then have "m < 1000" "0 \<le> sint m" by (simp_all add: word_less_def sint_small)
  moreover have "date_valid (of_tm (gmtime ?t))" using to_tm_of_tm(2) [OF t assms(2)] .
  ultimately show "date_valid d" "d_msecond d < 1000"
    by (simp_all add: m(1) date_valid_def date_ok_def)
qed

theorem time_results_well_formed_witness:
  "date_valid (snd (os_time_convert_timestamp_to_time (-1)))"
  using time_results_well_formed [of some_clock 0 0 "-1" True] by (simp add: some_clock_def)

lemma localtime_now:
  assumes "c_readable s"
  shows "os_time_get_sys gmt s = (Some (localtime (sint gmt) (c_usec s div 1000000)), set_zone gmt s)"
  using assms by (simp add: os_time_get_sys_def set_zone_def)

lemma mktime_zero:
  "0 \<le> h \<Longrightarrow> mktime h \<lparr>tm_sec = 0, tm_min = 0, tm_hour = 0, tm_mday = 0, tm_mon = 0, tm_year = 0, tm_wday = 0\<rparr> < 0"
  by (simp add: mktime_def timegm_def Let_def days_before_year_def leap_years_def)

lemma zone_nonneg:
  assumes "\<not> 12 < (gmt :: u32)"
  shows "0 \<le> sint gmt"
proof -
  have "uint gmt \<le> 12" using assms by (simp add: word_less_def)
  then show ?thesis by (simp add: sint_small)
qed

lemma set_zone_frame [simp]:
  "c_readable (set_zone gmt s) = c_readable s" "c_usec (set_zone gmt s) = c_usec s"
  "c_zone (set_zone gmt s) = sint gmt" "set_zone gmt (set_zone gmt s) = set_zone gmt s"
  "c_alarms (set_zone gmt s) = c_alarms s" "c_timers (set_zone gmt s) = c_timers s"
  by (simp_all add: set_zone_def)

text \<open>What is known of a call that created an alarm.\<close>

lemma alarm_created:
  assumes "os_time_create_alarm_second env gmt func d second s = Some ((S_OK, Some h), s')"
  shows "c_readable s" "h \<noteq> 0" "func \<noteq> 0" "c_usec s' = c_usec s" "c_readable s' = c_readable s"
    "0 \<le> c_usec s div 1000000" "0 \<le> sint (ucast second :: u32)" "\<not> 12 < gmt"
    "\<exists>n. c_alarms s' h = Some \<lparr>al_gmt = gmt, al_func = func,
       al_date = word_of_int (c_usec s div 1000000) + second, al_id = n\<rparr>
       \<and> c_timers s' = \<lparr>ti_id = n, ti_msec = ucast second * 1000, ti_func = func, ti_data = d\<rparr> # c_timers s"
proof -
  have pre: "\<not> 12 < gmt" "\<not> sint (ucast second :: u32) < 0" "func \<noteq> 0"
    using assms by (auto simp: os_time_create_alarm_second_def split: if_splits)
  have r: "c_readable s"
  proof (rule ccontr)
    assume "\<not> c_readable s"
    then have "os_time_get_sys gmt (set_zone gmt s) = (None, set_zone gmt s)" by (simp add: os_time_get_sys_def)
    then show False
      using assms pre mktime_zero [OF zone_nonneg [OF pre(1)]] by (simp add: os_time_create_alarm_second_def)
  qed
  note step = assms [unfolded os_time_create_alarm_second_def, simplified pre if_False if_True
      localtime_now [of "set_zone gmt s" gmt, unfolded set_zone_frame, OF r] prod.case Let_def option.case
      set_zone_frame mktime_localtime]
  show "c_readable s" "h \<noteq> 0" "func \<noteq> 0" "c_usec s' = c_usec s" "c_readable s' = c_readable s"
    "0 \<le> c_usec s div 1000000" "0 \<le> sint (ucast second :: u32)" "\<not> 12 < gmt"
    "\<exists>n. c_alarms s' h = Some \<lparr>al_gmt = gmt, al_func = func,
       al_date = word_of_int (c_usec s div 1000000) + second, al_id = n\<rparr>
       \<and> c_timers s' = \<lparr>ti_id = n, ti_msec = ucast second * 1000, ti_func = func, ti_data = d\<rparr> # c_timers s"
    using step r pre by (auto split: if_splits loop_request.splits)
qed

text \<open>
  C19. An alarm is a timer of the loop for its seconds, and its delay counts down in step with that: an
  alarm of at most 4294967 seconds registers exactly one timer, of 1000 times as many milliseconds, and
  whenever it is asked later for its delay, before 2038, the answer is 1000 times the seconds that are
  left by the clock, or 0.  The answer is a number of milliseconds, as its type and its parameter say;
  the documentation of \<^verbatim>\<open>get_delay_alarm\<close> in \<^verbatim>\<open>artik_time.h\<close> promises seconds.
\<close>

theorem alarm_delay:
  assumes "os_time_create_alarm_second env gmt func d second s = Some ((S_OK, Some h), s')"
    and "uint second \<le> 4294967" "0 \<le> e" "(c_usec s + e) div 1000000 < 2 ^ 31"
  shows "\<exists>s'' ti. os_time_get_delay_alarm h (s'\<lparr>c_usec := c_usec s' + e\<rparr>) =
      Some ((S_OK, Some (word_of_int (1000 *
        max 0 (uint second - ((c_usec s + e) div 1000000 - c_usec s div 1000000))))), s'') \<and>
    c_timers s' = ti # c_timers s \<and> uint (ti_msec ti) = 1000 * uint second \<and>
    ti_func ti = func \<and> ti_data ti = d"
proof -
  let ?now = "c_usec s div 1000000" and ?then = "(c_usec s + e) div 1000000"
  note made = alarm_created [OF assms(1)]
  obtain n where alarm: "c_alarms s' h = Some \<lparr>al_gmt = gmt, al_func = func, al_date = word_of_int ?now + second, al_id = n\<rparr>"
    and timer: "c_timers s' = \<lparr>ti_id = n, ti_msec = ucast second * 1000, ti_func = func, ti_data = d\<rparr> # c_timers s"
    using made(9) by blast
  have time: "0 \<le> ?now" "?now \<le> ?then" "?then < 2 ^ 31" using made(6) assms(3,4) by (auto intro: zdiv_mono1)
  then have res: "sint (word_of_int ?then :: u32) = ?then" by (intro sint_word_of_int) auto
  have "uint (ucast second :: u32) = uint second"
    using assms(2) by (simp add: unsigned_ucast_eq take_bit_int_eq_self)
  then have msec: "uint (ucast second * 1000 :: u32) = 1000 * uint second"
    using assms(2) by (simp add: uint_word_ariths)
  have due: "word_of_int ?now + second = word_of_int (?now + uint second)" by simp
  have uint_due: "uint (word_of_int (?now + uint second) :: u64) = ?now + uint second"
    using time assms(2) by (simp add: unsigned_of_int take_bit_int_eq_self del: of_int_add)
  have uint_then: "uint (word_of_int ?then :: u64) = ?then"
    using time by (simp add: unsigned_of_int take_bit_int_eq_self)
  have left: "(if word_of_int ?now + second \<le> (word_of_int ?then :: u64) then 0
      else (word_of_int ?now + second - word_of_int ?then) * 1000)
    = (word_of_int (1000 * max 0 (uint second - (?then - ?now))) :: u64)"
  proof (cases "?now + uint second \<le> ?then")
    case True
    then have "word_of_int ?now + second \<le> (word_of_int ?then :: u64)"
      unfolding due word_le_def uint_due uint_then .
    then show ?thesis using True by simp
  next
    case False
    then have "\<not> word_of_int ?now + second \<le> (word_of_int ?then :: u64)"
      unfolding due word_le_def uint_due uint_then .
    moreover have "max 0 (uint second - (?then - ?now)) = ?now + uint second - ?then" using False by simp
    ultimately show ?thesis unfolding due by (simp add: algebra_simps)
  qed
  have "os_time_get_delay_alarm h (s'\<lparr>c_usec := c_usec s' + e\<rparr>) =
      Some ((S_OK, Some (word_of_int (1000 * max 0 (uint second - (?then - ?now))))),
        set_zone gmt (s'\<lparr>c_usec := c_usec s' + e\<rparr>))"
    unfolding left [symmetric] using made(1,2,4,5) alarm time
    by (simp add: os_time_get_delay_alarm_def localtime_now res Let_def)
  with timer msec show ?thesis by auto
qed

abbreviation (input) some_env :: alarm_env where
  "some_env \<equiv> \<lparr>ae_block = 64, ae_loop = Loop_module, ae_added = (S_OK, 3)\<rparr>"

lemma some_alarm:
  "os_time_create_alarm_second some_env 9 7 8 60 some_clock = Some ((S_OK, Some 64),
     some_clock\<lparr>c_zone := 9, c_alarms := [64 \<mapsto> \<lparr>al_gmt = 9, al_func = 7, al_date = 60, al_id = 3\<rparr>],
       c_timers := [\<lparr>ti_id = 3, ti_msec = 60000, ti_func = 7, ti_data = 8\<rparr>], c_loops := 1\<rparr>)"
proof -
  have "localtime 9 0 = \<lparr>tm_sec = 0, tm_min = 0, tm_hour = 9, tm_mday = 1, tm_mon = 0, tm_year = 70, tm_wday = 4\<rparr>"
    "mktime 9 \<lparr>tm_sec = 0, tm_min = 0, tm_hour = 9, tm_mday = 1, tm_mon = 0, tm_year = 70, tm_wday = 4\<rparr> = 0"
    "sint (9 :: u32) = 9" "sint (60 :: u32) = 60"
    by code_simp+
  then show ?thesis
    by (simp add: os_time_create_alarm_second_def os_time_get_sys_def set_zone_def some_clock_def)
qed

theorem alarm_delay_witness:
  "\<exists>s' s''. os_time_create_alarm_second some_env 9 7 8 60 some_clock = Some ((S_OK, Some 64), s') \<and>
    os_time_get_delay_alarm 64 (s'\<lparr>c_usec := 20000005\<rparr>) = Some ((S_OK, Some 40000), s'')"
  using alarm_delay [OF some_alarm, of 20000000] some_alarm by (simp add: some_clock_def)

text \<open>
  An alarm for a date is due at that date: the time stored in it is the one the date names in its
  zone.  A date in the past converts a negative floating-point number to an unsigned one, which C leaves
  undefined.
\<close>

theorem alarm_date_due:
  assumes "os_time_create_alarm_date env gmt func d date s = Some ((S_OK, Some h), s')"
  shows "mktime (sint gmt) (to_tm date) \<ge> c_usec s div 1000000 \<and>
    (\<exists>a. c_alarms s' h = Some a \<and> al_date a = word_of_int (mktime (sint gmt) (to_tm date)) \<and> al_func a = func)"
proof -
  let ?due = "mktime (sint gmt) (to_tm date)" and ?now = "c_usec s div 1000000"
  have pre: "\<not> 12 < gmt" "func \<noteq> 0" "date_ok date"
    using assms by (auto simp: os_time_create_alarm_date_def split: if_splits)
  have r: "c_readable s"
  proof (rule ccontr)
    assume "\<not> c_readable s"
    then have "os_time_get_sys gmt (set_zone gmt s) = (None, set_zone gmt s)" by (simp add: os_time_get_sys_def)
    then show False
      using assms pre mktime_zero [OF zone_nonneg [OF pre(1)]] by (simp add: os_time_create_alarm_date_def)
  qed
  note step = assms [unfolded os_time_create_alarm_date_def, simplified pre if_False if_True not_True_eq_False
      localtime_now [of "set_zone gmt s" gmt, unfolded set_zone_frame, OF r] prod.case Let_def option.case
      set_zone_frame mktime_localtime]
  have le: "0 \<le> ?due - ?now"
    and second: "os_time_create_alarm_second env gmt func d (word_of_int (?due - ?now)) (set_zone gmt s)
      = Some ((S_OK, Some h), s')"
    using step by (auto split: if_splits)
  have "word_of_int ?now + word_of_int (?due - ?now) = (word_of_int ?due :: u64)" by simp
  then show ?thesis using alarm_created(9) [OF second] le by auto
qed

definition early_date :: artik_time where
  "early_date = \<lparr>d_second = 0, d_minute = 1, d_hour = 9, d_day = 1, d_month = 1, d_year = 1970,
     d_day_of_week = 0, d_msecond = 0\<rparr>"

theorem alarm_date_due_witness:
  "\<exists>s' a. os_time_create_alarm_date some_env 9 7 8 early_date some_clock = Some ((S_OK, Some 64), s') \<and>
    c_alarms s' 64 = Some a \<and> al_date a = 60"
proof -
  have facts: "localtime 9 0 = \<lparr>tm_sec = 0, tm_min = 0, tm_hour = 9, tm_mday = 1, tm_mon = 0, tm_year = 70, tm_wday = 4\<rparr>"
    "mktime 9 \<lparr>tm_sec = 0, tm_min = 0, tm_hour = 9, tm_mday = 1, tm_mon = 0, tm_year = 70, tm_wday = 4\<rparr> = 0"
    "sint (9 :: u32) = 9" "date_ok early_date" "mktime 9 (to_tm early_date) = 60"
    by code_simp+
  have second: "os_time_create_alarm_second some_env 9 7 8 60 (set_zone 9 some_clock) =
      os_time_create_alarm_second some_env 9 7 8 60 some_clock"
    by (simp add: os_time_create_alarm_second_def set_zone_def)
  then obtain s' where s': "os_time_create_alarm_date some_env 9 7 8 early_date some_clock = Some ((S_OK, Some 64), s')"
    using some_alarm facts
    by (simp add: os_time_create_alarm_date_def os_time_get_sys_def set_zone_def some_clock_def)
  with alarm_date_due [OF s'] facts show ?thesis by auto
qed

text \<open>Deleting an alarm frees its block and nothing else: its timer goes on.\<close>

lemma delete_alarm_keeps_timer:
  assumes "c_alarms s h = Some a" "h \<noteq> 0"
  shows "artik_time_delete_alarm h s = Some (S_OK, s\<lparr>c_alarms := (c_alarms s)(h := None)\<rparr>)"
  using assms by (simp add: artik_time_delete_alarm_def os_time_delete_alarm_def)

section \<open>Time from a server\<close>

text \<open>
  What the network answers: whether a socket opens, takes the timeout and the name resolves, how many
  bytes are sent, and what comes back.
\<close>

record ntp_env =
  n_socket :: bool
  n_sockopt :: bool
  n_resolved :: bool
  n_sent :: int
  n_reply :: "u8 list option"

datatype ntp_call = Socket | Set_timeout u32 u32 | Resolve | Send_request | Receive | Set_clock int | Close_socket

definition EPOCH_BALANCE :: u32 where "EPOCH_BALANCE = 2208988800"

text \<open>\<^verbatim>\<open>ntohl\<close> of the low half of the fifth \<^verbatim>\<open>unsigned long\<close>: bytes 32 to 35, the first one highest.\<close>

definition ntp_seconds :: "u8 list \<Rightarrow> u32" where
  "ntp_seconds buf = word_rcat (take 4 (drop 32 buf)) - EPOCH_BALANCE"

definition os_time_sync_ntp ::
  "ntp_env \<Rightarrow> bool \<Rightarrow> u32 \<Rightarrow> time_state \<Rightarrow> artik_error \<times> ntp_call list \<times> time_state" where
  "os_time_sync_ntp env hostname timeout s =
     (if \<not> hostname then (E_BAD_ARGS, [], s)
      else if \<not> n_socket env then (E_BAD_ARGS, [Socket], s)
      else
        let calls = Socket # (if timeout \<noteq> 0 then [Set_timeout (timeout div 1000) (timeout mod 1000 * 1000)] else [])
        in if timeout \<noteq> 0 \<and> \<not> n_sockopt env then (E_BAD_ARGS, calls @ [Close_socket], s)
           else if \<not> n_resolved env then (E_HTTP_ERROR, calls @ [Resolve, Close_socket], s)
           else if n_sent env \<noteq> 48 then (E_BAD_ARGS, calls @ [Resolve, Send_request, Close_socket], s)
           else case n_reply env of
               None \<Rightarrow> (E_BAD_ARGS, calls @ [Resolve, Send_request, Receive, Close_socket], s)
             | Some buf \<Rightarrow>
                 if length buf \<noteq> 48 then (E_BAD_ARGS, calls @ [Resolve, Send_request, Receive, Close_socket], s)
                 else
                   let sec = uint (ntp_seconds buf);
                       calls = calls @ [Resolve, Send_request, Receive, Set_clock sec, Close_socket]
                   in if \<not> c_settable s then (E_BAD_ARGS, calls, s)
                      else (S_OK, calls, s\<lparr>c_usec := sec * 1000000\<rparr>))"

definition artik_time_sync_ntp ::
  "ntp_env \<Rightarrow> bool \<Rightarrow> u32 \<Rightarrow> time_state \<Rightarrow> artik_error \<times> ntp_call list \<times> time_state" where
  "artik_time_sync_ntp = os_time_sync_ntp"

text \<open>
  The clock is set exactly when the answer is a success, the socket is closed on every path that
  opened it, and a success means a full reply and a clock at the second the server received the
  request, counted from 1900 in the reply.
\<close>

lemma sync_ntp_outcome:
  assumes "os_time_sync_ntp env hostname timeout s = (err, calls, s')"
  shows "err \<noteq> S_OK \<Longrightarrow> s' = s"
    and "n_socket env \<Longrightarrow> hostname \<Longrightarrow> hd calls = Socket \<and> last calls = Close_socket"
    and "err = S_OK \<Longrightarrow> \<exists>buf. n_reply env = Some buf \<and> length buf = 48 \<and>
      s' = s\<lparr>c_usec := uint (word_rcat (take 4 (drop 32 buf)) - EPOCH_BALANCE) * 1000000\<rparr>"
  using assms
  by (auto simp: os_time_sync_ntp_def ntp_seconds_def Let_def split: if_splits option.splits)

end
