(* ===== verification/Uri_Parser.thy ===== *)
theory Uri_Parser
  imports Os_World Coap_Uri
begin

text \<open>
  The utils module on TizenRT: \<^verbatim>\<open>os_get_uri_info\<close> and \<^verbatim>\<open>os_free_uri_info\<close> of
  \<^verbatim>\<open>base/utils/tizenrt_utils.c\<close> under the functions of \<^verbatim>\<open>artik_utils.c\<close>.  The parser is a state
  machine over the characters of the URI with a look-ahead of up to three; a pointer into the URI is
  its offset, and \<^term>\<open>None\<close> is a read behind the terminating NUL.  It is proved equal to a
  parser by recursive descent, and printed URIs are read back.
\<close>

section \<open>The structure\<close>

text \<open>A \<^verbatim>\<open>char *\<close> of the structure is the block's address with its text; the address 0 is \<^verbatim>\<open>NULL\<close>.\<close>

type_synonym cstring = "addr \<times> string"

record artik_uri_info =
  uri_scheme :: cstring
  uri_hostname :: cstring
  uri_port :: int
  uri_path :: cstring

text \<open>\<^verbatim>\<open>strdup\<close> and \<^verbatim>\<open>strndup\<close> of a text, and \<^verbatim>\<open>free\<close>, which does nothing on \<^verbatim>\<open>NULL\<close>.\<close>

definition dup_string :: "string \<Rightarrow> world \<Rightarrow> cstring \<times> world" where
  "dup_string t w = (let (a, w) = local_malloc (int (length t) + 1) w in ((a, if a = 0 then [] else t), w))"

definition free_string :: "cstring \<Rightarrow> world \<Rightarrow> world" where
  "free_string s w = (if fst s = 0 then w else local_free (fst s) w)"

definition free_strings :: "artik_uri_info \<Rightarrow> world \<Rightarrow> world" where
  "free_strings u w = free_string (uri_path u) (free_string (uri_hostname u) (free_string (uri_scheme u) w))"

section \<open>The state machine\<close>

definition isalpha :: "char \<Rightarrow> bool" where
  "isalpha c \<longleftrightarrow> (of_char c :: nat) \<in> {65..90} \<or> islower c"

definition isalnum :: "char \<Rightarrow> bool" where
  "isalnum c \<longleftrightarrow> isalpha c \<or> isdigit c"

definition scheme_char :: "char \<Rightarrow> bool" where
  "scheme_char c \<longleftrightarrow> isalnum c \<or> c \<in> set ''+.-''"

definition host_char :: "char \<Rightarrow> bool" where
  "host_char c \<longleftrightarrow> isalnum c \<or> c \<in> set ''.-''"

definition path_char :: "char \<Rightarrow> bool" where
  "path_char c \<longleftrightarrow> isalnum c \<or> c \<in> set ''-._~!$&/()*+,;=:@?''"

datatype uri_state_e = URI_SCHEME_START | URI_SCHEME_LOOP | URI_HOST | URI_PORT | URI_PATH

record range_t =
  range_begin :: "nat option"
  range_end :: "nat option"

record uri_ranges =
  scheme_r :: range_t
  host_r :: range_t
  port_r :: range_t
  path_r :: range_t

definition no_range :: range_t where
  "no_range = \<lparr>range_begin = None, range_end = None\<rparr>"

definition no_ranges :: uri_ranges where
  "no_ranges = \<lparr>scheme_r = no_range, host_r = no_range, port_r = no_range, path_r = no_range\<rparr>"

text \<open>
  \<open>looking_at pat s j\<close> is the conjunction of comparisons \<^verbatim>\<open>uri[j] == pat[0] && uri[j + 1] == pat[1] && \<dots>\<close>,
  from the left up to the first that fails.
\<close>

definition uri_at :: "string \<Rightarrow> nat \<Rightarrow> char option" where
  "uri_at s j = (if j < length s then Some (s ! j) else if j = length s then Some (CHR 0x00) else None)"

fun looking_at :: "string \<Rightarrow> string \<Rightarrow> nat \<Rightarrow> bool option" where
  "looking_at [] s j = Some True"
| "looking_at (p # ps) s j =
     (case uri_at s j of
        None \<Rightarrow> None
      | Some c \<Rightarrow> if c = p then looking_at ps s (Suc j) else Some False)"

text \<open>
  One iteration: \<^term>\<open>Some None\<close> is the return of \<^verbatim>\<open>E_BAD_ARGS\<close>; otherwise the position, the
  state and the ranges at its end.
\<close>

type_synonym scan = "(nat \<times> uri_state_e \<times> uri_ranges) option option"

definition enter_path :: "string \<Rightarrow> nat \<Rightarrow> uri_state_e \<Rightarrow> uri_ranges \<Rightarrow> scan" where
  "enter_path s i st r =
     (case looking_at ''/'' s (i + 1) of
        None \<Rightarrow> None
      | Some False \<Rightarrow> Some (Some (i, st, r))
      | Some True \<Rightarrow>
          Some (Some (i, URI_PATH, r\<lparr>path_r := \<lparr>range_begin = Some (i + 1), range_end = Some (length s + 1)\<rparr>\<rparr>)))"

definition scheme_step :: "string \<Rightarrow> nat \<Rightarrow> uri_ranges \<Rightarrow> scan" where
  "scheme_step s i r =
     (if \<not> scheme_char (s ! i) then Some None
      else
        case looking_at ''://'' s (i + 1) of
          None \<Rightarrow> None
        | Some False \<Rightarrow> Some (Some (i, URI_SCHEME_LOOP, r))
        | Some True \<Rightarrow>
            Some (Some (i + 3, URI_HOST,
              r\<lparr>scheme_r := (scheme_r r)\<lparr>range_end := Some i\<rparr>, host_r := (host_r r)\<lparr>range_begin := Some (i + 4)\<rparr>\<rparr>)))"

definition host_step :: "string \<Rightarrow> nat \<Rightarrow> uri_ranges \<Rightarrow> scan" where
  "host_step s i r =
     (if \<not> host_char (s ! i) then Some None
      else
        let r = r\<lparr>host_r := (host_r r)\<lparr>range_end := Some i\<rparr>\<rparr> in
        case looking_at '':'' s (i + 1) of
          None \<Rightarrow> None
        | Some False \<Rightarrow> enter_path s i URI_HOST r
        | Some True \<Rightarrow> enter_path s (i + 1) URI_PORT (r\<lparr>port_r := (port_r r)\<lparr>range_begin := Some (i + 2)\<rparr>\<rparr>))"

definition port_step :: "string \<Rightarrow> nat \<Rightarrow> uri_ranges \<Rightarrow> scan" where
  "port_step s i r =
     (if \<not> isdigit (s ! i) then Some None
      else enter_path s i URI_PORT (r\<lparr>port_r := (port_r r)\<lparr>range_end := Some i\<rparr>\<rparr>))"

definition uri_step :: "string \<Rightarrow> nat \<Rightarrow> uri_state_e \<Rightarrow> uri_ranges \<Rightarrow> scan" where
  "uri_step s i st r =
     (case st of
        URI_SCHEME_START \<Rightarrow>
          if \<not> isalpha (s ! i) then Some None
          else scheme_step s i (r\<lparr>scheme_r := (scheme_r r)\<lparr>range_begin := Some i\<rparr>\<rparr>)
      | URI_SCHEME_LOOP \<Rightarrow> scheme_step s i r
      | URI_HOST \<Rightarrow> host_step s i r
      | URI_PORT \<Rightarrow> port_step s i r
      | URI_PATH \<Rightarrow> if path_char (s ! i) then Some (Some (i, URI_PATH, r)) else Some None)"

lemma enter_path_le: "enter_path s i st r = Some (Some (i', st', r')) \<Longrightarrow> i' = i"
  by (auto simp: enter_path_def split: option.splits bool.splits)

lemma uri_step_le: "uri_step s i st r = Some (Some (i', st', r')) \<Longrightarrow> i \<le> i'"
  by (auto simp: uri_step_def scheme_step_def host_step_def port_step_def Let_def
      split: uri_state_e.splits if_splits option.splits bool.splits dest: enter_path_le)

text \<open>The loop \<^verbatim>\<open>for (i = 0; i < len; i++)\<close>.\<close>

function uri_scan :: "string \<Rightarrow> nat \<Rightarrow> uri_state_e \<Rightarrow> uri_ranges \<Rightarrow> (uri_state_e \<times> uri_ranges) option option" where
  "uri_scan s i st r =
     (if i < length s then
        (case uri_step s i st r of
           None \<Rightarrow> None
         | Some None \<Rightarrow> Some None
         | Some (Some (i', st', r')) \<Rightarrow> uri_scan s (Suc i') st' r')
      else Some (Some (st, r)))"
  by pat_completeness auto
termination
  by (relation "measure (\<lambda>(s, i, st, r). length s - i)") (auto dest!: uri_step_le)

declare uri_scan.simps [simp del]

section \<open>The operations\<close>

text \<open>
  \<^verbatim>\<open>strtol\<close> in base ten where the text starts with a digit, with the 32-bit \<^verbatim>\<open>long\<close> of the
  platform: too large a number is \<^verbatim>\<open>LONG_MAX\<close>.
\<close>

definition dec_value :: "string \<Rightarrow> nat" where
  "dec_value s = fold (\<lambda>c n. n * 10 + (of_char c - 48)) (takeWhile isdigit s) 0"

definition strtol :: "string \<Rightarrow> int" where
  "strtol s = min (2 ^ 31 - 1) (int (dec_value s))"

definition PORT_MIN :: int where "PORT_MIN = 1"
definition PORT_MAX :: int where "PORT_MAX = 65535"

text \<open>
  The second half of \<^verbatim>\<open>os_get_uri_info\<close>, on the texts of the ranges.  \<open>port\<close> is the text from the
  port on, \<^term>\<open>None\<close> where there is no digit.  The freed pointers stay in the structure.
\<close>

definition fill_uri_info ::
    "string \<Rightarrow> string \<Rightarrow> string option \<Rightarrow> string \<Rightarrow> artik_uri_info \<Rightarrow> world \<Rightarrow> artik_error \<times> artik_uri_info \<times> world" where
  "fill_uri_info scheme host port path u w =
     (let (a, w) = dup_string scheme w; (b, w) = dup_string host w; (c, w) = dup_string path w;
          u = u\<lparr>uri_scheme := a, uri_hostname := b, uri_path := c\<rparr>
      in if fst a = 0 \<or> fst b = 0 \<or> fst c = 0 then (E_NO_MEM, u, free_strings u w)
         else
           case port of
             None \<Rightarrow> (S_OK, u\<lparr>uri_port := -1\<rparr>, w)
           | Some p \<Rightarrow>
               let u = u\<lparr>uri_port := strtol p\<rparr>
               in if uri_port u \<le> PORT_MIN \<or> PORT_MAX \<le> uri_port u then (E_BAD_ARGS, u, free_strings u w)
                  else (S_OK, u, w))"

text \<open>The characters from \<open>b\<close> to before \<open>e\<close>: \<^verbatim>\<open>strndup\<close> stops at the end of the URI.\<close>

definition slice :: "string \<Rightarrow> nat \<Rightarrow> nat \<Rightarrow> string" where
  "slice s b e = take (e - b) (drop b s)"

definition finish_uri_info ::
    "string \<Rightarrow> uri_ranges \<Rightarrow> artik_uri_info \<Rightarrow> world \<Rightarrow> artik_error \<times> artik_uri_info \<times> world" where
  "finish_uri_info s r u w =
     (case (range_begin (host_r r), range_end (host_r r), range_begin (scheme_r r), range_end (scheme_r r)) of
        (Some hb, Some he, Some sb, Some se) \<Rightarrow>
          let path = (case (range_begin (path_r r), range_end (path_r r)) of
                        (Some pb, Some pe) \<Rightarrow> if pb \<noteq> pe then slice s pb pe else ''/''
                      | _ \<Rightarrow> ''/'');
              port = (case (range_begin (port_r r), range_end (port_r r)) of
                        (Some pb, Some pe) \<Rightarrow> Some (drop pb s)
                      | _ \<Rightarrow> None)
          in fill_uri_info (slice s sb (se + 1)) (slice s hb (he + 1)) port path u w
      | _ \<Rightarrow> (E_BAD_ARGS, u, w))"

definition tizen_os_get_uri_info ::
    "artik_uri_info \<Rightarrow> string \<Rightarrow> world \<Rightarrow> (artik_error \<times> artik_uri_info \<times> world) option" where
  "tizen_os_get_uri_info u s w =
     (case uri_scan s 0 URI_SCHEME_START no_ranges of
        None \<Rightarrow> None
      | Some None \<Rightarrow> Some (E_BAD_ARGS, u, w)
      | Some (Some (st, r)) \<Rightarrow>
          Some (if st = URI_SCHEME_START \<or> st = URI_SCHEME_LOOP then (E_BAD_ARGS, u, w)
                else finish_uri_info s r u w))"

definition tizen_os_free_uri_info :: "artik_uri_info \<Rightarrow> world \<Rightarrow> artik_error \<times> world" where
  "tizen_os_free_uri_info u w = (S_OK, free_strings u w)"

text \<open>The module's functions; an absent argument is \<^verbatim>\<open>NULL\<close>.\<close>

definition get_uri_info ::
    "artik_uri_info option \<Rightarrow> string option \<Rightarrow> world \<Rightarrow> (artik_error \<times> artik_uri_info option \<times> world) option" where
  "get_uri_info u s w =
     (case (s, u) of
        (Some s, Some u) \<Rightarrow> map_option (\<lambda>(e, u, w). (e, Some u, w)) (tizen_os_get_uri_info u s w)
      | _ \<Rightarrow> Some (E_BAD_ARGS, u, w))"

definition free_uri_info :: "artik_uri_info option \<Rightarrow> world \<Rightarrow> artik_error \<times> world" where
  "free_uri_info u w = (case u of None \<Rightarrow> (E_BAD_ARGS, w) | Some u \<Rightarrow> tizen_os_free_uri_info u w)"

section \<open>The parser by recursive descent\<close>

text \<open>The path: empty, or a slash and path characters.\<close>

definition tail_ok :: "string \<Rightarrow> bool" where
  "tail_ok t \<longleftrightarrow> t = [] \<or> hd t = CHR ''/'' \<and> list_all path_char t"

text \<open>Scheme, host, port (the digits behind a colon, if any) and path.\<close>

definition uri_descent :: "string \<Rightarrow> (string \<times> string \<times> string \<times> string) option" where
  "uri_descent s =
     (let scheme = takeWhile scheme_char s; t = dropWhile scheme_char s in
      if scheme = [] \<or> \<not> isalpha (hd scheme) \<or> take 3 t \<noteq> ''://'' then None
      else
        let host = takeWhile host_char (drop 3 t); t = dropWhile host_char (drop 3 t);
            (port, t) = (if t \<noteq> [] \<and> hd t = CHR '':'' then (takeWhile isdigit (tl t), dropWhile isdigit (tl t))
                         else ([], t))
        in if host = [] \<or> \<not> tail_ok t then None
           else Some (scheme, host, port, t))"

section \<open>The state machine reads what the descent reads\<close>

text \<open>Inside the URI the look-ahead does not leave it.\<close>

lemma drop_Cons_nth: "i < length s \<Longrightarrow> drop i s = s ! i # drop (Suc i) s"
  by (simp add: Cons_nth_drop_Suc)

lemma looking_at_take:
  "j \<le> length s \<Longrightarrow> CHR 0x00 \<notin> set pat \<Longrightarrow>
    looking_at pat s j = Some (take (length pat) (drop j s) = pat)"
proof (induction pat arbitrary: j)
  case Nil
  then show ?case by simp
next
  case (Cons p ps)
  show ?case
  proof (cases "j < length s")
    case True
    with Cons show ?thesis by (auto simp: uri_at_def drop_Cons_nth)
  next
    case False
    with Cons.prems show ?thesis by (auto simp: uri_at_def)
  qed
qed

lemma looking_at_char:
  "j \<le> length s \<Longrightarrow> p \<noteq> CHR 0x00 \<Longrightarrow> looking_at [p] s j = Some (drop j s \<noteq> [] \<and> hd (drop j s) = p)"
  by (subst looking_at_take) (cases "drop j s"; simp)+

declare looking_at.simps [simp del]

lemma uri_scan_end: "length s \<le> i \<Longrightarrow> uri_scan s i st r = Some (Some (st, r))"
  by (subst uri_scan.simps) simp

lemma not_host [simp]: "\<not> host_char CHR ''/''" "\<not> host_char CHR '':''" "\<not> scheme_char CHR '':''"
  "\<not> isdigit CHR ''/''" "path_char CHR ''/''"
  by (simp_all add: host_char_def scheme_char_def path_char_def isalnum_def isalpha_def islower_def isdigit_def)

lemma uri_scan_path:
  "i \<le> length s \<Longrightarrow>
    uri_scan s i URI_PATH r = Some (if list_all path_char (drop i s) then Some (URI_PATH, r) else None)"
proof (induction "length s - i" arbitrary: i)
  case 0
  then show ?case by (simp add: uri_scan_end)
next
  case (Suc n)
  then have "i < length s" by simp
  with Suc.hyps(1) [of "Suc i"] Suc.hyps(2) show ?case
    by (subst uri_scan.simps) (auto simp: uri_step_def drop_Cons_nth)
qed

text \<open>The path, or the end of the part before it, at offset \<open>j\<close>.\<close>

definition scan_tail :: "string \<Rightarrow> nat \<Rightarrow> uri_state_e \<Rightarrow> uri_ranges \<Rightarrow> (uri_state_e \<times> uri_ranges) option" where
  "scan_tail s j st r =
     (if drop j s = [] then Some (st, r)
      else if hd (drop j s) = CHR ''/'' \<and> list_all path_char (drop j s)
        then Some (URI_PATH, r\<lparr>path_r := \<lparr>range_begin = Some j, range_end = Some (length s + 1)\<rparr>\<rparr>)
        else None)"

lemma enter_path_at: "i < length s \<Longrightarrow> enter_path s i st r =
    Some (Some (if drop (Suc i) s \<noteq> [] \<and> hd (drop (Suc i) s) = CHR ''/''
      then (i, URI_PATH, r\<lparr>path_r := \<lparr>range_begin = Some (i + 1), range_end = Some (length s + 1)\<rparr>\<rparr>)
      else (i, st, r)))"
  by (simp add: enter_path_def looking_at_char)

lemma takeWhile_drop_Cons: "i < length s \<Longrightarrow> P (s ! i) \<Longrightarrow> takeWhile P (drop i s) = s ! i # takeWhile P (drop (Suc i) s)"
  by (simp add: drop_Cons_nth)

lemma uri_scan_port:
  "i \<le> length s \<Longrightarrow> d = takeWhile isdigit (drop i s) \<Longrightarrow>
    uri_scan s i URI_PORT r =
      Some (if d = [] then (if drop i s = [] then Some (URI_PORT, r) else None)
        else scan_tail s (i + length d) URI_PORT (r\<lparr>port_r := (port_r r)\<lparr>range_end := Some (i + length d - 1)\<rparr>\<rparr>))"
proof (induction "length s - i" arbitrary: i d r)
  case 0
  then show ?case by (simp add: uri_scan_end)
next
  case (Suc n)
  then have i: "i < length s" by simp
  show ?case
  proof (cases "isdigit (s ! i)")
    case False
    with i Suc.prems show ?thesis
      by (subst uri_scan.simps) (simp add: uri_step_def port_step_def drop_Cons_nth)
  next
    case True
    let ?r = "r\<lparr>port_r := (port_r r)\<lparr>range_end := Some i\<rparr>\<rparr>"
    let ?d = "takeWhile isdigit (drop (Suc i) s)"
    have d: "d = s ! i # ?d" using Suc.prems True i by (simp add: takeWhile_drop_Cons)
    have step: "uri_step s i URI_PORT r = enter_path s i URI_PORT ?r"
      using True by (simp add: uri_step_def port_step_def)
    show ?thesis
    proof (cases "drop (Suc i) s \<noteq> [] \<and> hd (drop (Suc i) s) = CHR ''/''")
      case slash: True
      then have "?d = []" by (cases "drop (Suc i) s") auto
      with slash d i show ?thesis
        by (subst uri_scan.simps) (simp add: step enter_path_at uri_scan_path scan_tail_def)
    next
      case False
      from Suc.hyps(1) [of "Suc i" ?d ?r] Suc.hyps(2) i
      have "uri_scan s (Suc i) URI_PORT ?r = Some (if ?d = [] then (if drop (Suc i) s = [] then Some (URI_PORT, ?r) else None)
        else scan_tail s (Suc i + length ?d) URI_PORT (r\<lparr>port_r := (port_r r)\<lparr>range_end := Some (i + length ?d)\<rparr>\<rparr>))"
        by simp
      with False d i show ?thesis
        by (subst uri_scan.simps) (auto simp: step enter_path_at scan_tail_def)
    qed
  qed
qed

text \<open>Behind the colon; the colon is at offset \<open>i\<close>.\<close>

definition port_scanned :: "nat \<Rightarrow> string \<Rightarrow> uri_ranges \<Rightarrow> uri_ranges" where
  "port_scanned i d r = (if d = [] then r else r\<lparr>port_r := (port_r r)\<lparr>range_end := Some (i + length d)\<rparr>\<rparr>)"

lemma uri_scan_colon:
  assumes "i < length s"
  shows "(case enter_path s i URI_PORT r of None \<Rightarrow> None | Some None \<Rightarrow> Some None
      | Some (Some (i', st', r')) \<Rightarrow> uri_scan s (Suc i') st' r') =
    Some (let d = takeWhile isdigit (drop (Suc i) s)
      in scan_tail s (Suc i + length d) URI_PORT (port_scanned i d r))"
proof (cases "drop (Suc i) s \<noteq> [] \<and> hd (drop (Suc i) s) = CHR ''/''")
  case True
  then have "takeWhile isdigit (drop (Suc i) s) = []" by (cases "drop (Suc i) s") auto
  with True assms show ?thesis
    by (simp add: enter_path_at uri_scan_path scan_tail_def port_scanned_def)
next
  case False
  with assms show ?thesis
    by (auto simp: enter_path_at uri_scan_port scan_tail_def port_scanned_def Let_def)
qed

text \<open>Behind the host, at offset \<open>j\<close>.\<close>

definition host_tail :: "string \<Rightarrow> nat \<Rightarrow> uri_ranges \<Rightarrow> (uri_state_e \<times> uri_ranges) option" where
  "host_tail s j r =
     (if drop j s \<noteq> [] \<and> hd (drop j s) = CHR '':'' then
        let d = takeWhile isdigit (drop (Suc j) s)
        in scan_tail s (Suc j + length d) URI_PORT
             (port_scanned j d (r\<lparr>port_r := (port_r r)\<lparr>range_begin := Some (Suc j)\<rparr>\<rparr>))
      else scan_tail s j URI_HOST r)"

lemma uri_scan_host_step:
  fixes r :: uri_ranges
  assumes "i < length s" and "host_char (s ! i)"
  defines "r' \<equiv> r\<lparr>host_r := (host_r r)\<lparr>range_end := Some i\<rparr>\<rparr>"
  shows "uri_scan s i URI_HOST r =
    (if drop (Suc i) s \<noteq> [] \<and> hd (drop (Suc i) s) \<notin> {CHR '':'', CHR ''/''} then uri_scan s (Suc i) URI_HOST r'
     else Some (host_tail s (Suc i) r'))"
proof -
  have la: "looking_at '':'' s (Suc i) = Some (drop (Suc i) s \<noteq> [] \<and> hd (drop (Suc i) s) = CHR '':'')"
    using assms(1) by (intro looking_at_char) simp_all
  consider (colon) "drop (Suc i) s \<noteq> []" "hd (drop (Suc i) s) = CHR '':''"
    | (slash) "drop (Suc i) s \<noteq> []" "hd (drop (Suc i) s) = CHR ''/''"
    | (last) "drop (Suc i) s = []"
    | (other) "drop (Suc i) s \<noteq> []" "hd (drop (Suc i) s) \<notin> {CHR '':'', CHR ''/''}" by blast
  then show ?thesis
  proof cases
    case colon
    then have "uri_scan s i URI_HOST r =
        (case enter_path s (Suc i) URI_PORT (r'\<lparr>port_r := (port_r r')\<lparr>range_begin := Some (Suc (Suc i))\<rparr>\<rparr>) of
           None \<Rightarrow> None | Some None \<Rightarrow> Some None
         | Some (Some (i', st', r')) \<Rightarrow> uri_scan s (Suc i') st' r')"
      using assms(1,2) la unfolding r'_def
      by (subst uri_scan.simps) (simp add: uri_step_def host_step_def Let_def)
    also have "\<dots> = Some (host_tail s (Suc i) r')"
      using colon by (subst uri_scan_colon) (simp_all add: host_tail_def Let_def)
    finally show ?thesis using colon by simp
  next
    case slash
    with assms la show ?thesis
      by (subst uri_scan.simps)
        (simp add: uri_step_def host_step_def enter_path_at uri_scan_path host_tail_def scan_tail_def Let_def)
  next
    case last
    with assms la show ?thesis
      by (subst uri_scan.simps)
        (simp add: uri_step_def host_step_def enter_path_at uri_scan_end host_tail_def scan_tail_def Let_def)
  next
    case other
    with assms la show ?thesis
      by (subst uri_scan.simps) (simp add: uri_step_def host_step_def enter_path_at Let_def)
  qed
qed

lemma uri_scan_host:
  "i \<le> length s \<Longrightarrow> h = takeWhile host_char (drop i s) \<Longrightarrow>
    uri_scan s i URI_HOST r =
      Some (if h = [] then (if drop i s = [] then Some (URI_HOST, r) else None)
        else host_tail s (i + length h) (r\<lparr>host_r := (host_r r)\<lparr>range_end := Some (i + length h - 1)\<rparr>\<rparr>))"
proof (induction "length s - i" arbitrary: i h r)
  case 0
  then show ?case by (simp add: uri_scan_end)
next
  case (Suc n)
  then have i: "i < length s" by simp
  show ?case
  proof (cases "host_char (s ! i)")
    case False
    with i Suc.prems show ?thesis
      by (subst uri_scan.simps) (simp add: uri_step_def host_step_def drop_Cons_nth)
  next
    case True
    let ?r = "r\<lparr>host_r := (host_r r)\<lparr>range_end := Some i\<rparr>\<rparr>"
    let ?h = "takeWhile host_char (drop (Suc i) s)"
    have h: "h = s ! i # ?h" using Suc.prems True i by (simp add: takeWhile_drop_Cons)
    from Suc.hyps(1) [of "Suc i" ?h ?r] Suc.hyps(2) i
    have IH: "uri_scan s (Suc i) URI_HOST ?r =
      Some (if ?h = [] then (if drop (Suc i) s = [] then Some (URI_HOST, ?r) else None)
        else host_tail s (Suc i + length ?h) (r\<lparr>host_r := (host_r r)\<lparr>range_end := Some (i + length ?h)\<rparr>\<rparr>))"
      by simp
    show ?thesis
    proof (cases "drop (Suc i) s \<noteq> [] \<and> hd (drop (Suc i) s) \<notin> {CHR '':'', CHR ''/''}")
      case other: True
      then have "host_tail s (Suc i) ?r = None" by (simp add: host_tail_def scan_tail_def)
      with uri_scan_host_step [OF i True, of r] other IH h show ?thesis by auto
    next
      case False
      then have "?h = []" by (cases "drop (Suc i) s") auto
      with uri_scan_host_step [OF i True, of r] False h show ?thesis by auto
    qed
  qed
qed

lemma uri_scan_scheme:
  "i \<le> length s \<Longrightarrow> h = takeWhile scheme_char (drop i s) \<Longrightarrow>
    uri_scan s i URI_SCHEME_LOOP r =
      (if h \<noteq> [] \<and> take 3 (drop (i + length h) s) = ''://'' then
         uri_scan s (i + length h + 3) URI_HOST
           (r\<lparr>scheme_r := (scheme_r r)\<lparr>range_end := Some (i + length h - 1)\<rparr>,
              host_r := (host_r r)\<lparr>range_begin := Some (i + length h + 3)\<rparr>\<rparr>)
       else Some (if drop (i + length h) s = [] then Some (URI_SCHEME_LOOP, r) else None))"
proof (induction "length s - i" arbitrary: i h r)
  case 0
  then show ?case by (simp add: uri_scan_end)
next
  case (Suc n)
  then have i: "i < length s" by simp
  show ?case
  proof (cases "scheme_char (s ! i)")
    case False
    with i Suc.prems show ?thesis
      by (subst uri_scan.simps) (simp add: uri_step_def scheme_step_def drop_Cons_nth)
  next
    case True
    let ?h = "takeWhile scheme_char (drop (Suc i) s)"
    have h: "h = s ! i # ?h" using Suc.prems True i by (simp add: takeWhile_drop_Cons)
    have la: "looking_at ''://'' s (Suc i) = Some (take 3 (drop (Suc i) s) = ''://'')"
      using i by (subst looking_at_take) (simp_all add: numeral_3_eq_3)
    show ?thesis
    proof (cases "take 3 (drop (Suc i) s) = ''://''")
      case sep: True
      then have "?h = []" by (cases "drop (Suc i) s") auto
      with sep h i True la show ?thesis
        by (subst uri_scan.simps) (simp add: uri_step_def scheme_step_def add.commute)
    next
      case False
      from Suc.hyps(1) [of "Suc i" ?h r] Suc.hyps(2) i
      have IH: "uri_scan s (Suc i) URI_SCHEME_LOOP r =
        (if ?h \<noteq> [] \<and> take 3 (drop (Suc i + length ?h) s) = ''://'' then
           uri_scan s (Suc i + length ?h + 3) URI_HOST
             (r\<lparr>scheme_r := (scheme_r r)\<lparr>range_end := Some (Suc i + length ?h - 1)\<rparr>,
                host_r := (host_r r)\<lparr>range_begin := Some (Suc i + length ?h + 3)\<rparr>\<rparr>)
         else Some (if drop (Suc i + length ?h) s = [] then Some (URI_SCHEME_LOOP, r) else None))"
        by simp
      have "uri_scan s i URI_SCHEME_LOOP r = uri_scan s (Suc i) URI_SCHEME_LOOP r"
        using False i True la by (subst uri_scan.simps) (simp add: uri_step_def scheme_step_def)
      with IH False h show ?thesis by (cases "?h = []") auto
    qed
  qed
qed

section \<open>The whole parser\<close>

lemma drop_takeWhile: "drop (length (takeWhile P s)) s = dropWhile P s"
  by (simp add: dropWhile_eq_drop)

lemma drop_takeWhile_at: "drop (i + length (takeWhile P (drop i s))) s = dropWhile P (drop i s)"
  by (metis add.commute drop_drop drop_takeWhile)

lemma slice_takeWhile: "0 < length (takeWhile P (drop i s)) \<Longrightarrow>
    slice s i (i + length (takeWhile P (drop i s)) - 1 + 1) = takeWhile P (drop i s)"
  by (simp add: slice_def takeWhile_eq_take [symmetric])

lemma isalpha_scheme: "isalpha c \<Longrightarrow> scheme_char c"
  by (simp add: scheme_char_def isalnum_def)

lemma strtol_digits: "t = [] \<or> \<not> isdigit (hd t) \<Longrightarrow> strtol (takeWhile isdigit d @ t) = strtol (takeWhile isdigit d)"
proof -
  assume "t = [] \<or> \<not> isdigit (hd t)"
  then have "takeWhile isdigit t = []" by (cases t) auto
  then have "takeWhile isdigit (takeWhile isdigit d @ t) = takeWhile isdigit d"
    by (subst takeWhile_append2) (auto dest: set_takeWhileD)
  then show ?thesis by (simp add: strtol_def dec_value_def)
qed

text \<open>The end of the parser on the outcome of the last part.\<close>

definition or_slash :: "string \<Rightarrow> string" where
  "or_slash t = (if t = [] then ''/'' else t)"

lemma finish_tail:
  assumes "scheme_r r = \<lparr>range_begin = Some sb, range_end = Some se\<rparr>"
    and "host_r r = \<lparr>range_begin = Some hb, range_end = Some he\<rparr>" and "path_r r = no_range"
    and "st = URI_HOST \<or> st = URI_PORT" and "j \<le> length s"
  shows "(case scan_tail s j st r of
            None \<Rightarrow> (E_BAD_ARGS, u, w)
          | Some (st, r) \<Rightarrow> if st = URI_SCHEME_START \<or> st = URI_SCHEME_LOOP then (E_BAD_ARGS, u, w)
                           else finish_uri_info s r u w) =
    (if tail_ok (drop j s) then
       fill_uri_info (slice s sb (se + 1)) (slice s hb (he + 1))
         (case (range_begin (port_r r), range_end (port_r r)) of (Some pb, Some pe) \<Rightarrow> Some (drop pb s) | _ \<Rightarrow> None)
         (or_slash (drop j s)) u w
     else (E_BAD_ARGS, u, w))"
proof -
  have "st \<noteq> URI_SCHEME_START" "st \<noteq> URI_SCHEME_LOOP" using assms(4) by auto
  with assms show ?thesis
    by (auto simp: scan_tail_def tail_ok_def or_slash_def finish_uri_info_def no_range_def slice_def Let_def)
qed


lemma fill_uri_info_port:
  "strtol p = strtol p' \<Longrightarrow> fill_uri_info sc h (Some p) pa u w = fill_uri_info sc h (Some p') pa u w"
  by (simp add: fill_uri_info_def Let_def split: prod.splits)

text \<open>The scan up to the end of the host.\<close>

definition uri_to_host :: "string \<Rightarrow> string \<Rightarrow> uri_ranges" where
  "uri_to_host sc h =
     \<lparr>scheme_r = \<lparr>range_begin = Some 0, range_end = Some (length sc - 1)\<rparr>,
      host_r = \<lparr>range_begin = Some (length sc + 3),
                range_end = (if h = [] then None else Some (length sc + 3 + length h - 1))\<rparr>,
      port_r = no_range, path_r = no_range\<rparr>"

definition head_ok :: "string \<Rightarrow> bool" where
  "head_ok s \<longleftrightarrow> s \<noteq> [] \<and> isalpha (hd s) \<and> take 3 (dropWhile scheme_char s) = ''://''"

definition rejected :: "(uri_state_e \<times> uri_ranges) option \<Rightarrow> bool" where
  "rejected x \<longleftrightarrow>
     (case x of None \<Rightarrow> True
      | Some (st, r) \<Rightarrow> st = URI_SCHEME_START \<or> st = URI_SCHEME_LOOP \<or> range_end (host_r r) = None)"

lemma uri_scan_first:
  "s \<noteq> [] \<Longrightarrow> isalpha (hd s) \<Longrightarrow> uri_scan s 0 URI_SCHEME_START no_ranges =
    uri_scan s 0 URI_SCHEME_LOOP (no_ranges\<lparr>scheme_r := \<lparr>range_begin = Some 0, range_end = None\<rparr>\<rparr>)"
  by (cases s, simp, subst (1 2) uri_scan.simps) (simp add: uri_step_def no_ranges_def no_range_def)

lemma uri_scan_no_head:
  assumes "\<not> head_ok s"
  shows "\<exists>x. uri_scan s 0 URI_SCHEME_START no_ranges = Some x \<and> rejected x"
proof -
  consider (empty) "s = []" | (first) "s \<noteq> []" "\<not> isalpha (hd s)"
    | (sep) "s \<noteq> []" "isalpha (hd s)" "take 3 (dropWhile scheme_char s) \<noteq> ''://''"
    using assms by (auto simp: head_ok_def)
  then show ?thesis
  proof cases
    case empty
    then show ?thesis by (simp add: uri_scan_end rejected_def)
  next
    case first
    then have "uri_scan s 0 URI_SCHEME_START no_ranges = Some None"
      by (cases s, simp, subst uri_scan.simps) (simp add: uri_step_def)
    then show ?thesis by (simp add: rejected_def)
  next
    case sep
    then show ?thesis
      using uri_scan_scheme [OF _ refl, of 0 s]
      by (simp add: uri_scan_first drop_takeWhile rejected_def del: dropWhile_eq_Nil_conv)
  qed
qed

lemma head_length:
  assumes "head_ok s"
  shows "length (takeWhile scheme_char s) + 3 \<le> length s"
proof -
  have "length (take 3 (dropWhile scheme_char s)) = 3" using assms by (simp add: head_ok_def)
  then have "3 \<le> length (dropWhile scheme_char s)" by simp
  moreover have "length s = length (takeWhile scheme_char s) + length (dropWhile scheme_char s)"
    by (metis length_append takeWhile_dropWhile_id)
  ultimately show ?thesis by simp
qed

lemma head_drop: "drop (length (takeWhile scheme_char s) + 3) s = drop 3 (dropWhile scheme_char s)"
  by (metis add.commute drop_drop drop_takeWhile)

lemma uri_scan_head:
  assumes "head_ok s"
  defines "sc \<equiv> takeWhile scheme_char s" and "h \<equiv> takeWhile host_char (drop 3 (dropWhile scheme_char s))"
  shows "uri_scan s 0 URI_SCHEME_START no_ranges =
    Some (if h = [] then (if drop 3 (dropWhile scheme_char s) = [] then Some (URI_HOST, uri_to_host sc h) else None)
      else host_tail s (length sc + 3 + length h) (uri_to_host sc h))"
proof -
  from assms(1) have 1: "s \<noteq> []" "isalpha (hd s)" "sc \<noteq> []" and 2: "take 3 (dropWhile scheme_char s) = ''://''"
    unfolding sc_def head_ok_def by (cases s; simp add: isalpha_scheme)+
  let ?r = "uri_to_host sc []"
  have "uri_scan s 0 URI_SCHEME_START no_ranges = uri_scan s (length sc + 3) URI_HOST ?r"
    using 1 2 uri_scan_scheme [OF _ refl, of 0 s] head_length [OF assms(1)]
    by (simp add: uri_scan_first drop_takeWhile sc_def [symmetric])
      (simp add: sc_def drop_takeWhile uri_to_host_def no_ranges_def no_range_def)
  also have "\<dots> = Some (if h = [] then (if drop 3 (dropWhile scheme_char s) = [] then Some (URI_HOST, ?r) else None)
      else host_tail s (length sc + 3 + length h)
        (?r\<lparr>host_r := (host_r ?r)\<lparr>range_end := Some (length sc + 3 + length h - 1)\<rparr>\<rparr>))"
    using uri_scan_host [OF head_length [OF assms(1), folded sc_def], of h ?r]
    by (simp add: sc_def h_def head_drop)
  also have "h \<noteq> [] \<longrightarrow> ?r\<lparr>host_r := (host_r ?r)\<lparr>range_end := Some (length sc + 3 + length h - 1)\<rparr>\<rparr> = uri_to_host sc h"
    by (simp add: uri_to_host_def)
  ultimately show ?thesis by auto
qed

definition result_of ::
    "string \<Rightarrow> artik_uri_info \<Rightarrow> world \<Rightarrow> (uri_state_e \<times> uri_ranges) option \<Rightarrow> artik_error \<times> artik_uri_info \<times> world" where
  "result_of s u w x =
     (case x of
        None \<Rightarrow> (E_BAD_ARGS, u, w)
      | Some (st, r) \<Rightarrow> if st = URI_SCHEME_START \<or> st = URI_SCHEME_LOOP then (E_BAD_ARGS, u, w)
                       else finish_uri_info s r u w)"

lemma result_of_scan:
  "uri_scan s 0 URI_SCHEME_START no_ranges = Some x \<Longrightarrow> tizen_os_get_uri_info u s w = Some (result_of s u w x)"
  by (simp add: tizen_os_get_uri_info_def result_of_def split: option.splits prod.splits)

lemma result_of_rejected: "rejected x \<Longrightarrow> result_of s u w x = (E_BAD_ARGS, u, w)"
  by (auto simp: result_of_def rejected_def finish_uri_info_def split: option.splits prod.splits)

text \<open>The port as the function uses it.\<close>

definition given_port :: "string \<Rightarrow> string option" where
  "given_port d = (if d = [] then None else Some d)"

lemma result_of_host_tail:
  assumes "j \<le> length s" and "h \<noteq> []" and "j = length sc + 3 + length h"
  defines "t \<equiv> drop j s"
  defines "colon \<equiv> t \<noteq> [] \<and> hd t = CHR '':''"
  defines "d \<equiv> if colon then takeWhile isdigit (tl t) else []"
  defines "p \<equiv> if colon then dropWhile isdigit (tl t) else t"
  shows "result_of s u w (host_tail s j (uri_to_host sc h)) =
    (if tail_ok p then
       fill_uri_info (slice s 0 (length sc - 1 + 1)) (slice s (length sc + 3) (length sc + 3 + length h - 1 + 1))
         (given_port d) (or_slash p) u w
     else (E_BAD_ARGS, u, w))"
proof (cases colon)
  case False
  then have "host_tail s j (uri_to_host sc h) = scan_tail s j URI_HOST (uri_to_host sc h)"
    by (auto simp: host_tail_def colon_def t_def simp del: drop_eq_Nil2 drop_eq_Nil)
  with finish_tail [of "uri_to_host sc h" 0 "length sc - 1" "length sc + 3" "length sc + 3 + length h - 1" URI_HOST j s u w]
    False assms(1,2)
  show ?thesis
    by (simp add: result_of_def uri_to_host_def d_def p_def t_def given_port_def no_range_def)
next
  case True
  let ?r = "(uri_to_host sc h)\<lparr>port_r := (port_r (uri_to_host sc h))\<lparr>range_begin := Some (Suc j)\<rparr>\<rparr>"
  have j: "j < length s" "tl t = drop (Suc j) s" using True by (auto simp: colon_def t_def drop_Suc tl_drop)
  then have p: "drop (Suc j + length d) s = p" "d = takeWhile isdigit (drop (Suc j) s)"
    using True by (simp_all add: p_def d_def drop_takeWhile_at del: add_Suc)
  have le: "Suc j + length d \<le> length s"
    using j(1) length_takeWhile_le [of isdigit "drop (Suc j) s"] p(2) by simp
  have tail: "host_tail s j (uri_to_host sc h) = scan_tail s (Suc j + length d) URI_PORT (port_scanned j d ?r)"
    using True p(2) by (simp add: host_tail_def colon_def t_def Let_def)
  have "tail_ok p \<Longrightarrow> d \<noteq> [] \<Longrightarrow> strtol (drop (Suc j) s) = strtol d"
  proof -
    assume "tail_ok p" "d \<noteq> []"
    then have "p = [] \<or> \<not> isdigit (hd p)" by (auto simp: tail_ok_def)
    moreover have "drop (Suc j) s = d @ p" using True j(2) by (simp add: d_def p_def)
    ultimately show ?thesis using p(2) strtol_digits [of p "drop (Suc j) s"] by simp
  qed
  note st = fill_uri_info_port [OF this]
  let ?R = "port_scanned j d ?r"
  have R: "scheme_r ?R = \<lparr>range_begin = Some 0, range_end = Some (length sc - 1)\<rparr>"
    "host_r ?R = \<lparr>range_begin = Some (length sc + 3), range_end = Some (length sc + 3 + length h - 1)\<rparr>"
    "path_r ?R = no_range" "range_begin (port_r ?R) = Some (Suc j)"
    "range_end (port_r ?R) = (if d = [] then None else Some (j + length d))"
    using assms(2) by (simp_all add: port_scanned_def uri_to_host_def no_range_def)
  show ?thesis
    unfolding result_of_def tail
    by (subst finish_tail [OF R(1,2,3) _ le]) (auto simp: R(4,5) p(1) given_port_def intro!: st simp del: add_Suc)
qed

lemma tizen_os_get_uri_info_descent:
  "tizen_os_get_uri_info u s w =
    Some (case uri_descent s of
      None \<Rightarrow> (E_BAD_ARGS, u, w)
    | Some (scheme, host, port, path) \<Rightarrow> fill_uri_info scheme host (given_port port) (or_slash path) u w)"
proof (cases "head_ok s")
  case False
  then have "uri_descent s = None" by (cases s) (auto simp: uri_descent_def head_ok_def Let_def split: if_splits)
  with uri_scan_no_head [OF False] show ?thesis
    by (auto simp: result_of_scan result_of_rejected)
next
  case True
  define sc where "sc = takeWhile scheme_char s"
  define h where "h = takeWhile host_char (drop 3 (dropWhile scheme_char s))"
  have sc: "sc \<noteq> []" "isalpha (hd sc)" "take 3 (dropWhile scheme_char s) = ''://''"
    using True unfolding sc_def head_ok_def by (cases s; simp add: isalpha_scheme)+
  show ?thesis
  proof (cases "h = []")
    case h: True
    then have "uri_descent s = None" by (simp add: uri_descent_def Let_def h_def split: prod.splits)
    moreover have "rejected (if drop 3 (dropWhile scheme_char s) = [] then Some (URI_HOST, uri_to_host sc h) else None)"
      using h by (simp add: rejected_def uri_to_host_def)
    ultimately show ?thesis
      using uri_scan_head [OF True] h by (simp only: sc_def h_def simp_thms if_True result_of_scan result_of_rejected option.case)
  next
    case False
    let ?j = "length sc + 3 + length h"
    define t where "t = dropWhile host_char (drop 3 (dropWhile scheme_char s))"
    have d: "drop ?j s = t"
      using drop_takeWhile_at [of "length sc + 3" host_char s] by (simp add: sc_def h_def t_def head_drop)
    have le: "?j \<le> length s"
      using head_length [OF True] length_takeWhile_le [of host_char "drop (length sc + 3) s"]
      by (simp add: sc_def h_def head_drop [symmetric])
    have sl: "slice s 0 (length sc - 1 + 1) = sc" "slice s (length sc + 3) (length sc + 3 + length h - 1 + 1) = h"
      using sc(1) False slice_takeWhile [of scheme_char 0 s] slice_takeWhile [of host_char "length sc + 3" s]
      by (simp_all add: sc_def h_def head_drop)
    have "uri_scan s 0 URI_SCHEME_START no_ranges = Some (host_tail s ?j (uri_to_host sc h))"
      using uri_scan_head [OF True] False by (simp add: sc_def h_def)
    moreover have "uri_descent s =
        (let (port, t) = (if t \<noteq> [] \<and> hd t = CHR '':'' then (takeWhile isdigit (tl t), dropWhile isdigit (tl t))
                         else ([], t))
         in if tail_ok t then Some (sc, h, port, t) else None)"
      using sc False unfolding uri_descent_def Let_def sc_def [symmetric] h_def [symmetric] t_def [symmetric]
      by (simp split: prod.split)
    ultimately show ?thesis
      by (simp only: result_of_scan result_of_host_tail [OF le False refl] d sl Let_def split: if_split)
        (simp split: if_split)
  qed
qed

section \<open>Memory\<close>

text \<open>The blocks a text and a structure hold.\<close>

definition held_string :: "cstring \<Rightarrow> addr \<Rightarrow> int" where
  "held_string s x = (if fst s \<noteq> 0 \<and> fst s = x then 1 else 0)"

definition held_info :: "artik_uri_info \<Rightarrow> addr \<Rightarrow> int" where
  "held_info u x = held_string (uri_scheme u) x + held_string (uri_hostname u) x + held_string (uri_path u) x"

lemma blocks_dup_string: "dup_string t w = (s, w') \<Longrightarrow> blocks w' = (\<lambda>x. blocks w x + held_string s x)"
  by (auto simp: dup_string_def held_string_def dest!: blocks_local_malloc split: prod.splits)

lemma blocks_free_string: "blocks (free_string s w) = (\<lambda>x. blocks w x - held_string s x)"
  by (auto simp: free_string_def held_string_def)

lemma blocks_free_strings: "blocks (free_strings u w) = (\<lambda>x. blocks w x - held_info u x)"
  by (auto simp: free_strings_def blocks_free_string held_info_def)

lemma dup_string_text: "dup_string t w = (s, w') \<Longrightarrow> fst s \<noteq> 0 \<Longrightarrow> snd s = t"
  by (auto simp: dup_string_def split: prod.splits)

lemma fill_uri_info_blocks:
  "fill_uri_info sc h p pa u w = (e, u', w') \<Longrightarrow>
    blocks w' = (if e = S_OK then (\<lambda>x. blocks w x + held_info u' x) else blocks w)"
proof -
  assume r: "fill_uri_info sc h p pa u w = (e, u', w')"
  obtain a wa b wb c wc where d: "dup_string sc w = (a, wa)" "dup_string h wa = (b, wb)" "dup_string pa wb = (c, wc)"
    by (metis surj_pair)
  let ?u = "u\<lparr>uri_scheme := a, uri_hostname := b, uri_path := c\<rparr>"
  have wc: "blocks wc = (\<lambda>x. blocks w x + held_info ?u x)"
    using d [THEN blocks_dup_string] by (simp add: held_info_def add.assoc)
  have port: "held_info (?u\<lparr>uri_port := q\<rparr>) = held_info ?u" for q by (simp add: held_info_def fun_eq_iff)
  from r d show ?thesis
    using wc port by (auto simp: fill_uri_info_def Let_def blocks_free_strings split: if_splits option.splits)
qed

text \<open>
  Every call returns, and gives its blocks to the structure when it succeeds and to nobody when
  it fails.
\<close>

lemma get_uri_info_blocks:
  "\<exists>e u' w'. get_uri_info (Some u) (Some s) w = Some (e, Some u', w') \<and>
    blocks w' = (if e = S_OK then (\<lambda>x. blocks w x + held_info u' x) else blocks w)"
proof (cases "uri_descent s")
  case None
  then show ?thesis by (simp add: get_uri_info_def tizen_os_get_uri_info_descent)
next
  case (Some parts)
  obtain sc h d p where p: "parts = (sc, h, d, p)" by (metis surj_pair)
  obtain e u' w' where f: "fill_uri_info sc h (given_port d) (or_slash p) u w = (e, u', w')" by (metis surj_pair)
  from Some p f fill_uri_info_blocks [OF f] show ?thesis
    by (simp add: get_uri_info_def tizen_os_get_uri_info_descent)
qed

section \<open>Printing\<close>

definition uri_text :: "string \<Rightarrow> string \<Rightarrow> nat option \<Rightarrow> string \<Rightarrow> string" where
  "uri_text scheme host port path = scheme @ ''://'' @ host @ port_text port @ path"

definition uri_wf :: "string \<Rightarrow> string \<Rightarrow> nat option \<Rightarrow> string \<Rightarrow> bool" where
  "uri_wf scheme host port path \<longleftrightarrow>
     scheme \<noteq> [] \<and> isalpha (hd scheme) \<and> list_all scheme_char scheme \<and> host \<noteq> [] \<and> list_all host_char host \<and>
     (case port of None \<Rightarrow> True | Some n \<Rightarrow> 1 < n \<and> n < 65535) \<and> tail_ok path"

definition digits_of :: "nat option \<Rightarrow> string" where
  "digits_of port = (case port of None \<Rightarrow> [] | Some n \<Rightarrow> dec_nat n)"

lemma takeWhile_append_stop:
  "list_all P xs \<Longrightarrow> ys = [] \<or> \<not> P (hd ys) \<Longrightarrow> takeWhile P (xs @ ys) = xs \<and> dropWhile P (xs @ ys) = ys"
  by (induction xs) (cases ys; auto)+

lemma uri_descent_text:
  assumes "uri_wf sc h port path"
  shows "uri_descent (uri_text sc h port path) = Some (sc, h, digits_of port, path)"
proof -
  let ?rest = "port_text port @ path"
  have rest: "?rest = [] \<or> \<not> host_char (hd ?rest)"
    using assms by (auto simp: uri_wf_def tail_ok_def port_text_def hd_append split: option.splits)
  have sc: "takeWhile scheme_char (uri_text sc h port path) = sc \<and>
      dropWhile scheme_char (uri_text sc h port path) = ''://'' @ h @ ?rest"
    unfolding uri_text_def using assms by (intro takeWhile_append_stop) (simp_all add: uri_wf_def)
  have h: "takeWhile host_char (h @ ?rest) = h \<and> dropWhile host_char (h @ ?rest) = ?rest"
    using assms rest by (intro takeWhile_append_stop) (simp_all add: uri_wf_def)
  have d: "takeWhile isdigit (dec_nat n @ path) = dec_nat n \<and> dropWhile isdigit (dec_nat n @ path) = path" for n
    using assms dec_nat_digits [of n]
    by (intro takeWhile_append_stop) (auto simp: uri_wf_def tail_ok_def list_all_iff)
  have colon: "path \<noteq> [] \<Longrightarrow> hd path \<noteq> CHR '':''" using assms by (auto simp: uri_wf_def tail_ok_def)
  show ?thesis
    unfolding uri_descent_def using sc h assms colon d
    by (cases port) (auto simp: uri_wf_def port_text_def digits_of_def Let_def)
qed

lemma dec_value_dec_nat: "dec_value (dec_nat n) = n"
proof -
  have all: "takeWhile isdigit (dec_nat m) = dec_nat m" for m
    using dec_nat_digits [of m] by (intro takeWhile_eq_all_conv [THEN iffD2]) simp
  show ?thesis
  proof (induction n rule: dec_nat.induct)
    case (1 n)
    then show ?case unfolding dec_value_def all
      by (cases "n < 10"; subst dec_nat.simps) (simp_all add: of_char_digit)
  qed
qed

section \<open>Properties\<close>

definition three_mallocs :: "world \<Rightarrow> bool" where
  "three_mallocs w \<longleftrightarrow>
     0 < result w (length (trace w)) \<and> 0 < result w (length (trace w) + 1) \<and> 0 < result w (length (trace w) + 2)"

definition info_texts :: "artik_uri_info \<Rightarrow> string \<times> string \<times> int \<times> string" where
  "info_texts u = (snd (uri_scheme u), snd (uri_hostname u), uri_port u, snd (uri_path u))"

lemma dup_string_result:
  "dup_string t w = (s, w') \<Longrightarrow>
    (fst s = 0 \<longleftrightarrow> result w (length (trace w)) \<le> 0) \<and> result w' = result w \<and> length (trace w') = length (trace w) + 1"
  by (auto simp: dup_string_def local_malloc_def sys_def Let_def split: prod.splits if_splits)

lemma fill_uri_info_texts:
  assumes "case p of None \<Rightarrow> True | Some d \<Rightarrow> PORT_MIN < strtol d \<and> strtol d < PORT_MAX"
  shows "\<exists>e u' w'. fill_uri_info sc h p pa u w = (e, u', w') \<and>
    (if three_mallocs w then e = S_OK \<and> info_texts u' = (sc, h, (case p of None \<Rightarrow> -1 | Some d \<Rightarrow> strtol d), pa)
     else e = E_NO_MEM)"
proof -
  obtain a wa b wb c wc where d: "dup_string sc w = (a, wa)" "dup_string h wa = (b, wb)" "dup_string pa wb = (c, wc)"
    by (metis surj_pair)
  have m: "three_mallocs w \<longleftrightarrow> fst a \<noteq> 0 \<and> fst b \<noteq> 0 \<and> fst c \<noteq> 0"
    using d [THEN dup_string_result] by (auto simp: three_mallocs_def not_le)
  from d [THEN dup_string_text] d m assms show ?thesis
    by (cases p) (auto simp: fill_uri_info_def info_texts_def Let_def)
qed

text \<open>
  C24. The state machine is the parser by recursive descent: for every text the call returns, reads
  nothing behind the terminating NUL, and has the parts, the refusals and the effects of the grammar
  scheme \<^verbatim>\<open>://\<close> host, a colon with digits or without, and a path.
\<close>

theorem tizen_uri_info_descent:
  "get_uri_info (Some u) (Some s) w =
    Some (case uri_descent s of
      None \<Rightarrow> (E_BAD_ARGS, Some u, w)
    | Some (scheme, host, port, path) \<Rightarrow>
        (case fill_uri_info scheme host (given_port port) (or_slash path) u w of (e, u', w') \<Rightarrow> (e, Some u', w')))"
  by (auto simp: get_uri_info_def tizen_os_get_uri_info_descent split: option.splits prod.splits)

text \<open>
  C14. A printed URI is read back into its parts, with the port -1 when it has none and the path
  \<^verbatim>\<open>/\<close> when it has none, and the structure's blocks are freed again by the module; where an
  allocation fails the call says so and leaks nothing.  A port is between 2 and 65534: the ports 1
  and 65535 are refused by the code.
\<close>

theorem tizen_uri_info_print:
  assumes "uri_wf scheme host port path"
  shows "\<exists>e u' w'. get_uri_info (Some u) (Some (uri_text scheme host port path)) w = Some (e, Some u', w') \<and>
    (if three_mallocs w
     then e = S_OK \<and> info_texts u' = (scheme, host, (case port of None \<Rightarrow> -1 | Some n \<Rightarrow> int n), or_slash path) \<and>
       blocks (snd (free_uri_info (Some u') w')) = blocks w
     else e = E_NO_MEM \<and> blocks w' = blocks w)"
proof -
  let ?p = "given_port (digits_of port)"
  have v: "n < 65535 \<Longrightarrow> strtol (dec_nat n) = int n" for n by (simp add: strtol_def dec_value_dec_nat)
  have ok: "case ?p of None \<Rightarrow> True | Some d \<Rightarrow> PORT_MIN < strtol d \<and> strtol d < PORT_MAX"
    and p: "(case ?p of None \<Rightarrow> -1 | Some d \<Rightarrow> strtol d) = (case port of None \<Rightarrow> -1 | Some n \<Rightarrow> int n)"
    using assms v by (auto simp: digits_of_def given_port_def uri_wf_def PORT_MIN_def PORT_MAX_def split: option.splits)
  obtain e u' w' where f: "fill_uri_info scheme host ?p (or_slash path) u w = (e, u', w')" by (metis surj_pair)
  from fill_uri_info_texts [OF ok, of scheme host "or_slash path" u w] f p fill_uri_info_blocks [OF f]
  show ?thesis
    by (auto simp: get_uri_info_def tizen_os_get_uri_info_descent uri_descent_text [OF assms] free_uri_info_def
        tizen_os_free_uri_info_def blocks_free_strings split: if_splits)
qed

definition uri_world :: world where
  "uri_world = \<lparr>result = (\<lambda>n. int n + 100), rdata = (\<lambda>_. []), out_int = (\<lambda>_. 0), module_addr = (\<lambda>_. 1),
     errno = 0, trace = []\<rparr>"

definition empty_info :: artik_uri_info where
  "empty_info = \<lparr>uri_scheme = (0, []), uri_hostname = (0, []), uri_port = 0, uri_path = (0, [])\<rparr>"

lemmas char_class = scheme_char_def host_char_def path_char_def isalnum_def isalpha_def islower_def isdigit_def

lemma tizen_uri_info_print_witness:
  "\<exists>e u' w'. get_uri_info (Some empty_info) (Some (uri_text ''wss'' ''api.host-1'' (Some 8443) ''/v1/x?a=b'')) uri_world =
      Some (e, Some u', w') \<and> e = S_OK \<and> info_texts u' = (''wss'', ''api.host-1'', 8443, ''/v1/x?a=b'') \<and>
      blocks (snd (free_uri_info (Some u') w')) = blocks uri_world"
proof -
  have "uri_wf ''wss'' ''api.host-1'' (Some 8443) ''/v1/x?a=b''"
    by (simp add: uri_wf_def tail_ok_def char_class)
  moreover have "three_mallocs uri_world" "or_slash ''/v1/x?a=b'' = ''/v1/x?a=b''"
    by (simp_all add: three_mallocs_def uri_world_def or_slash_def)
  ultimately show ?thesis
    using tizen_uri_info_print [of "''wss''" "''api.host-1''" "Some 8443" "''/v1/x?a=b''" empty_info uri_world]
    by (simp only: option.case of_nat_numeral if_True)
qed

text \<open>The first and the last port are refused.\<close>

lemma fill_uri_info_bad_port:
  assumes "three_mallocs w" and "strtol d \<le> PORT_MIN \<or> PORT_MAX \<le> strtol d"
  shows "fst (fill_uri_info sc h (Some d) pa u w) = E_BAD_ARGS"
proof -
  obtain a wa b wb c wc where d: "dup_string sc w = (a, wa)" "dup_string h wa = (b, wb)" "dup_string pa wb = (c, wc)"
    by (metis surj_pair)
  have "fst a \<noteq> 0 \<and> fst b \<noteq> 0 \<and> fst c \<noteq> 0"
    using d [THEN dup_string_result] assms(1) by (auto simp: three_mallocs_def)
  with d assms(2) show ?thesis by (simp add: fill_uri_info_def Let_def)
qed

lemma tizen_uri_info_last_port:
  assumes "three_mallocs w" and "s = ''ws://h:65535'' \<or> s = ''ws://h:1''"
  shows "map_option fst (get_uri_info (Some u) (Some s) w) = Some E_BAD_ARGS"
proof -
  have d: "uri_descent ''ws://h:65535'' = Some (''ws'', ''h'', ''65535'', [])"
    "uri_descent ''ws://h:1'' = Some (''ws'', ''h'', ''1'', [])"
    "strtol ''65535'' = 65535" "strtol ''1'' = 1"
    by (simp_all add: uri_descent_def tail_ok_def strtol_def dec_value_def char_class Let_def)
  then obtain n where n: "uri_descent s = Some (''ws'', ''h'', n, [])" "n \<noteq> []" "strtol n \<le> PORT_MIN \<or> PORT_MAX \<le> strtol n"
    using assms(2) by (auto simp: PORT_MIN_def PORT_MAX_def)
  from fill_uri_info_bad_port [OF assms(1) n(3), of "''ws''" "''h''" "or_slash []" u] n(1,2) show ?thesis
    by (simp add: get_uri_info_def tizen_os_get_uri_info_descent given_port_def split_beta)
qed

end
