(* ===== verification/Uri_Module.thy ===== *)
theory Uri_Module
  imports Uri_Parser
begin

text \<open>
  The utils module on Linux, \<^verbatim>\<open>base/utils/linux_utils.c\<close>: a compiled regular expression in a global
  variable, counted over \<^verbatim>\<open>os_get_uri_info\<close> and \<^verbatim>\<open>os_free_uri_info\<close>.  The C library's matcher is a
  parameter: \<open>re_nsub\<close> is the number of groups of the pattern, \<open>re_exec\<close> the offsets of the match and
  its groups, where there is a match.  \<open>um_compiled\<close> are the blocks that hold a compiled pattern;
  \<^term>\<open>None\<close> is a match or a release through a pointer to anything else.  The mutex is left out: calls
  are taken one after the other.
\<close>

section \<open>State\<close>

record regex_lib =
  re_nsub :: int
  re_exec :: "string \<Rightarrow> (int \<times> int) list option"

record artik_uri_t =
  preg :: addr
  nmatch :: int
  count :: int
  um_compiled :: "addr set"

definition g_uri :: artik_uri_t where
  "g_uri = \<lparr>preg = 0, nmatch = 0, count = 0, um_compiled = {}\<rparr>"

definition NUMBER_NSUB :: int where "NUMBER_NSUB = 6"
definition MAX_PORT :: int where "MAX_PORT = 65535"

section \<open>The pattern\<close>

definition free_pattern :: "artik_uri_t \<Rightarrow> world \<Rightarrow> artik_uri_t \<times> world" where
  "free_pattern g w = (g\<lparr>um_compiled := um_compiled g - {preg g}\<rparr>, local_free (preg g) w)"

text \<open>The size is that of \<^verbatim>\<open>regex_t\<close> on 64-bit glibc.  On an error the pointer stays.\<close>

definition init_uri_module :: "regex_lib \<Rightarrow> artik_uri_t \<Rightarrow> world \<Rightarrow> artik_error \<times> artik_uri_t \<times> world" where
  "init_uri_module L g w =
     (let (p, w) = local_malloc 64 w; g = g\<lparr>preg := p\<rparr> in
      if p = 0 then (E_NO_MEM, g, w)
      else
        let (err, w) = ext ''regcomp'' [int p] w in
        if err \<noteq> 0 then (E_NOT_INITIALIZED, free_pattern g w)
        else
          let g = g\<lparr>nmatch := re_nsub L + 1, um_compiled := insert p (um_compiled g)\<rparr> in
          if nmatch g \<noteq> NUMBER_NSUB then (E_NOT_INITIALIZED, free_pattern g w)
          else (S_OK, g, w))"

text \<open>\<^verbatim>\<open>regfree\<close> releases what \<^verbatim>\<open>regcomp\<close> put into the block, not the block.\<close>

definition clear_uri_module :: "artik_uri_t \<Rightarrow> world \<Rightarrow> (artik_uri_t \<times> world) option" where
  "clear_uri_module g w =
     (if preg g \<notin> um_compiled g then None
      else
        let (r, w) = ext ''regfree'' [int (preg g)] w
        in Some (g\<lparr>um_compiled := um_compiled g - {preg g}, nmatch := 0, preg := 0\<rparr>, w))"

text \<open>\<^verbatim>\<open>count--\<close>, and the release at 0.\<close>

definition put_uri_module :: "artik_uri_t \<Rightarrow> world \<Rightarrow> (artik_uri_t \<times> world) option" where
  "put_uri_module g w =
     (let g = g\<lparr>count := count g - 1\<rparr> in if count g = 0 then clear_uri_module g w else Some (g, w))"

section \<open>Parsing\<close>

definition zero_info :: artik_uri_info where
  "zero_info = \<lparr>uri_scheme = (0, []), uri_hostname = (0, []), uri_port = 0, uri_path = (0, [])\<rparr>"

text \<open>The length and the text of a group; a group that took no part is at -1.\<close>

definition group_len :: "(int \<times> int) list \<Rightarrow> nat \<Rightarrow> int" where
  "group_len m k = snd (m ! k) - fst (m ! k)"

definition group_text :: "string \<Rightarrow> (int \<times> int) list \<Rightarrow> nat \<Rightarrow> string" where
  "group_text s m k = take (nat (group_len m k)) (drop (nat (fst (m ! k))) s)"

text \<open>
  The port's group with its colon, into a buffer of six characters; \<^verbatim>\<open>strtok\<close> takes the first token
  between colons and \<^verbatim>\<open>atoi\<close> its digits.  \<^term>\<open>None\<close> is an error.
\<close>

definition parse_port :: "int \<Rightarrow> string \<Rightarrow> (int \<times> int) list \<Rightarrow> int option" where
  "parse_port default_port s m =
     (if 0 < group_len m 3 then
        if 6 \<le> group_len m 3 then None
        else
          let p = takeWhile (\<lambda>c. c \<noteq> CHR '':'') (dropWhile (\<lambda>c. c = CHR '':'') (group_text s m 3))
          in if p = [] then None else if MAX_PORT < strtol p then None else Some (strtol p)
      else Some default_port)"

text \<open>
  The allocations come first; then the texts are copied.  A failed allocation of the path returns at
  once, with the structure's blocks; a failed \<^verbatim>\<open>strdup\<close> of the slash is not noticed.
\<close>

definition parse_match :: "string \<Rightarrow> (int \<times> int) list \<Rightarrow> int \<Rightarrow> world \<Rightarrow> artik_error \<times> artik_uri_info \<times> world" where
  "parse_match s m default_port w =
     (let (a, w) = dup_string (group_text s m 1) w; u = zero_info\<lparr>uri_scheme := a\<rparr> in
      if fst a = 0 then (E_NO_MEM, u, free_strings u w)
      else
        let (b, w) = dup_string (group_text s m 2) w; u = u\<lparr>uri_hostname := b\<rparr> in
        if fst b = 0 then (E_NO_MEM, u, free_strings u w)
        else
          let (c, w) = dup_string (if 0 < group_len m 4 then group_text s m 4 else ''/'') w; u = u\<lparr>uri_path := c\<rparr> in
          if 0 < group_len m 4 \<and> fst c = 0 then (E_NO_MEM, u, w)
          else
            case parse_port default_port s m of
              None \<Rightarrow> (E_BAD_ARGS, u, free_strings u w)
            | Some n \<Rightarrow> (S_OK, u\<lparr>uri_port := n\<rparr>, w))"

definition parse_uri ::
    "regex_lib \<Rightarrow> artik_uri_t \<Rightarrow> string \<Rightarrow> int \<Rightarrow> world \<Rightarrow> (artik_error \<times> artik_uri_info \<times> world) option" where
  "parse_uri L g s default_port w =
     (if preg g \<notin> um_compiled g then None
      else
        case re_exec L s of
          None \<Rightarrow> Some (E_BAD_ARGS, zero_info, w)
        | Some m \<Rightarrow> Some (parse_match s m default_port w))"

section \<open>The operations\<close>

definition linux_os_get_uri_info ::
    "regex_lib \<Rightarrow> artik_uri_info \<Rightarrow> string \<Rightarrow> artik_uri_t \<Rightarrow> world \<Rightarrow>
      (artik_error \<times> artik_uri_info \<times> artik_uri_t \<times> world) option" where
  "linux_os_get_uri_info L u s g w =
     (let (e, g, w) = (if count g = 0
                       then (case init_uri_module L g w of (e, g, w) \<Rightarrow> (e, g\<lparr>count := count g + 1\<rparr>, w))
                       else (S_OK, g, w))
      in if e \<noteq> S_OK then Some (e, u, g, w)
         else
           case parse_uri L g s (-1) w of
             None \<Rightarrow> None
           | Some (e, u, w) \<Rightarrow>
               if e = S_OK then Some (S_OK, u, g, w)
               else map_option (\<lambda>(g, w). (e, u, g, w)) (put_uri_module g w))"

definition linux_os_free_uri_info :: "artik_uri_info \<Rightarrow> artik_uri_t \<Rightarrow> world \<Rightarrow> (artik_error \<times> artik_uri_t \<times> world) option" where
  "linux_os_free_uri_info u g w = map_option (Pair S_OK) (put_uri_module g (free_strings u w))"

text \<open>A client's use: it asks for a URI's parts and frees them when it has got them.\<close>

definition use_uri :: "regex_lib \<Rightarrow> string \<Rightarrow> artik_uri_t \<Rightarrow> world \<Rightarrow> (artik_error \<times> artik_uri_t \<times> world) option" where
  "use_uri L s g w =
     (case linux_os_get_uri_info L zero_info s g w of
        None \<Rightarrow> None
      | Some (e, u, g, w) \<Rightarrow> if e = S_OK then linux_os_free_uri_info u g w else Some (e, g, w))"

text \<open>Uses one after the other, up to the first error other than a text that is no URI.\<close>

fun use_uris :: "regex_lib \<Rightarrow> string list \<Rightarrow> artik_uri_t \<Rightarrow> world \<Rightarrow> (artik_error \<times> artik_uri_t \<times> world) option" where
  "use_uris L [] g w = Some (S_OK, g, w)"
| "use_uris L (s # ss) g w =
     (case use_uri L s g w of
        None \<Rightarrow> None
      | Some (e, g, w) \<Rightarrow> if e = S_OK \<or> e = E_BAD_ARGS then use_uris L ss g w else Some (e, g, w))"

section \<open>The states of the module\<close>

text \<open>
  Between uses the counter is 0 and there is no pattern; while a structure is out it is 1 and the
  pattern is compiled.
\<close>

definition idle :: "artik_uri_t \<Rightarrow> bool" where
  "idle g \<longleftrightarrow> count g = 0 \<and> 0 \<notin> um_compiled g"

definition ready :: "artik_uri_t \<Rightarrow> bool" where
  "ready g \<longleftrightarrow> count g = 1 \<and> preg g \<in> um_compiled g \<and> 0 \<notin> um_compiled g"

lemma idle_g_uri [simp]: "idle g_uri"
  by (simp add: idle_def g_uri_def)

lemma init_uri_module_idle:
  "init_uri_module L g w = (e, g', w') \<Longrightarrow> idle g \<Longrightarrow>
    count g' = 0 \<and> 0 \<notin> um_compiled g' \<and> (if e = S_OK then preg g' \<in> um_compiled g' else e \<noteq> E_BAD_ARGS)"
  by (auto simp: init_uri_module_def free_pattern_def idle_def Let_def split: prod.splits if_splits)

lemma put_ready: "ready g \<Longrightarrow> \<exists>g' w'. put_uri_module g w = Some (g', w') \<and> idle g' \<and> preg g' = 0"
  by (auto simp: ready_def idle_def put_uri_module_def clear_uri_module_def Let_def split: prod.splits)

lemma parse_ready:
  assumes "ready g"
  obtains e u w' where "parse_uri L g s n w = Some (e, u, w')"
proof -
  have "parse_uri L g s n w \<noteq> None"
    using assms by (cases "re_exec L s") (simp_all add: ready_def parse_uri_def)
  then obtain r where "parse_uri L g s n w = Some r" by blast
  moreover obtain e u w' where "r = (e, u, w')" by (metis surj_pair)
  ultimately show thesis using that by simp
qed

lemma get_ready:
  assumes "ready g"
  shows "\<exists>e u' g' w'. linux_os_get_uri_info L u s g w = Some (e, u', g', w') \<and> (if e = S_OK then g' = g else idle g')"
proof -
  obtain e u' w' where p: "parse_uri L g s (-1) w = Some (e, u', w')" by (rule parse_ready [OF assms])
  from put_ready [OF assms] obtain g' w'' where q: "put_uri_module g w' = Some (g', w'')" "idle g'" by blast
  from assms have "count g \<noteq> 0" by (simp add: ready_def)
  with p q show ?thesis by (cases "e = S_OK") (auto simp: linux_os_get_uri_info_def)
qed

lemma get_idle:
  assumes "idle g"
  shows "\<exists>e u' g' w'. linux_os_get_uri_info L u s g w = Some (e, u', g', w') \<and>
    (if e = S_OK then ready g' else e = E_BAD_ARGS \<longrightarrow> idle g')"
proof -
  obtain e g1 w1 where i: "init_uri_module L g w = (e, g1, w1)" by (metis surj_pair)
  note s = init_uri_module_idle [OF i assms]
  have c: "count g = 0" using assms by (simp add: idle_def)
  show ?thesis
  proof (cases "e = S_OK")
    case False
    with i c s show ?thesis by (simp add: linux_os_get_uri_info_def)
  next
    case True
    let ?g = "g1\<lparr>count := 1\<rparr>"
    have r: "ready ?g" using s True by (simp add: ready_def)
    have "linux_os_get_uri_info L u s g w = linux_os_get_uri_info L u s ?g w1"
      using i c True s by (simp add: linux_os_get_uri_info_def)
    with get_ready [OF r, of L u s w1] r show ?thesis by (metis (full_types))
  qed
qed

lemma use_idle:
  assumes "idle g"
  shows "\<exists>e g' w'. use_uri L s g w = Some (e, g', w') \<and> (e = S_OK \<or> e = E_BAD_ARGS \<longrightarrow> idle g')"
proof -
  from get_idle [OF assms, of L zero_info s w] obtain e u g' w' where
    g: "linux_os_get_uri_info L zero_info s g w = Some (e, u, g', w')"
    "if e = S_OK then ready g' else e = E_BAD_ARGS \<longrightarrow> idle g'" by blast
  show ?thesis
  proof (cases "e = S_OK")
    case True
    with g(2) put_ready [of g' "free_strings u w'"] obtain g2 w2 where
      "put_uri_module g' (free_strings u w') = Some (g2, w2)" "idle g2" by auto
    with g True show ?thesis by (simp add: use_uri_def linux_os_free_uri_info_def)
  next
    case False
    with g show ?thesis by (simp add: use_uri_def)
  qed
qed

section \<open>Properties\<close>

text \<open>
  C25. A client that frees every structure before it asks for the next one, and stops when memory or the
  pattern fails, never makes the module use a pattern that is not compiled: all its uses return, and
  while none fails the module is at rest after them.  Nothing is assumed of the matcher.
\<close>

theorem uri_module_uses:
  assumes "idle g"
  shows "\<exists>e g' w'. use_uris L ss g w = Some (e, g', w') \<and> (e = S_OK \<longrightarrow> idle g')"
  using assms
proof (induction ss arbitrary: g w)
  case Nil
  then show ?case by simp
next
  case (Cons s ss)
  from use_idle [OF Cons.prems, of L s w] obtain e g' w' where
    u: "use_uri L s g w = Some (e, g', w')" "e = S_OK \<or> e = E_BAD_ARGS \<longrightarrow> idle g'" by blast
  show ?case
  proof (cases "e = S_OK \<or> e = E_BAD_ARGS")
    case True
    with u Cons.IH [of g' w'] show ?thesis by auto
  next
    case False
    with u show ?thesis by auto
  qed
qed
definition example_groups :: "string \<Rightarrow> (int \<times> int) list option" where
  "example_groups s = (if s = ''ws://h'' then Some [(0, 6), (0, 2), (5, 6), (-1, -1), (-1, -1), (6, 6)] else None)"

definition example_lib :: regex_lib where
  "example_lib = \<lparr>re_nsub = 5, re_exec = example_groups\<rparr>"

text \<open>Every allocation succeeds; the calls \<open>zs\<close> return 0.\<close>

definition module_world :: "nat list \<Rightarrow> world" where
  "module_world zs = \<lparr>result = (\<lambda>n. if n \<in> set zs then 0 else int n + 100), rdata = (\<lambda>_. []), out_int = (\<lambda>_. 0),
     module_addr = (\<lambda>_. 1), errno = 0, trace = []\<rparr>"

lemma uri_module_uses_witness:
  "\<exists>e g' w'. use_uris example_lib [''ws://h'', ''no uri'', ''ws://h''] g_uri (module_world [1]) = Some (e, g', w')"
  using uri_module_uses [OF idle_g_uri, of example_lib "[''ws://h'', ''no uri'', ''ws://h'']" "module_world [1]"] by blast

text \<open>
  C26. The counter does not count: with two structures out at the same time both frees succeed, and
  the next call, whatever its text, matches through \<^verbatim>\<open>NULL\<close>.
\<close>

theorem uri_module_overlap:
  assumes "idle g"
    and "linux_os_get_uri_info L u1 s1 g w = Some (S_OK, v1, g1, w1)"
    and "linux_os_get_uri_info L u2 s2 g1 w1 = Some (S_OK, v2, g2, w2)"
  shows "\<exists>g3 w3 g4 w4. linux_os_free_uri_info v1 g2 w2 = Some (S_OK, g3, w3) \<and>
    linux_os_free_uri_info v2 g3 w3 = Some (S_OK, g4, w4) \<and>
    linux_os_get_uri_info L u s g4 w4 = None"
proof -
  have r1: "ready g1" using get_idle [OF assms(1), of L u1 s1 w] assms(2) by auto
  then have g2: "g2 = g1" using get_ready [OF r1, of L u2 s2 w1] assms(3) by auto
  from put_ready [OF r1, of "free_strings v1 w2"] obtain g3 w3 where
    3: "put_uri_module g1 (free_strings v1 w2) = Some (g3, w3)" "idle g3" "preg g3 = 0" by blast
  let ?g = "g3\<lparr>count := -1\<rparr>" and ?w = "free_strings v2 w3"
  have 4: "put_uri_module g3 ?w = Some (?g, ?w)" using 3(2) by (simp add: put_uri_module_def idle_def)
  have "linux_os_get_uri_info L u s ?g ?w = None"
    using 3(2,3) by (simp add: linux_os_get_uri_info_def parse_uri_def idle_def)
  with 3(1) 4 g2 show ?thesis by (simp add: linux_os_free_uri_info_def)
qed

text \<open>
  A pattern that cannot be set up leaves the counter at 1 with a pointer to a freed block, or \<^verbatim>\<open>NULL\<close>:
  the next call matches through it.
\<close>

lemma uri_module_failed_init:
  assumes "idle g" and "preg g = 0" and "init_uri_module L g w = (e, g1, w1)" and "e \<noteq> S_OK"
    and "um_compiled g = {}"
  shows "\<exists>g' w'. linux_os_get_uri_info L u s g w = Some (e, u, g', w') \<and> linux_os_get_uri_info L u' s' g' w'' = None"
proof -
  have "count g1 = 0" "preg g1 \<notin> um_compiled g1"
    using assms by (auto simp: init_uri_module_def free_pattern_def idle_def Let_def split: prod.splits if_splits)
  with assms show ?thesis by (simp add: linux_os_get_uri_info_def parse_uri_def idle_def)
qed

lemma uri_module_overlap_witness:
  "\<exists>v1 g1 w1 v2 g2 w2 g3 w3 g4 w4.
    linux_os_get_uri_info example_lib zero_info ''ws://h'' g_uri (module_world [1]) = Some (S_OK, v1, g1, w1) \<and>
    linux_os_get_uri_info example_lib zero_info ''ws://h'' g1 w1 = Some (S_OK, v2, g2, w2) \<and>
    linux_os_free_uri_info v1 g2 w2 = Some (S_OK, g3, w3) \<and> linux_os_free_uri_info v2 g3 w3 = Some (S_OK, g4, w4) \<and>
    linux_os_get_uri_info example_lib zero_info ''ws://h'' g4 w4 = None"
proof -
  note evaluate = linux_os_get_uri_info_def init_uri_module_def parse_uri_def parse_match_def parse_port_def
    group_len_def group_text_def dup_string_def local_malloc_def sys_def ext_def call_def Let_def
    example_lib_def example_groups_def module_world_def NUMBER_NSUB_def
  define g1 where "g1 = \<lparr>preg = 100, nmatch = 6, count = 1, um_compiled = {100}\<rparr>"
  have a: "\<exists>v w. linux_os_get_uri_info example_lib zero_info ''ws://h'' g_uri (module_world [1]) = Some (S_OK, v, g1, w) \<and>
      result w = result (module_world [1]) \<and> 1 < length (trace w)"
    by (simp add: evaluate g_uri_def g1_def)
  then obtain v1 w1 where v1:
    "linux_os_get_uri_info example_lib zero_info ''ws://h'' g_uri (module_world [1]) = Some (S_OK, v1, g1, w1)"
    and w1: "result w1 = result (module_world [1])" "1 < length (trace w1)" by blast
  have "\<exists>v w. linux_os_get_uri_info example_lib zero_info ''ws://h'' g1 w1 = Some (S_OK, v, g1, w)"
    using w1 by (auto simp: evaluate g1_def)
  then obtain v2 w2 where v2: "linux_os_get_uri_info example_lib zero_info ''ws://h'' g1 w1 = Some (S_OK, v2, g1, w2)"
    by blast
  from uri_module_overlap [OF idle_g_uri v1 v2, of zero_info "''ws://h''"] v1 v2 show ?thesis by blast
qed

text \<open>A port of five digits does not fit the buffer, since the colon counts: the URI is refused.\<close>

lemma parse_port_five_digits: "6 \<le> group_len m 3 \<Longrightarrow> parse_port n s m = None"
  by (simp add: parse_port_def)

end
