(* ===== verification/Spec2Isabelle.thy ===== *)
theory Spec2Isabelle
  imports Prelude Artik_List Os_World Registry Module_Manager Gpio Pwm I2c Spi Serial Adc
    Coap_Queue Coap_Session Coap_References Coap_Uri Coap_Link
    Coap_Server Coap_Messages Coap_Runs Coap_Keys Coap_Options Loop_Vector Tizen_Loop Calendar Time
    Uri_Parser Uri_Module
begin

text \<open>
  A verification development for the ARTIK SDK, a C library that gives applications on ARTIK boards
  one interface to hardware and connectivity.

  \<^bold>\<open>The program.\<close>  A \<^emph>\<open>module\<close> is a table of functions in a shared object of its own.  The module
  manager (\<^verbatim>\<open>src/modules/base/module\<close>) finds out on which board it runs, loads a module on request
  and counts its users.  Most modules have two layers: \<^verbatim>\<open>artik_<m>.c\<close> keeps the global list of the
  handles it gave out (with the generic list of \<^verbatim>\<open>inc/base/artik_list.h\<close>), \<^verbatim>\<open>linux_<m>.c\<close> or
  \<^verbatim>\<open>tizenrt_<m>.c\<close> does the work by system calls or by a library.  The largest piece of logic of the
  SDK's own is the CoAP engine for TizenRT in \<^verbatim>\<open>src/modules/coap/tizenrt\<close>: sessions that are counted by
  reference, a queue of messages that wait for an acknowledgement, observers, and addresses of
  resources.

  \<^bold>\<open>The theories.\<close>
  \<^item> \<^theory_text>\<open>Prelude\<close>: error codes (\<^verbatim>\<open>artik_error.h\<close>), machine words, C strings, and interfaces about
    runs of operations: \<open>guarded_simulation\<close> (a run of the code against a run of its specification, where
    the specification permits it), its case \<open>simulation\<close> without conditions, and \<open>invariant_steps\<close>.
  \<^item> \<^theory_text>\<open>Artik_List\<close>: \<^verbatim>\<open>artik_list.h\<close> on a heap of nodes.  Every operation is the corresponding
    operation on an association list, for single calls and for runs; copies and their failures.
  \<^item> \<^theory_text>\<open>Os_World\<close>: system calls, answered by an oracle and recorded in a trace; open descriptors,
    memory blocks and module references are counted along the trace.
  \<^item> \<^theory_text>\<open>Registry\<close>: the list of requested devices that the six I/O modules share, and the interface
    \<open>device_registry\<close>: a key is busy from its request to its release, no two handles share one.
    Every I/O module interprets it.
  \<^item> \<^theory_text>\<open>Gpio\<close>, \<^theory_text>\<open>Pwm\<close>, \<^theory_text>\<open>I2c\<close>, \<^theory_text>\<open>Spi\<close>, \<^theory_text>\<open>Serial\<close>, \<^theory_text>\<open>Adc\<close>: both layers of \<^verbatim>\<open>src/modules/systemio\<close> for
    Linux.  What a request writes and leaves open, what each operation does to the hardware and to
    the descriptors on every path, and the paths that leak.
  \<^item> \<^theory_text>\<open>Module_Manager\<close>: \<^verbatim>\<open>linux_module.c\<close> and the module tables of the platforms, against an abstract
    list of modules in use.
  \<^item> \<^theory_text>\<open>Coap_Queue\<close>: the send queue of \<^verbatim>\<open>coap.c\<close>, whose nodes store differences of times, against a
    list of absolute times.
  \<^item> \<^theory_text>\<open>Coap_Session\<close>: definitions only: \<^verbatim>\<open>coap_session.c\<close>, the observers of \<^verbatim>\<open>coap_resource.c\<close>, sending
    and retransmission of \<^verbatim>\<open>coap.c\<close>, expiry in \<^verbatim>\<open>coap_socket.c\<close>.
  \<^item> \<^theory_text>\<open>Coap_References\<close>: the invariant of the reference counts (\<open>coap_inv\<close>), kept by each operation.
  \<^item> \<^theory_text>\<open>Coap_Server\<close>: received messages (\<open>coap_handle_message\<close>, \<open>artik_coap_dispatch\<close>), requests to resources,
    responses and notifications of observers.  Each keeps the invariant of the reference counts; the
    memory of the queries is tracked as well, which shows a second registration to be a double free.
  \<^item> \<^theory_text>\<open>Coap_Messages\<close>: what the engine hands to the sender, in order (\<open>messages\<close>): at most one answer to a
    request, and one message for every observer in a round of notifications.
  \<^item> \<^theory_text>\<open>Coap_Runs\<close>: runs of the engine from a fresh context (\<open>coap_reachable\<close>), with received messages and
    rounds of notifications among the steps; in runs of the steps that \<open>may_step\<close> allows the reference
    counts are right and no freed session is touched; the life of a confirmable message; the end of the loop that sends what is due; the
    limits of the scheme; the responses and notifications of a server.
  \<^item> \<^theory_text>\<open>Coap_Uri\<close>: splitting and printing of URIs, the hash of paths, registration and lookup of
    resources.
  \<^item> \<^theory_text>\<open>Coap_Link\<close>: attributes, queries and the printing of links of \<^verbatim>\<open>coap_resource.c\<close>, and the
    response to /.well-known/core of \<^verbatim>\<open>coap.c\<close>.  Every call prints a part of one text (\<open>wellknown_text\<close>),
    and a client that follows the blocks gets the whole text.
  \<^item> \<^theory_text>\<open>Coap_Keys\<close>: the DER parsers of \<^verbatim>\<open>tizenrt_coap.c\<close> for the keys of a secure session.
  \<^item> \<^theory_text>\<open>Coap_Options\<close>: the options of a message between an application and the message library.
  \<^item> \<^theory_text>\<open>Loop_Vector\<close>, \<^theory_text>\<open>Tizen_Loop\<close>: the event loop of \<^verbatim>\<open>tizenrt_loop.c\<close>.  Its growing vectors are lists and never
    leave their memory; timeouts, periodic timers, watches and idle functions are a registry, and
    adding and removing them neither leaks nor touches what was freed.
  \<^item> \<^theory_text>\<open>Calendar\<close>, \<^theory_text>\<open>Time\<close>: dates of the calendar (what the time module uses of the C library), and
    \<^verbatim>\<open>linux_time.c\<close> with \<^verbatim>\<open>artik_time.c\<close>: conversions to and from time stamps, comparison, the clock in a
    zone, alarms, and the time of a server.
  \<^item> \<^theory_text>\<open>Uri_Parser\<close>, \<^theory_text>\<open>Uri_Module\<close>: the parts of a URI (\<^verbatim>\<open>src/modules/base/utils\<close>).  The state machine for
    TizenRT equals a parser by recursive descent and reads printed URIs back; the module for Linux
    keeps one compiled pattern behind a counter, which is right for uses one after the other and wrong
    for uses that overlap.

  \<^bold>\<open>How the code is modelled.\<close>  A struct is a record, an enum a datatype, a bounded integer a word of
  its width; lists that the code links are lists, or heap cells where aliasing matters (the generic
  list) or a store where several holders share an object (sessions).  A function that can fail
  returns its error code as the code does; an \<^typ>\<open>'a option\<close> around it means that \<^term>\<open>None\<close> is
  an access through an invalid or freed pointer, which no theorem hides: the safety theorems say
  that it does not happen, or when it does.  Results of the kernel, of libraries and of \<^verbatim>\<open>malloc\<close>
  come from an oracle, a function of the number of calls made, so that a theorem covers all their
  answers, failures included; where a theorem needs documented behaviour of them, it is a named
  hypothesis (for instance \<open>modules_ok\<close>) with a witness.

  \<^bold>\<open>Bounds and fuel.\<close>  \<open>write_loop\<close> of \<^theory_text>\<open>Coap_Session\<close> takes fuel: the loop of \<^verbatim>\<open>coap_write\<close> has no bound
  in the code; \<open>coap_write_loop_terminates\<close> shows that the attempts left in the queue are enough, at
  most five for each message.  The walks of \<^theory_text>\<open>Artik_List\<close> are partial functions, and the theorems
  show that they end on every well-formed list.  Everything else is recursion on the data.

  \<^bold>\<open>Not modelled.\<close>  Bluetooth, Wi-Fi, Zigbee, MQTT, LWM2M, HTTP, websockets, media, security and cloud
  are wrappers: their state is that of a daemon or a library that is not in the repository.  Of
  the modules of the base, logging and the event loop of Linux (a wrapper of glib) are left out, as
  are the sensors, the network configuration, the TizenRT variants of the I/O modules and the C++
  bindings.  A GPIO watch that the loop still holds when its pin is released is not modelled, nor is
  the separate block of the descriptors of a PWM.  Of CoAP, the interface layer \<^verbatim>\<open>tizenrt_coap.c\<close>
  (but its key parsers and its options), the polling of sockets and the DTLS context are left out.
  The message library er-coap-13 is not in the repository: its parser, the length of a header and the
  text of a repeated option are the parameters \<open>coap_library\<close>.  A message in the send queue is a copy in
  the model, so that the life of the memory of a message is not modelled.
\<close>

end
